(* ===== verification/Prelude.thy ===== *)
theory Prelude
  imports Main "HOL-Library.Word" "HOL-Library.Monad_Syntax" "HOL-Library.Multiset"
begin

text \<open>
  Shared vocabulary of the development: pointers and sizes as 64-bit words, the kernel's
  error numbers, the kernel services the code calls but does not define (the pointer hash
  of linux/hash.h and the outcomes of kmalloc), and generic lemmas on keyed entry sets,
  lists and maps that several components use.

  Conventions.  A C function that touches memory becomes a HOL function that returns an
  option: None is a kernel crash (a BUG_ON that fires, an access through a pointer that is
  not valid), Some r is a normal return.  A returned int keeps its C value (0, 1, or a
  negative error number); a returned pointer that may be an ERR_PTR is a sum, Inl the error
  number and Inr the pointer.  A pointer argument through which the C code reads and writes
  one caller variable is a value that goes in and a new value that comes out.
\<close>

type_synonym ptr = "64 word"
type_synonym size_t = "64 word"

abbreviation NULL :: ptr where
  "NULL \<equiv> 0"

text \<open>Error numbers of the kernel headers that the sources return (negated).\<close>

definition EPERM :: int where "EPERM = 1"
definition ENOENT :: int where "ENOENT = 2"
definition ENOMEM :: int where "ENOMEM = 12"
definition EBUSY :: int where "EBUSY = 16"
definition EEXIST :: int where "EEXIST = 17"
definition EINVAL :: int where "EINVAL = 22"

lemmas errno_defs = EPERM_def ENOENT_def ENOMEM_def EBUSY_def EEXIST_def EINVAL_def

text \<open>
  Outcomes of the memory allocations a call is going to make, in order: None is a failed
  allocation, Some p the address of the new block.  An exhausted list means failure.
\<close>

type_synonym allocs = "ptr option list"

definition kmalloc :: "allocs \<Rightarrow> ptr option \<times> allocs" where
  "kmalloc as = (case as of [] \<Rightarrow> (None, []) | a # as' \<Rightarrow> (a, as'))"

text \<open>
  The hash function of linux/hash.h is not part of the sources.  What they rely on is its
  documented contract, that for a number of bits from 1 to that of a long the result fits in
  these bits; the type below holds exactly the functions that satisfy it, and every operation
  takes one as argument.
\<close>

typedef hash_fn =
  "{f :: ptr \<Rightarrow> nat \<Rightarrow> nat. \<forall>k b. 0 < b \<longrightarrow> b \<le> 64 \<longrightarrow> f k b < 2 ^ b}"
  morphisms hash_ptr Abs_hash_fn
  by (rule exI [of _ "\<lambda>k b. 0"]) simp

setup_lifting type_definition_hash_fn

lift_definition low_bits_hash :: hash_fn is "\<lambda>k b. unat k mod 2 ^ b"
  by simp

lemma hash_ptr_less [simp, intro]: "0 < b \<Longrightarrow> b \<le> 64 \<Longrightarrow> hash_ptr hp k b < 2 ^ b"
  using hash_ptr [of hp] by simp

named_theorems table_simps \<open>laws of the element tables\<close>
named_theorems model_defs \<open>definitions of small accessors\<close>

subsection \<open>Entry sets with unique keys\<close>

definition unique_keys :: "('e \<times> 'k) set \<Rightarrow> bool" where
  "unique_keys E \<longleftrightarrow> (\<forall>e e' k. (e, k) \<in> E \<longrightarrow> (e', k) \<in> E \<longrightarrow> e = e')"

lemma unique_keysD: "unique_keys E \<Longrightarrow> (e, k) \<in> E \<Longrightarrow> (e', k) \<in> E \<Longrightarrow> e = e'"
  by (auto simp: unique_keys_def)

lemma unique_keys_empty [simp]: "unique_keys {}"
  by (simp add: unique_keys_def)

lemma unique_keys_subset: "unique_keys E \<Longrightarrow> F \<subseteq> E \<Longrightarrow> unique_keys F"
  by (auto simp: unique_keys_def)

lemma unique_keys_insert:
  "unique_keys (insert (e, k) E) \<longleftrightarrow> unique_keys E \<and> (\<forall>e'. (e', k) \<in> E \<longrightarrow> e' = e)"
  by (auto simp: unique_keys_def)

subsection \<open>Lists and maps\<close>

lemma in_concat_nth: "x \<in> set (concat xss) \<longleftrightarrow> (\<exists>i < length xss. x \<in> set (xss ! i))"
  by (auto simp: in_set_conv_nth) (metis in_set_conv_nth)+

lemma concat_list_update:
  assumes "i < length xss"
  shows "mset (concat (xss[i := x # xss ! i])) = add_mset x (mset (concat xss))"
  using assms
proof (induction xss arbitrary: i)
  case (Cons xs xss)
  then show ?case by (cases i) auto
qed simp

lemma filter_map_fst_remove:
  "distinct (map fst xs) \<Longrightarrow> (e, k) \<in> set xs \<Longrightarrow>
   Suc (length (filter (\<lambda>x. fst x \<noteq> e) xs)) = length xs"
proof (induction xs)
  case (Cons x xs)
  show ?case
  proof (cases "fst x = e")
    case True
    with Cons.prems have "e \<notin> fst ` set xs" by auto
    then have "\<forall>y \<in> set xs. fst y \<noteq> e" by blast
    with True show ?thesis by (simp add: filter_id_conv)
  next
    case False
    with Cons show ?thesis by auto
  qed
qed simp

lemma filter_concat_single:
  assumes "i < length xss" and "\<And>j. j < length xss \<Longrightarrow> j \<noteq> i \<Longrightarrow> filter P (xss ! j) = []"
  shows "filter P (concat xss) = filter P (xss ! i)"
  using assms
proof (induction xss arbitrary: i)
  case (Cons xs xss)
  show ?case
  proof (cases i)
    case 0
    have "filter P (xss ! j) = []" if "j < length xss" for j
      using Cons.prems(2) [of "Suc j"] that 0 by simp
    then have "filter P (concat xss) = []"
      by (auto simp: filter_empty_conv) (metis in_set_conv_nth)
    with 0 show ?thesis by simp
  next
    case (Suc n)
    have "filter P xs = []" using Cons.prems(2) [of 0] Suc by simp
    moreover have "filter P (concat xss) = filter P (xss ! n)"
    proof (rule Cons.IH)
      show "n < length xss" using Cons.prems(1) Suc by simp
    next
      fix j assume "j < length xss" "j \<noteq> n"
      then show "filter P (xss ! j) = []" using Cons.prems(2) [of "Suc j"] Suc by simp
    qed
    ultimately show ?thesis using Suc by simp
  qed
qed simp

lemma find_conv_filter:
  "find P xs = (case filter P xs of [] \<Rightarrow> None | x # _ \<Rightarrow> Some x)"
  by (induction xs) auto

subsection \<open>Folding a step that may crash\<close>

fun fold_opt :: "('a \<Rightarrow> 's \<Rightarrow> 's option) \<Rightarrow> 'a list \<Rightarrow> 's \<Rightarrow> 's option" where
  "fold_opt f [] s = Some s"
| "fold_opt f (x # xs) s = do { s \<leftarrow> f x s; fold_opt f xs s }"

lemma fold_opt_append: "fold_opt f (xs @ ys) s = fold_opt f xs s \<bind> fold_opt f ys"
  by (induction xs arbitrary: s) (auto split: Option.bind_splits)

text \<open>
  A loop whose invariant speaks about the elements still to come: every step keeps it, no
  step crashes, so the loop ends normally with the invariant for the empty rest.
\<close>

lemma fold_opt_rule:
  assumes "I xs s"
    and "\<And>y ys s. I (y # ys) s \<Longrightarrow> \<exists>s'. f y s = Some s' \<and> I ys s'"
  shows "\<exists>s'. fold_opt f xs s = Some s' \<and> I [] s'"
  using assms(1)
proof (induction xs arbitrary: s)
  case (Cons x xs)
  from assms(2) [OF Cons.prems] obtain s' where "f x s = Some s'" "I xs s'" by blast
  with Cons.IH [of s'] show ?case by simp
qed simp

lemma option_eqI: "(\<And>d. a = Some d \<longleftrightarrow> b = Some d) \<Longrightarrow> a = b"
  by (cases a; cases b) (auto dest: sym)

lemma bind_Some_iff [simp]: "(m \<bind> f = Some r) \<longleftrightarrow> (\<exists>x. m = Some x \<and> f x = Some r)"
  by (cases m) auto

end
