(* ===== verification/Elem_Table.thy ===== *)
theory Elem_Table
  imports Prelude
begin

text \<open>
  The interface between the instrumentors and the hash table: what the clients rely on when
  they add, remove and look up elements.  A table is seen as the set of its entries, pairs of
  an element and its key; the laws say which entries an operation leaves and what a lookup
  returns.  The consequences that the client proofs use are proved once, here.
\<close>

locale elem_table =
  fixes inv :: "'t \<Rightarrow> bool"
    and ents :: "'t \<Rightarrow> ('e \<times> ptr) set"
    and lookup :: "'t \<Rightarrow> ptr \<Rightarrow> 'e option"
    and add :: "'t \<Rightarrow> 'e \<Rightarrow> ptr \<Rightarrow> 't"
    and del :: "'t \<Rightarrow> 'e \<Rightarrow> 't option"
  assumes finite_ents: "finite (ents t)"
    and elem_once: "inv t \<Longrightarrow> (e, k) \<in> ents t \<Longrightarrow> (e, k') \<in> ents t \<Longrightarrow> k = k'"
    and lookup_Some: "inv t \<Longrightarrow> lookup t k = Some e \<Longrightarrow> (e, k) \<in> ents t"
    and lookup_None: "inv t \<Longrightarrow> lookup t k = None \<Longrightarrow> (e, k) \<notin> ents t"
    and inv_add: "inv t \<Longrightarrow> e \<notin> fst ` ents t \<Longrightarrow> inv (add t e k)"
    and ents_add: "inv t \<Longrightarrow> ents (add t e k) = insert (e, k) (ents t)"
    and lookup_add: "inv t \<Longrightarrow> lookup (add t e k) k' = (if k' = k then Some e else lookup t k')"
    and del_None: "del t e = None \<longleftrightarrow> e \<notin> fst ` ents t"
    and inv_del: "inv t \<Longrightarrow> del t e = Some t' \<Longrightarrow> inv t'"
    and ents_del: "del t e = Some t' \<Longrightarrow> ents t' = {x \<in> ents t. fst x \<noteq> e}"
begin

lemma del_exists: "(e, k) \<in> ents t \<Longrightarrow> \<exists>t'. del t e = Some t'"
  using del_None [of t e] by (cases "del t e") force+

lemma lookup_iff:
  assumes "inv t" and "unique_keys (ents t)"
  shows "lookup t k = Some e \<longleftrightarrow> (e, k) \<in> ents t"
proof
  assume "(e, k) \<in> ents t"
  with lookup_None [OF assms(1), of k e] obtain e' where e': "lookup t k = Some e'"
    by (cases "lookup t k") auto
  from lookup_Some [OF assms(1) this] \<open>(e, k) \<in> ents t\<close> have "e' = e"
    by (metis assms(2) unique_keysD)
  with e' show "lookup t k = Some e" by simp
qed (rule lookup_Some [OF assms(1)])

lemma lookup_None_iff:
  assumes "inv t"
  shows "lookup t k = None \<longleftrightarrow> k \<notin> snd ` ents t"
proof (cases "lookup t k")
  case None
  with lookup_None [OF assms] show ?thesis by auto
next
  case (Some e)
  from lookup_Some [OF assms this] have "k \<in> snd ` ents t" by (metis imageI snd_conv)
  with Some show ?thesis by simp
qed

lemma unique_add:
  assumes "inv t" and "unique_keys (ents t)" and "lookup t k = None"
  shows "unique_keys (ents (add t e k))"
  using assms by (auto simp: ents_add unique_keys_insert dest: lookup_None)

lemma unique_del: "del t e = Some t' \<Longrightarrow> unique_keys (ents t) \<Longrightarrow> unique_keys (ents t')"
  by (auto simp: ents_del intro: unique_keys_subset)

lemma lookup_del:
  assumes "inv t" and "unique_keys (ents t)" and "del t e = Some t'" and "(e, k) \<in> ents t"
  shows "lookup t' k' = (if k' = k then None else lookup t k')"
proof -
  have t': "inv t'" "unique_keys (ents t')" "ents t' = {x \<in> ents t. fst x \<noteq> e}"
    using assms by (auto intro: inv_del unique_del dest: ents_del)
  have "(d, k') \<in> ents t \<and> d \<noteq> e \<longleftrightarrow> k' \<noteq> k \<and> (d, k') \<in> ents t" for d
    using elem_once [OF assms(1) assms(4), of k'] unique_keysD [OF assms(2) assms(4), of d] by blast
  then have "lookup t' k' = Some d \<longleftrightarrow> k' \<noteq> k \<and> lookup t k' = Some d" for d
    using t' by (simp add: lookup_iff assms(1,2))
  then show ?thesis by (intro option_eqI) simp
qed

lemma del_add:
  assumes "inv t" and "e \<notin> fst ` ents t"
  shows "\<exists>t'. del (add t e k) e = Some t' \<and> inv t' \<and> ents t' = ents t"
proof -
  have i: "inv (add t e k)" using assms by (rule inv_add)
  have "(e, k) \<in> ents (add t e k)" using assms(1) by (simp add: ents_add)
  from del_exists [OF this] obtain t' where d: "del (add t e k) e = Some t'" by blast
  from ents_del [OF d] have "ents t' = ents t" using assms by (force simp: ents_add)
  with d inv_del [OF i d] show ?thesis by blast
qed

lemmas ents_laws = ents_add ents_del finite_ents

end

end
