(* ===== verification/Hash_Table.thy ===== *)
theory Hash_Table
  imports Elem_Table
begin

text \<open>
  Model of src/sources/core/kedr_coi_hash_table.c and its header: a chained hash table of
  caller-owned elements keyed by pointers.

  A table element is modelled by its identity (what container_of recovers from its address)
  paired with its key; a bucket (hlist) is the list of its elements, first one first; the
  table is the array of buckets with the fields bits and n_elems of the C structure.
  Unlinking an element that is in no bucket is an access through a NULL pprev and therefore
  a crash.  The resizing routines are modelled although is_need_expand and is_need_narrow
  never ask for them.

  The locale elem_table is the interface the instrumentors use; kedr_table is its
  interpretation by the operations of this file.
\<close>

type_synonym 'e hash_elem = "'e \<times> ptr"
type_synonym 'e hlist = "'e hash_elem list"

record 'e hash_table =
  heads :: "'e hlist list"
  bits :: "32 word"
  n_elems :: size_t

definition BITS_DEFAULT :: "32 word" where "BITS_DEFAULT = 4"
definition BITS_MIN :: "32 word" where "BITS_MIN = 1"

definition hash_function :: "hash_fn \<Rightarrow> ptr \<Rightarrow> 32 word \<Rightarrow> nat" where
  "hash_function hp key b = hash_ptr hp key (unat b)"

text \<open>
  The number of buckets, 1 << bits, is computed on a 32-bit int: it is a power of two for at most
  30 bits, negative for 31 (the loops over the buckets do not run then), and for 32 and more the
  shift is undefined in C.  The table invariant keeps bits between 1 and 30.
\<close>

definition table_size :: "32 word \<Rightarrow> nat" where
  "table_size b = nat (sint (push_bit (unat b) 1 :: 32 word))"

definition init_hlist_heads :: "32 word \<Rightarrow> 'e hlist list" where
  "init_hlist_heads b = replicate (table_size b) []"

definition hlist_add_head :: "'e hash_elem \<Rightarrow> nat \<Rightarrow> 'e hlist list \<Rightarrow> 'e hlist list" where
  "hlist_add_head x i hs = hs[i := x # hs ! i]"

definition hlist_del :: "'e \<Rightarrow> 'e hlist list \<Rightarrow> 'e hlist list option" where
  "hlist_del e hs =
     (if \<exists>x \<in> set (concat hs). fst x = e
      then Some (map (filter (\<lambda>x. fst x \<noteq> e)) hs) else None)"

fun hash_table_fill_bucket ::
  "hash_fn \<Rightarrow> 32 word \<Rightarrow> 'e hlist list \<Rightarrow> 'e hlist \<Rightarrow> 'e hlist list" where
  "hash_table_fill_bucket hp b new [] = new"
| "hash_table_fill_bucket hp b new (x # xs) =
     hash_table_fill_bucket hp b (hlist_add_head x (hash_function hp (snd x) b) new) xs"

fun hash_table_fill_from ::
  "hash_fn \<Rightarrow> 'e hlist list \<Rightarrow> 32 word \<Rightarrow> 'e hlist list \<Rightarrow> 'e hlist list" where
  "hash_table_fill_from hp new b [] = new"
| "hash_table_fill_from hp new b (old # olds) =
     hash_table_fill_from hp (hash_table_fill_bucket hp b new old) b olds"

definition kedr_coi_hash_table_init :: "allocs \<Rightarrow> (int + 'e hash_table) \<times> allocs" where
  "kedr_coi_hash_table_init as =
     (case kmalloc as of
        (None, as) \<Rightarrow> (Inl (- ENOMEM), as)
      | (Some _, as) \<Rightarrow>
          (Inr \<lparr>heads = init_hlist_heads BITS_DEFAULT, bits = BITS_DEFAULT, n_elems = 0\<rparr>, as))"

definition is_need_expand :: "'e hash_table \<Rightarrow> bool" where
  "is_need_expand t = False"

definition is_need_narrow :: "'e hash_table \<Rightarrow> bool" where
  "is_need_narrow t = False"

definition kedr_coi_hash_table_realloc_slowpath ::
  "hash_fn \<Rightarrow> 'e hash_table \<Rightarrow> 32 word \<Rightarrow> allocs \<Rightarrow> int \<times> 'e hash_table \<times> allocs" where
  "kedr_coi_hash_table_realloc_slowpath hp t bits_new as =
     (case kmalloc as of
        (None, as) \<Rightarrow> (- ENOMEM, t, as)
      | (Some _, as) \<Rightarrow>
          (let heads_min = hash_table_fill_from hp (init_hlist_heads BITS_MIN) BITS_MIN (heads t)
           in case kmalloc as of
                (None, as) \<Rightarrow> (- ENOMEM, t\<lparr>heads := heads_min, bits := BITS_MIN\<rparr>, as)
              | (Some _, as) \<Rightarrow>
                  (0, t\<lparr>heads := hash_table_fill_from hp (init_hlist_heads bits_new)
                                   bits_new heads_min,
                        bits := bits_new\<rparr>, as)))"

definition kedr_coi_hash_table_realloc ::
  "hash_fn \<Rightarrow> 'e hash_table \<Rightarrow> 32 word \<Rightarrow> allocs \<Rightarrow> int \<times> 'e hash_table \<times> allocs" where
  "kedr_coi_hash_table_realloc hp t bits_new as =
     (case kmalloc as of
        (None, as) \<Rightarrow>
          (if bits t > bits_new \<and> bits_new \<noteq> BITS_MIN
           then kedr_coi_hash_table_realloc_slowpath hp t bits_new as
           else (- ENOMEM, t, as))
      | (Some _, as) \<Rightarrow>
          (0, t\<lparr>heads := hash_table_fill_from hp (init_hlist_heads bits_new) bits_new (heads t),
                bits := bits_new\<rparr>, as))"

definition kedr_coi_hash_table_add_elem ::
  "hash_fn \<Rightarrow> 'e hash_table \<Rightarrow> 'e \<Rightarrow> ptr \<Rightarrow> allocs \<Rightarrow> int \<times> 'e hash_table \<times> allocs" where
  "kedr_coi_hash_table_add_elem hp t e key as =
     (let (t, as) = (if is_need_expand t
                     then snd (kedr_coi_hash_table_realloc hp t (bits t + 1) as) else (t, as))
      in (0, t\<lparr>heads := hlist_add_head (e, key) (hash_function hp key (bits t)) (heads t),
               n_elems := n_elems t + 1\<rparr>, as))"

definition kedr_coi_hash_table_find_elem ::
  "hash_fn \<Rightarrow> 'e hash_table \<Rightarrow> ptr \<Rightarrow> 'e option" where
  "kedr_coi_hash_table_find_elem hp t key =
     map_option fst (find (\<lambda>x. snd x = key) (heads t ! hash_function hp key (bits t)))"

definition kedr_coi_hash_table_remove_elem ::
  "hash_fn \<Rightarrow> 'e hash_table \<Rightarrow> 'e \<Rightarrow> allocs \<Rightarrow> ('e hash_table \<times> allocs) option" where
  "kedr_coi_hash_table_remove_elem hp t e as =
     do { hs \<leftarrow> hlist_del e (heads t);
          let t = t\<lparr>heads := hs, n_elems := n_elems t - 1\<rparr>;
          Some (if is_need_narrow t
                then snd (kedr_coi_hash_table_realloc hp t (bits t - 1) as) else (t, as)) }"

text \<open>
  Destruction hands every element to the callback free_elem, bucket by bucket; the state
  the callback works on is threaded through.  Without a callback the elements of a
  non-empty table are only warned about.
\<close>

fun free_heads ::
  "('e hash_elem \<Rightarrow> 's \<Rightarrow> 's option) \<Rightarrow> 'e hlist list \<Rightarrow> 's \<Rightarrow> 's option" where
  "free_heads f [] s = Some s"
| "free_heads f ([] # hs) s = free_heads f hs s"
| "free_heads f ((x # xs) # hs) s = do { s \<leftarrow> f x s; free_heads f (xs # hs) s }"

definition kedr_coi_hash_table_destroy ::
  "'e hash_table \<Rightarrow> ('e hash_elem \<Rightarrow> 's \<Rightarrow> 's option) option \<Rightarrow> 's \<Rightarrow> 's option" where
  "kedr_coi_hash_table_destroy t free_elem s =
     (case dropWhile (\<lambda>h. h = []) (heads t) of
        [] \<Rightarrow> Some s
      | hs \<Rightarrow> (case free_elem of None \<Rightarrow> Some s | Some f \<Rightarrow> free_heads f hs s))"

definition kedr_coi_hash_table_transmit_elem ::
  "'e hash_table \<Rightarrow> 'e \<Rightarrow> 'e \<Rightarrow> 'e hash_table option" where
  "kedr_coi_hash_table_transmit_elem t e e_new =
     (if \<exists>x \<in> set (concat (heads t)). fst x = e
      then Some (t\<lparr>heads := map (map (\<lambda>x. if fst x = e then (e_new, snd x) else x)) (heads t)\<rparr>)
      else None)"

subsection \<open>The table invariant\<close>

definition table_elems :: "'e hash_table \<Rightarrow> 'e hash_elem list" where
  "table_elems t = concat (heads t)"

abbreviation entries :: "'e hash_table \<Rightarrow> 'e hash_elem set" where
  "entries t \<equiv> set (table_elems t)"

definition bits_ok :: "32 word \<Rightarrow> bool" where
  "bits_ok b \<longleftrightarrow> 0 < b \<and> b < 31"

lemma bits_ok_le: "0 < b \<Longrightarrow> b \<le> 30 \<Longrightarrow> bits_ok b"
  by (simp add: bits_ok_def word_less_nat_alt word_le_nat_alt)

definition heads_ok :: "hash_fn \<Rightarrow> 32 word \<Rightarrow> 'e hlist list \<Rightarrow> bool" where
  "heads_ok hp b hs \<longleftrightarrow>
     bits_ok b \<and> length hs = table_size b \<and>
     (\<forall>i < length hs. \<forall>x \<in> set (hs ! i). hash_function hp (snd x) b = i)"

definition table_inv :: "hash_fn \<Rightarrow> 'e hash_table \<Rightarrow> bool" where
  "table_inv hp t \<longleftrightarrow>
     heads_ok hp (bits t) (heads t) \<and> distinct (map fst (table_elems t)) \<and>
     n_elems t = of_nat (length (table_elems t))"

text \<open>The abstract view: for every key, its elements, the most recently added one first.\<close>

definition key_stack :: "'e hash_table \<Rightarrow> ptr \<Rightarrow> 'e list" where
  "key_stack t k = map fst (filter (\<lambda>x. snd x = k) (table_elems t))"


subsection \<open>Buckets\<close>

lemma table_size_eq:
  assumes "bits_ok b"
  shows "table_size b = 2 ^ unat b"
proof -
  have b: "unat b \<le> 30" using assms by (simp add: bits_ok_def word_less_nat_alt)
  have "(2::nat) ^ unat b \<le> 2 ^ 30" using b by (rule power_increasing) simp
  then have n: "(2::int) ^ unat b \<le> 2 ^ 30" by (metis of_nat_le_iff of_nat_numeral of_nat_power)
  have "sint (push_bit (unat b) 1 :: 32 word) = signed_take_bit 31 (2 ^ unat b)"
    using sint_sbintrunc' [where 'a = 32, of "2 ^ unat b"] by (simp add: push_bit_eq_mult)
  also have "\<dots> = 2 ^ unat b"
  proof (rule signed_take_bit_int_eq_self)
    show "- (2 ^ 31) \<le> (2::int) ^ unat b" by (rule order_trans [of _ 0]) simp_all
  qed (use n in simp)
  finally show ?thesis by (simp add: table_size_def nat_power_eq)
qed

lemma table_size_4 [simp]: "table_size 4 = 16"
  by (simp add: table_size_eq bits_ok_def)

lemma bits_ok_consts [simp]: "bits_ok BITS_DEFAULT" "bits_ok BITS_MIN"
  by (simp_all add: bits_ok_def BITS_DEFAULT_def BITS_MIN_def)

lemma hash_function_less: "bits_ok b \<Longrightarrow> hash_function hp k b < table_size b"
  by (simp add: table_size_eq hash_function_def bits_ok_def word_less_nat_alt unat_gt_0)

lemma heads_ok_init [simp]: "bits_ok b \<Longrightarrow> heads_ok hp b (init_hlist_heads b)"
  by (simp add: heads_ok_def init_hlist_heads_def)

lemma concat_init [simp]: "concat (init_hlist_heads b) = []"
  by (simp add: init_hlist_heads_def)

lemma heads_ok_length: "heads_ok hp b hs \<Longrightarrow> hash_function hp k b < length hs"
  by (simp add: heads_ok_def hash_function_less)

lemma heads_ok_add:
  "heads_ok hp b hs \<Longrightarrow> heads_ok hp b (hlist_add_head x (hash_function hp (snd x) b) hs)"
  by (auto simp: heads_ok_def hlist_add_head_def nth_list_update hash_function_less)

lemma mset_add_head:
  "i < length hs \<Longrightarrow> mset (concat (hlist_add_head x i hs)) = add_mset x (mset (concat hs))"
  unfolding hlist_add_head_def by (rule concat_list_update)

lemma filter_bucket:
  assumes "heads_ok hp b hs"
  shows "filter (\<lambda>x. snd x = k) (concat hs) =
         filter (\<lambda>x. snd x = k) (hs ! hash_function hp k b)"
proof (rule filter_concat_single)
  show "hash_function hp k b < length hs" using assms by (rule heads_ok_length)
next
  fix j assume "j < length hs" "j \<noteq> hash_function hp k b"
  with assms show "filter (\<lambda>x. snd x = k) (hs ! j) = []"
    by (auto simp: heads_ok_def filter_empty_conv)
qed

lemma find_key_stack:
  assumes "heads_ok hp (bits t) (heads t)"
  shows "kedr_coi_hash_table_find_elem hp t k =
         (case key_stack t k of [] \<Rightarrow> None | e # _ \<Rightarrow> Some e)"
  unfolding kedr_coi_hash_table_find_elem_def key_stack_def table_elems_def
    filter_bucket [OF assms] find_conv_filter
  by (auto split: list.splits)

lemma key_stack_iff: "e \<in> set (key_stack t k) \<longleftrightarrow> (e, k) \<in> entries t"
  by (force simp: key_stack_def)

subsection \<open>Adding an element\<close>

definition table_add :: "hash_fn \<Rightarrow> 'e hash_table \<Rightarrow> 'e \<Rightarrow> ptr \<Rightarrow> 'e hash_table" where
  "table_add hp t e k =
     t\<lparr>heads := hlist_add_head (e, k) (hash_function hp k (bits t)) (heads t),
       n_elems := n_elems t + 1\<rparr>"

lemma add_elem_eq [simp]:
  "kedr_coi_hash_table_add_elem hp t e k as = (0, table_add hp t e k, as)"
  by (simp add: kedr_coi_hash_table_add_elem_def is_need_expand_def table_add_def)

lemma mset_elems_add:
  "heads_ok hp (bits t) (heads t) \<Longrightarrow>
   mset (table_elems (table_add hp t e k)) = add_mset (e, k) (mset (table_elems t))"
  by (simp add: table_elems_def table_add_def mset_add_head heads_ok_length)

lemma entries_add:
  assumes "heads_ok hp (bits t) (heads t)"
  shows "entries (table_add hp t e k) = insert (e, k) (entries t)"
  using mset_elems_add [OF assms, of e k] by (metis set_mset_add_mset_insert set_mset_mset)

lemma distinct_map_mset:
  "mset xs = add_mset (e, k) (mset ys) \<Longrightarrow>
   distinct (map fst xs) \<longleftrightarrow> e \<notin> fst ` set ys \<and> distinct (map fst ys)"
  by (metis (no_types, lifting) distinct.simps(2) fst_conv list.simps(9) list.set_map
      mset.simps(2) mset_eq_imp_distinct_iff mset_map)

lemma table_inv_heads: "table_inv hp t \<Longrightarrow> heads_ok hp (bits t) (heads t)"
  by (simp add: table_inv_def)

lemma table_inv_add:
  assumes "table_inv hp t" and "e \<notin> fst ` entries t"
  shows "table_inv hp (table_add hp t e k)"
proof -
  have h: "heads_ok hp (bits t) (heads t)" using assms(1) by (rule table_inv_heads)
  note m = mset_elems_add [OF h, of e k]
  have "distinct (map fst (table_elems (table_add hp t e k)))"
    using assms distinct_map_mset [OF m] by (simp add: table_inv_def)
  moreover have "length (table_elems (table_add hp t e k)) = Suc (length (table_elems t))"
    using arg_cong [OF m, of size] by simp
  moreover have "heads_ok hp (bits t) (heads (table_add hp t e k))"
    using heads_ok_add [OF h, of "(e, k)"] by (simp add: table_add_def)
  ultimately show ?thesis
    using assms(1) by (simp add: table_inv_def table_add_def)
qed

lemma key_stack_add:
  assumes "heads_ok hp (bits t) (heads t)"
  shows "key_stack (table_add hp t e k) k' = (if k' = k then e # key_stack t k' else key_stack t k')"
proof -
  let ?hs = "hlist_add_head (e, k) (hash_function hp k (bits t)) (heads t)"
  have h: "heads_ok hp (bits t) ?hs" using heads_ok_add [OF assms, of "(e, k)"] by simp
  have "key_stack (table_add hp t e k) k' =
        map fst (filter (\<lambda>x. snd x = k') (?hs ! hash_function hp k' (bits t)))"
    by (simp add: key_stack_def table_elems_def table_add_def filter_bucket [OF h])
  also have "\<dots> = (if k' = k then e # key_stack t k' else key_stack t k')"
    using heads_ok_length [OF assms, of k]
    by (auto simp: key_stack_def table_elems_def filter_bucket [OF assms] hlist_add_head_def
        nth_list_update)
  finally show ?thesis .
qed

subsection \<open>Removing an element\<close>

definition table_del :: "'e hash_table \<Rightarrow> 'e \<Rightarrow> 'e hash_table option" where
  "table_del t e =
     (if e \<in> fst ` entries t
      then Some (t\<lparr>heads := map (filter (\<lambda>x. fst x \<noteq> e)) (heads t), n_elems := n_elems t - 1\<rparr>)
      else None)"

lemma remove_elem_eq [simp]:
  "kedr_coi_hash_table_remove_elem hp t e as = map_option (\<lambda>t. (t, as)) (table_del t e)"
  by (force simp: kedr_coi_hash_table_remove_elem_def hlist_del_def table_del_def
      table_elems_def is_need_narrow_def)

lemma table_del_None: "table_del t e = None \<longleftrightarrow> e \<notin> fst ` entries t"
  by (simp add: table_del_def)

lemma elems_del:
  "table_del t e = Some t' \<Longrightarrow> table_elems t' = filter (\<lambda>x. fst x \<noteq> e) (table_elems t)"
  by (auto simp: table_del_def table_elems_def filter_concat split: if_splits)

lemma table_inv_del:
  assumes "table_inv hp t" and d: "table_del t e = Some t'"
  shows "table_inv hp t'"
proof -
  have e: "e \<in> fst ` entries t"
    and t': "t' = t\<lparr>heads := map (filter (\<lambda>x. fst x \<noteq> e)) (heads t), n_elems := n_elems t - 1\<rparr>"
    using d by (auto simp: table_del_def split: if_splits)
  have dis: "distinct (map fst (table_elems t))" and n: "n_elems t = of_nat (length (table_elems t))"
    and h: "heads_ok hp (bits t) (heads t)"
    using assms(1) by (auto simp: table_inv_def)
  have el: "table_elems t' = filter (\<lambda>x. fst x \<noteq> e) (table_elems t)" by (rule elems_del [OF d])
  obtain k where "(e, k) \<in> entries t" using e by force
  from filter_map_fst_remove [OF dis this]
  have "length (table_elems t) = Suc (length (table_elems t'))" by (simp add: el)
  moreover have "heads_ok hp (bits t') (heads t')" using h by (auto simp: heads_ok_def t')
  moreover have "distinct (map fst (table_elems t'))" using dis by (simp add: el distinct_map_filter)
  moreover have "n_elems t' = n_elems t - 1" by (simp add: t')
  ultimately show ?thesis using n by (simp add: table_inv_def)
qed

lemma key_stack_del:
  "table_del t e = Some t' \<Longrightarrow> key_stack t' k = filter (\<lambda>x. x \<noteq> e) (key_stack t k)"
  by (simp add: key_stack_def elems_del filter_map comp_def conj_commute)

subsection \<open>Resizing\<close>

lemma fill_bucket_ok:
  "heads_ok hp b new \<Longrightarrow> heads_ok hp b (hash_table_fill_bucket hp b new xs) \<and>
   mset (concat (hash_table_fill_bucket hp b new xs)) = mset (concat new) + mset xs"
proof (induction xs arbitrary: new)
  case (Cons x xs)
  let ?new = "hlist_add_head x (hash_function hp (snd x) b) new"
  have "heads_ok hp b ?new" by (rule heads_ok_add [OF Cons.prems])
  with Cons.IH [of ?new] show ?case
    by (simp add: mset_add_head [OF heads_ok_length [OF Cons.prems]])
qed simp

lemma fill_from_ok:
  "heads_ok hp b new \<Longrightarrow> heads_ok hp b (hash_table_fill_from hp new b olds) \<and>
   mset (concat (hash_table_fill_from hp new b olds)) = mset (concat new) + mset (concat olds)"
  by (induction olds arbitrary: new) (simp_all add: fill_bucket_ok)

lemma fill_init_ok:
  assumes "bits_ok b"
  shows "heads_ok hp b (hash_table_fill_from hp (init_hlist_heads b) b olds)"
    and "mset (concat (hash_table_fill_from hp (init_hlist_heads b) b olds)) = mset (concat olds)"
  using fill_from_ok [OF heads_ok_init [OF assms], of hp olds] by simp_all

lemma table_inv_replace_heads:
  assumes "table_inv hp t" and "heads_ok hp b hs" and m: "mset (concat hs) = mset (concat (heads t))"
  shows "table_inv hp (t\<lparr>heads := hs, bits := b\<rparr>)"
    and "mset (table_elems (t\<lparr>heads := hs, bits := b\<rparr>)) = mset (table_elems t)"
proof -
  have "distinct (map fst (concat hs)) = distinct (map fst (concat (heads t)))"
    using m by (metis mset_eq_imp_distinct_iff mset_map)
  moreover have "length (concat hs) = length (concat (heads t))"
    using m by (metis size_mset)
  ultimately show "table_inv hp (t\<lparr>heads := hs, bits := b\<rparr>)"
    using assms(1,2) by (simp add: table_inv_def table_elems_def del: length_concat)
qed (simp add: table_elems_def m)

lemma realloc_slowpath_ok:
  assumes "table_inv hp t" and "kedr_coi_hash_table_realloc_slowpath hp t b as = (r, t', as')"
    and b: "bits_ok b"
  shows "table_inv hp t' \<and> mset (table_elems t') = mset (table_elems t)"
proof -
  let ?min = "hash_table_fill_from hp (init_hlist_heads BITS_MIN) BITS_MIN (heads t)"
  have "table_inv hp (t\<lparr>heads := ?min, bits := BITS_MIN\<rparr>)"
    "mset (table_elems (t\<lparr>heads := ?min, bits := BITS_MIN\<rparr>)) = mset (table_elems t)"
    by (rule table_inv_replace_heads [OF assms(1)]; simp add: fill_init_ok b)+
  moreover have "table_inv hp (t\<lparr>heads := hash_table_fill_from hp (init_hlist_heads b) b ?min, bits := b\<rparr>)"
    "mset (table_elems (t\<lparr>heads := hash_table_fill_from hp (init_hlist_heads b) b ?min, bits := b\<rparr>))
       = mset (table_elems t)"
    by (rule table_inv_replace_heads [OF assms(1)]; simp add: fill_init_ok b)+
  ultimately show ?thesis
    using assms by (auto simp: kedr_coi_hash_table_realloc_slowpath_def Let_def split: prod.splits option.splits)
qed

lemma realloc_ok:
  assumes "table_inv hp t" and "kedr_coi_hash_table_realloc hp t b as = (r, t', as')"
    and b: "bits_ok b"
  shows "table_inv hp t' \<and> mset (table_elems t') = mset (table_elems t)"
proof -
  let ?new = "hash_table_fill_from hp (init_hlist_heads b) b (heads t)"
  have "table_inv hp (t\<lparr>heads := ?new, bits := b\<rparr>)"
    "mset (table_elems (t\<lparr>heads := ?new, bits := b\<rparr>)) = mset (table_elems t)"
    by (rule table_inv_replace_heads [OF assms(1)]; simp add: fill_init_ok b)+
  then show ?thesis
    using assms realloc_slowpath_ok [OF assms(1) _ b]
    by (auto simp: kedr_coi_hash_table_realloc_def split: prod.splits option.splits if_splits)
qed

subsection \<open>Destruction\<close>

lemma free_heads_eq: "free_heads f hs s = fold_opt f (concat hs) s"
  by (induction f hs s rule: free_heads.induct) (auto split: Option.bind_splits)

lemma concat_dropWhile_Nil: "concat (dropWhile (\<lambda>h. h = []) hs) = concat hs"
  by (induction hs) auto

lemma destroy_eq: "kedr_coi_hash_table_destroy t (Some f) s = fold_opt f (table_elems t) s"
proof -
  have "kedr_coi_hash_table_destroy t (Some f) s = free_heads f (dropWhile (\<lambda>h. h = []) (heads t)) s"
    by (cases "dropWhile (\<lambda>h. h = []) (heads t)") (simp_all add: kedr_coi_hash_table_destroy_def del: dropWhile_eq_Nil_conv)
  then show ?thesis by (simp add: free_heads_eq concat_dropWhile_Nil table_elems_def)
qed

lemma destroy_None: "kedr_coi_hash_table_destroy t None s = Some s"
  by (simp add: kedr_coi_hash_table_destroy_def split: list.split)

subsection \<open>The table as an element table\<close>

lemma find_entries:
  assumes "table_inv hp t"
  shows "kedr_coi_hash_table_find_elem hp t k = Some e \<Longrightarrow> (e, k) \<in> entries t"
    and "kedr_coi_hash_table_find_elem hp t k = None \<Longrightarrow> (e, k) \<notin> entries t"
  using assms
  by (auto simp: find_key_stack table_inv_heads key_stack_iff [symmetric] split: list.splits)

lemma heads_ok_table_add:
  "table_inv hp t \<Longrightarrow> heads_ok hp (bits (table_add hp t e k)) (heads (table_add hp t e k))"
  using heads_ok_add [of hp "bits t" "heads t" "(e, k)"]
  by (simp add: table_inv_heads table_add_def)

lemma find_add:
  "table_inv hp t \<Longrightarrow> kedr_coi_hash_table_find_elem hp (table_add hp t e k) k' =
     (if k' = k then Some e else kedr_coi_hash_table_find_elem hp t k')"
  by (simp add: find_key_stack table_inv_heads heads_ok_table_add key_stack_add)

interpretation kedr_table: elem_table
  "table_inv hp" entries "kedr_coi_hash_table_find_elem hp" "table_add hp" table_del
  for hp
proof unfold_locales
  fix t :: "'a hash_table" and e k k'
  assume "table_inv hp t" "(e, k) \<in> entries t" "(e, k') \<in> entries t"
  then show "k = k'" by (auto simp: table_inv_def dest: eq_key_imp_eq_value)
qed (auto simp: table_inv_add table_inv_del find_add entries_add table_inv_heads elems_del
    table_del_None dest: find_entries)

lemma distinct_keys:
  assumes "table_inv hp t" and u: "unique_keys (entries t)"
  shows "distinct (map snd (table_elems t))"
proof -
  have "distinct (map fst (table_elems t))" using assms(1) by (simp add: table_inv_def)
  then have "distinct (table_elems t)" by (simp add: distinct_map)
  moreover have "inj_on snd (entries t)" using u by (force simp: inj_on_def unique_keys_def)
  ultimately show ?thesis by (simp add: distinct_map)
qed

end
