(* ===== verification/Instr_State.thy ===== *)
theory Instr_State
  imports Hash_Table
begin

text \<open>
  The state the instrumentors work on (src/sources/core/kedr_coi_instrumentor_internal.h and
  the structures at the head of each part of kedr_coi_instrumentors_impl.c).

  The record world is the memory shared by everybody: the operations structures of the
  kernel (and the copies the code allocates), the global table of instrumented operations,
  and the outcomes of the coming allocations.  The record kedr_coi_instrumentor is one
  instrumentor with the heap blocks that only its own tables lead to: its instrument_data
  objects, its watches, its foreign data and the foreign instrumentors bound to it.  An
  instrument_data object carries the fields of its implementation (at place or use copy) in
  a datatype; which constructor it has is what the i_ops pointer of the C object says.
\<close>

datatype replacement_mode = replace_null | replace_not_null | replace_all

record kedr_coi_replacement =
  operation_offset :: size_t
  repl :: ptr
  mode :: replacement_mode

text \<open>Arrays of replacements end with an element whose offset is -1.\<close>

definition for_each_replacement :: "kedr_coi_replacement list \<Rightarrow> kedr_coi_replacement list" where
  "for_each_replacement rs = takeWhile (\<lambda>r. operation_offset r \<noteq> - 1) rs"

definition empty_replacements :: "kedr_coi_replacement list" where
  "empty_replacements = [\<lparr>operation_offset = - 1, repl = NULL, mode = replace_null\<rparr>]"

text \<open>An operations structure maps the offsets inside it to operation pointers.\<close>

type_synonym ops_struct = "size_t \<rightharpoonup> ptr"

text \<open>
  An instrument_data_search structure is identified by the instrument_data object it is
  embedded in and the field it is.
\<close>

datatype search_field = ap_ops_elem | uc_ops_orig_elem | uc_ops_repl_elem

type_synonym instrument_data_search = "ptr \<times> search_field"

datatype idata_impl =
    Ap_idata (ap_ops: ptr) (ap_ops_orig: ops_struct)
  | Uc_idata (uc_ops_orig: ptr) (uc_ops_repl: ptr)

record instrument_data =
  refs :: int
  impl :: idata_impl
  foreign_data_list :: "ptr list"

record instrument_data_foreign =
  f_refs :: int
  idata_binded :: ptr
  f_instrumentor :: ptr

record kedr_coi_foreign_instrumentor =
  ids_table :: "ptr hash_table"
  ties_table :: "ptr hash_table"
  f_replacements :: "kedr_coi_replacement list"
  f_watch_datas :: "ptr \<rightharpoonup> ptr"  \<comment> \<open>foreign watch data: its idata_foreign\<close>

record kedr_coi_instrumentor =
  idata_table :: "instrument_data_search hash_table"
  objects_table :: "ptr hash_table"
  operations_struct_size :: size_t
  replacements :: "kedr_coi_replacement list"
  replace_at_place :: "ptr \<Rightarrow> bool"
  foreign_ops_p_table :: "ptr hash_table"
  idatas :: "ptr \<rightharpoonup> instrument_data"
  watch_datas :: "ptr \<rightharpoonup> ptr"  \<comment> \<open>watch data: its idata\<close>
  idatas_foreign :: "ptr \<rightharpoonup> instrument_data_foreign"
  foreign_instrumentors :: "ptr \<rightharpoonup> kedr_coi_foreign_instrumentor"

record world =
  ops_mem :: "ptr \<rightharpoonup> ops_struct"
  ops_table_global :: "instrument_data_search hash_table"
  pending :: allocs

definition world_kmalloc :: "world \<Rightarrow> ptr option \<times> world" where
  "world_kmalloc w = (let (p, as) = kmalloc (pending w) in (p, w\<lparr>pending := as\<rparr>))"

subsection \<open>Updating one block of the heap\<close>

definition set_ops :: "world \<Rightarrow> ptr \<Rightarrow> ops_struct \<Rightarrow> world" where
  "set_ops w ops m = w\<lparr>ops_mem := (ops_mem w)(ops \<mapsto> m)\<rparr>"

definition free_ops :: "world \<Rightarrow> ptr \<Rightarrow> world" where
  "free_ops w ops = w\<lparr>ops_mem := (ops_mem w)(ops := None)\<rparr>"

definition set_idata :: "kedr_coi_instrumentor \<Rightarrow> ptr \<Rightarrow> instrument_data \<Rightarrow> kedr_coi_instrumentor" where
  "set_idata i d x = i\<lparr>idatas := (idatas i)(d \<mapsto> x)\<rparr>"

definition free_idata :: "kedr_coi_instrumentor \<Rightarrow> ptr \<Rightarrow> kedr_coi_instrumentor" where
  "free_idata i d = i\<lparr>idatas := (idatas i)(d := None)\<rparr>"

definition set_watch :: "kedr_coi_instrumentor \<Rightarrow> ptr \<Rightarrow> ptr \<Rightarrow> kedr_coi_instrumentor" where
  "set_watch i wd d = i\<lparr>watch_datas := (watch_datas i)(wd \<mapsto> d)\<rparr>"

definition free_watch :: "kedr_coi_instrumentor \<Rightarrow> ptr \<Rightarrow> kedr_coi_instrumentor" where
  "free_watch i wd = i\<lparr>watch_datas := (watch_datas i)(wd := None)\<rparr>"

lemma set_ops_simps [simp]:
  "ops_mem (set_ops w p m) = (ops_mem w)(p \<mapsto> m)"
  "ops_table_global (set_ops w p m) = ops_table_global w"
  "pending (set_ops w p m) = pending w"
  "set_ops (set_ops w p m) p m' = set_ops w p m'"
  "ops_mem w p = Some m \<Longrightarrow> set_ops w p m = w"
  by (simp_all add: set_ops_def fun_upd_idem)

lemma free_ops_simps [simp]:
  "ops_mem (free_ops w p) = (ops_mem w)(p := None)"
  "ops_table_global (free_ops w p) = ops_table_global w"
  "pending (free_ops w p) = pending w"
  "ops_mem w p = None \<Longrightarrow> free_ops (set_ops w p m) p = w"
  by (simp_all add: set_ops_def free_ops_def fun_upd_idem)

lemma set_idata_simps [simp]:
  "idatas (set_idata i d x) = (idatas i)(d \<mapsto> x)"
  "idata_table (set_idata i d x) = idata_table i"
  "objects_table (set_idata i d x) = objects_table i"
  "operations_struct_size (set_idata i d x) = operations_struct_size i"
  "replacements (set_idata i d x) = replacements i"
  "replace_at_place (set_idata i d x) = replace_at_place i"
  "foreign_ops_p_table (set_idata i d x) = foreign_ops_p_table i"
  "watch_datas (set_idata i d x) = watch_datas i"
  "idatas_foreign (set_idata i d x) = idatas_foreign i"
  "foreign_instrumentors (set_idata i d x) = foreign_instrumentors i"
  by (simp_all add: set_idata_def)

lemma free_idata_simps [simp]:
  "idatas (free_idata i d) = (idatas i)(d := None)"
  "idata_table (free_idata i d) = idata_table i"
  "objects_table (free_idata i d) = objects_table i"
  "operations_struct_size (free_idata i d) = operations_struct_size i"
  "replacements (free_idata i d) = replacements i"
  "replace_at_place (free_idata i d) = replace_at_place i"
  "foreign_ops_p_table (free_idata i d) = foreign_ops_p_table i"
  "watch_datas (free_idata i d) = watch_datas i"
  "idatas_foreign (free_idata i d) = idatas_foreign i"
  "foreign_instrumentors (free_idata i d) = foreign_instrumentors i"
  by (simp_all add: free_idata_def)

lemma set_watch_simps [simp]:
  "watch_datas (set_watch i wd d) = (watch_datas i)(wd \<mapsto> d)"
  "idatas (set_watch i wd d) = idatas i"
  "idata_table (set_watch i wd d) = idata_table i"
  "objects_table (set_watch i wd d) = objects_table i"
  "operations_struct_size (set_watch i wd d) = operations_struct_size i"
  "replacements (set_watch i wd d) = replacements i"
  "replace_at_place (set_watch i wd d) = replace_at_place i"
  "foreign_ops_p_table (set_watch i wd d) = foreign_ops_p_table i"
  "idatas_foreign (set_watch i wd d) = idatas_foreign i"
  "foreign_instrumentors (set_watch i wd d) = foreign_instrumentors i"
  by (simp_all add: set_watch_def)

lemma free_watch_simps [simp]:
  "watch_datas (free_watch i wd) = (watch_datas i)(wd := None)"
  "idatas (free_watch i wd) = idatas i"
  "idata_table (free_watch i wd) = idata_table i"
  "objects_table (free_watch i wd) = objects_table i"
  "operations_struct_size (free_watch i wd) = operations_struct_size i"
  "replacements (free_watch i wd) = replacements i"
  "replace_at_place (free_watch i wd) = replace_at_place i"
  "foreign_ops_p_table (free_watch i wd) = foreign_ops_p_table i"
  "idatas_foreign (free_watch i wd) = idatas_foreign i"
  "foreign_instrumentors (free_watch i wd) = foreign_instrumentors i"
  by (simp_all add: free_watch_def)

subsection \<open>Access to operations structures\<close>

definition ops_content :: "world \<Rightarrow> ptr \<Rightarrow> ops_struct option" where
  "ops_content w ops = (if ops = NULL then None else ops_mem w ops)"

definition read_op :: "world \<Rightarrow> ptr \<Rightarrow> size_t \<Rightarrow> ptr option" where
  "read_op w ops off = do { c \<leftarrow> ops_content w ops; c off }"

definition write_op :: "world \<Rightarrow> ptr \<Rightarrow> size_t \<Rightarrow> ptr \<Rightarrow> world option" where
  "write_op w ops off v =
     do { c \<leftarrow> ops_content w ops; _ \<leftarrow> c off;
          Some (set_ops w ops (c(off \<mapsto> v))) }"

definition memcpy_ops :: "size_t \<Rightarrow> ops_struct \<Rightarrow> ops_struct" where
  "memcpy_ops sz c = (\<lambda>off. if off < sz then c off else None)"

definition memset_ops :: "size_t \<Rightarrow> ops_struct" where
  "memset_ops sz = (\<lambda>off. if off < sz then Some NULL else None)"

definition operation_at_offset :: "world \<Rightarrow> ptr \<Rightarrow> size_t \<Rightarrow> ptr option" where
  "operation_at_offset w ops off = (if ops = NULL then Some NULL else read_op w ops off)"

subsection \<open>Replacing an operation\<close>

definition replace_operation_generic :: "ptr \<Rightarrow> ptr \<Rightarrow> kedr_coi_replacement \<Rightarrow> ptr" where
  "replace_operation_generic op op_orig r =
     (if mode r = replace_all then repl r
      else if op_orig \<noteq> NULL
      then (if mode r = replace_not_null then repl r else op)
      else (if mode r = replace_null then repl r else op))"

definition replace_operation :: "ptr \<Rightarrow> kedr_coi_replacement \<Rightarrow> ptr" where
  "replace_operation op r = replace_operation_generic op op r"

definition restore_operation :: "ptr \<Rightarrow> kedr_coi_replacement \<Rightarrow> ptr \<Rightarrow> ptr" where
  "restore_operation op r op_orig = (if repl r = op then op_orig else op)"

end
