(* ===== verification/Instr_Impl.thy ===== *)
theory Instr_Impl
  imports Instr_State
begin

text \<open>
  Model of the normal instrumentation in src/sources/core/kedr_coi_instrumentors_impl.c: the
  at place and use copy implementations of instrument_data, the search structures they put
  in the tables, and instrumentor_get_data.
\<close>

subsection \<open>Search structures\<close>

definition instrumentor_add_data_search ::
  "hash_fn \<Rightarrow> kedr_coi_instrumentor \<Rightarrow> instrument_data_search \<Rightarrow> ptr \<Rightarrow> world \<Rightarrow>
   (int \<times> kedr_coi_instrumentor \<times> world) option" where
  "instrumentor_add_data_search hp i ds ops w =
     (if kedr_coi_hash_table_find_elem hp (ops_table_global w) ops \<noteq> None
      then Some (- EBUSY, i, w)
      else let (err, g, as) =
                 kedr_coi_hash_table_add_elem hp (ops_table_global w) ds ops (pending w);
               w = w\<lparr>ops_table_global := g, pending := as\<rparr>
           in if err \<noteq> 0 then Some (err, i, w)
              else let (err, t, as) =
                         kedr_coi_hash_table_add_elem hp (idata_table i) ds ops (pending w);
                       i = i\<lparr>idata_table := t\<rparr>;
                       w = w\<lparr>pending := as\<rparr>
                   in if err \<noteq> 0
                      then do { (g, as) \<leftarrow> kedr_coi_hash_table_remove_elem hp
                                             (ops_table_global w) ds (pending w);
                                Some (err, i, w\<lparr>ops_table_global := g, pending := as\<rparr>) }
                      else Some (0, i, w))"

definition instrumentor_remove_data_search ::
  "hash_fn \<Rightarrow> kedr_coi_instrumentor \<Rightarrow> instrument_data_search \<Rightarrow> world \<Rightarrow>
   (kedr_coi_instrumentor \<times> world) option" where
  "instrumentor_remove_data_search hp i ds w =
     do { (t, as) \<leftarrow> kedr_coi_hash_table_remove_elem hp (idata_table i) ds (pending w);
          (g, as) \<leftarrow> kedr_coi_hash_table_remove_elem hp (ops_table_global w) ds as;
          Some (i\<lparr>idata_table := t\<rparr>, w\<lparr>ops_table_global := g, pending := as\<rparr>) }"

definition apf_instrument_data_init :: "idata_impl \<Rightarrow> instrument_data" where
  "apf_instrument_data_init x = \<lparr>refs = 1, impl = x, foreign_data_list = []\<rparr>"

subsection \<open>Instrumentation at place\<close>

text \<open>The bodies of the loops that replace, and restore, one operation of a structure.\<close>

definition replace_step :: "ptr \<Rightarrow> kedr_coi_replacement \<Rightarrow> world \<Rightarrow> world option" where
  "replace_step ops r w =
     do { op \<leftarrow> read_op w ops (operation_offset r);
          write_op w ops (operation_offset r) (replace_operation op r) }"

definition restore_step ::
  "ptr \<Rightarrow> ops_struct \<Rightarrow> kedr_coi_replacement \<Rightarrow> world \<Rightarrow> world option" where
  "restore_step ops ops_orig r w =
     do { op \<leftarrow> read_op w ops (operation_offset r);
          op_orig \<leftarrow> ops_orig (operation_offset r);
          write_op w ops (operation_offset r) (restore_operation op r op_orig) }"

definition ap_idata_create ::
  "hash_fn \<Rightarrow> kedr_coi_instrumentor \<Rightarrow> ptr \<Rightarrow> world \<Rightarrow>
   ((int + ptr) \<times> kedr_coi_instrumentor \<times> world) option" where
  "ap_idata_create hp i ops w =
     (case world_kmalloc w of
        (None, w) \<Rightarrow> Some (Inl (- ENOMEM), i, w)
      | (Some d, w) \<Rightarrow>
     (case world_kmalloc w of
        (None, w) \<Rightarrow> Some (Inl (- ENOMEM), i, w)
      | (Some _, w) \<Rightarrow>
          do { (err, i, w) \<leftarrow> instrumentor_add_data_search hp i (d, ap_ops_elem) ops w;
               if err \<noteq> 0 then Some (Inl err, i, w)
               else do { c \<leftarrow> ops_content w ops;
                         let x = apf_instrument_data_init
                                   (Ap_idata ops (memcpy_ops (operations_struct_size i) c));
                         w \<leftarrow> fold_opt (replace_step ops) (for_each_replacement (replacements i)) w;
                         Some (Inr d, set_idata i d x, w) } }))"

definition ap_idata_destroy_norestore ::
  "hash_fn \<Rightarrow> kedr_coi_instrumentor \<Rightarrow> ptr \<Rightarrow> world \<Rightarrow> (kedr_coi_instrumentor \<times> world) option" where
  "ap_idata_destroy_norestore hp i d w =
     do { (i, w) \<leftarrow> instrumentor_remove_data_search hp i (d, ap_ops_elem) w;
          Some (free_idata i d, w) }"

definition ap_idata_destroy ::
  "hash_fn \<Rightarrow> kedr_coi_instrumentor \<Rightarrow> ptr \<Rightarrow> ptr \<Rightarrow> ops_struct \<Rightarrow> world \<Rightarrow>
   (kedr_coi_instrumentor \<times> world) option" where
  "ap_idata_destroy hp i d ops ops_orig w =
     do { w \<leftarrow> fold_opt (restore_step ops ops_orig) (for_each_replacement (replacements i)) w;
          ap_idata_destroy_norestore hp i d w }"

definition ap_idata_ops_get_operations :: "ptr \<Rightarrow> ops_struct \<Rightarrow> ptr" where
  "ap_idata_ops_get_operations ops ops_orig = ops"

definition ap_idata_ops_get_orig_operation :: "ptr \<Rightarrow> ops_struct \<Rightarrow> size_t \<Rightarrow> ptr option" where
  "ap_idata_ops_get_orig_operation ops ops_orig off = ops_orig off"

definition ap_idata_ops_my_operations :: "ptr \<Rightarrow> ops_struct \<Rightarrow> ptr \<Rightarrow> bool" where
  "ap_idata_ops_my_operations ops ops_orig p \<longleftrightarrow> ap_idata_ops_get_operations ops ops_orig = p"

subsection \<open>Instrumentation with a copy\<close>

definition uc_idata_create ::
  "hash_fn \<Rightarrow> kedr_coi_instrumentor \<Rightarrow> ptr \<Rightarrow> world \<Rightarrow>
   ((int + ptr) \<times> kedr_coi_instrumentor \<times> world) option" where
  "uc_idata_create hp i ops w =
     (case world_kmalloc w of
        (None, w) \<Rightarrow> Some (Inl (- ENOMEM), i, w)
      | (Some d, w) \<Rightarrow>
     (case world_kmalloc w of
        (None, w) \<Rightarrow> Some (Inl (- ENOMEM), i, w)
      | (Some ops_repl, w) \<Rightarrow>
          do { c \<leftarrow> (if ops \<noteq> NULL
                      then map_option (memcpy_ops (operations_struct_size i)) (ops_content w ops)
                      else Some (memset_ops (operations_struct_size i)));
               let w = set_ops w ops_repl c;
               (err, i, w) \<leftarrow> instrumentor_add_data_search hp i (d, uc_ops_orig_elem) ops w;
               if err \<noteq> 0
               then Some (Inl err, i, free_ops w ops_repl)
               else do {
                 (err, i, w) \<leftarrow>
                   instrumentor_add_data_search hp i (d, uc_ops_repl_elem) ops_repl w;
                 if err \<noteq> 0
                 then do { (i, w) \<leftarrow>
                             instrumentor_remove_data_search hp i (d, uc_ops_orig_elem) w;
                           Some (Inl err, i, free_ops w ops_repl) }
                 else do { let x = apf_instrument_data_init (Uc_idata ops ops_repl);
                           w \<leftarrow> fold_opt (replace_step ops_repl)
                                  (for_each_replacement (replacements i)) w;
                           Some (Inr d, set_idata i d x, w) } } }))"

definition uc_idata_destroy ::
  "hash_fn \<Rightarrow> kedr_coi_instrumentor \<Rightarrow> ptr \<Rightarrow> ptr \<Rightarrow> world \<Rightarrow>
   (kedr_coi_instrumentor \<times> world) option" where
  "uc_idata_destroy hp i d ops_repl w =
     do { (i, w) \<leftarrow> instrumentor_remove_data_search hp i (d, uc_ops_repl_elem) w;
          (i, w) \<leftarrow> instrumentor_remove_data_search hp i (d, uc_ops_orig_elem) w;
          Some (free_idata i d,
                free_ops w ops_repl) }"

definition uc_idata_ops_get_orig_operations :: "ptr \<Rightarrow> ptr \<Rightarrow> ptr" where
  "uc_idata_ops_get_orig_operations ops_orig ops_repl = ops_orig"

definition uc_idata_ops_get_repl_operations :: "ptr \<Rightarrow> ptr \<Rightarrow> ptr" where
  "uc_idata_ops_get_repl_operations ops_orig ops_repl = ops_repl"

definition uc_idata_ops_get_orig_operation ::
  "world \<Rightarrow> ptr \<Rightarrow> ptr \<Rightarrow> size_t \<Rightarrow> ptr option" where
  "uc_idata_ops_get_orig_operation w ops_orig ops_repl off =
     (if ops_orig \<noteq> NULL then operation_at_offset w ops_orig off else Some NULL)"

definition uc_idata_ops_my_operations :: "ptr \<Rightarrow> ptr \<Rightarrow> ptr \<Rightarrow> bool" where
  "uc_idata_ops_my_operations ops_orig ops_repl p \<longleftrightarrow>
     (if ops_repl = p then True else if ops_orig = p then True else False)"

subsection \<open>Dispatch over the two implementations\<close>

fun instrument_data_get_repl_operations :: "idata_impl \<Rightarrow> ptr" where
  "instrument_data_get_repl_operations (Ap_idata ops orig) = ap_idata_ops_get_operations ops orig"
| "instrument_data_get_repl_operations (Uc_idata orig rep) =
     uc_idata_ops_get_repl_operations orig rep"

fun instrument_data_get_orig_operations :: "idata_impl \<Rightarrow> ptr" where
  "instrument_data_get_orig_operations (Ap_idata ops orig) = ap_idata_ops_get_operations ops orig"
| "instrument_data_get_orig_operations (Uc_idata orig rep) =
     uc_idata_ops_get_orig_operations orig rep"

fun instrument_data_get_orig_operation :: "world \<Rightarrow> idata_impl \<Rightarrow> size_t \<Rightarrow> ptr option" where
  "instrument_data_get_orig_operation w (Ap_idata ops orig) off =
     ap_idata_ops_get_orig_operation ops orig off"
| "instrument_data_get_orig_operation w (Uc_idata orig rep) off =
     uc_idata_ops_get_orig_operation w orig rep off"

fun instrument_data_my_operations :: "idata_impl \<Rightarrow> ptr \<Rightarrow> bool" where
  "instrument_data_my_operations (Ap_idata ops orig) p = ap_idata_ops_my_operations ops orig p"
| "instrument_data_my_operations (Uc_idata orig rep) p = uc_idata_ops_my_operations orig rep p"

fun destroy_idata ::
  "hash_fn \<Rightarrow> kedr_coi_instrumentor \<Rightarrow> ptr \<Rightarrow> idata_impl \<Rightarrow> world \<Rightarrow>
   (kedr_coi_instrumentor \<times> world) option" where
  "destroy_idata hp i d (Ap_idata ops orig) w = ap_idata_destroy hp i d ops orig w"
| "destroy_idata hp i d (Uc_idata orig rep) w = uc_idata_destroy hp i d rep w"

fun destroy_idata_norestore ::
  "hash_fn \<Rightarrow> kedr_coi_instrumentor \<Rightarrow> ptr \<Rightarrow> idata_impl \<Rightarrow> world \<Rightarrow>
   (kedr_coi_instrumentor \<times> world) option" where
  "destroy_idata_norestore hp i d (Ap_idata ops orig) w = ap_idata_destroy_norestore hp i d w"
| "destroy_idata_norestore hp i d (Uc_idata orig rep) w = uc_idata_destroy hp i d rep w"

definition instrument_data_ref :: "kedr_coi_instrumentor \<Rightarrow> ptr \<Rightarrow> kedr_coi_instrumentor option" where
  "instrument_data_ref i d =
     do { x \<leftarrow> idatas i d;
          Some (set_idata i d (x\<lparr>refs := refs x + 1\<rparr>)) }"

definition instrument_data_unref ::
  "hash_fn \<Rightarrow> kedr_coi_instrumentor \<Rightarrow> ptr \<Rightarrow> world \<Rightarrow> (kedr_coi_instrumentor \<times> world) option" where
  "instrument_data_unref hp i d w =
     do { x \<leftarrow> idatas i d;
          let n = refs x - 1;
          let i = set_idata i d (x\<lparr>refs := n\<rparr>);
          if n = 0 then destroy_idata hp i d (impl x) w else Some (i, w) }"

definition instrument_data_unref_norestore ::
  "hash_fn \<Rightarrow> kedr_coi_instrumentor \<Rightarrow> ptr \<Rightarrow> world \<Rightarrow> (kedr_coi_instrumentor \<times> world) option" where
  "instrument_data_unref_norestore hp i d w =
     do { x \<leftarrow> idatas i d;
          let n = refs x - 1;
          let i = set_idata i d (x\<lparr>refs := n\<rparr>);
          if n = 0 then destroy_idata_norestore hp i d (impl x) w else Some (i, w) }"

subsection \<open>Finding and getting the data of an operations structure\<close>

definition instrumentor_find_data :: "hash_fn \<Rightarrow> kedr_coi_instrumentor \<Rightarrow> ptr \<Rightarrow> ptr option" where
  "instrumentor_find_data hp i ops =
     map_option fst (kedr_coi_hash_table_find_elem hp (idata_table i) ops)"

definition instrumentor_get_data ::
  "hash_fn \<Rightarrow> kedr_coi_instrumentor \<Rightarrow> ptr \<Rightarrow> world \<Rightarrow>
   ((int + ptr) \<times> kedr_coi_instrumentor \<times> world) option" where
  "instrumentor_get_data hp i ops w =
     (case instrumentor_find_data hp i ops of
        Some d \<Rightarrow> do { i \<leftarrow> instrument_data_ref i d; Some (Inr d, i, w) }
      | None \<Rightarrow>
          (if ops \<noteq> NULL
           then (if replace_at_place i ops then ap_idata_create hp i ops w
                 else uc_idata_create hp i ops w)
           else uc_idata_create hp i ops w))"

definition kedr_coi_instrumentors_init :: "world \<Rightarrow> int \<times> world" where
  "kedr_coi_instrumentors_init w =
     (case kedr_coi_hash_table_init (pending w) of
        (Inl err, as) \<Rightarrow> (err, w\<lparr>pending := as\<rparr>)
      | (Inr g, as) \<Rightarrow> (0, w\<lparr>ops_table_global := g, pending := as\<rparr>))"

end
