(* ===== verification/Instrumentor.thy ===== *)
theory Instrumentor
  imports Instr_Impl
begin

text \<open>
  Model of the normal instrumentor in src/sources/core/kedr_coi_instrumentors.c: watching
  and forgetting objects, looking up original operations, creation and destruction.

  Every operation of the API runs under the spinlock of its instrumentor, so it is one
  atomic step on the instrumentor and the world.  The argument ops_p is the value of the
  caller's operations field; the new value is part of the result.
\<close>

subsection \<open>Watches\<close>

definition instrumentor_find_watch_data ::
  "hash_fn \<Rightarrow> kedr_coi_instrumentor \<Rightarrow> ptr \<Rightarrow> ptr option" where
  "instrumentor_find_watch_data hp i object =
     kedr_coi_hash_table_find_elem hp (objects_table i) object"

definition instrumentor_destroy_watch_data ::
  "hash_fn \<Rightarrow> kedr_coi_instrumentor \<Rightarrow> ptr \<Rightarrow> world \<Rightarrow> (kedr_coi_instrumentor \<times> world) option" where
  "instrumentor_destroy_watch_data hp i wd w =
     do { d \<leftarrow> watch_datas i wd;
          (i, w) \<leftarrow> instrument_data_unref hp i d w;
          (t, as) \<leftarrow> kedr_coi_hash_table_remove_elem hp (objects_table i) wd (pending w);
          Some (free_watch (i\<lparr>objects_table := t\<rparr>) wd,
                w\<lparr>pending := as\<rparr>) }"

definition instrumentor_destroy_watch_data_norestore ::
  "hash_fn \<Rightarrow> kedr_coi_instrumentor \<Rightarrow> ptr \<Rightarrow> world \<Rightarrow> (kedr_coi_instrumentor \<times> world) option" where
  "instrumentor_destroy_watch_data_norestore hp i wd w =
     do { d \<leftarrow> watch_datas i wd;
          (i, w) \<leftarrow> instrument_data_unref_norestore hp i d w;
          (t, as) \<leftarrow> kedr_coi_hash_table_remove_elem hp (objects_table i) wd (pending w);
          Some (free_watch (i\<lparr>objects_table := t\<rparr>) wd,
                w\<lparr>pending := as\<rparr>) }"

definition instrument_data_replace_ops :: "instrument_data \<Rightarrow> ptr \<Rightarrow> ptr" where
  "instrument_data_replace_ops x ops_p =
     (let ops_repl = instrument_data_get_repl_operations (impl x)
      in if ops_repl \<noteq> ops_p then ops_repl else ops_p)"

definition instrument_data_restore_ops :: "instrument_data \<Rightarrow> ptr \<Rightarrow> ptr" where
  "instrument_data_restore_ops x ops_p =
     (let ops_orig = instrument_data_get_orig_operations (impl x)
      in if ops_orig \<noteq> ops_p then ops_orig else ops_p)"

definition instrumentor_get_orig_operation_nodata ::
  "kedr_coi_replacement list \<Rightarrow> ptr \<Rightarrow> size_t \<Rightarrow> world \<Rightarrow> (int + ptr) option" where
  "instrumentor_get_orig_operation_nodata rs ops off w =
     do { op \<leftarrow> read_op w ops off;
          Some (if list_ex (\<lambda>r. repl r = op) (for_each_replacement rs)
                then Inl (- EINVAL) else Inr op) }"

definition instrumentor_watch_internal ::
  "hash_fn \<Rightarrow> kedr_coi_instrumentor \<Rightarrow> ptr \<Rightarrow> ptr \<Rightarrow> world \<Rightarrow>
   (int \<times> ptr \<times> kedr_coi_instrumentor \<times> world) option" where
  "instrumentor_watch_internal hp i object ops_p w =
     (case instrumentor_find_watch_data hp i object of
        Some wd \<Rightarrow>
          do { d \<leftarrow> watch_datas i wd;
               x \<leftarrow> idatas i d;
               if \<not> instrument_data_my_operations (impl x) ops_p
               then do {
                 (r, i, w) \<leftarrow> instrumentor_get_data hp i ops_p w;
                 (case r of
                    Inl err \<Rightarrow>
                      do { x \<leftarrow> idatas i d;
                           let ops_p = instrument_data_restore_ops x ops_p;
                           (i, w) \<leftarrow> instrumentor_destroy_watch_data hp i wd w;
                           Some (err, ops_p, i, w) }
                  | Inr d' \<Rightarrow>
                      do { (i, w) \<leftarrow> instrument_data_unref hp i d w;
                           let i = set_watch i wd d';
                           x' \<leftarrow> idatas i d';
                           Some (1, instrument_data_replace_ops x' ops_p, i, w) }) }
               else Some (1, instrument_data_replace_ops x ops_p, i, w) }
      | None \<Rightarrow>
          do { (r, i, w) \<leftarrow> instrumentor_get_data hp i ops_p w;
               (case r of
                  Inl err \<Rightarrow> Some (err, ops_p, i, w)
                | Inr d \<Rightarrow>
                    (case world_kmalloc w of
                       (None, w) \<Rightarrow>
                         do { (i, w) \<leftarrow> instrument_data_unref hp i d w;
                              Some (- ENOMEM, ops_p, i, w) }
                     | (Some wd, w) \<Rightarrow>
                         (let (err, t, as) = kedr_coi_hash_table_add_elem hp (objects_table i)
                                               wd object (pending w);
                              w = w\<lparr>pending := as\<rparr>
                          in if err \<noteq> 0
                             then do { (i, w) \<leftarrow> instrument_data_unref hp i d w;
                                       Some (err, ops_p, i, w) }
                             else do { x \<leftarrow> idatas i d;
                                       Some (0, instrument_data_replace_ops x ops_p,
                                             set_watch (i\<lparr>objects_table := t\<rparr>) wd d,
                                             w) }))) })"

subsection \<open>Creation and destruction\<close>

definition kedr_coi_instrumentor_create ::
  "size_t \<Rightarrow> kedr_coi_replacement list option \<Rightarrow> (ptr \<Rightarrow> bool) \<Rightarrow> allocs \<Rightarrow>
   kedr_coi_instrumentor option \<times> allocs" where
  "kedr_coi_instrumentor_create sz rs at_place as =
     (case kmalloc as of (None, as) \<Rightarrow> (None, as) | (Some _, as) \<Rightarrow>
     (case kedr_coi_hash_table_init as of (Inl _, as) \<Rightarrow> (None, as) | (Inr objects, as) \<Rightarrow>
     (case kedr_coi_hash_table_init as of (Inl _, as) \<Rightarrow> (None, as) | (Inr idata_t, as) \<Rightarrow>
     (case kedr_coi_hash_table_init as of (Inl _, as) \<Rightarrow> (None, as) | (Inr foreign_t, as) \<Rightarrow>
        (Some \<lparr>idata_table = idata_t, objects_table = objects,
               operations_struct_size = sz,
               replacements = (case rs of None \<Rightarrow> empty_replacements | Some rs \<Rightarrow> rs),
               replace_at_place = at_place, foreign_ops_p_table = foreign_t,
               idatas = Map.empty, watch_datas = Map.empty,
               idatas_foreign = Map.empty, foreign_instrumentors = Map.empty\<rparr>, as)))))"

text \<open>
  The user's trace callback is outside the sources; the model records the objects it is
  called with.  The flag says whether a callback was supplied.
\<close>

definition instrumentor_destroy_watch_data_callback ::
  "hash_fn \<Rightarrow> bool \<Rightarrow> ptr hash_elem \<Rightarrow> kedr_coi_instrumentor \<times> world \<times> ptr list \<Rightarrow>
   (kedr_coi_instrumentor \<times> world \<times> ptr list) option" where
  "instrumentor_destroy_watch_data_callback hp trace = (\<lambda>(wd, object) (i, w, traced).
     do { d \<leftarrow> watch_datas i wd;
          (i, w) \<leftarrow> instrument_data_unref hp i d w;
          Some (free_watch i wd, w,
                if trace then traced @ [object] else traced) })"

definition kedr_coi_instrumentor_destroy ::
  "hash_fn \<Rightarrow> kedr_coi_instrumentor \<Rightarrow> bool \<Rightarrow> world \<Rightarrow> (ptr list \<times> kedr_coi_instrumentor \<times> world) option" where
  "kedr_coi_instrumentor_destroy hp i trace w =
     do { (i, w, traced) \<leftarrow> kedr_coi_hash_table_destroy (objects_table i)
            (Some (instrumentor_destroy_watch_data_callback hp trace)) (i, w, []);
          (i, w) \<leftarrow> kedr_coi_hash_table_destroy (foreign_ops_p_table i) None (i, w);
          (i, w) \<leftarrow> kedr_coi_hash_table_destroy (idata_table i) None (i, w);
          Some (traced, i, w) }"

subsection \<open>Watching and forgetting\<close>

definition kedr_coi_instrumentor_watch ::
  "hash_fn \<Rightarrow> kedr_coi_instrumentor \<Rightarrow> ptr \<Rightarrow> ptr \<Rightarrow> world \<Rightarrow>
   (int \<times> ptr \<times> kedr_coi_instrumentor \<times> world) option" where
  "kedr_coi_instrumentor_watch hp i object ops_p w = instrumentor_watch_internal hp i object ops_p w"

text \<open>Here ops_p is None when the caller passes a NULL pointer.\<close>

definition kedr_coi_instrumentor_forget ::
  "hash_fn \<Rightarrow> kedr_coi_instrumentor \<Rightarrow> ptr \<Rightarrow> ptr option \<Rightarrow> world \<Rightarrow>
   (int \<times> ptr option \<times> kedr_coi_instrumentor \<times> world) option" where
  "kedr_coi_instrumentor_forget hp i object ops_p w =
     (case instrumentor_find_watch_data hp i object of
        Some wd \<Rightarrow>
          do { d \<leftarrow> watch_datas i wd;
               x \<leftarrow> idatas i d;
               let ops_p = map_option (\<lambda>p. if instrument_data_my_operations (impl x) p
                                           then instrument_data_restore_ops x p else p) ops_p;
               (i, w) \<leftarrow> instrumentor_destroy_watch_data hp i wd w;
               Some (0, ops_p, i, w) }
      | None \<Rightarrow> Some (1, ops_p, i, w))"

definition kedr_coi_instrumentor_get_orig_operation ::
  "hash_fn \<Rightarrow> kedr_coi_instrumentor \<Rightarrow> ptr \<Rightarrow> ptr \<Rightarrow> size_t \<Rightarrow> world \<Rightarrow> (int \<times> (int + ptr)) option" where
  "kedr_coi_instrumentor_get_orig_operation hp i object ops off w =
     (case instrumentor_find_watch_data hp i object of
        Some wd \<Rightarrow>
          do { d \<leftarrow> watch_datas i wd;
               x \<leftarrow> idatas i d;
               op \<leftarrow> instrument_data_get_orig_operation w (impl x) off;
               Some (0, Inr op) }
      | None \<Rightarrow>
          (case instrumentor_find_data hp i ops of
             None \<Rightarrow>
               do { r \<leftarrow> instrumentor_get_orig_operation_nodata (replacements i) ops off w;
                    Some (case r of Inl err \<Rightarrow> (err, Inl err) | Inr op \<Rightarrow> (1, Inr op)) }
           | Some d \<Rightarrow>
               do { x \<leftarrow> idatas i d;
                    op \<leftarrow> instrument_data_get_orig_operation w (impl x) off;
                    Some (1, Inr op) }))"

definition kedr_coi_instrumentor_watch_direct ::
  "hash_fn \<Rightarrow> kedr_coi_instrumentor \<Rightarrow> ptr \<Rightarrow> world \<Rightarrow>
   (int \<times> kedr_coi_instrumentor \<times> world) option" where
  "kedr_coi_instrumentor_watch_direct hp i object w =
     do { (r, object', i, w) \<leftarrow> kedr_coi_instrumentor_watch hp i object object w;
          Some (r, i, w) }"

definition kedr_coi_instrumentor_forget_direct ::
  "hash_fn \<Rightarrow> kedr_coi_instrumentor \<Rightarrow> ptr \<Rightarrow> bool \<Rightarrow> world \<Rightarrow>
   (int \<times> kedr_coi_instrumentor \<times> world) option" where
  "kedr_coi_instrumentor_forget_direct hp i object norestore w =
     (case instrumentor_find_watch_data hp i object of
        Some wd \<Rightarrow>
          do { d \<leftarrow> watch_datas i wd;
               x \<leftarrow> idatas i d;
               if \<not> norestore
               then do { let object' = instrument_data_restore_ops x object;
                         (i, w) \<leftarrow> instrumentor_destroy_watch_data hp i wd w;
                         Some (0, i, w) }
               else do { (i, w) \<leftarrow> instrumentor_destroy_watch_data_norestore hp i wd w;
                         Some (0, i, w) } }
      | None \<Rightarrow> Some (1, i, w))"

end
