(* ===== verification/Instr_Inv.thy ===== *)
theory Instr_Inv
  imports Instrumentor
begin

text \<open>
  The invariant of a normal instrumentor and its preservation by the operations on
  instrument_data objects.

  R is the set of offsets of the pointer fields of the operations structure the instrumentor
  works on (struct file_operations, say); H is the multiset of references to
  instrument_data objects that the running operation holds itself, on top of those of the
  watches and of the foreign data.  Between operations H is empty.
\<close>

subsection \<open>Effect of the replacement loops on one structure\<close>

definition repl_offsets :: "kedr_coi_replacement list \<Rightarrow> size_t set" where
  "repl_offsets rs = operation_offset ` set (for_each_replacement rs)"

fun replaced :: "kedr_coi_replacement list \<Rightarrow> ops_struct \<Rightarrow> ops_struct" where
  "replaced [] m = m"
| "replaced (r # rs) m =
     replaced rs (m(operation_offset r \<mapsto> replace_operation (the (m (operation_offset r))) r))"

fun restored :: "kedr_coi_replacement list \<Rightarrow> ops_struct \<Rightarrow> ops_struct \<Rightarrow> ops_struct" where
  "restored [] c m = m"
| "restored (r # rs) c m =
     restored rs c (m(operation_offset r \<mapsto> restore_operation (the (m (operation_offset r))) r
                                             (the (c (operation_offset r)))))"

definition valid_ops :: "size_t set \<Rightarrow> world \<Rightarrow> ptr \<Rightarrow> bool" where
  "valid_ops R w ops \<longleftrightarrow> ops \<noteq> NULL \<and> (\<exists>m. ops_mem w ops = Some m \<and> R \<subseteq> dom m)"

fun impl_ok :: "size_t set \<Rightarrow> world \<Rightarrow> idata_impl \<Rightarrow> bool" where
  "impl_ok R w (Ap_idata ops c) \<longleftrightarrow> valid_ops R w ops \<and> R \<subseteq> dom c"
| "impl_ok R w (Uc_idata orig rep) \<longleftrightarrow> valid_ops R w rep \<and> (orig \<noteq> NULL \<longrightarrow> valid_ops R w orig)"

fun impl_keys :: "idata_impl \<Rightarrow> (search_field \<times> ptr) set" where
  "impl_keys (Ap_idata ops c) = {(ap_ops_elem, ops)}"
| "impl_keys (Uc_idata orig rep) = {(uc_ops_orig_elem, orig), (uc_ops_repl_elem, rep)}"

definition search_entries :: "(ptr \<rightharpoonup> instrument_data) \<Rightarrow> instrument_data_search hash_elem set" where
  "search_entries m = {((d, f), k) | d f k x. m d = Some x \<and> (f, k) \<in> impl_keys (impl x)}"

abbreviation idata_marks :: "ptr \<Rightarrow> idata_impl \<Rightarrow> instrument_data_search hash_elem set" where
  "idata_marks d y \<equiv> {((d, f), k) | f k. (f, k) \<in> impl_keys y}"

definition watch_count :: "kedr_coi_instrumentor \<Rightarrow> ptr \<Rightarrow> nat" where
  "watch_count i d = card {wd. watch_datas i wd = Some d}"

subsection \<open>The invariant\<close>

definition geometry_ok :: "size_t set \<Rightarrow> kedr_coi_instrumentor \<Rightarrow> bool" where
  "geometry_ok R i \<longleftrightarrow> repl_offsets (replacements i) \<subseteq> R \<and> (\<forall>off \<in> R. off < operations_struct_size i)"

text \<open>
  The search structures of an instrumentor are in both its own table and the global one, and
  a key is in the global table at most once.
\<close>

definition search_ok ::
  "hash_fn \<Rightarrow> instrument_data_search hash_table \<Rightarrow> instrument_data_search hash_table \<Rightarrow>
   instrument_data_search hash_elem set \<Rightarrow> bool" where
  "search_ok hp t g E \<longleftrightarrow>
     table_inv hp t \<and> table_inv hp g \<and> unique_keys (entries g) \<and> entries t = E \<and> E \<subseteq> entries g"

definition objects_ok :: "hash_fn \<Rightarrow> kedr_coi_instrumentor \<Rightarrow> bool" where
  "objects_ok hp i \<longleftrightarrow>
     table_inv hp (objects_table i) \<and> unique_keys (entries (objects_table i)) \<and>
     fst ` entries (objects_table i) = dom (watch_datas i)"

definition tables_ok :: "hash_fn \<Rightarrow> kedr_coi_instrumentor \<Rightarrow> world \<Rightarrow> bool" where
  "tables_ok hp i w \<longleftrightarrow>
     search_ok hp (idata_table i) (ops_table_global w) (search_entries (idatas i)) \<and>
     objects_ok hp i"

text \<open>The counter of an object is exactly the number of references to it, and positive.\<close>

definition count_ok :: "ptr multiset \<Rightarrow> kedr_coi_instrumentor \<Rightarrow> ptr \<Rightarrow> instrument_data \<Rightarrow> bool" where
  "count_ok H i d x \<longleftrightarrow> 0 < refs x \<and>
     refs x = int (watch_count i d) + int (length (foreign_data_list x)) + int (count H d)"

definition refs_ok :: "ptr multiset \<Rightarrow> kedr_coi_instrumentor \<Rightarrow> bool" where
  "refs_ok H i \<longleftrightarrow>
     finite (dom (watch_datas i)) \<and>
     ran (watch_datas i) \<subseteq> dom (idatas i) \<and> set_mset H \<subseteq> dom (idatas i) \<and>
     (\<forall>d x. idatas i d = Some x \<longrightarrow> count_ok H i d x)"

definition mem_ok :: "size_t set \<Rightarrow> kedr_coi_instrumentor \<Rightarrow> world \<Rightarrow> bool" where
  "mem_ok R i w \<longleftrightarrow> (\<forall>d x. idatas i d = Some x \<longrightarrow> impl_ok R w (impl x))"

text \<open>What kmalloc promises: a new block is not NULL and not in use.\<close>

definition fresh_ptr :: "kedr_coi_instrumentor \<Rightarrow> world \<Rightarrow> ptr \<Rightarrow> bool" where
  "fresh_ptr i w p \<longleftrightarrow>
     p \<noteq> NULL \<and> p \<notin> dom (ops_mem w) \<and> p \<notin> dom (idatas i) \<and> p \<notin> dom (watch_datas i) \<and>
     p \<notin> dom (idatas_foreign i) \<and>
     (\<forall>((d, f), k) \<in> entries (ops_table_global w). p \<noteq> d \<and> p \<noteq> k)"

definition allocs_ok :: "kedr_coi_instrumentor \<Rightarrow> world \<Rightarrow> bool" where
  "allocs_ok i w \<longleftrightarrow>
     (\<forall>p. Some p \<in> set (pending w) \<longrightarrow> fresh_ptr i w p) \<and>
     distinct (filter (\<lambda>a. a \<noteq> None) (pending w))"

definition instr_inv ::
  "hash_fn \<Rightarrow> size_t set \<Rightarrow> ptr multiset \<Rightarrow> kedr_coi_instrumentor \<Rightarrow> world \<Rightarrow> bool" where
  "instr_inv hp R H i w \<longleftrightarrow>
     geometry_ok R i \<and> tables_ok hp i w \<and> refs_ok H i \<and> mem_ok R i w \<and> allocs_ok i w"

lemma instr_invD:
  assumes "instr_inv hp R H i w"
  shows "geometry_ok R i" "tables_ok hp i w" "refs_ok H i" "mem_ok R i w" "allocs_ok i w"
  using assms by (simp_all add: instr_inv_def)

subsection \<open>The loops on memory\<close>

lemma ops_content_valid: "valid_ops R w ops \<Longrightarrow> \<exists>m. ops_content w ops = Some m \<and> ops_mem w ops = Some m \<and> R \<subseteq> dom m"
  by (auto simp: valid_ops_def ops_content_def)

lemma dom_replaced: "operation_offset ` set rs \<subseteq> dom m \<Longrightarrow> dom (replaced rs m) = dom m"
  by (induction rs arbitrary: m) (simp_all add: insert_absorb subset_insertI2 del: domIff)

lemma dom_restored: "operation_offset ` set rs \<subseteq> dom m \<Longrightarrow> dom (restored rs c m) = dom m"
  by (induction rs arbitrary: m) (simp_all add: insert_absorb subset_insertI2 del: domIff)

lemma replace_step_eq:
  "ops \<noteq> NULL \<Longrightarrow> ops_mem w ops = Some m \<Longrightarrow> m (operation_offset r) = Some v \<Longrightarrow>
   replace_step ops r w =
     Some (set_ops w ops (m(operation_offset r \<mapsto> replace_operation v r)))"
  by (simp add: replace_step_def read_op_def write_op_def ops_content_def)

lemma restore_step_eq:
  "ops \<noteq> NULL \<Longrightarrow> ops_mem w ops = Some m \<Longrightarrow> m (operation_offset r) = Some v \<Longrightarrow>
   c (operation_offset r) = Some u \<Longrightarrow>
   restore_step ops c r w =
     Some (set_ops w ops (m(operation_offset r \<mapsto> restore_operation v r u)))"
  by (simp add: restore_step_def read_op_def write_op_def ops_content_def)

lemma replacements_loop:
  assumes "ops \<noteq> NULL" and "ops_mem w ops = Some m" and "operation_offset ` set rs \<subseteq> dom m"
  shows "fold_opt (replace_step ops) rs w =
         Some (set_ops w ops (replaced rs m))"
  using assms
proof (induction rs arbitrary: w m)
  case Nil
  then show ?case by (simp add: fun_upd_idem)
next
  case (Cons r rs)
  then obtain v where v: "m (operation_offset r) = Some v" by auto
  obtain m' where m': "m' = m(operation_offset r \<mapsto> replace_operation v r)" by simp
  let ?w = "set_ops w ops (m')"
  have "operation_offset ` set rs \<subseteq> dom m'" using Cons.prems(3) m' by auto
  then have "fold_opt (replace_step ops) rs ?w =
             Some (set_ops ?w ops (replaced rs m'))"
    by (intro Cons.IH [of ?w m']) (simp_all add: Cons.prems)
  then show ?case by (simp add: replace_step_eq [where m = m, OF Cons.prems(1,2) v] v m')
qed

lemma restore_loop:
  assumes "ops \<noteq> NULL" and "ops_mem w ops = Some m" and "operation_offset ` set rs \<subseteq> dom m"
    and "operation_offset ` set rs \<subseteq> dom c"
  shows "fold_opt (restore_step ops c) rs w =
         Some (set_ops w ops (restored rs c m))"
  using assms
proof (induction rs arbitrary: w m)
  case Nil
  then show ?case by (simp add: fun_upd_idem)
next
  case (Cons r rs)
  then obtain v u where v: "m (operation_offset r) = Some v" and u: "c (operation_offset r) = Some u"
    by auto
  obtain m' where m': "m' = m(operation_offset r \<mapsto> restore_operation v r u)" by simp
  let ?w = "set_ops w ops (m')"
  have "operation_offset ` set rs \<subseteq> dom m'" using Cons.prems(3) m' by auto
  then have "fold_opt (restore_step ops c) rs ?w =
             Some (set_ops ?w ops (restored rs c m'))"
    using Cons.prems(4) by (intro Cons.IH [of ?w m']) (simp_all add: Cons.prems)
  then show ?case by (simp add: restore_step_eq [where m = m and c = c, OF Cons.prems(1,2) v u] v u m')
qed

lemma valid_ops_upd:
  assumes "valid_ops R w q" and "R \<subseteq> dom m'"
  shows "valid_ops R (set_ops w ops (m')) q"
  using assms by (auto simp: valid_ops_def)

lemma valid_ops_cong: "ops_mem w' = ops_mem w \<Longrightarrow> valid_ops R w' q = valid_ops R w q"
  by (simp add: valid_ops_def)

lemma impl_ok_cong: "ops_mem w' = ops_mem w \<Longrightarrow> impl_ok R w' x = impl_ok R w x"
  by (cases x) (simp_all add: valid_ops_def)

lemma impl_ok_upd:
  assumes "impl_ok R w x" and "R \<subseteq> dom m'"
  shows "impl_ok R (set_ops w ops (m')) x"
  using assms by (cases x) (auto intro: valid_ops_upd)


subsection \<open>Search structures\<close>

lemma add_search_eq:
  "instrumentor_add_data_search hp i ds ops w =
     (if kedr_coi_hash_table_find_elem hp (ops_table_global w) ops \<noteq> None then Some (- EBUSY, i, w)
      else Some (0, i\<lparr>idata_table := table_add hp (idata_table i) ds ops\<rparr>,
                 w\<lparr>ops_table_global := table_add hp (ops_table_global w) ds ops\<rparr>))"
  by (simp add: instrumentor_add_data_search_def)

lemma add_search_busy:
  "kedr_coi_hash_table_find_elem hp (ops_table_global w) ops \<noteq> None \<Longrightarrow>
   instrumentor_add_data_search hp i ds ops w = Some (- EBUSY, i, w)"
  by (simp add: add_search_eq)

lemma add_search_ok:
  "kedr_coi_hash_table_find_elem hp (ops_table_global w) ops = None \<Longrightarrow>
   instrumentor_add_data_search hp i ds ops w =
     Some (0, i\<lparr>idata_table := table_add hp (idata_table i) ds ops\<rparr>,
              w\<lparr>ops_table_global := table_add hp (ops_table_global w) ds ops\<rparr>)"
  by (simp add: add_search_eq)

lemma remove_search_eq:
  assumes "table_del (idata_table i) ds = Some t" and "table_del (ops_table_global w) ds = Some g"
  shows "instrumentor_remove_data_search hp i ds w =
         Some (i\<lparr>idata_table := t\<rparr>, w\<lparr>ops_table_global := g\<rparr>)"
  by (simp add: instrumentor_remove_data_search_def assms)

lemma search_add:
  assumes "search_ok hp t g E" and "kedr_coi_hash_table_find_elem hp g k = None"
    and "ds \<notin> fst ` entries g"
  shows "search_ok hp (table_add hp t ds k) (table_add hp g ds k) (insert (ds, k) E)"
    and "entries (table_add hp g ds k) = insert (ds, k) (entries g)"
proof -
  have t: "table_inv hp t" and g: "table_inv hp g" "unique_keys (entries g)"
    and E: "entries t = E" "E \<subseteq> entries g"
    using assms(1) by (auto simp: search_ok_def)
  have "ds \<notin> fst ` entries t" using assms(3) E by blast
  then show "search_ok hp (table_add hp t ds k) (table_add hp g ds k) (insert (ds, k) E)"
    using t g E assms(2,3)
    by (auto simp: search_ok_def table_inv_add kedr_table.ents_add kedr_table.unique_add
        simp del: kedr_table.ents_add intro!: kedr_table.unique_add)
      (auto simp: kedr_table.ents_add unique_keys_insert dest: kedr_table.lookup_None)
  show "entries (table_add hp g ds k) = insert (ds, k) (entries g)"
    using g by (simp add: kedr_table.ents_add)
qed

lemma search_del:
  assumes "search_ok hp t g E" and "(ds, k) \<in> E"
  shows "\<exists>t' g'. table_del t ds = Some t' \<and> table_del g ds = Some g' \<and>
           search_ok hp t' g' (E - {(ds, k)}) \<and> entries g' = entries g - {(ds, k)}"
proof -
  have t: "table_inv hp t" and g: "table_inv hp g" "unique_keys (entries g)"
    and E: "entries t = E" "E \<subseteq> entries g"
    using assms(1) by (auto simp: search_ok_def)
  have in_g: "(ds, k) \<in> entries g" and in_t: "(ds, k) \<in> entries t" using assms(2) E by auto
  from kedr_table.del_exists [OF in_t] obtain t' where t': "table_del t ds = Some t'" by blast
  from kedr_table.del_exists [OF in_g] obtain g' where g': "table_del g ds = Some g'" by blast
  have once: "fst x \<noteq> ds \<longleftrightarrow> x \<noteq> (ds, k)" if "x \<in> entries g" for x
    using kedr_table.elem_once [OF g(1) in_g, of "snd x"] that by (cases x) auto
  then have "{x \<in> entries g. fst x \<noteq> ds} = entries g - {(ds, k)}" by blast
  then have eg: "entries g' = entries g - {(ds, k)}" using kedr_table.ents_del [OF g'] by simp
  have "{x \<in> E. fst x \<noteq> ds} = E - {(ds, k)}" using once E by blast
  then have "entries t' = E - {(ds, k)}" using kedr_table.ents_del [OF t'] E by simp
  with t t' g g' E eg show ?thesis
    by (auto simp: search_ok_def intro: kedr_table.inv_del unique_keys_subset)
qed

lemma search_entries_iff [simp]:
  "((d, f), k) \<in> search_entries m \<longleftrightarrow> (\<exists>x. m d = Some x \<and> (f, k) \<in> impl_keys (impl x))"
  by (simp add: search_entries_def)

lemma search_entries_set:
  "m d = None \<Longrightarrow> search_entries (m(d \<mapsto> x)) =
     search_entries m \<union> {((d, f), k) | f k. (f, k) \<in> impl_keys (impl x)}"
  by (auto simp: set_eq_iff)

lemma search_entries_refs:
  "m d = Some x \<Longrightarrow> impl y = impl x \<Longrightarrow> search_entries (m(d \<mapsto> y)) = search_entries m"
  by (auto simp: set_eq_iff)

lemma search_entries_free:
  "m d = Some x \<Longrightarrow> search_entries (m(d := None)) =
     search_entries m - {((d, f), k) | f k. (f, k) \<in> impl_keys (impl x)}"
  by (auto simp: set_eq_iff)

subsection \<open>Allocation\<close>

lemma kmalloc_inv:
  assumes "instr_inv hp R H i w" and "world_kmalloc w = (a, w')"
  shows "instr_inv hp R H i w'" and "w' = w\<lparr>pending := pending w'\<rparr>"
    and "\<And>p. a = Some p \<Longrightarrow> fresh_ptr i w p \<and> fresh_ptr i w' p \<and> Some p \<notin> set (pending w')"
proof -
  obtain as where w': "w' = w\<lparr>pending := as\<rparr>" and as: "kmalloc (pending w) = (a, as)"
    using assms(2) by (auto simp: world_kmalloc_def split: prod.splits)
  have c: "pending w = [] \<and> a = None \<and> as = [] \<or> pending w = a # as"
    using as by (auto simp: kmalloc_def split: list.splits)
  show "w' = w\<lparr>pending := pending w'\<rparr>" by (simp add: w')
  have fresh: "fresh_ptr i w' p = fresh_ptr i w p" for p by (simp add: fresh_ptr_def w')
  have ok: "allocs_ok i w" using assms(1) by (simp add: instr_inv_def)
  with c show "\<And>p. a = Some p \<Longrightarrow> fresh_ptr i w p \<and> fresh_ptr i w' p \<and> Some p \<notin> set (pending w')"
    unfolding fresh by (auto simp: allocs_ok_def w')
  from ok c have "allocs_ok i w'" unfolding allocs_ok_def fresh by (auto simp: w' split: if_splits)
  with assms(1) show "instr_inv hp R H i w'"
    by (simp add: instr_inv_def tables_ok_def mem_ok_def w' impl_ok_cong [of w' w])
      (metis (no_types, lifting) impl_ok_cong select_convs(1) surjective update_convs(3) w')
qed


subsection \<open>Adding an instrument_data object\<close>

text \<open>
  The common last part of both create functions: the search structures of the new object d
  are in the tables (t and g), its structures in memory are set up.
\<close>

lemma watch_count_cong: "watch_datas j = watch_datas i \<Longrightarrow> watch_count j d = watch_count i d"
  by (simp add: watch_count_def)

lemma refs_okD: "refs_ok H i \<Longrightarrow> idatas i d = Some x \<Longrightarrow> count_ok H i d x"
  by (simp add: refs_ok_def)

lemma refs_ok_new:
  assumes ok: "refs_ok H i" and "idatas i d = None" and wd: "watch_datas j = watch_datas i"
    and j: "idatas j = (idatas i)(d \<mapsto> apf_instrument_data_init y)"
  shows "refs_ok (add_mset d H) j"
proof -
  have H: "count H d = 0" using assms(1,2) by (auto simp: refs_ok_def not_in_iff [symmetric])
  have W: "{wd. watch_datas i wd = Some d} = {}"
    using assms(1,2) by (force simp: refs_ok_def ran_def)
  have "count_ok (add_mset d H) j e x" if "idatas j e = Some x" for e x
  proof (cases "e = d")
    case True
    with that show ?thesis by (auto simp: j apf_instrument_data_init_def watch_count_def count_ok_def wd W H)
  next
    case False
    with that have "idatas i e = Some x" by (simp add: j)
    from refs_okD [OF ok this] False show ?thesis by (simp add: count_ok_def watch_count_def wd)
  qed
  moreover have "dom (idatas j) = insert d (dom (idatas i))" by (simp add: j)
  ultimately show ?thesis using ok by (auto simp: refs_ok_def wd)
qed

lemma instr_inv_new:
  assumes inv: "instr_inv hp R H i w"
    and d: "fresh_ptr i w d" "Some d \<notin> set (pending w)"
    and s: "search_ok hp t g (search_entries (idatas i) \<union> {((d, f), k) | f k. (f, k) \<in> impl_keys y})"
    and g: "entries g = entries (ops_table_global w) \<union> {((d, f), k) | f k. (f, k) \<in> impl_keys y}"
    and y: "impl_ok R w' y"
    and w': "ops_table_global w' = g" "pending w' = pending w"
    and old: "\<And>x. impl_ok R w x \<Longrightarrow> impl_ok R w' x"
    and mem: "\<And>q. Some q \<in> set (pending w) \<Longrightarrow> ops_mem w' q = ops_mem w q"
    and keys: "\<And>f k. (f, k) \<in> impl_keys y \<Longrightarrow> Some k \<notin> set (pending w)"
  shows "instr_inv hp R (add_mset d H)
           (set_idata (i\<lparr>idata_table := t\<rparr>) d (apf_instrument_data_init y)) w'"
proof -
  let ?j = "set_idata (i\<lparr>idata_table := t\<rparr>) d (apf_instrument_data_init y)"
  note I = instr_invD [OF inv]
  have dn: "idatas i d = None" using d(1) by (auto simp: fresh_ptr_def)
  have "geometry_ok R ?j" using I(1) by (simp add: geometry_ok_def)
  moreover have "tables_ok hp ?j w'"
    using I(2) s w' dn by (simp add: tables_ok_def objects_ok_def search_entries_set
        apf_instrument_data_init_def)
  moreover have "refs_ok (add_mset d H) ?j" by (rule refs_ok_new [OF I(3) dn]) simp_all
  moreover have "mem_ok R ?j w'"
    using I(4) y old by (auto simp: mem_ok_def apf_instrument_data_init_def)
  moreover have "fresh_ptr ?j w' q" if q: "Some q \<in> set (pending w)" for q
  proof -
    have "fresh_ptr i w q" using I(5) q by (simp add: allocs_ok_def)
    moreover have "q \<noteq> d" using d(2) q by auto
    ultimately show ?thesis using mem [OF q] keys q by (auto simp: fresh_ptr_def w' g domIff)
  qed
  then have "allocs_ok ?j w'" using I(5) w' by (simp add: allocs_ok_def)
  ultimately show ?thesis by (simp add: instr_inv_def)
qed

text \<open>The contract of instrumentor_get_data for operations that are not instrumented yet.\<close>

fun at_place :: "idata_impl \<Rightarrow> bool" where
  "at_place (Ap_idata p c) = True"
| "at_place (Uc_idata p q) = False"

fun created_mem :: "kedr_coi_instrumentor \<Rightarrow> ptr \<Rightarrow> world \<Rightarrow> world \<Rightarrow> idata_impl \<Rightarrow> bool" where
  "created_mem i ops w w' (Ap_idata p c) \<longleftrightarrow>
     p = ops \<and> (\<exists>m. ops_mem w ops = Some m \<and> c = memcpy_ops (operations_struct_size i) m \<and>
       ops_mem w' = (ops_mem w)(ops \<mapsto> replaced (for_each_replacement (replacements i)) m))"
| "created_mem i ops w w' (Uc_idata p rep) \<longleftrightarrow>
     p = ops \<and> ops_mem w rep = None \<and> rep \<noteq> NULL \<and>
     (\<exists>c. (if ops = NULL then c = memset_ops (operations_struct_size i)
          else \<exists>m. ops_mem w ops = Some m \<and> c = memcpy_ops (operations_struct_size i) m) \<and>
       ops_mem w' = (ops_mem w)(rep \<mapsto> replaced (for_each_replacement (replacements i)) c))"

definition created ::
  "hash_fn \<Rightarrow> size_t set \<Rightarrow> ptr multiset \<Rightarrow> bool \<Rightarrow> ptr \<Rightarrow> kedr_coi_instrumentor \<Rightarrow> world \<Rightarrow>
   int + ptr \<Rightarrow> kedr_coi_instrumentor \<Rightarrow> world \<Rightarrow> bool" where
  "created hp R H place ops i w r i' w' \<longleftrightarrow>
     (case r of
        Inl err \<Rightarrow> err \<in> {- ENOMEM, - EBUSY} \<and> i' = i \<and> w' = w\<lparr>pending := pending w'\<rparr> \<and>
                   instr_inv hp R H i' w'
      | Inr d \<Rightarrow> idatas i d = None \<and> (\<forall>f. (d, f) \<notin> fst ` entries (ops_table_global w)) \<and>
          (\<exists>t y. i' = set_idata (i\<lparr>idata_table := t\<rparr>) d (apf_instrument_data_init y) \<and>
             instr_inv hp R (add_mset d H) i' w' \<and> at_place y = place \<and>
             entries (ops_table_global w') = entries (ops_table_global w) \<union> idata_marks d y \<and>
             created_mem i ops w w' y))"

lemma created_Inl:
  "err \<in> {- ENOMEM, - EBUSY} \<Longrightarrow> w' = w\<lparr>pending := pending w'\<rparr> \<Longrightarrow> instr_inv hp R H i w' \<Longrightarrow>
   created hp R H place ops i w (Inl err) i w'"
  by (simp add: created_def)

lemma created_Inr:
  "idatas i d = None \<Longrightarrow> (\<And>f. (d, f) \<notin> fst ` entries (ops_table_global w)) \<Longrightarrow>
   instr_inv hp R (add_mset d H)
     (set_idata (i\<lparr>idata_table := t\<rparr>) d (apf_instrument_data_init y)) w' \<Longrightarrow>
   entries (ops_table_global w') = entries (ops_table_global w) \<union> idata_marks d y \<Longrightarrow>
   created_mem i ops w w' y \<Longrightarrow>
   created hp R H (at_place y) ops i w (Inr d)
     (set_idata (i\<lparr>idata_table := t\<rparr>) d (apf_instrument_data_init y)) w'"
  unfolding created_def sum.case by blast

lemma fresh_search: "fresh_ptr i w d \<Longrightarrow> (d, f) \<notin> fst ` entries (ops_table_global w)"
  by (auto simp: fresh_ptr_def)

lemma dom_replaced_R:
  "geometry_ok R i \<Longrightarrow> R \<subseteq> dom m \<Longrightarrow>
   dom (replaced (for_each_replacement (replacements i)) m) = dom m"
  by (rule dom_replaced) (auto simp: geometry_ok_def repl_offsets_def)

lemma dom_memcpy: "geometry_ok R i \<Longrightarrow> R \<subseteq> dom m \<Longrightarrow> R \<subseteq> dom (memcpy_ops (operations_struct_size i) m)"
  by (auto simp: geometry_ok_def memcpy_ops_def subset_iff)

lemma dom_memset: "geometry_ok R i \<Longrightarrow> R \<subseteq> dom (memset_ops (operations_struct_size i))"
  by (auto simp: geometry_ok_def memset_ops_def)

lemma replace_loop_R:
  assumes "geometry_ok R i" and "ops \<noteq> NULL" and "ops_mem w ops = Some m" and "R \<subseteq> dom m"
  shows "fold_opt (replace_step ops) (for_each_replacement (replacements i)) w =
         Some (set_ops w ops (replaced (for_each_replacement (replacements i)) m))"
  by (rule replacements_loop [OF assms(2,3)]) (use assms(1,4) in \<open>auto simp: geometry_ok_def repl_offsets_def\<close>)

end
