(* ===== verification/Instr_Idata.thy ===== *)
theory Instr_Idata
  imports Instr_Inv
begin

text \<open>
  The operations on instrument_data objects keep the invariant and never crash: creation at
  place and with a copy, getting (find or create), and dropping a reference, with
  destruction when the last one goes.
\<close>

subsection \<open>Creation\<close>

lemma ops_content_eq: "p \<noteq> NULL \<Longrightarrow> ops_content w p = ops_mem w p"
  by (simp add: ops_content_def)

lemma valid_not_pending:
  "valid_ops R w p \<Longrightarrow> allocs_ok i w \<Longrightarrow> Some p \<notin> set (pending w)"
  by (auto simp: valid_ops_def allocs_ok_def fresh_ptr_def)

lemma Ap_key_set:
  "{((d, f), k) | f k. (f, k) \<in> impl_keys (Ap_idata p c)} = {((d, ap_ops_elem), p)}"
  by auto

lemma Uc_key_set:
  "{((d, f), k) | f k. (f, k) \<in> impl_keys (Uc_idata p q)} =
     {((d, uc_ops_orig_elem), p), ((d, uc_ops_repl_elem), q)}"
  by auto

lemma ap_create_ok:
  assumes inv: "instr_inv hp R H i w" and v: "valid_ops R w ops"
  shows "\<exists>r i' w'. ap_idata_create hp i ops w = Some (r, i', w') \<and>
           created hp R H True ops i w r i' w'"
proof -
  obtain m where m: "ops \<noteq> NULL" "ops_mem w ops = Some m" "R \<subseteq> dom m"
    using v by (auto simp: valid_ops_def)
  note geo = instr_invD(1) [OF inv]
  obtain a w1 where k1: "world_kmalloc w = (a, w1)" by (cases "world_kmalloc w")
  note i1 = kmalloc_inv [OF inv k1]
  obtain b w2 where k2: "world_kmalloc w1 = (b, w2)" by (cases "world_kmalloc w1")
  note i2 = kmalloc_inv [OF i1(1) k2]
  have eq1: "ops_mem w1 = ops_mem w" "ops_table_global w1 = ops_table_global w"
    by (subst i1(2), simp)+
  have eq2: "ops_mem w2 = ops_mem w" "ops_table_global w2 = ops_table_global w"
    by (subst i2(2), simp add: eq1)+
  have w1: "w1 = w\<lparr>pending := pending w1\<rparr>" by (rule i1(2))
  have w2: "w2 = w\<lparr>pending := pending w2\<rparr>" using i1(2) i2(2)
    by (metis (no_types, lifting) eq2 select_convs(3) surjective update_convs(3))
  show ?thesis
  proof (cases a)
    case None
    have "created hp R H True ops i w (Inl (- ENOMEM)) i w1"
      by (rule created_Inl [OF _ w1 i1(1)]) simp
    then show ?thesis by (simp add: ap_idata_create_def k1 None)
  next
    case a: (Some d)
    show ?thesis
    proof (cases b)
      case None
      have "created hp R H True ops i w (Inl (- ENOMEM)) i w2"
        by (rule created_Inl [OF _ w2 i2(1)]) simp
      then show ?thesis by (simp add: ap_idata_create_def k1 k2 a None)
    next
      case b: (Some buf)
      show ?thesis
      proof (cases "kedr_coi_hash_table_find_elem hp (ops_table_global w2) ops = None")
        case False
        have "created hp R H True ops i w (Inl (- EBUSY)) i w2"
          by (rule created_Inl [OF _ w2 i2(1)]) simp
        with False show ?thesis
          by (simp add: ap_idata_create_def k1 k2 a b add_search_busy EBUSY_def)
      next
        case True
        let ?t = "table_add hp (idata_table i) (d, ap_ops_elem) ops"
        let ?g = "table_add hp (ops_table_global w2) (d, ap_ops_elem) ops"
        let ?y = "Ap_idata ops (memcpy_ops (operations_struct_size i) m)"
        let ?m = "replaced (for_each_replacement (replacements i)) m"
        let ?w3 = "w2\<lparr>ops_table_global := ?g\<rparr>"
        let ?i' = "set_idata (i\<lparr>idata_table := ?t\<rparr>) d (apf_instrument_data_init ?y)"
        have d: "fresh_ptr i w2 d" "Some d \<notin> set (pending w2)"
          using i1(3) [OF a] k2 eq1 eq2 a
          by (auto simp: fresh_ptr_def world_kmalloc_def kmalloc_def split: prod.splits list.splits)
        have loop: "fold_opt (replace_step ops) (for_each_replacement (replacements i)) ?w3 =
                    Some (set_ops ?w3 ops ?m)"
          by (rule replace_loop_R [OF geo]) (simp_all add: m eq2)
        have run: "ap_idata_create hp i ops w = Some (Inr d, ?i', set_ops ?w3 ops ?m)"
          by (simp add: ap_idata_create_def k1 k2 a b add_search_ok [OF True] ops_content_eq m eq2(1) loop)
        have s0: "search_ok hp (idata_table i) (ops_table_global w2) (search_entries (idatas i))"
          using instr_invD(2) [OF inv] by (simp add: tables_ok_def eq2)
        note s = search_add [OF s0 True fresh_search [OF d(1)], of ap_ops_elem]
        have dm: "R \<subseteq> dom ?m" using dom_replaced_R [OF geo m(3)] m(3) by simp
        have "instr_inv hp R (add_mset d H) ?i' (set_ops ?w3 ops ?m)"
        proof (rule instr_inv_new [OF i2(1) d])
          show "search_ok hp ?t ?g (search_entries (idatas i) \<union>
                 {((d, f), k) |f k. (f, k) \<in> impl_keys ?y})"
            unfolding Ap_key_set using s(1) by simp
          show "entries ?g = entries (ops_table_global w2) \<union>
                 {((d, f), k) |f k. (f, k) \<in> impl_keys ?y}"
            unfolding Ap_key_set using s(2) by simp
          show "impl_ok R (set_ops ?w3 ops ?m) ?y"
            using dm dom_memcpy [OF geo m(3)] m(1) by (simp add: valid_ops_def)
          show "impl_ok R (set_ops ?w3 ops ?m) x" if "impl_ok R w2 x" for x
            using that dm by (cases x) (auto simp: valid_ops_def)
          show "ops_mem (set_ops ?w3 ops ?m) q = ops_mem w2 q" if "Some q \<in> set (pending w2)" for q
            using that valid_not_pending [OF _ instr_invD(5) [OF i2(1)], of R ops] v
            by (auto simp: valid_ops_def eq2)
          show "Some k \<notin> set (pending w2)" if "(f, k) \<in> impl_keys ?y" for f k
            using that valid_not_pending [OF _ instr_invD(5) [OF i2(1)], of R ops] v
            by (auto simp: valid_ops_def eq2)
        qed simp_all
        moreover have "idatas i d = None" using d(1) by (auto simp: fresh_ptr_def)
        moreover have "(d, f) \<notin> fst ` entries (ops_table_global w)" for f
          using fresh_search [OF d(1)] by (simp add: eq2)
        moreover have "entries (ops_table_global (set_ops ?w3 ops ?m)) =
            entries (ops_table_global w) \<union> idata_marks d ?y"
          unfolding Ap_key_set using s(2) by (simp add: eq2)
        moreover have "created_mem i ops w (set_ops ?w3 ops ?m) ?y" by (simp add: m(2) eq2(1))
        ultimately have "created hp R H (at_place ?y) ops i w (Inr d) ?i' (set_ops ?w3 ops ?m)"
          by (intro created_Inr)
        with run show ?thesis by simp
      qed
    qed
  qed
qed

lemma uc_create_ok:
  assumes inv: "instr_inv hp R H i w" and v: "ops \<noteq> NULL \<Longrightarrow> valid_ops R w ops"
  shows "\<exists>r i' w'. uc_idata_create hp i ops w = Some (r, i', w') \<and>
           created hp R H False ops i w r i' w'"
proof -
  let ?sz = "operations_struct_size i"
  note geo = instr_invD(1) [OF inv]
  obtain c where c: "(if ops \<noteq> NULL then map_option (memcpy_ops ?sz) (ops_mem w ops)
       else Some (memset_ops ?sz)) = Some c" and dc: "R \<subseteq> dom c"
    and cspec: "if ops = NULL then c = memset_ops ?sz
          else \<exists>m. ops_mem w ops = Some m \<and> c = memcpy_ops ?sz m"
    using v dom_memcpy [OF geo] dom_memset [OF geo] by (cases "ops = NULL") (auto simp: valid_ops_def)
  obtain a w1 where k1: "world_kmalloc w = (a, w1)" by (cases "world_kmalloc w")
  note i1 = kmalloc_inv [OF inv k1]
  obtain b w2 where k2: "world_kmalloc w1 = (b, w2)" by (cases "world_kmalloc w1")
  note i2 = kmalloc_inv [OF i1(1) k2]
  have eq1: "ops_mem w1 = ops_mem w" "ops_table_global w1 = ops_table_global w"
    by (subst i1(2), simp)+
  have eq2: "ops_mem w2 = ops_mem w" "ops_table_global w2 = ops_table_global w"
    by (subst i2(2), simp add: eq1)+
  have w1: "w1 = w\<lparr>pending := pending w1\<rparr>" by (rule i1(2))
  have w2: "w2 = w\<lparr>pending := pending w2\<rparr>" using i1(2) i2(2)
    by (metis (no_types, lifting) eq2 select_convs(3) surjective update_convs(3))
  show ?thesis
  proof (cases a)
    case None
    have "created hp R H False ops i w (Inl (- ENOMEM)) i w1"
      by (rule created_Inl [OF _ w1 i1(1)]) simp
    then show ?thesis by (simp add: uc_idata_create_def k1 None)
  next
    case a: (Some d)
    show ?thesis
    proof (cases b)
      case None
      have "created hp R H False ops i w (Inl (- ENOMEM)) i w2"
        by (rule created_Inl [OF _ w2 i2(1)]) simp
      then show ?thesis by (simp add: uc_idata_create_def k1 k2 a None)
    next
      case b: (Some rep)
      let ?w3 = "set_ops w2 rep c"
      have d: "fresh_ptr i w2 d" "Some d \<notin> set (pending w2)" "d \<noteq> rep"
        using i1(3) [OF a] k2 eq1 eq2 a b
        by (auto simp: fresh_ptr_def world_kmalloc_def kmalloc_def split: prod.splits list.splits)
      have rep: "fresh_ptr i w2 rep" "Some rep \<notin> set (pending w2)" using i2(3) [OF b] by auto
      have rep0: "rep \<noteq> NULL" "ops_mem w rep = None" using rep by (auto simp: fresh_ptr_def eq2)
      have ne: "ops \<noteq> rep" using rep0 v by (auto simp: valid_ops_def)
      have cont: "(if ops \<noteq> NULL then map_option (memcpy_ops ?sz) (ops_content w2 ops)
          else Some (memset_ops ?sz)) = Some c" using c by (auto simp: ops_content_def eq2)
      have free: "free_ops ?w3 rep = w2" using rep0 eq2 by simp
      show ?thesis
      proof (cases "kedr_coi_hash_table_find_elem hp (ops_table_global ?w3) ops = None")
        case False
        have "uc_idata_create hp i ops w = Some (Inl (- EBUSY), i, w2)"
          by (simp add: uc_idata_create_def k1 k2 a b cont add_search_busy [OF False] free EBUSY_def
              del: if_split_asm)
        moreover have "created hp R H False ops i w (Inl (- EBUSY)) i w2"
          by (rule created_Inl [OF _ w2 i2(1)]) simp
        ultimately show ?thesis by blast
      next
        case True
        let ?t = "table_add hp (idata_table i) (d, uc_ops_orig_elem) ops"
        let ?g = "table_add hp (ops_table_global w2) (d, uc_ops_orig_elem) ops"
        let ?w4 = "?w3\<lparr>ops_table_global := ?g\<rparr>"
        let ?t' = "table_add hp ?t (d, uc_ops_repl_elem) rep"
        let ?g' = "table_add hp ?g (d, uc_ops_repl_elem) rep"
        let ?y = "Uc_idata ops rep"
        let ?m = "replaced (for_each_replacement (replacements i)) c"
        let ?w5 = "?w4\<lparr>ops_table_global := ?g'\<rparr>"
        let ?i' = "set_idata (i\<lparr>idata_table := ?t'\<rparr>) d (apf_instrument_data_init ?y)"
        have s0: "search_ok hp (idata_table i) (ops_table_global w2) (search_entries (idatas i))"
          using instr_invD(2) [OF inv] by (simp add: tables_ok_def eq2)
        have g2: "kedr_coi_hash_table_find_elem hp (ops_table_global w2) ops = None"
          using True by simp
        note s1 = search_add [OF s0 g2 fresh_search [OF d(1)], of uc_ops_orig_elem]
        have inv_g: "table_inv hp ?g" using s1(1) by (simp add: search_ok_def)
        have "rep \<notin> snd ` entries ?g" using rep(1) s1(2) ne by (auto simp: fresh_ptr_def)
        then have f2: "kedr_coi_hash_table_find_elem hp ?g rep = None"
          using kedr_table.lookup_None_iff [OF inv_g] by blast
        have n2: "(d, uc_ops_repl_elem) \<notin> fst ` entries ?g"
          using fresh_search [OF d(1), of uc_ops_repl_elem] s1(2) by auto
        note s2 = search_add [OF s1(1) f2 n2]
        have f2': "kedr_coi_hash_table_find_elem hp (ops_table_global ?w4) rep = None"
          using f2 by simp
        have loop: "fold_opt (replace_step rep) (for_each_replacement (replacements i)) ?w5 =
                    Some (set_ops ?w5 rep ?m)"
          by (rule replace_loop_R [OF geo rep0(1) _ dc]) simp
        have run: "uc_idata_create hp i ops w = Some (Inr d, ?i', set_ops ?w5 rep ?m)"
          using loop by (simp add: uc_idata_create_def k1 k2 a b cont add_search_ok [OF True]
              add_search_ok [OF f2'] del: if_split_asm)
        have dm: "R \<subseteq> dom ?m" using dom_replaced_R [OF geo dc] dc by simp
        have "instr_inv hp R (add_mset d H) ?i' (set_ops ?w5 rep ?m)"
        proof (rule instr_inv_new [OF i2(1) d(1,2)])
          show "search_ok hp ?t' ?g' (search_entries (idatas i) \<union>
                 {((d, f), k) |f k. (f, k) \<in> impl_keys ?y})"
            unfolding Uc_key_set using s2(1) by (simp add: insert_commute)
          show "entries ?g' = entries (ops_table_global w2) \<union>
                 {((d, f), k) |f k. (f, k) \<in> impl_keys ?y}"
            unfolding Uc_key_set using s2(2) s1(2) by (simp add: insert_commute)
          show "impl_ok R (set_ops ?w5 rep ?m) ?y"
            using dm rep0(1) v ne by (auto simp: valid_ops_def eq2)
          show "impl_ok R (set_ops ?w5 rep ?m) x" if "impl_ok R w2 x" for x
            using that dm by (cases x) (auto simp: valid_ops_def)
          show "ops_mem (set_ops ?w5 rep ?m) q = ops_mem w2 q" if "Some q \<in> set (pending w2)" for q
            using that rep(2) by auto
          show "Some k \<notin> set (pending w2)" if "(f, k) \<in> impl_keys ?y" for f k
          proof -
            have "Some ops \<notin> set (pending w2)"
              using v valid_not_pending [OF _ instr_invD(5) [OF i2(1)], of R ops]
                instr_invD(5) [OF i2(1)]
              by (cases "ops = NULL") (auto simp: valid_ops_def eq2 allocs_ok_def fresh_ptr_def)
            then show ?thesis using that rep(2) by auto
          qed
        qed simp_all
        moreover have "idatas i d = None" using d(1) by (auto simp: fresh_ptr_def)
        moreover have "(d, f) \<notin> fst ` entries (ops_table_global w)" for f
          using fresh_search [OF d(1)] by (simp add: eq2)
        moreover have "entries (ops_table_global (set_ops ?w5 rep ?m)) =
            entries (ops_table_global w) \<union> idata_marks d ?y"
          unfolding Uc_key_set using s2(2) s1(2) by (simp add: insert_commute eq2)
        moreover have "created_mem i ops w (set_ops ?w5 rep ?m) ?y"
          unfolding created_mem.simps using rep0 cspec
          by (intro conjI exI [of _ c]) (simp_all add: eq2(1))
        ultimately have "created hp R H (at_place ?y) ops i w (Inr d) ?i' (set_ops ?w5 rep ?m)"
          by (intro created_Inr)
        with run show ?thesis by simp
      qed
    qed
  qed
qed

subsection \<open>Destruction\<close>

fun destroyed_mem :: "bool \<Rightarrow> kedr_coi_instrumentor \<Rightarrow> world \<Rightarrow> world \<Rightarrow> idata_impl \<Rightarrow> bool" where
  "destroyed_mem restore i w w' (Ap_idata p c) \<longleftrightarrow>
     (\<exists>m. ops_mem w p = Some m \<and>
        ops_mem w' = (if restore
                      then (ops_mem w)(p \<mapsto> restored (for_each_replacement (replacements i)) c m)
                      else ops_mem w))"
| "destroyed_mem restore i w w' (Uc_idata p rep) \<longleftrightarrow> ops_mem w' = (ops_mem w)(rep := None)"

lemma impl_ok_free:
  "impl_ok R w x \<Longrightarrow> p \<notin> snd ` impl_keys x \<Longrightarrow> ops_mem w' = (ops_mem w)(p := None) \<Longrightarrow> impl_ok R w' x"
  by (cases x) (auto simp: valid_ops_def)

lemma search_key_owner:
  assumes "tables_ok hp i w" and "idatas i d = Some x" and "idatas i e = Some y"
    and "(f, k) \<in> impl_keys (impl x)" and "(f', k) \<in> impl_keys (impl y)"
  shows "d = e"
proof -
  have E: "((d, f), k) \<in> search_entries (idatas i)" "((e, f'), k) \<in> search_entries (idatas i)"
    using assms by auto
  have sub: "search_entries (idatas i) \<subseteq> entries (ops_table_global w)"
    and uq: "unique_keys (entries (ops_table_global w))"
    using assms(1) by (auto simp: tables_ok_def search_ok_def)
  have "(d, f) = (e, f')"
    by (rule unique_keysD [OF uq subsetD [OF sub E(1)] subsetD [OF sub E(2)]])
  then show ?thesis by simp
qed

lemma instr_inv_gone:
  assumes geo: "geometry_ok R i" and tab: "tables_ok hp i w" and al: "allocs_ok i w"
    and refs: "refs_ok H (free_idata i d)"
    and s: "search_ok hp t g (search_entries ((idatas i)(d := None)))"
    and g: "entries g \<subseteq> entries (ops_table_global w)"
    and mem: "\<And>e y. e \<noteq> d \<Longrightarrow> idatas i e = Some y \<Longrightarrow> impl_ok R w' (impl y)"
    and w': "ops_table_global w' = g" "pending w' = pending w"
    and dom: "dom (ops_mem w') \<subseteq> dom (ops_mem w)"
  shows "instr_inv hp R H (free_idata (i\<lparr>idata_table := t\<rparr>) d) w'"
proof -
  let ?j = "free_idata (i\<lparr>idata_table := t\<rparr>) d"
  have "geometry_ok R ?j" using geo by (simp add: geometry_ok_def)
  moreover have "tables_ok hp ?j w'" using tab s w' by (simp add: tables_ok_def objects_ok_def)
  moreover have "refs_ok H ?j"
    using refs by (auto simp: refs_ok_def count_ok_def watch_count_def split: if_splits)
  moreover have "mem_ok R ?j w'" using mem by (auto simp: mem_ok_def split: if_splits)
  moreover have "fresh_ptr ?j w' q" if "fresh_ptr i w q" for q
    using that g dom by (force simp: fresh_ptr_def w')
  then have "allocs_ok ?j w'" using al w' by (simp add: allocs_ok_def)
  ultimately show ?thesis by (simp add: instr_inv_def)
qed

lemma ap_free_search:
  assumes tab: "tables_ok hp i w" and x: "idatas i d = Some x" "impl x = Ap_idata p c"
  shows "\<exists>t g. (\<forall>w'. ops_table_global w' = ops_table_global w \<longrightarrow>
            ap_idata_destroy_norestore hp i d w' =
              Some (free_idata (i\<lparr>idata_table := t\<rparr>) d, w'\<lparr>ops_table_global := g\<rparr>)) \<and>
          search_ok hp t g (search_entries ((idatas i)(d := None))) \<and>
          entries g = entries (ops_table_global w) - idata_marks d (impl x)"
proof -
  have s: "search_ok hp (idata_table i) (ops_table_global w) (search_entries (idatas i))"
    using tab by (simp add: tables_ok_def)
  have e: "((d, ap_ops_elem), p) \<in> search_entries (idatas i)" using x by simp
  from search_del [OF s e] obtain t g where
    del: "table_del (idata_table i) (d, ap_ops_elem) = Some t"
      "table_del (ops_table_global w) (d, ap_ops_elem) = Some g"
    and ok: "search_ok hp t g (search_entries (idatas i) - {((d, ap_ops_elem), p)})"
    and g: "entries g = entries (ops_table_global w) - {((d, ap_ops_elem), p)}" by blast
  have eq: "search_entries (idatas i) - {((d, ap_ops_elem), p)} =
        search_entries ((idatas i)(d := None))"
    unfolding search_entries_free [of "idatas i" d, OF x(1)] x(2) Ap_key_set ..
  show ?thesis
  proof (intro exI conjI allI impI)
    show "search_ok hp t g (search_entries ((idatas i)(d := None)))" using ok unfolding eq .
    show "entries g = entries (ops_table_global w) - idata_marks d (impl x)"
      unfolding x(2) Ap_key_set g ..
    fix w' :: world assume "ops_table_global w' = ops_table_global w"
    then show "ap_idata_destroy_norestore hp i d w' =
        Some (free_idata (i\<lparr>idata_table := t\<rparr>) d, w'\<lparr>ops_table_global := g\<rparr>)"
      by (simp add: ap_idata_destroy_norestore_def remove_search_eq [OF del(1)] del(2))
  qed
qed

lemma uc_free_search:
  assumes tab: "tables_ok hp i w" and x: "idatas i d = Some x" "impl x = Uc_idata p rep"
  shows "\<exists>t g. uc_idata_destroy hp i d rep w =
              Some (free_idata (i\<lparr>idata_table := t\<rparr>) d, free_ops (w\<lparr>ops_table_global := g\<rparr>) rep) \<and>
          search_ok hp t g (search_entries ((idatas i)(d := None))) \<and>
          entries g = entries (ops_table_global w) - idata_marks d (impl x)"
proof -
  let ?o = "((d, uc_ops_orig_elem), p)" and ?r = "((d, uc_ops_repl_elem), rep)"
  have s: "search_ok hp (idata_table i) (ops_table_global w) (search_entries (idatas i))"
    using tab by (simp add: tables_ok_def)
  have e: "?r \<in> search_entries (idatas i)" "?o \<in> search_entries (idatas i) - {?r}"
    using x by auto
  from search_del [OF s e(1)] obtain t g where
    del: "table_del (idata_table i) (d, uc_ops_repl_elem) = Some t"
      "table_del (ops_table_global w) (d, uc_ops_repl_elem) = Some g"
    and ok: "search_ok hp t g (search_entries (idatas i) - {?r})"
    and g: "entries g = entries (ops_table_global w) - {?r}" by blast
  from search_del [OF ok e(2)] obtain t' g' where
    del': "table_del t (d, uc_ops_orig_elem) = Some t'" "table_del g (d, uc_ops_orig_elem) = Some g'"
    and ok': "search_ok hp t' g' (search_entries (idatas i) - {?r} - {?o})"
    and g': "entries g' = entries g - {?o}" by blast
  have eq: "search_entries (idatas i) - {?r} - {?o} = search_entries ((idatas i)(d := None))"
    unfolding search_entries_free [of "idatas i" d, OF x(1)] x(2) Uc_key_set by blast
  show ?thesis
  proof (intro exI conjI)
    show "search_ok hp t' g' (search_entries ((idatas i)(d := None)))" using ok' unfolding eq .
    show "entries g' = entries (ops_table_global w) - idata_marks d (impl x)"
      unfolding x(2) Uc_key_set g' g by blast
    show "uc_idata_destroy hp i d rep w =
        Some (free_idata (i\<lparr>idata_table := t'\<rparr>) d, free_ops (w\<lparr>ops_table_global := g'\<rparr>) rep)"
      by (simp add: uc_idata_destroy_def remove_search_eq [OF del] remove_search_eq del')
  qed
qed

lemma destroy_ok:
  assumes geo: "geometry_ok R i" and tab: "tables_ok hp i w" and al: "allocs_ok i w"
    and mem: "mem_ok R i w" and refs: "refs_ok H (free_idata i d)" and x: "idatas i d = Some x"
  shows "\<exists>t w'. destroy_idata hp i d (impl x) w = Some (free_idata (i\<lparr>idata_table := t\<rparr>) d, w') \<and>
           instr_inv hp R H (free_idata (i\<lparr>idata_table := t\<rparr>) d) w' \<and>
           destroyed_mem True i w w' (impl x) \<and> pending w' = pending w \<and>
           entries (ops_table_global w') = entries (ops_table_global w) - idata_marks d (impl x)"
    and "\<exists>t w'. destroy_idata_norestore hp i d (impl x) w =
             Some (free_idata (i\<lparr>idata_table := t\<rparr>) d, w') \<and>
           instr_inv hp R H (free_idata (i\<lparr>idata_table := t\<rparr>) d) w' \<and>
           destroyed_mem False i w w' (impl x) \<and> pending w' = pending w \<and>
           entries (ops_table_global w') = entries (ops_table_global w) - idata_marks d (impl x)"
proof -
  have other: "impl_ok R w (impl y)" if "idatas i e = Some y" for e y
    using mem that by (simp add: mem_ok_def)
  have "(\<exists>t w'. destroy_idata hp i d (impl x) w = Some (free_idata (i\<lparr>idata_table := t\<rparr>) d, w') \<and>
           instr_inv hp R H (free_idata (i\<lparr>idata_table := t\<rparr>) d) w' \<and>
           destroyed_mem True i w w' (impl x) \<and> pending w' = pending w \<and>
           entries (ops_table_global w') = entries (ops_table_global w) - idata_marks d (impl x)) \<and>
        (\<exists>t w'. destroy_idata_norestore hp i d (impl x) w =
             Some (free_idata (i\<lparr>idata_table := t\<rparr>) d, w') \<and>
           instr_inv hp R H (free_idata (i\<lparr>idata_table := t\<rparr>) d) w' \<and>
           destroyed_mem False i w w' (impl x) \<and> pending w' = pending w \<and>
           entries (ops_table_global w') = entries (ops_table_global w) - idata_marks d (impl x))"
  proof (cases "impl x")
    case ap: (Ap_idata p c)
    obtain m where m: "p \<noteq> NULL" "ops_mem w p = Some m" "R \<subseteq> dom m" "R \<subseteq> dom c"
      using other [OF x] by (auto simp: ap valid_ops_def)
    let ?rs = "for_each_replacement (replacements i)"
    let ?m = "restored ?rs c m"
    from ap_free_search [OF tab x ap] obtain t g where
      run: "\<And>w'. ops_table_global w' = ops_table_global w \<Longrightarrow>
            ap_idata_destroy_norestore hp i d w' =
              Some (free_idata (i\<lparr>idata_table := t\<rparr>) d, w'\<lparr>ops_table_global := g\<rparr>)"
      and s: "search_ok hp t g (search_entries ((idatas i)(d := None)))"
      and gm: "entries g = entries (ops_table_global w) - idata_marks d (impl x)" by blast
    have g: "entries g \<subseteq> entries (ops_table_global w)" unfolding gm by blast
    have offs: "operation_offset ` set ?rs \<subseteq> R" using geo by (simp add: geometry_ok_def repl_offsets_def)
    have loop: "fold_opt (restore_step p c) ?rs w = Some (set_ops w p ?m)"
      by (rule restore_loop [OF m(1,2)]) (use offs m in auto)
    have "dom ?m = dom m" by (rule dom_restored) (use offs m in auto)
    with m(3) have dm: "R \<subseteq> dom ?m" by simp
    have "destroy_idata hp i d (impl x) w =
            Some (free_idata (i\<lparr>idata_table := t\<rparr>) d, (set_ops w p ?m)\<lparr>ops_table_global := g\<rparr>)"
      by (simp add: ap ap_idata_destroy_def loop run)
    moreover have "instr_inv hp R H (free_idata (i\<lparr>idata_table := t\<rparr>) d)
        ((set_ops w p ?m)\<lparr>ops_table_global := g\<rparr>)"
    proof (rule instr_inv_gone [OF geo tab al refs s g])
      fix e y assume "idatas i e = Some y"
      from other [OF this] dm
      show "impl_ok R ((set_ops w p ?m)\<lparr>ops_table_global := g\<rparr>) (impl y)"
        by (cases "impl y") (auto simp: valid_ops_def)
    qed (use m in auto)
    moreover have "destroy_idata_norestore hp i d (impl x) w =
            Some (free_idata (i\<lparr>idata_table := t\<rparr>) d, w\<lparr>ops_table_global := g\<rparr>)"
      by (simp add: ap run)
    moreover have "instr_inv hp R H (free_idata (i\<lparr>idata_table := t\<rparr>) d) (w\<lparr>ops_table_global := g\<rparr>)"
    proof (rule instr_inv_gone [OF geo tab al refs s g])
      fix e y assume "idatas i e = Some y"
      from other [OF this] show "impl_ok R (w\<lparr>ops_table_global := g\<rparr>) (impl y)"
        by (cases "impl y") (auto simp: valid_ops_def)
    qed auto
    moreover have "destroyed_mem True i w ((set_ops w p ?m)\<lparr>ops_table_global := g\<rparr>) (impl x)"
      "destroyed_mem False i w (w\<lparr>ops_table_global := g\<rparr>) (impl x)" using m(2) by (simp_all add: ap)
    moreover have
      "entries (ops_table_global ((set_ops w p ?m)\<lparr>ops_table_global := g\<rparr>)) =
         entries (ops_table_global w) - idata_marks d (impl x)"
      "entries (ops_table_global (w\<lparr>ops_table_global := g\<rparr>)) =
         entries (ops_table_global w) - idata_marks d (impl x)"
      "pending ((set_ops w p ?m)\<lparr>ops_table_global := g\<rparr>) = pending w"
      "pending (w\<lparr>ops_table_global := g\<rparr>) = pending w"
      using gm by simp_all
    ultimately show ?thesis by blast
  next
    case uc: (Uc_idata p rep)
    from uc_free_search [OF tab x uc] obtain t g where
      run: "uc_idata_destroy hp i d rep w =
              Some (free_idata (i\<lparr>idata_table := t\<rparr>) d, free_ops (w\<lparr>ops_table_global := g\<rparr>) rep)"
      and s: "search_ok hp t g (search_entries ((idatas i)(d := None)))"
      and gm: "entries g = entries (ops_table_global w) - idata_marks d (impl x)" by blast
    have g: "entries g \<subseteq> entries (ops_table_global w)" unfolding gm by blast
    have "instr_inv hp R H (free_idata (i\<lparr>idata_table := t\<rparr>) d)
        (free_ops (w\<lparr>ops_table_global := g\<rparr>) rep)"
    proof (rule instr_inv_gone [OF geo tab al refs s g])
      fix e y assume e: "e \<noteq> d" "idatas i e = Some y"
      have "(uc_ops_repl_elem, rep) \<in> impl_keys (impl x)" by (simp add: uc)
      then have "rep \<notin> snd ` impl_keys (impl y)"
        using search_key_owner [OF tab x e(2)] e(1) by force
      from impl_ok_free [OF other [OF e(2)] this]
      show "impl_ok R (free_ops (w\<lparr>ops_table_global := g\<rparr>) rep) (impl y)" by simp
    qed auto
    moreover have
      "destroy_idata hp i d (impl x) w =
         Some (free_idata (i\<lparr>idata_table := t\<rparr>) d, free_ops (w\<lparr>ops_table_global := g\<rparr>) rep)"
      "destroy_idata_norestore hp i d (impl x) w =
         Some (free_idata (i\<lparr>idata_table := t\<rparr>) d, free_ops (w\<lparr>ops_table_global := g\<rparr>) rep)"
      "destroyed_mem b i w (free_ops (w\<lparr>ops_table_global := g\<rparr>) rep) (impl x)" for b
      by (simp_all add: uc run)
    moreover have
      "entries (ops_table_global (free_ops (w\<lparr>ops_table_global := g\<rparr>) rep)) =
         entries (ops_table_global w) - idata_marks d (impl x)"
      "pending (free_ops (w\<lparr>ops_table_global := g\<rparr>) rep) = pending w"
      using gm by simp_all
    ultimately show ?thesis by blast
  qed
  then show "\<exists>t w'. destroy_idata hp i d (impl x) w =
             Some (free_idata (i\<lparr>idata_table := t\<rparr>) d, w') \<and>
           instr_inv hp R H (free_idata (i\<lparr>idata_table := t\<rparr>) d) w' \<and>
           destroyed_mem True i w w' (impl x) \<and> pending w' = pending w \<and>
           entries (ops_table_global w') = entries (ops_table_global w) - idata_marks d (impl x)"
    and "\<exists>t w'. destroy_idata_norestore hp i d (impl x) w =
             Some (free_idata (i\<lparr>idata_table := t\<rparr>) d, w') \<and>
           instr_inv hp R H (free_idata (i\<lparr>idata_table := t\<rparr>) d) w' \<and>
           destroyed_mem False i w w' (impl x) \<and> pending w' = pending w \<and>
           entries (ops_table_global w') = entries (ops_table_global w) - idata_marks d (impl x)"
    by blast+
qed

subsection \<open>References\<close>

lemma free_set_idata [simp]: "free_idata ((set_idata i d x)\<lparr>idata_table := t\<rparr>) d = free_idata (i\<lparr>idata_table := t\<rparr>) d"
  "free_idata (set_idata i d x) d = free_idata i d"
  by (simp_all add: free_idata_def set_idata_def)

lemma watch_count_0:
  "refs_ok H i \<Longrightarrow> watch_count i d = 0 \<longleftrightarrow> d \<notin> ran (watch_datas i)"
proof -
  assume "refs_ok H i"
  then have "finite {wd. watch_datas i wd = Some d}"
    by (auto simp: refs_ok_def intro: finite_subset [of _ "dom (watch_datas i)"])
  then show ?thesis by (auto simp: watch_count_def ran_def)
qed

lemma refs_ok_last:
  assumes ok: "refs_ok (add_mset d H) i" and x: "idatas i d = Some x" and one: "refs x = 1"
  shows "refs_ok H (free_idata i d)"
proof -
  have c: "watch_count i d = 0" "count H d = 0"
    using refs_okD [OF ok x] one by (auto simp: count_ok_def)
  have "d \<notin> ran (watch_datas i)" using watch_count_0 [OF ok] c(1) by simp
  moreover have "d \<notin># H" using c(2) by (simp add: not_in_iff)
  moreover have "count_ok H (free_idata i d) e y" if "idatas i e = Some y" "e \<noteq> d" for e y
    using refs_okD [OF ok that(1)] that(2) by (simp add: count_ok_def watch_count_def)
  ultimately show ?thesis using ok by (auto simp: refs_ok_def split: if_splits)
qed

lemma refs_ok_less:
  assumes ok: "refs_ok (add_mset d H) i" and x: "idatas i d = Some x" and "refs x \<noteq> 1"
  shows "refs_ok H (set_idata i d (x\<lparr>refs := refs x - 1\<rparr>))"
proof -
  have "count_ok H (set_idata i d (x\<lparr>refs := refs x - 1\<rparr>)) e y"
    if "idatas (set_idata i d (x\<lparr>refs := refs x - 1\<rparr>)) e = Some y" for e y
  proof (cases "e = d")
    case True
    with that refs_okD [OF ok x] assms(3) show ?thesis by (auto simp: count_ok_def watch_count_def)
  next
    case False
    with that have "idatas i e = Some y" by simp
    from refs_okD [OF ok this] False show ?thesis by (simp add: count_ok_def watch_count_def)
  qed
  with ok x show ?thesis by (auto simp: refs_ok_def)
qed

lemma instr_inv_set_refs:
  assumes inv: "instr_inv hp R H i w" and x: "idatas i d = Some x" and y: "impl y = impl x"
  shows "geometry_ok R (set_idata i d y)" "tables_ok hp (set_idata i d y) w"
    "mem_ok R (set_idata i d y) w" "allocs_ok (set_idata i d y) w"
proof -
  note I = instr_invD [OF inv]
  show "geometry_ok R (set_idata i d y)" using I(1) by (simp add: geometry_ok_def)
  show "tables_ok hp (set_idata i d y) w"
    using I(2) search_entries_refs [of "idatas i" d, OF x y] by (simp add: tables_ok_def objects_ok_def)
  show "mem_ok R (set_idata i d y) w" using I(4) x y by (auto simp: mem_ok_def)
  have "fresh_ptr (set_idata i d y) w q = fresh_ptr i w q" for q using x by (auto simp: fresh_ptr_def)
  then show "allocs_ok (set_idata i d y) w" using I(5) by (simp add: allocs_ok_def)
qed

lemma held_idata: "instr_inv hp R (add_mset d H) i w \<Longrightarrow> \<exists>x. idatas i d = Some x"
  by (auto simp: instr_inv_def refs_ok_def)

text \<open>What dropping one reference to d leaves.\<close>

definition unreffed ::
  "bool \<Rightarrow> kedr_coi_instrumentor \<Rightarrow> world \<Rightarrow> ptr \<Rightarrow> instrument_data \<Rightarrow>
   kedr_coi_instrumentor \<Rightarrow> world \<Rightarrow> bool" where
  "unreffed restore i w d x i' w' \<longleftrightarrow>
     pending w' = pending w \<and>
     (if refs x = 1
      then (\<exists>t. i' = free_idata (i\<lparr>idata_table := t\<rparr>) d) \<and> destroyed_mem restore i w w' (impl x) \<and>
           entries (ops_table_global w') = entries (ops_table_global w) - idata_marks d (impl x)
      else i' = set_idata i d (x\<lparr>refs := refs x - 1\<rparr>) \<and> w' = w)"

lemma destroyed_mem_set [simp]: "destroyed_mem b (set_idata i d y) w w' z = destroyed_mem b i w w' z"
  by (cases z) simp_all

lemma unref_ok:
  assumes inv: "instr_inv hp R (add_mset d H) i w" and x: "idatas i d = Some x"
  shows "\<exists>i' w'. instrument_data_unref hp i d w = Some (i', w') \<and> instr_inv hp R H i' w' \<and>
           unreffed True i w d x i' w'"
    and "\<exists>i' w'. instrument_data_unref_norestore hp i d w = Some (i', w') \<and> instr_inv hp R H i' w' \<and>
           unreffed False i w d x i' w'"
proof -
  let ?x = "x\<lparr>refs := refs x - 1\<rparr>"
  have ok: "refs_ok (add_mset d H) i" using inv by (simp add: instr_inv_def)
  have S: "impl ?x = impl x" by simp
  note J = instr_inv_set_refs [OF inv x S]
  show "\<exists>i' w'. instrument_data_unref hp i d w = Some (i', w') \<and> instr_inv hp R H i' w' \<and>
           unreffed True i w d x i' w'"
  proof (cases "refs x = 1")
    case True
    have "refs_ok H (free_idata (set_idata i d ?x) d)" using refs_ok_last [OF ok x True] by simp
    from destroy_ok(1) [OF J(1,2,4,3) this, of ?x] True show ?thesis
      by (auto simp: instrument_data_unref_def unreffed_def x)
  next
    case False
    with J refs_ok_less [OF ok x False] show ?thesis
      by (simp add: instrument_data_unref_def unreffed_def x instr_inv_def)
  qed
  show "\<exists>i' w'. instrument_data_unref_norestore hp i d w = Some (i', w') \<and> instr_inv hp R H i' w' \<and>
           unreffed False i w d x i' w'"
  proof (cases "refs x = 1")
    case True
    have "refs_ok H (free_idata (set_idata i d ?x) d)" using refs_ok_last [OF ok x True] by simp
    from destroy_ok(2) [OF J(1,2,4,3) this, of ?x] True show ?thesis
      by (auto simp: instrument_data_unref_norestore_def unreffed_def x)
  next
    case False
    with J refs_ok_less [OF ok x False] show ?thesis
      by (simp add: instrument_data_unref_norestore_def unreffed_def x instr_inv_def)
  qed
qed

lemma ref_ok:
  assumes inv: "instr_inv hp R H i w" and x: "idatas i d = Some x"
  shows "instrument_data_ref i d = Some (set_idata i d (x\<lparr>refs := refs x + 1\<rparr>))"
    and "instr_inv hp R (add_mset d H) (set_idata i d (x\<lparr>refs := refs x + 1\<rparr>)) w"
proof -
  let ?x = "x\<lparr>refs := refs x + 1\<rparr>"
  show "instrument_data_ref i d = Some (set_idata i d ?x)" by (simp add: instrument_data_ref_def x)
  have S: "impl ?x = impl x" by simp
  note J = instr_inv_set_refs [OF inv x S]
  have ok: "refs_ok H i" using inv by (simp add: instr_inv_def)
  have "count_ok (add_mset d H) (set_idata i d ?x) e y"
    if "idatas (set_idata i d ?x) e = Some y" for e y
  proof (cases "e = d")
    case True
    with that refs_okD [OF ok x] show ?thesis by (auto simp: count_ok_def watch_count_def)
  next
    case False
    with that have "idatas i e = Some y" by simp
    from refs_okD [OF ok this] False show ?thesis by (simp add: count_ok_def watch_count_def)
  qed
  with ok x have "refs_ok (add_mset d H) (set_idata i d ?x)" by (auto simp: refs_ok_def)
  with J show "instr_inv hp R (add_mset d H) (set_idata i d ?x) w" by (simp add: instr_inv_def)
qed

lemma find_data_iff:
  assumes "tables_ok hp i w"
  shows "instrumentor_find_data hp i ops = Some d \<longleftrightarrow>
           (\<exists>x f. idatas i d = Some x \<and> (f, ops) \<in> impl_keys (impl x))"
proof -
  have t: "table_inv hp (idata_table i)" and e: "entries (idata_table i) = search_entries (idatas i)"
    and u: "unique_keys (entries (idata_table i))"
    using assms by (auto simp: tables_ok_def search_ok_def intro: unique_keys_subset)
  have "instrumentor_find_data hp i ops = Some d \<longleftrightarrow>
          (\<exists>f. kedr_coi_hash_table_find_elem hp (idata_table i) ops = Some (d, f))"
    by (force simp: instrumentor_find_data_def)
  then show ?thesis using kedr_table.lookup_iff [OF t u] e by auto
qed

lemma get_data_ok:
  assumes inv: "instr_inv hp R H i w" and v: "ops \<noteq> NULL \<Longrightarrow> valid_ops R w ops"
  shows "\<exists>r i' w'. instrumentor_get_data hp i ops w = Some (r, i', w') \<and>
           (case instrumentor_find_data hp i ops of
              Some d \<Rightarrow> r = Inr d \<and> w' = w \<and> instr_inv hp R (add_mset d H) i' w' \<and>
                (\<exists>x. idatas i d = Some x \<and> i' = set_idata i d (x\<lparr>refs := refs x + 1\<rparr>))
            | None \<Rightarrow> created hp R H (ops \<noteq> NULL \<and> replace_at_place i ops) ops i w r i' w')"
proof (cases "instrumentor_find_data hp i ops")
  case (Some d)
  then obtain x where x: "idatas i d = Some x"
    using find_data_iff [of hp i w ops d] inv by (auto simp: instr_inv_def)
  from ref_ok [OF inv x] Some x show ?thesis by (simp add: instrumentor_get_data_def)
next
  case None
  show ?thesis
  proof (cases "ops \<noteq> NULL \<and> replace_at_place i ops")
    case True
    with ap_create_ok [OF inv, of ops] v None show ?thesis
      by (simp add: instrumentor_get_data_def)
  next
    case False
    then have eq: "instrumentor_get_data hp i ops w = uc_idata_create hp i ops w"
      "(ops \<noteq> NULL \<and> replace_at_place i ops) = False"
      using None by (auto simp: instrumentor_get_data_def)
    show ?thesis unfolding eq None using uc_create_ok [OF inv v] by simp
  qed
qed

end
