(* ===== verification/Instr_Watch.thy ===== *)
theory Instr_Watch
  imports Instr_Idata
begin

text \<open>
  Properties of the operations of the normal instrumentor: each of them keeps the invariant
  and returns (never crashes), and what each return code means for the watched objects, the
  operations structures and the operations field of the object.
\<close>

subsection \<open>The data of a watched object\<close>

definition object_idata :: "hash_fn \<Rightarrow> kedr_coi_instrumentor \<Rightarrow> ptr \<Rightarrow> instrument_data option" where
  "object_idata hp i object =
     do { wd \<leftarrow> instrumentor_find_watch_data hp i object; d \<leftarrow> watch_datas i wd; idatas i d }"

definition watched :: "hash_fn \<Rightarrow> kedr_coi_instrumentor \<Rightarrow> ptr \<Rightarrow> bool" where
  "watched hp i object \<longleftrightarrow> instrumentor_find_watch_data hp i object \<noteq> None"

definition watched_objects :: "kedr_coi_instrumentor \<Rightarrow> ptr set" where
  "watched_objects i = snd ` entries (objects_table i)"

lemma objects_okD:
  assumes "objects_ok hp i"
  shows "table_inv hp (objects_table i)" "unique_keys (entries (objects_table i))"
    "fst ` entries (objects_table i) = dom (watch_datas i)"
  using assms by (simp_all add: objects_ok_def)

lemma inv_objects: "instr_inv hp R H i w \<Longrightarrow> objects_ok hp i"
  by (simp add: instr_inv_def tables_ok_def)

lemma find_watch_iff:
  "objects_ok hp i \<Longrightarrow>
   instrumentor_find_watch_data hp i object = Some wd \<longleftrightarrow> (wd, object) \<in> entries (objects_table i)"
  unfolding instrumentor_find_watch_data_def
  by (rule kedr_table.lookup_iff) (simp_all add: objects_ok_def)

lemma watched_iff: "objects_ok hp i \<Longrightarrow> watched hp i object \<longleftrightarrow> object \<in> watched_objects i"
  unfolding watched_def watched_objects_def instrumentor_find_watch_data_def
  using kedr_table.lookup_None_iff [of hp "objects_table i" object] by (simp add: objects_ok_def)

lemma watch_data_idata:
  assumes "instr_inv hp R H i w" and "instrumentor_find_watch_data hp i object = Some wd"
  shows "\<exists>d x. watch_datas i wd = Some d \<and> idatas i d = Some x"
proof -
  have "wd \<in> dom (watch_datas i)"
    using assms inv_objects [OF assms(1)] find_watch_iff [OF inv_objects [OF assms(1)]]
    by (force simp: objects_ok_def)
  then obtain d where d: "watch_datas i wd = Some d" by blast
  then have "d \<in> dom (idatas i)"
    using assms(1) by (auto simp: instr_inv_def refs_ok_def intro!: ranI)
  with d show ?thesis by blast
qed

lemma watched_object_idata:
  assumes "instr_inv hp R H i w"
  shows "watched hp i object \<longleftrightarrow> (\<exists>x. object_idata hp i object = Some x)"
  using watch_data_idata [OF assms]
  by (cases "instrumentor_find_watch_data hp i object") (force simp: watched_def object_idata_def)+

subsection \<open>Adding a watch\<close>

lemma add_watch_ok:
  assumes inv: "instr_inv hp R (add_mset d H) i w"
    and wd: "fresh_ptr i w wd" "Some wd \<notin> set (pending w)"
    and new: "\<not> watched hp i object"
  shows "instr_inv hp R H
           (set_watch (i\<lparr>objects_table := table_add hp (objects_table i) wd object\<rparr>) wd d) w"
proof -
  let ?j = "set_watch (i\<lparr>objects_table := table_add hp (objects_table i) wd object\<rparr>) wd d"
  note I = instr_invD [OF inv]
  have ob: "objects_ok hp i" using I(2) by (simp add: tables_ok_def)
  note O = objects_okD [OF ob]
  have wdn: "wd \<notin> dom (watch_datas i)" using wd(1) by (simp add: fresh_ptr_def)
  then have wde: "wd \<notin> fst ` entries (objects_table i)" using O(3) by simp
  have nw: "kedr_coi_hash_table_find_elem hp (objects_table i) object = None"
    using new by (simp add: watched_def instrumentor_find_watch_data_def)
  have "geometry_ok R ?j" using I(1) by (simp add: geometry_ok_def)
  moreover have "objects_ok hp ?j"
    unfolding objects_ok_def
    using kedr_table.inv_add [OF O(1) wde, of object] kedr_table.unique_add [OF O(1,2) nw, of wd]
      kedr_table.ents_add [OF O(1), of wd object] O(3) by simp
  then have "tables_ok hp ?j w" using I(2) by (simp add: tables_ok_def)
  moreover have "count_ok H ?j e y" if "idatas ?j e = Some y" for e y
  proof -
    have y: "idatas i e = Some y" using that by simp
    have fin: "finite {v. watch_datas i v = Some e}"
      using I(3) by (auto simp: refs_ok_def intro: finite_subset [of _ "dom (watch_datas i)"])
    have "{v. watch_datas ?j v = Some e} =
          (if e = d then insert wd {v. watch_datas i v = Some e} else {v. watch_datas i v = Some e})"
      using wdn by auto
    then have "watch_count ?j e = watch_count i e + (if e = d then 1 else 0)"
      using fin wdn by (auto simp: watch_count_def)
    then show ?thesis using refs_okD [OF I(3) y] by (auto simp: count_ok_def)
  qed
  then have "refs_ok H ?j"
    using I(3) by (auto simp: refs_ok_def ran_def split: if_splits)
  moreover have "mem_ok R ?j w" using I(4) by (simp add: mem_ok_def)
  moreover have "fresh_ptr ?j w q" if q: "Some q \<in> set (pending w)" for q
    using I(5) q wd(2) by (auto simp: allocs_ok_def fresh_ptr_def)
  then have "allocs_ok ?j w" using I(5) by (simp add: allocs_ok_def)
  ultimately show ?thesis by (simp add: instr_inv_def)
qed

subsection \<open>Removing a watch\<close>

text \<open>
  The code drops a reference first and changes the watch then; the other order gives the
  same result, and is the one the invariant can follow.  The function relink replaces the
  watch part of an instrumentor, which dropping a reference does not look at.
\<close>

definition relink ::
  "ptr hash_table \<Rightarrow> (ptr \<rightharpoonup> ptr) \<Rightarrow> kedr_coi_instrumentor \<Rightarrow> kedr_coi_instrumentor" where
  "relink t m i = i\<lparr>objects_table := t, watch_datas := m\<rparr>"

lemma relink_simps [simp]:
  "watch_datas (relink t m i) = m"
  "objects_table (relink t m i) = t"
  "idatas (relink t m i) = idatas i"
  "idata_table (relink t m i) = idata_table i"
  "operations_struct_size (relink t m i) = operations_struct_size i"
  "replacements (relink t m i) = replacements i"
  "replace_at_place (relink t m i) = replace_at_place i"
  "foreign_ops_p_table (relink t m i) = foreign_ops_p_table i"
  "idatas_foreign (relink t m i) = idatas_foreign i"
  "foreign_instrumentors (relink t m i) = foreign_instrumentors i"
  by (simp_all add: relink_def)

lemma relink_other:
  "free_idata (relink t m i) d = relink t m (free_idata i d)"
  "set_idata (relink t m i) d x = relink t m (set_idata i d x)"
  "(relink t m i)\<lparr>idata_table := u\<rparr> = relink t m (i\<lparr>idata_table := u\<rparr>)"
  by (simp_all add: relink_def free_idata_def set_idata_def)

lemma remove_search_relink:
  "instrumentor_remove_data_search hp (relink t m i) ds w =
     map_option (\<lambda>(i, w). (relink t m i, w)) (instrumentor_remove_data_search hp i ds w)"
  by (auto simp: instrumentor_remove_data_search_def relink_other split: Option.bind_splits)

lemma ap_norestore_relink:
  "ap_idata_destroy_norestore hp (relink t m i) d w =
     map_option (\<lambda>(i, w). (relink t m i, w)) (ap_idata_destroy_norestore hp i d w)"
  by (auto simp: ap_idata_destroy_norestore_def remove_search_relink relink_other
      split: Option.bind_splits)

lemma uc_destroy_relink:
  "uc_idata_destroy hp (relink t m i) d p w =
     map_option (\<lambda>(i, w). (relink t m i, w)) (uc_idata_destroy hp i d p w)"
  by (auto simp: uc_idata_destroy_def remove_search_relink relink_other
      split: Option.bind_splits)

lemma destroy_relink:
  "destroy_idata hp (relink t m i) d x w =
     map_option (\<lambda>(i, w). (relink t m i, w)) (destroy_idata hp i d x w)"
  "destroy_idata_norestore hp (relink t m i) d x w =
     map_option (\<lambda>(i, w). (relink t m i, w)) (destroy_idata_norestore hp i d x w)"
  by (cases x; auto simp: ap_idata_destroy_def ap_norestore_relink uc_destroy_relink
      split: Option.bind_splits)+

lemma unref_relink:
  "instrument_data_unref hp (relink t m i) d w =
     map_option (\<lambda>(i, w). (relink t m i, w)) (instrument_data_unref hp i d w)"
  "instrument_data_unref_norestore hp (relink t m i) d w =
     map_option (\<lambda>(i, w). (relink t m i, w)) (instrument_data_unref_norestore hp i d w)"
  by (auto simp: instrument_data_unref_def instrument_data_unref_norestore_def destroy_relink
      relink_other Let_def split: Option.bind_splits)

lemma relink_same: "relink (objects_table i) (watch_datas i) i = i"
  by (simp add: relink_def)

lemma unref_watches:
  assumes "instrument_data_unref hp i d w = Some (j, w') \<or>
           instrument_data_unref_norestore hp i d w = Some (j, w')"
  shows "objects_table j = objects_table i" "watch_datas j = watch_datas i"
  using assms unref_relink [of hp "objects_table i" "watch_datas i" i d w]
  by (auto simp: relink_same) (metis relink_simps(1,2))+

definition unlink_watch :: "ptr hash_table \<Rightarrow> ptr \<Rightarrow> kedr_coi_instrumentor \<Rightarrow> kedr_coi_instrumentor" where
  "unlink_watch t wd i = relink t ((watch_datas i)(wd := None)) i"

lemma unlink_inv:
  assumes inv: "instr_inv hp R H i w" and wd: "watch_datas i wd = Some d"
    and t: "table_del (objects_table i) wd = Some t"
  shows "instr_inv hp R (add_mset d H) (unlink_watch t wd i) w"
proof -
  let ?j = "unlink_watch t wd i"
  note I = instr_invD [OF inv]
  note O = objects_okD [OF inv_objects [OF inv]]
  note [simp] = unlink_watch_def
  have "geometry_ok R ?j" using I(1) by (simp add: geometry_ok_def)
  moreover have "fst ` entries t = fst ` entries (objects_table i) - {wd}"
    using kedr_table.ents_del [OF t] by auto
  then have "objects_ok hp ?j"
    using kedr_table.inv_del [OF O(1) t] kedr_table.unique_del [OF t O(2)] O(3)
    by (auto simp: objects_ok_def)
  then have "tables_ok hp ?j w" using I(2) by (simp add: tables_ok_def)
  moreover have "count_ok (add_mset d H) ?j e y" if "idatas ?j e = Some y" for e y
  proof -
    have y: "idatas i e = Some y" using that by simp
    have fin: "finite {v. watch_datas i v = Some e}"
      using I(3) by (auto simp: refs_ok_def intro: finite_subset [of _ "dom (watch_datas i)"])
    have D: "{v. watch_datas ?j v = Some e} = {v. watch_datas i v = Some e} - {wd}" by auto
    show ?thesis
    proof (cases "e = d")
      case True
      then have "Suc (watch_count ?j e) = watch_count i e"
        unfolding watch_count_def D by (intro card_Suc_Diff1 fin) (simp add: wd)
      then show ?thesis using refs_okD [OF I(3) y] True by (simp add: count_ok_def)
    next
      case False
      then have "wd \<notin> {v. watch_datas i v = Some e}" using wd by simp
      then have "watch_count ?j e = watch_count i e" unfolding watch_count_def D by simp
      then show ?thesis using refs_okD [OF I(3) y] False by (simp add: count_ok_def)
    qed
  qed
  moreover have "d \<in> dom (idatas i)"
    using I(3) wd by (auto simp: refs_ok_def intro!: ranI)
  ultimately have "refs_ok (add_mset d H) ?j"
    using I(3) by (auto simp: refs_ok_def ran_def split: if_splits)
  moreover have "mem_ok R ?j w" using I(4) by (simp add: mem_ok_def)
  moreover have "fresh_ptr ?j w q" if "fresh_ptr i w q" for q
    using that by (auto simp: fresh_ptr_def)
  then have "allocs_ok ?j w" using I(5) by (simp add: allocs_ok_def)
  ultimately show ?thesis
    using \<open>geometry_ok R ?j\<close> \<open>tables_ok hp ?j w\<close> by (simp add: instr_inv_def)
qed

lemma unref_objects:
  assumes "unreffed b i w d x i' w'"
  shows "objects_table i' = objects_table i" "watch_datas i' = watch_datas i"
    "replacements i' = replacements i" "operations_struct_size i' = operations_struct_size i"
    "replace_at_place i' = replace_at_place i"
  using assms by (auto simp: unreffed_def split: if_splits)

text \<open>The shared contract of the two functions that destroy a watch.\<close>

lemma destroy_watch_ok:
  assumes inv: "instr_inv hp R H i w" and wd: "instrumentor_find_watch_data hp i object = Some wd"
    and d: "watch_datas i wd = Some d" and x: "idatas i d = Some x"
  shows "\<exists>t i' w'. instrumentor_destroy_watch_data hp i wd w = Some (i', w') \<and>
           table_del (objects_table i) wd = Some t \<and>
           instr_inv hp R H i' w' \<and> unreffed True (unlink_watch t wd i) w d x i' w'"
    and "\<exists>t i' w'. instrumentor_destroy_watch_data_norestore hp i wd w = Some (i', w') \<and>
           table_del (objects_table i) wd = Some t \<and>
           instr_inv hp R H i' w' \<and> unreffed False (unlink_watch t wd i) w d x i' w'"
proof -
  have "(wd, object) \<in> entries (objects_table i)"
    using wd find_watch_iff [OF inv_objects [OF inv]] by simp
  from kedr_table.del_exists [OF this] obtain t where t: "table_del (objects_table i) wd = Some t"
    by blast
  have inv': "instr_inv hp R (add_mset d H) (unlink_watch t wd i) w" by (rule unlink_inv [OF inv d t])
  have x': "idatas (unlink_watch t wd i) d = Some x" using x by (simp add: unlink_watch_def)
  have run: "instrumentor_destroy_watch_data hp i wd w = Some (relink t ((watch_datas i)(wd := None)) j, w')"
    if "instrument_data_unref hp i d w = Some (j, w')" for j w'
    using that unref_watches [of hp i d w j w']
    by (simp add: instrumentor_destroy_watch_data_def d t unlink_watch_def relink_def free_watch_def)
  have run': "instrumentor_destroy_watch_data_norestore hp i wd w = Some (relink t ((watch_datas i)(wd := None)) j, w')"
    if "instrument_data_unref_norestore hp i d w = Some (j, w')" for j w'
    using that unref_watches [of hp i d w j w']
    by (simp add: instrumentor_destroy_watch_data_norestore_def d t unlink_watch_def relink_def free_watch_def)
  from unref_ok(1) [OF inv' x'] run t
  show "\<exists>t i' w'. instrumentor_destroy_watch_data hp i wd w = Some (i', w') \<and>
           table_del (objects_table i) wd = Some t \<and>
           instr_inv hp R H i' w' \<and> unreffed True (unlink_watch t wd i) w d x i' w'"
    by (auto simp: unlink_watch_def unref_relink)
  from unref_ok(2) [OF inv' x'] run' t
  show "\<exists>t i' w'. instrumentor_destroy_watch_data_norestore hp i wd w = Some (i', w') \<and>
           table_del (objects_table i) wd = Some t \<and>
           instr_inv hp R H i' w' \<and> unreffed False (unlink_watch t wd i) w d x i' w'"
    by (auto simp: unlink_watch_def unref_relink)
qed

subsection \<open>Restoring what was replaced\<close>

lemma replaced_at:
  assumes "operation_offset ` set rs \<subseteq> dom m"
  shows "if off \<in> operation_offset ` set rs
         then \<exists>v. replaced rs m off = Some v \<and>
                (v = the (m off) \<or> v \<in> {repl r | r. r \<in> set rs \<and> operation_offset r = off})
         else replaced rs m off = m off"
  using assms
proof (induction rs arbitrary: m)
  case (Cons r rs)
  let ?v = "replace_operation (the (m (operation_offset r))) r"
  let ?m = "m(operation_offset r \<mapsto> ?v)"
  have v: "?v = the (m (operation_offset r)) \<or> ?v = repl r"
    by (simp add: replace_operation_def replace_operation_generic_def)
  have "operation_offset ` set rs \<subseteq> dom ?m" using Cons.prems by auto
  note IH = Cons.IH [OF this]
  show ?case
  proof (cases "off \<in> operation_offset ` set rs")
    case True
    with IH obtain u where u: "replaced rs ?m off = Some u"
      "u = the (?m off) \<or> u \<in> {repl r | r. r \<in> set rs \<and> operation_offset r = off}" by auto
    then have "u = the (m off) \<or> u \<in> {repl r' | r'. r' \<in> set (r # rs) \<and> operation_offset r' = off}"
      using v by (auto split: if_splits)
    with u(1) True show ?thesis by auto
  next
    case False
    with IH have "replaced rs ?m off = ?m off" by simp
    with False v show ?thesis by auto
  qed
qed simp

lemma restored_at:
  assumes "operation_offset ` set rs \<subseteq> dom m"
  shows "restored rs c m off =
         (if \<exists>r \<in> set rs. operation_offset r = off \<and> repl r = the (m off) then Some (the (c off))
          else m off)"
  using assms
proof (induction rs arbitrary: m)
  case (Cons r rs)
  let ?m = "m(operation_offset r \<mapsto> restore_operation (the (m (operation_offset r))) r
                (the (c (operation_offset r))))"
  have "operation_offset ` set rs \<subseteq> dom ?m" using Cons.prems by auto
  note IH = Cons.IH [OF this]
  obtain u where "m (operation_offset r) = Some u" using Cons.prems by auto
  then show ?case unfolding restored.simps IH
    by (cases "off = operation_offset r") (auto simp: restore_operation_def)
qed simp

lemma restored_replaced:
  assumes sub: "operation_offset ` set rs \<subseteq> dom m"
    and c: "\<And>off. off \<in> operation_offset ` set rs \<Longrightarrow> c off = m off"
  shows "restored rs c (replaced rs m) = m"
proof
  fix off
  have "operation_offset ` set rs \<subseteq> dom (replaced rs m)" using dom_replaced [OF sub] sub by simp
  note at = restored_at [OF this, of c off]
  show "restored rs c (replaced rs m) off = m off"
  proof (cases "off \<in> operation_offset ` set rs")
    case True
    then obtain u where u: "m off = Some u" using sub by auto
    from replaced_at [OF sub, of off] True obtain v where
      v: "replaced rs m off = Some v"
         "v = u \<or> v \<in> {repl r | r. r \<in> set rs \<and> operation_offset r = off}" using u by auto
    then show ?thesis using at c [OF True] u by auto
  next
    case False
    then show ?thesis using at replaced_at [OF sub, of off] by auto
  qed
qed

lemma my_operations_iff: "instrument_data_my_operations y p \<longleftrightarrow> p \<in> snd ` impl_keys y"
  by (cases y) (auto simp: ap_idata_ops_my_operations_def ap_idata_ops_get_operations_def
      uc_idata_ops_my_operations_def)

lemma repl_operations_my:
  "instrument_data_get_repl_operations y \<in> snd ` impl_keys y"
  "instrument_data_get_orig_operations y \<in> snd ` impl_keys y"
  by (cases y; simp add: ap_idata_ops_get_operations_def uc_idata_ops_get_repl_operations_def
      uc_idata_ops_get_orig_operations_def)+

lemma created_keys: "created_mem i ops w w' y \<Longrightarrow> ops \<in> snd ` impl_keys y"
  by (cases y) auto

lemma replace_ops_eq [simp]: "instrument_data_replace_ops x p = instrument_data_get_repl_operations (impl x)"
  by (simp add: instrument_data_replace_ops_def Let_def)

lemma restore_ops_eq [simp]: "instrument_data_restore_ops x p = instrument_data_get_orig_operations (impl x)"
  by (simp add: instrument_data_restore_ops_def Let_def)

text \<open>Memory before the creation and after the destruction of an object is the same.\<close>

lemma created_destroyed:
  assumes geo: "geometry_ok R i" and v: "ops \<noteq> NULL \<Longrightarrow> valid_ops R w ops"
    and c: "created_mem i ops w w1 y" and d: "destroyed_mem True j w2 w' y"
    and same: "ops_mem w2 = ops_mem w1" "replacements j = replacements i"
    and nn: "at_place y \<longrightarrow> ops \<noteq> NULL"
  shows "ops_mem w' = ops_mem w"
proof (cases y)
  case (Ap_idata p c')
  let ?rs = "for_each_replacement (replacements i)"
  obtain m where m: "p = ops" "ops_mem w ops = Some m" "c' = memcpy_ops (operations_struct_size i) m"
    "ops_mem w1 = (ops_mem w)(ops \<mapsto> replaced ?rs m)"
    using c by (auto simp: Ap_idata)
  have R: "operation_offset ` set ?rs \<subseteq> R" "R \<subseteq> dom m" "\<And>off. off \<in> R \<Longrightarrow> c' off = m off"
    using geo v nn Ap_idata m(2,3)
    by (auto simp: geometry_ok_def repl_offsets_def valid_ops_def memcpy_ops_def)
  then have "restored ?rs c' (replaced ?rs m) = m" by (intro restored_replaced) auto
  with d m show ?thesis by (simp add: Ap_idata same fun_upd_idem)
next
  case (Uc_idata p rep)
  then show ?thesis using c d by (auto simp: same)
qed

end
