(* ===== verification/Instr_Spec.thy ===== *)
theory Instr_Spec
  imports Instr_Watch
begin

text \<open>
  What the operations of the normal instrumentor do, branch by branch: the outcome of
  watching a new object and a watched one, of forgetting, and of asking for an original
  operation.
\<close>

lemma replace_at_place_relevant [simp]:
  "(set_idata i d x)\<lparr>idata_table := t\<rparr> = set_idata (i\<lparr>idata_table := t\<rparr>) d x"
  by (simp add: set_idata_def)

lemma set_idata_twice [simp]: "set_idata (set_idata i d x) d y = set_idata i d y"
  by (simp add: set_idata_def)

lemma set_idata_same: "idatas i d = Some x \<Longrightarrow> set_idata i d x = i"
  by (simp add: set_idata_def fun_upd_idem)

lemma free_idata_none: "idatas i d = None \<Longrightarrow> free_idata i d = i"
  by (simp add: free_idata_def fun_upd_idem)

lemma pending_mem: "w' = w\<lparr>pending := ps\<rparr> \<Longrightarrow> ops_mem w' = ops_mem w"
  by simp

subsection \<open>What no operation changes\<close>

definition same_config :: "kedr_coi_instrumentor \<Rightarrow> kedr_coi_instrumentor \<Rightarrow> bool" where
  "same_config i j \<longleftrightarrow>
     operations_struct_size j = operations_struct_size i \<and> replacements j = replacements i \<and>
     replace_at_place j = replace_at_place i \<and> foreign_ops_p_table j = foreign_ops_p_table i \<and>
     idatas_foreign j = idatas_foreign i \<and> foreign_instrumentors j = foreign_instrumentors i"

lemma same_config_refl [simp]: "same_config i i"
  by (simp add: same_config_def)

lemma same_config_trans: "same_config i j \<Longrightarrow> same_config j k \<Longrightarrow> same_config i k"
  by (simp add: same_config_def)

lemma same_config_steps [simp]:
  "same_config i (set_idata j d x) = same_config i j"
  "same_config i (free_idata j d) = same_config i j"
  "same_config i (set_watch j wd d) = same_config i j"
  "same_config i (free_watch j wd) = same_config i j"
  "same_config i (j\<lparr>idata_table := t\<rparr>) = same_config i j"
  "same_config i (j\<lparr>objects_table := u\<rparr>) = same_config i j"
  "same_config (set_idata i d x) j = same_config i j"
  "same_config (i\<lparr>idata_table := t\<rparr>) j = same_config i j"
  by (simp_all add: same_config_def)

lemma search_config:
  "instrumentor_add_data_search hp i ds ops w = Some (r, j, w') \<Longrightarrow> same_config i j"
  "instrumentor_remove_data_search hp i ds w = Some (j, w') \<Longrightarrow> same_config i j"
  by (auto simp: add_search_eq instrumentor_remove_data_search_def split: if_splits)

lemma create_config:
  "ap_idata_create hp i ops w = Some (r, j, w') \<Longrightarrow> same_config i j"
  "uc_idata_create hp i ops w = Some (r, j, w') \<Longrightarrow> same_config i j"
  by (auto simp: ap_idata_create_def uc_idata_create_def Let_def
      dest!: search_config split: prod.splits option.splits if_splits)
    (auto intro: same_config_trans)

lemma destroy_config:
  "destroy_idata hp i d x w = Some (j, w') \<Longrightarrow> same_config i j"
  "destroy_idata_norestore hp i d x w = Some (j, w') \<Longrightarrow> same_config i j"
  by (cases x; auto simp: ap_idata_destroy_def ap_idata_destroy_norestore_def uc_idata_destroy_def
      dest!: search_config intro: same_config_trans)+

lemma unref_config:
  "instrument_data_unref hp i d w = Some (j, w') \<Longrightarrow> same_config i j"
  "instrument_data_unref_norestore hp i d w = Some (j, w') \<Longrightarrow> same_config i j"
  by (auto simp: instrument_data_unref_def instrument_data_unref_norestore_def Let_def
      dest!: destroy_config split: if_splits)

lemma get_data_config:
  "instrumentor_get_data hp i ops w = Some (r, j, w') \<Longrightarrow> same_config i j"
  by (auto simp: instrumentor_get_data_def instrument_data_ref_def
      dest!: create_config split: if_splits option.splits)

lemma destroy_watch_config:
  "instrumentor_destroy_watch_data hp i wd w = Some (j, w') \<Longrightarrow> same_config i j"
  "instrumentor_destroy_watch_data_norestore hp i wd w = Some (j, w') \<Longrightarrow> same_config i j"
  by (auto simp: instrumentor_destroy_watch_data_def instrumentor_destroy_watch_data_norestore_def
      dest!: unref_config)

lemma watch_config:
  assumes "kedr_coi_instrumentor_watch hp i object ops_p w = Some (r, p, j, w')"
  shows "same_config i j"
proof (cases "instrumentor_get_data hp i ops_p w")
  case None
  with assms show ?thesis
    by (auto simp: kedr_coi_instrumentor_watch_def instrumentor_watch_internal_def
        split: option.splits if_splits)
next
  case (Some res)
  then obtain r1 i1 w1 where get: "instrumentor_get_data hp i ops_p w = Some (r1, i1, w1)"
    by (cases res) auto
  note defs = kedr_coi_instrumentor_watch_def instrumentor_watch_internal_def
  show ?thesis
    by (cases r1)
      (use assms get in \<open>auto simp: defs dest!: get_data_config unref_config destroy_watch_config
        split: option.split_asm if_split_asm prod.split_asm intro: same_config_trans\<close>)
qed

lemma forget_config:
  "kedr_coi_instrumentor_forget hp i object ops_p' w = Some (r, p', j, w') \<Longrightarrow> same_config i j"
  "kedr_coi_instrumentor_forget_direct hp i object norestore w = Some (r, j, w') \<Longrightarrow> same_config i j"
  by (auto simp: kedr_coi_instrumentor_forget_def kedr_coi_instrumentor_forget_direct_def Let_def
      dest!: destroy_watch_config split: option.splits if_splits)

text \<open>Getting the data of a structure and dropping it again changes nothing.\<close>

lemma get_data_unref:
  assumes inv: "instr_inv hp R H i w" and v: "ops \<noteq> NULL \<Longrightarrow> valid_ops R w ops"
    and get: "instrumentor_get_data hp i ops w = Some (Inr d, i1, w1)"
    and inv2: "instr_inv hp R (add_mset d H) i1 w2" and w2: "ops_mem w2 = ops_mem w1"
  shows "\<exists>t w3. instrument_data_unref hp i1 d w2 = Some (i\<lparr>idata_table := t\<rparr>, w3) \<and>
           instr_inv hp R H (i\<lparr>idata_table := t\<rparr>) w3 \<and> ops_mem w3 = ops_mem w \<and>
           pending w3 = pending w2"
proof -
  obtain x1 where x1: "idatas i1 d = Some x1" using held_idata [OF inv2] by blast
  from unref_ok(1) [OF inv2 x1] obtain i2 w3 where
    un: "instrument_data_unref hp i1 d w2 = Some (i2, w3)" "instr_inv hp R H i2 w3"
    and u: "unreffed True i1 w2 d x1 i2 w3" by blast
  have "(\<exists>t. i2 = i\<lparr>idata_table := t\<rparr>) \<and> ops_mem w3 = ops_mem w"
  proof (cases "instrumentor_find_data hp i ops")
    case (Some d')
    with get_data_ok [OF inv v] get obtain x where x: "d' = d" "w1 = w" "idatas i d = Some x"
      "i1 = set_idata i d (x\<lparr>refs := refs x + 1\<rparr>)" by auto
    have "0 < refs x" using refs_okD [OF instr_invD(3) [OF inv] x(3)] by (simp add: count_ok_def)
    then have "i2 = i \<and> w3 = w2" using u x x1 by (auto simp: unreffed_def set_idata_same)
    moreover have "i = i\<lparr>idata_table := idata_table i\<rparr>" by simp
    ultimately show ?thesis using w2 x(2) by metis
  next
    case None
    with get_data_ok [OF inv v] get have
      "created hp R H (ops \<noteq> NULL \<and> replace_at_place i ops) ops i w (Inr d) i1 w1" by auto
    then obtain t y where y: "idatas i d = None" "at_place y = (ops \<noteq> NULL \<and> replace_at_place i ops)"
      "i1 = set_idata (i\<lparr>idata_table := t\<rparr>) d (apf_instrument_data_init y)" "created_mem i ops w w1 y"
      by (auto simp: created_def)
    have r: "refs x1 = 1" "impl x1 = y" using x1 y by (auto simp: apf_instrument_data_init_def)
    with u obtain t' where t': "i2 = free_idata (i1\<lparr>idata_table := t'\<rparr>) d"
      "destroyed_mem True i1 w2 w3 y" by (auto simp: unreffed_def)
    have "i2 = i\<lparr>idata_table := t'\<rparr>" using t'(1) y by (simp add: free_idata_none)
    moreover have "ops_mem w3 = ops_mem w"
      by (rule created_destroyed [OF instr_invD(1) [OF inv] v y(4) t'(2) w2]) (simp_all add: y)
    ultimately show ?thesis by blast
  qed
  with un u show ?thesis by (auto simp: unreffed_def)
qed

text \<open>The data of ops after instrumentor_get_data.\<close>

definition data_of :: "kedr_coi_instrumentor \<Rightarrow> ptr \<Rightarrow> world \<Rightarrow> world \<Rightarrow> instrument_data \<Rightarrow> bool" where
  "data_of i ops w w' x \<longleftrightarrow> instrument_data_my_operations (impl x) ops \<and>
     ((\<exists>d y. idatas i d = Some y \<and> x = y\<lparr>refs := refs y + 1\<rparr>) \<and> ops_mem w' = ops_mem w \<or>
      (\<forall>d y. idatas i d = Some y \<longrightarrow> \<not> instrument_data_my_operations (impl y) ops) \<and>
      (\<exists>y. x = apf_instrument_data_init y \<and> at_place y = (ops \<noteq> NULL \<and> replace_at_place i ops) \<and>
           created_mem i ops w w' y))"

lemma created_mem_cong: "ops_mem w2 = ops_mem w1 \<Longrightarrow> created_mem i ops w w2 y = created_mem i ops w w1 y"
  by (cases y) simp_all

lemma data_of_cong: "ops_mem w2 = ops_mem w1 \<Longrightarrow> data_of i ops w w2 x = data_of i ops w w1 x"
  by (simp add: data_of_def created_mem_cong [of w2 w1])

lemma get_data_Inr:
  assumes inv: "instr_inv hp R H i w" and v: "ops \<noteq> NULL \<Longrightarrow> valid_ops R w ops"
    and get: "instrumentor_get_data hp i ops w = Some (Inr d, i1, w1)"
  shows "\<exists>x. idatas i1 d = Some x \<and> data_of i ops w w1 x \<and> instr_inv hp R (add_mset d H) i1 w1 \<and>
           (\<forall>e y. e \<noteq> d \<longrightarrow> idatas i1 e = idatas i e) \<and>
           (idatas i d \<noteq> None \<longrightarrow> (\<exists>y. idatas i d = Some y \<and> impl y = impl x)) \<and>
           objects_table i1 = objects_table i \<and> watch_datas i1 = watch_datas i \<and>
           replacements i1 = replacements i \<and> operations_struct_size i1 = operations_struct_size i"
proof (cases "instrumentor_find_data hp i ops")
  case (Some d')
  with get_data_ok [OF inv v] get obtain x where x: "d' = d" "w1 = w" "idatas i d = Some x"
    "i1 = set_idata i d (x\<lparr>refs := refs x + 1\<rparr>)" "instr_inv hp R (add_mset d H) i1 w1" by auto
  have "ops \<in> snd ` impl_keys (impl x)"
    using Some x find_data_iff [OF instr_invD(2) [OF inv], of ops d] by force
  with x show ?thesis by (auto simp: data_of_def my_operations_iff)
next
  case None
  with get_data_ok [OF inv v] get have
    "created hp R H (ops \<noteq> NULL \<and> replace_at_place i ops) ops i w (Inr d) i1 w1" by auto
  then obtain t y where y: "idatas i d = None" "at_place y = (ops \<noteq> NULL \<and> replace_at_place i ops)"
    "i1 = set_idata (i\<lparr>idata_table := t\<rparr>) d (apf_instrument_data_init y)" "created_mem i ops w w1 y"
    "instr_inv hp R (add_mset d H) i1 w1"
    by (auto simp: created_def)
  have "ops \<notin> snd ` impl_keys (impl x)" if "idatas i e = Some x" for e x
    using None that find_data_iff [OF instr_invD(2) [OF inv], of ops e] by force
  with y show ?thesis
    by (auto simp: data_of_def my_operations_iff apf_instrument_data_init_def created_keys)
qed

lemma get_data_Inl:
  assumes inv: "instr_inv hp R H i w" and v: "ops \<noteq> NULL \<Longrightarrow> valid_ops R w ops"
    and get: "instrumentor_get_data hp i ops w = Some (Inl err, i1, w1)"
  shows "err \<in> {- ENOMEM, - EBUSY} \<and> i1 = i \<and> w1 = w\<lparr>pending := pending w1\<rparr> \<and> instr_inv hp R H i w1"
  using get_data_ok [OF inv v] get
  by (auto simp: created_def split: option.splits)

subsection \<open>Watching a new object\<close>

lemma object_idata_add:
  assumes ob: "objects_ok hp i" and wd: "wd \<notin> dom (watch_datas i)" and x: "idatas i d = Some x"
  shows "object_idata hp (set_watch (i\<lparr>objects_table := table_add hp (objects_table i) wd object\<rparr>) wd d) obj =
         (if obj = object then Some x else object_idata hp i obj)"
proof (cases "obj = object")
  case True
  with ob x show ?thesis
    by (simp add: object_idata_def instrumentor_find_watch_data_def objects_ok_def find_add)
next
  case False
  have "((watch_datas i)(wd \<mapsto> d)) wd' = watch_datas i wd'"
    if "kedr_coi_hash_table_find_elem hp (objects_table i) obj = Some wd'" for wd'
    using find_watch_iff [OF ob, of obj wd'] that ob wd
    by (force simp: instrumentor_find_watch_data_def objects_ok_def)
  with False ob show ?thesis
    by (auto simp: object_idata_def instrumentor_find_watch_data_def objects_ok_def find_add
        split: Option.bind_splits)
qed

lemma object_idata_cong:
  "objects_table j = objects_table i \<Longrightarrow> watch_datas j = watch_datas i \<Longrightarrow>
   object_idata hp j obj =
     do { wd \<leftarrow> instrumentor_find_watch_data hp i obj; d \<leftarrow> watch_datas i wd; idatas j d }"
  by (simp add: object_idata_def instrumentor_find_watch_data_def)

lemma watched_cong: "objects_table j = objects_table i \<Longrightarrow> watched hp j = watched hp i"
  by (simp add: watched_def instrumentor_find_watch_data_def fun_eq_iff)

lemma watch_new_ok:
  assumes inv: "instr_inv hp R {#} i w" and v: "ops_p \<noteq> NULL \<Longrightarrow> valid_ops R w ops_p"
    and new: "\<not> watched hp i object"
  shows "\<exists>r p i' w'. kedr_coi_instrumentor_watch hp i object ops_p w = Some (r, p, i', w') \<and>
           instr_inv hp R {#} i' w' \<and>
           (r = 0 \<and> (\<exists>x. object_idata hp i' object = Some x \<and> data_of i ops_p w w' x \<and>
                      p = instrument_data_get_repl_operations (impl x)) \<and>
                    (\<forall>obj. watched hp i' obj \<longleftrightarrow> obj = object \<or> watched hp i obj) \<or>
            r \<in> {- ENOMEM, - EBUSY} \<and> p = ops_p \<and> ops_mem w' = ops_mem w \<and>
                    (\<exists>t. i' = i\<lparr>idata_table := t\<rparr>))"
proof -
  have nw: "instrumentor_find_watch_data hp i object = None" using new by (simp add: watched_def)
  have same: "i = i\<lparr>idata_table := idata_table i\<rparr>" by simp
  obtain r i1 w1 where get: "instrumentor_get_data hp i ops_p w = Some (r, i1, w1)"
    using get_data_ok [OF inv v] by blast
  show ?thesis
  proof (cases r)
    case (Inl err)
    from get_data_Inl [OF inv v] get Inl have
      "err \<in> {- ENOMEM, - EBUSY}" "i1 = i" "ops_mem w1 = ops_mem w" "instr_inv hp R {#} i w1"
      by (auto dest: pending_mem)
    with get Inl nw same show ?thesis
      unfolding kedr_coi_instrumentor_watch_def instrumentor_watch_internal_def
      by (intro exI [of _ err] exI [of _ ops_p] exI [of _ i] exI [of _ w1] conjI disjI2)
        (simp_all, metis same)
  next
    case (Inr d)
    from get_data_Inr [OF inv v] get Inr obtain x where x: "idatas i1 d = Some x"
      "data_of i ops_p w w1 x" and inv1: "instr_inv hp R {#d#} i1 w1"
      and eq: "objects_table i1 = objects_table i" "watch_datas i1 = watch_datas i" by auto
    obtain a w2 where al: "world_kmalloc w1 = (a, w2)" by force
    note k = kmalloc_inv [OF inv1 al]
    have m2: "ops_mem w2 = ops_mem w1" by (rule pending_mem [OF k(2)])
    show ?thesis
    proof (cases a)
      case None
      from get_data_unref [OF inv v _ k(1) m2] get Inr obtain t w3 where
        "instrument_data_unref hp i1 d w2 = Some (i\<lparr>idata_table := t\<rparr>, w3)"
        "instr_inv hp R {#} (i\<lparr>idata_table := t\<rparr>) w3" "ops_mem w3 = ops_mem w" by blast
      with get Inr nw al None show ?thesis
        unfolding kedr_coi_instrumentor_watch_def instrumentor_watch_internal_def by auto
    next
      case (Some wd)
      let ?j = "set_watch (i1\<lparr>objects_table := table_add hp (objects_table i1) wd object\<rparr>) wd d"
      have wd: "fresh_ptr i1 w2 wd" "Some wd \<notin> set (pending w2)" using k(3) Some by auto
      have "\<not> watched hp i1 object" using new watched_cong [OF eq(1)] by simp
      from add_watch_ok [OF k(1) wd this] have inv2: "instr_inv hp R {#} ?j w2" .
      have run: "kedr_coi_instrumentor_watch hp i object ops_p w =
          Some (0, instrument_data_get_repl_operations (impl x), ?j, w2)"
        using get Inr nw al Some x
        by (simp add: kedr_coi_instrumentor_watch_def instrumentor_watch_internal_def)
      have ob: "objects_ok hp i1" "wd \<notin> dom (watch_datas i1)"
        using k(1) wd(1) by (auto intro: inv_objects simp: fresh_ptr_def)
      note add = object_idata_add [OF ob x(1), of object]
      have "watched hp ?j obj \<longleftrightarrow> obj = object \<or> watched hp i obj" for obj
      proof -
        have "table_inv hp (objects_table i1)" using ob by (simp add: objects_ok_def)
        then show ?thesis by (simp add: watched_def instrumentor_find_watch_data_def find_add eq)
      qed
      moreover have "data_of i ops_p w w2 x" using x(2) data_of_cong [OF m2] by simp
      ultimately show ?thesis using run inv2 add [of object] by auto
    qed
  qed
qed

subsection \<open>Watching a watched object\<close>

lemma move_watch_ok:
  assumes inv: "instr_inv hp R (add_mset d' H) i w" and wd: "watch_datas i wd = Some d"
    and ne: "d' \<noteq> d"
  shows "instr_inv hp R (add_mset d H) (set_watch i wd d') w"
proof -
  let ?j = "set_watch i wd d'"
  note I = instr_invD [OF inv]
  have dom: "dom (watch_datas ?j) = dom (watch_datas i)" using wd by auto
  have "geometry_ok R ?j" using I(1) by (simp add: geometry_ok_def)
  moreover have "tables_ok hp ?j w" using I(2) wd by (auto simp: tables_ok_def objects_ok_def)
  moreover have "count_ok (add_mset d H) ?j e y" if "idatas ?j e = Some y" for e y
  proof -
    let ?S = "{v. watch_datas i v = Some e}" and ?T = "{v. watch_datas ?j v = Some e}"
    have y: "idatas i e = Some y" using that by simp
    have fin: "finite ?S"
      using I(3) by (auto simp: refs_ok_def intro: finite_subset [of _ "dom (watch_datas i)"])
    have c: "count_ok (add_mset d' H) i e y" by (rule refs_okD [OF I(3) y])
    consider "e = d'" | "e = d" | "e \<noteq> d'" "e \<noteq> d" by blast
    then show ?thesis
    proof cases
      case 1
      then have "?T = insert wd ?S" "wd \<notin> ?S" using wd ne by auto
      then have "watch_count ?j e = Suc (watch_count i e)" using fin by (simp add: watch_count_def)
      with c 1 ne show ?thesis by (simp add: count_ok_def)
    next
      case 2
      then have T: "?T = ?S - {wd}" using ne by auto
      have "Suc (watch_count ?j e) = watch_count i e"
        unfolding watch_count_def T by (intro card_Suc_Diff1 fin) (simp add: wd 2)
      with c 2 ne show ?thesis by (simp add: count_ok_def)
    next
      case 3
      then have "?T = ?S" using wd by auto
      with c 3 show ?thesis by (simp add: count_ok_def watch_count_def)
    qed
  qed
  moreover have "d \<in> dom (idatas i)" using I(3) wd by (auto simp: refs_ok_def intro!: ranI)
  ultimately have "refs_ok (add_mset d H) ?j"
    using I(3) dom by (auto simp: refs_ok_def ran_def split: if_splits)
  moreover have "mem_ok R ?j w" using I(4) by (simp add: mem_ok_def)
  moreover have "fresh_ptr ?j w q" if "fresh_ptr i w q" for q
    using that wd by (auto simp: fresh_ptr_def)
  then have "allocs_ok ?j w" using I(5) by (simp add: allocs_ok_def)
  ultimately show ?thesis
    using \<open>geometry_ok R ?j\<close> \<open>tables_ok hp ?j w\<close> by (simp add: instr_inv_def)
qed

lemma set_watch_relink: "set_watch i wd d = relink (objects_table i) ((watch_datas i)(wd \<mapsto> d)) i"
  by (simp add: set_watch_def relink_def)

lemma unref_set_watch:
  assumes "instrument_data_unref hp (set_watch i wd d') d w = Some (j, w')"
  shows "\<exists>k. instrument_data_unref hp i d w = Some (k, w') \<and> j = set_watch k wd d'"
proof -
  from assms obtain k where k: "instrument_data_unref hp i d w = Some (k, w')"
    "j = relink (objects_table i) ((watch_datas i)(wd \<mapsto> d')) k"
    unfolding set_watch_relink unref_relink by auto
  with unref_watches [of hp i d w k w'] show ?thesis by (auto simp: set_watch_relink)
qed

lemma idata_not_mine:
  assumes inv: "instr_inv hp R H i w" and d: "idatas i d = Some x"
    and p: "\<not> instrument_data_my_operations (impl x) ops_p"
    and d': "idatas i d' = None \<or> (\<exists>y. idatas i d' = Some y \<and> ops_p \<in> snd ` impl_keys (impl y))"
  shows "d' \<noteq> d"
  using assms by (auto simp: my_operations_iff)

lemma destroyed_mem_cong:
  "replacements j = replacements i \<Longrightarrow> destroyed_mem b j w w' y = destroyed_mem b i w w' y"
  by (cases y) simp_all

lemma unreffed_mem:
  "unreffed b i w d x i' w' \<Longrightarrow> ops_mem w' = ops_mem w \<or> refs x = 1 \<and> destroyed_mem b i w w' (impl x)"
  by (auto simp: unreffed_def split: if_splits)

lemma unreffed_other:
  "unreffed b i w d x i' w' \<Longrightarrow> e \<noteq> d \<Longrightarrow> idatas i' e = idatas i e"
  by (auto simp: unreffed_def split: if_splits)

lemma unreffed_watches:
  "unreffed b i w d x i' w' \<Longrightarrow> objects_table i' = objects_table i \<and> watch_datas i' = watch_datas i"
  by (auto simp: unreffed_def split: if_splits)

lemma find_unlinked:
  assumes ob: "objects_ok hp i" and wd: "instrumentor_find_watch_data hp i object = Some wd"
    and t: "table_del (objects_table i) wd = Some t" and j: "objects_table j = t"
  shows "instrumentor_find_watch_data hp j obj =
         (if obj = object then None else instrumentor_find_watch_data hp i obj)"
proof -
  note O = objects_okD [OF ob]
  have e: "(wd, object) \<in> entries (objects_table i)" using wd find_watch_iff [OF ob] by simp
  show ?thesis
    unfolding instrumentor_find_watch_data_def j
    by (rule kedr_table.lookup_del [OF O(1,2) t e])
qed

text \<open>What stays of the other objects when one watch is destroyed.\<close>

lemma destroyed_watch_view:
  assumes inv: "instr_inv hp R H i w" and wd: "instrumentor_find_watch_data hp i object = Some wd"
    and t: "table_del (objects_table i) wd = Some t"
    and u: "unreffed b (unlink_watch t wd i) w d x i' w'"
  shows "watched hp i' obj \<longleftrightarrow> obj \<noteq> object \<and> watched hp i obj"
    and "replacements i' = replacements i" "operations_struct_size i' = operations_struct_size i"
    and "ops_mem w' = ops_mem w \<or> refs x = 1 \<and> destroyed_mem b i w w' (impl x)"
proof -
  have "objects_table i' = t" using unreffed_watches [OF u] by (simp add: unlink_watch_def)
  from find_unlinked [OF inv_objects [OF inv] wd t this, of obj]
  show "watched hp i' obj \<longleftrightarrow> obj \<noteq> object \<and> watched hp i obj" by (simp add: watched_def)
  show "replacements i' = replacements i" "operations_struct_size i' = operations_struct_size i"
    using u by (auto simp: unreffed_def unlink_watch_def split: if_splits)
  have "destroyed_mem b (unlink_watch t wd i) w w' (impl x) = destroyed_mem b i w w' (impl x)"
    by (rule destroyed_mem_cong) (simp add: unlink_watch_def)
  with unreffed_mem [OF u] show "ops_mem w' = ops_mem w \<or> refs x = 1 \<and> destroyed_mem b i w w' (impl x)"
    by simp
qed

lemma watch_again_ok:
  assumes inv: "instr_inv hp R {#} i w" and v: "ops_p \<noteq> NULL \<Longrightarrow> valid_ops R w ops_p"
    and x: "object_idata hp i object = Some x"
  shows "\<exists>r p i' w'. kedr_coi_instrumentor_watch hp i object ops_p w = Some (r, p, i', w') \<and>
           instr_inv hp R {#} i' w' \<and>
           (if instrument_data_my_operations (impl x) ops_p
            then r = 1 \<and> p = instrument_data_get_repl_operations (impl x) \<and> i' = i \<and> w' = w
            else r = 1 \<and> (\<forall>obj. watched hp i' obj \<longleftrightarrow> watched hp i obj) \<and>
                   (\<exists>x' w1. object_idata hp i' object = Some x' \<and> data_of i ops_p w w1 x' \<and>
                      p = instrument_data_get_repl_operations (impl x') \<and>
                      (ops_mem w' = ops_mem w1 \<or> destroyed_mem True i w1 w' (impl x))) \<or>
                 r \<in> {- ENOMEM, - EBUSY} \<and> p = instrument_data_get_orig_operations (impl x) \<and>
                   (\<forall>obj. watched hp i' obj \<longleftrightarrow> obj \<noteq> object \<and> watched hp i obj))"
proof -
  obtain wd d where wd: "instrumentor_find_watch_data hp i object = Some wd"
    and d: "watch_datas i wd = Some d" "idatas i d = Some x" using x by (auto simp: object_idata_def)
  note defs = kedr_coi_instrumentor_watch_def instrumentor_watch_internal_def
  show ?thesis
  proof (cases "instrument_data_my_operations (impl x) ops_p")
    case True
    with wd d inv show ?thesis by (simp add: defs)
  next
    case False
    obtain r i1 w1 where get: "instrumentor_get_data hp i ops_p w = Some (r, i1, w1)"
      using get_data_ok [OF inv v] by blast
    show ?thesis
    proof (cases r)
      case (Inl err)
      from get_data_Inl [OF inv v] get Inl have
        e: "err \<in> {- ENOMEM, - EBUSY}" "i1 = i" "instr_inv hp R {#} i w1" by auto
      from destroy_watch_ok(1) [OF e(3) wd d] obtain t i' w' where
        D: "instrumentor_destroy_watch_data hp i wd w1 = Some (i', w')"
        "table_del (objects_table i) wd = Some t" "instr_inv hp R {#} i' w'"
        "unreffed True (unlink_watch t wd i) w1 d x i' w'" by blast
      note view = destroyed_watch_view(1) [OF e(3) wd D(2,4)]
      have "kedr_coi_instrumentor_watch hp i object ops_p w =
          Some (err, instrument_data_get_orig_operations (impl x), i', w')"
        using wd d False get Inl e(2) D(1) by (simp add: defs)
      with D(3) view e(1) False show ?thesis by auto
    next
      case (Inr d')
      from get_data_Inr [OF inv v] get Inr obtain x1 where x1: "idatas i1 d' = Some x1"
        "data_of i ops_p w w1 x1" and inv1: "instr_inv hp R {#d'#} i1 w1"
        and other: "\<And>e. e \<noteq> d' \<Longrightarrow> idatas i1 e = idatas i e"
        and eq: "objects_table i1 = objects_table i" "watch_datas i1 = watch_datas i"
          "replacements i1 = replacements i"
        and old: "idatas i d' \<noteq> None \<longrightarrow> (\<exists>y. idatas i d' = Some y \<and> impl y = impl x1)" by auto
      have ne: "d' \<noteq> d" using old x1(2) d(2) False by (auto simp: data_of_def)
      let ?j = "set_watch i1 wd d'"
      have wd1: "watch_datas i1 wd = Some d" using d eq by simp
      have inv2: "instr_inv hp R {#d#} ?j w1" by (rule move_watch_ok [OF inv1 wd1 ne])
      have xd: "idatas ?j d = Some x" using other [of d] ne d by simp
      from unref_ok(1) [OF inv2 xd] obtain j w' where
        un: "instrument_data_unref hp ?j d w1 = Some (j, w')" "instr_inv hp R {#} j w'"
        "unreffed True ?j w1 d x j w'" by blast
      from unref_set_watch [OF un(1)] obtain k where
        k: "instrument_data_unref hp i1 d w1 = Some (k, w')" "j = set_watch k wd d'" by blast
      have xj: "idatas k d' = Some x1" using unreffed_other [OF un(3) ne] x1(1) k(2) by simp
      have run: "kedr_coi_instrumentor_watch hp i object ops_p w =
          Some (1, instrument_data_get_repl_operations (impl x1), j, w')"
        using wd d False get Inr k xj by (simp add: defs)
      have obj: "objects_table j = objects_table i" "watch_datas j = (watch_datas i)(wd \<mapsto> d')"
        using unreffed_watches [OF un(3)] eq by simp_all
      have "object_idata hp j object = Some x1"
        using wd obj xj k(2) by (simp add: object_idata_def instrumentor_find_watch_data_def)
      moreover have "destroyed_mem True ?j w1 w' (impl x) = destroyed_mem True i w1 w' (impl x)"
        by (rule destroyed_mem_cong) (simp add: eq)
      with unreffed_mem [OF un(3)]
      have "ops_mem w' = ops_mem w1 \<or> destroyed_mem True i w1 w' (impl x)" by auto
      ultimately show ?thesis using run un(2) x1(2) False watched_cong [OF obj(1)] by auto
    qed
  qed
qed

subsection \<open>Forgetting\<close>

lemma forget_unknown: "\<not> watched hp i object \<Longrightarrow>
    kedr_coi_instrumentor_forget hp i object ops_p w = Some (1, ops_p, i, w) \<and>
    kedr_coi_instrumentor_forget_direct hp i object b w = Some (1, i, w)"
  by (simp add: watched_def kedr_coi_instrumentor_forget_def kedr_coi_instrumentor_forget_direct_def)

lemma forget_ok:
  assumes inv: "instr_inv hp R {#} i w" and x: "object_idata hp i object = Some x"
  shows "\<exists>i' w'. kedr_coi_instrumentor_forget hp i object ops_p w =
             Some (0, map_option (\<lambda>p. if instrument_data_my_operations (impl x) p
                                      then instrument_data_get_orig_operations (impl x) else p) ops_p,
                   i', w') \<and>
           instr_inv hp R {#} i' w' \<and>
           (\<forall>obj. watched hp i' obj \<longleftrightarrow> obj \<noteq> object \<and> watched hp i obj) \<and>
           (if refs x = 1 then destroyed_mem True i w w' (impl x) else ops_mem w' = ops_mem w)"
proof -
  obtain wd d where wd: "instrumentor_find_watch_data hp i object = Some wd"
    and d: "watch_datas i wd = Some d" "idatas i d = Some x" using x by (auto simp: object_idata_def)
  from destroy_watch_ok(1) [OF inv wd d] obtain t i' w' where
    D: "instrumentor_destroy_watch_data hp i wd w = Some (i', w')"
    "table_del (objects_table i) wd = Some t" "instr_inv hp R {#} i' w'"
    "unreffed True (unlink_watch t wd i) w d x i' w'" by blast
  have "if refs x = 1 then destroyed_mem True i w w' (impl x) else ops_mem w' = ops_mem w"
    using D(4) destroyed_mem_cong [of "unlink_watch t wd i" i True w w' "impl x"]
    by (auto simp: unreffed_def unlink_watch_def)
  moreover have "kedr_coi_instrumentor_forget hp i object ops_p w =
      Some (0, map_option (\<lambda>p. if instrument_data_my_operations (impl x) p
                               then instrument_data_get_orig_operations (impl x) else p) ops_p,
            i', w')"
    using wd d D(1) by (simp add: kedr_coi_instrumentor_forget_def Let_def cong: if_cong)
  ultimately show ?thesis using D(3) destroyed_watch_view(1) [OF inv wd D(2,4)] by auto
qed

lemma forget_direct_ok:
  assumes inv: "instr_inv hp R {#} i w" and x: "object_idata hp i object = Some x"
  shows "\<exists>i' w'. kedr_coi_instrumentor_forget_direct hp i object norestore w = Some (0, i', w') \<and>
           instr_inv hp R {#} i' w' \<and>
           (\<forall>obj. watched hp i' obj \<longleftrightarrow> obj \<noteq> object \<and> watched hp i obj) \<and>
           (if refs x = 1 then destroyed_mem (\<not> norestore) i w w' (impl x) else ops_mem w' = ops_mem w)"
proof -
  obtain wd d where wd: "instrumentor_find_watch_data hp i object = Some wd"
    and d: "watch_datas i wd = Some d" "idatas i d = Some x" using x by (auto simp: object_idata_def)
  have "\<exists>t i' w'. (if norestore then instrumentor_destroy_watch_data_norestore hp i wd w
                   else instrumentor_destroy_watch_data hp i wd w) = Some (i', w') \<and>
           table_del (objects_table i) wd = Some t \<and>
           instr_inv hp R {#} i' w' \<and> unreffed (\<not> norestore) (unlink_watch t wd i) w d x i' w'"
    using destroy_watch_ok [OF inv wd d] by (cases norestore) simp_all
  then obtain t i' w' where
    D: "(if norestore then instrumentor_destroy_watch_data_norestore hp i wd w
         else instrumentor_destroy_watch_data hp i wd w) = Some (i', w')"
    "table_del (objects_table i) wd = Some t" "instr_inv hp R {#} i' w'"
    "unreffed (\<not> norestore) (unlink_watch t wd i) w d x i' w'" by blast
  have "if refs x = 1 then destroyed_mem (\<not> norestore) i w w' (impl x) else ops_mem w' = ops_mem w"
    using D(4) destroyed_mem_cong [of "unlink_watch t wd i" i "\<not> norestore" w w' "impl x"]
    by (auto simp: unreffed_def unlink_watch_def)
  moreover have "kedr_coi_instrumentor_forget_direct hp i object norestore w = Some (0, i', w')"
    using wd d D(1) by (cases norestore) (simp_all add: kedr_coi_instrumentor_forget_direct_def Let_def)
  ultimately show ?thesis using D(3) destroyed_watch_view(1) [OF inv wd D(2,4)] by auto
qed

lemma created_repl_orig:
  assumes "created_mem i ops w w' y" and "at_place y \<longrightarrow> ops \<noteq> NULL"
  shows "instrument_data_get_orig_operations y = ops"
    and "at_place y \<Longrightarrow> instrument_data_get_repl_operations y = ops"
    and "\<not> at_place y \<Longrightarrow> ops_mem w (instrument_data_get_repl_operations y) = None \<and>
           instrument_data_get_repl_operations y \<noteq> NULL"
  using assms by (cases y; simp add: ap_idata_ops_get_operations_def
      uc_idata_ops_get_orig_operations_def uc_idata_ops_get_repl_operations_def)+

lemma fresh_data:
  assumes d: "data_of i ops w w' x"
    and f: "\<And>d y. idatas i d = Some y \<Longrightarrow> \<not> instrument_data_my_operations (impl y) ops"
  shows "\<exists>y. x = apf_instrument_data_init y \<and> at_place y = (ops \<noteq> NULL \<and> replace_at_place i ops) \<and>
             created_mem i ops w w' y"
proof -
  have "False" if "idatas i e = Some y" "x = y\<lparr>refs := refs y + 1\<rparr>" for e y
    using d f [OF that(1)] that(2) by (simp add: data_of_def)
  then show ?thesis using d unfolding data_of_def by blast
qed

lemma watch_forget_restores:
  assumes inv: "instr_inv hp R {#} i w" and v: "ops_p \<noteq> NULL \<Longrightarrow> valid_ops R w ops_p"
    and new: "\<not> watched hp i object"
    and fresh: "\<And>d y. idatas i d = Some y \<Longrightarrow> \<not> instrument_data_my_operations (impl y) ops_p"
    and watch: "kedr_coi_instrumentor_watch hp i object ops_p w = Some (0, p, i1, w1)"
  shows "\<exists>i2 w2. kedr_coi_instrumentor_forget hp i1 object (Some p) w1 = Some (0, Some ops_p, i2, w2) \<and>
           instr_inv hp R {#} i2 w2 \<and> ops_mem w2 = ops_mem w \<and>
           (\<forall>obj. watched hp i2 obj \<longleftrightarrow> watched hp i obj)"
proof -
  from watch_new_ok [OF inv v new] watch obtain x where
    x: "object_idata hp i1 object = Some x" "data_of i ops_p w w1 x"
       "p = instrument_data_get_repl_operations (impl x)"
    and inv1: "instr_inv hp R {#} i1 w1"
    and W: "\<And>obj. watched hp i1 obj \<longleftrightarrow> obj = object \<or> watched hp i obj"
    by (auto simp: errno_defs)
  from fresh_data [OF x(2)] fresh obtain y where y: "x = apf_instrument_data_init y"
    "at_place y = (ops_p \<noteq> NULL \<and> replace_at_place i ops_p)" "created_mem i ops_p w w1 y" by metis
  have r: "refs x = 1" "impl x = y" using y(1) by (simp_all add: apf_instrument_data_init_def)
  have my: "instrument_data_my_operations y p" by (simp add: my_operations_iff x(3) r repl_operations_my)
  have orig: "instrument_data_get_orig_operations y = ops_p"
    using created_repl_orig(1) [OF y(3)] y(2) by simp
  from forget_ok [OF inv1 x(1), of "Some p"] my orig r obtain i2 w2 where
    f: "kedr_coi_instrumentor_forget hp i1 object (Some p) w1 = Some (0, Some ops_p, i2, w2)"
    "instr_inv hp R {#} i2 w2" "destroyed_mem True i1 w1 w2 y"
    and W2: "\<And>obj. watched hp i2 obj \<longleftrightarrow> obj \<noteq> object \<and> watched hp i1 obj" by auto
  have "replacements i1 = replacements i" using watch_config [OF watch] by (simp add: same_config_def)
  have "ops_mem w2 = ops_mem w"
    by (rule created_destroyed [OF instr_invD(1) [OF inv] v y(3) f(3)])
      (use y(2) \<open>replacements i1 = replacements i\<close> in simp_all)
  with f W W2 new show ?thesis by auto
qed

subsection \<open>Contents of the structures\<close>

definition replace_at :: "size_t \<Rightarrow> kedr_coi_replacement \<Rightarrow> ptr \<Rightarrow> ptr" where
  "replace_at off r op = (if operation_offset r = off then replace_operation op r else op)"

lemma replaced_eq: "m off = Some op \<Longrightarrow> replaced rs m off = Some (fold (replace_at off) rs op)"
  by (induction rs arbitrary: m op) (simp_all add: replace_at_def)

lemma replace_at_distinct:
  assumes "distinct (map operation_offset rs)"
  shows "fold (replace_at off) rs op =
         (case find (\<lambda>r. operation_offset r = off) rs of None \<Rightarrow> op | Some r \<Rightarrow> replace_operation op r)"
  using assms
proof (induction rs arbitrary: op)
  case (Cons r rs)
  show ?case
  proof (cases "operation_offset r = off")
    case True
    with Cons.prems have "find (\<lambda>r. operation_offset r = off) rs = None"
      by (auto simp: find_None_iff) (metis image_eqI)
    with True Cons show ?thesis by (simp add: replace_at_def)
  next
    case False
    with Cons show ?thesis by (simp add: replace_at_def)
  qed
qed simp

lemma created_orig:
  assumes "geometry_ok R i" and "ops \<noteq> NULL \<Longrightarrow> valid_ops R w ops"
    and "created_mem i ops w w' y" and "at_place y \<longrightarrow> ops \<noteq> NULL" and "off \<in> R"
  shows "instrument_data_get_orig_operation w' y off =
           (if ops = NULL then Some NULL else read_op w ops off)"
proof (cases y)
  case (Ap_idata p c)
  with assms show ?thesis
    by (auto simp: ap_idata_ops_get_orig_operation_def read_op_def ops_content_def memcpy_ops_def
        geometry_ok_def)
next
  case (Uc_idata p rep)
  with assms show ?thesis
    by (auto simp: uc_idata_ops_get_orig_operation_def operation_at_offset_def read_op_def
        ops_content_def valid_ops_def split: if_splits)
qed

lemma created_repl:
  assumes "geometry_ok R i" and "ops \<noteq> NULL \<Longrightarrow> valid_ops R w ops"
    and "created_mem i ops w w' y" and "at_place y \<longrightarrow> ops \<noteq> NULL" and "off \<in> R"
    and op: "(if ops = NULL then Some NULL else read_op w ops off) = Some op"
  shows "read_op w' (instrument_data_get_repl_operations y) off =
           Some (fold (replace_at off) (for_each_replacement (replacements i)) op)"
proof (cases y)
  case (Ap_idata p c)
  with assms show ?thesis
    by (auto simp: ap_idata_ops_get_operations_def read_op_def ops_content_def intro: replaced_eq)
next
  case (Uc_idata p rep)
  from assms(3) obtain c where c: "rep \<noteq> NULL" "p = ops"
    "if ops = NULL then c = memset_ops (operations_struct_size i)
     else \<exists>m. ops_mem w ops = Some m \<and> c = memcpy_ops (operations_struct_size i) m"
    "ops_mem w' = (ops_mem w)(rep \<mapsto> replaced (for_each_replacement (replacements i)) c)"
    by (auto simp: Uc_idata)
  have "off < operations_struct_size i" using assms(1,5) by (simp add: geometry_ok_def)
  then have "c off = Some op"
    using c(3) op by (auto simp: memset_ops_def memcpy_ops_def read_op_def ops_content_def split: if_splits)
  with c show ?thesis
    by (simp add: Uc_idata uc_idata_ops_get_repl_operations_def read_op_def ops_content_def replaced_eq)
qed

subsection \<open>Original operations\<close>

lemma orig_operation_total:
  assumes "impl_ok R w y" and "off \<in> R"
  shows "\<exists>op. instrument_data_get_orig_operation w y off = Some op"
proof (cases y)
  case (Ap_idata p c)
  with assms show ?thesis by (auto simp: ap_idata_ops_get_orig_operation_def)
next
  case (Uc_idata p rep)
  with assms show ?thesis
    by (cases "p = NULL") (force simp: uc_idata_ops_get_orig_operation_def operation_at_offset_def
        read_op_def ops_content_def valid_ops_def)+
qed

lemma nodata_total:
  assumes "valid_ops R w ops" and "off \<in> R"
  shows "\<exists>op. read_op w ops off = Some op \<and>
           instrumentor_get_orig_operation_nodata rs ops off w =
             Some (if op \<in> repl ` set (for_each_replacement rs) then Inl (- EINVAL) else Inr op)"
  using assms by (force simp: instrumentor_get_orig_operation_nodata_def read_op_def ops_content_def
      valid_ops_def list_ex_iff)

lemma get_orig_total:
  assumes inv: "instr_inv hp R {#} i w" and v: "valid_ops R w ops" and off: "off \<in> R"
  shows "\<exists>r res. kedr_coi_instrumentor_get_orig_operation hp i object ops off w = Some (r, res) \<and>
           (case object_idata hp i object of
              Some x \<Rightarrow> r = 0 \<and> (\<exists>op. res = Inr op \<and> instrument_data_get_orig_operation w (impl x) off = Some op)
            | None \<Rightarrow> (case instrumentor_find_data hp i ops of
                Some d \<Rightarrow> r = 1 \<and> (\<exists>x op. idatas i d = Some x \<and> res = Inr op \<and>
                           instrument_data_get_orig_operation w (impl x) off = Some op)
              | None \<Rightarrow> (\<exists>op. read_op w ops off = Some op \<and>
                           (r, res) = (if op \<in> repl ` set (for_each_replacement (replacements i))
                                       then (- EINVAL, Inl (- EINVAL)) else (1, Inr op)))))"
proof -
  have ok: "impl_ok R w (impl x)" if "idatas i d = Some x" for d x
    using instr_invD(4) [OF inv] that by (simp add: mem_ok_def)
  show ?thesis
  proof (cases "object_idata hp i object")
    case (Some x)
    then obtain wd d where wd: "instrumentor_find_watch_data hp i object = Some wd"
      "watch_datas i wd = Some d" "idatas i d = Some x" by (auto simp: object_idata_def)
    from orig_operation_total [OF ok [OF wd(3)] off] wd Some show ?thesis
      by (auto simp: kedr_coi_instrumentor_get_orig_operation_def)
  next
    case None
    then have nw: "instrumentor_find_watch_data hp i object = None"
      using watched_object_idata [OF inv, of object] by (simp add: watched_def)
    show ?thesis
    proof (cases "instrumentor_find_data hp i ops")
      case (Some d)
      then obtain x where "idatas i d = Some x"
        using find_data_iff [OF instr_invD(2) [OF inv]] by blast
      with orig_operation_total [OF ok off] Some None nw show ?thesis
        by (fastforce simp: kedr_coi_instrumentor_get_orig_operation_def)
    next
      case find: None
      from nodata_total [OF v off, of "replacements i"] obtain op where
        "read_op w ops off = Some op" "instrumentor_get_orig_operation_nodata (replacements i) ops off w =
           Some (if op \<in> repl ` set (for_each_replacement (replacements i)) then Inl (- EINVAL) else Inr op)"
        by blast
      with None nw find show ?thesis
        by (simp add: kedr_coi_instrumentor_get_orig_operation_def)
    qed
  qed
qed

lemma find_data_None_my:
  assumes inv: "instr_inv hp R H i w" and f: "instrumentor_find_data hp i ops = None"
    and d: "idatas i d = Some y"
  shows "\<not> instrument_data_my_operations (impl y) ops"
proof -
  have "\<not> (\<exists>f. (f, ops) \<in> impl_keys (impl y))"
    using find_data_iff [OF instr_invD(2) [OF inv], of ops d] f d by auto
  then show ?thesis by (force simp: my_operations_iff)
qed

text \<open>What a successful watch with operations that were not instrumented gives.\<close>

lemma watch_created:
  assumes inv: "instr_inv hp R {#} i w" and v: "ops_p \<noteq> NULL \<Longrightarrow> valid_ops R w ops_p"
    and new: "\<not> watched hp i object" and fresh: "instrumentor_find_data hp i ops_p = None"
    and watch: "kedr_coi_instrumentor_watch hp i object ops_p w = Some (0, p, i1, w1)"
  shows "\<exists>y. object_idata hp i1 object = Some (apf_instrument_data_init y) \<and>
           at_place y = (ops_p \<noteq> NULL \<and> replace_at_place i ops_p) \<and> created_mem i ops_p w w1 y \<and>
           p = instrument_data_get_repl_operations y \<and> instr_inv hp R {#} i1 w1"
proof -
  from watch_new_ok [OF inv v new] watch obtain x where
    x: "object_idata hp i1 object = Some x" "data_of i ops_p w w1 x"
       "p = instrument_data_get_repl_operations (impl x)"
    and inv1: "instr_inv hp R {#} i1 w1"
    by (auto simp: errno_defs)
  from fresh_data [OF x(2)] find_data_None_my [OF inv fresh] obtain y where
    "x = apf_instrument_data_init y" "at_place y = (ops_p \<noteq> NULL \<and> replace_at_place i ops_p)"
    "created_mem i ops_p w w1 y" by metis
  with x inv1 show ?thesis by (auto simp: apf_instrument_data_init_def)
qed

lemma watch_intercepts_ok:
  assumes inv: "instr_inv hp R {#} i w" and v: "ops_p \<noteq> NULL \<Longrightarrow> valid_ops R w ops_p"
    and new: "\<not> watched hp i object" and fresh: "instrumentor_find_data hp i ops_p = None"
    and watch: "kedr_coi_instrumentor_watch hp i object ops_p w = Some (0, p, i1, w1)"
    and off: "off \<in> R" and op: "(if ops_p = NULL then Some NULL else read_op w ops_p off) = Some op"
  shows "read_op w1 p off = Some (fold (replace_at off) (for_each_replacement (replacements i)) op) \<and>
         kedr_coi_instrumentor_get_orig_operation hp i1 object q off w1 = Some (0, Inr op) \<and>
         (ops_p \<noteq> NULL \<and> replace_at_place i ops_p \<longrightarrow> p = ops_p) \<and>
         (\<not> (ops_p \<noteq> NULL \<and> replace_at_place i ops_p) \<longrightarrow> ops_mem w p = None \<and> ops_mem w1 ops_p = ops_mem w ops_p)"
proof -
  from watch_created [OF inv v new fresh watch] obtain y where
    y: "object_idata hp i1 object = Some (apf_instrument_data_init y)"
      "at_place y = (ops_p \<noteq> NULL \<and> replace_at_place i ops_p)" "created_mem i ops_p w w1 y"
      "p = instrument_data_get_repl_operations y" by blast
  have nn: "at_place y \<longrightarrow> ops_p \<noteq> NULL" using y(2) by simp
  note geo = instr_invD(1) [OF inv]
  have "instrument_data_get_orig_operation w1 y off = Some op"
    using created_orig [OF geo v y(3) nn off] op by simp
  moreover obtain wd d where "instrumentor_find_watch_data hp i1 object = Some wd"
    "watch_datas i1 wd = Some d" "idatas i1 d = Some (apf_instrument_data_init y)"
    using y(1) by (auto simp: object_idata_def)
  ultimately have "kedr_coi_instrumentor_get_orig_operation hp i1 object q off w1 = Some (0, Inr op)"
    by (simp add: kedr_coi_instrumentor_get_orig_operation_def apf_instrument_data_init_def)
  moreover have "ops_mem w1 ops_p = ops_mem w ops_p" if "\<not> at_place y"
  proof (cases "ops_p = NULL")
    case True
    with y(3) that show ?thesis by (cases y) auto
  next
    case False
    with v y(3) that show ?thesis by (cases y) (auto simp: valid_ops_def)
  qed
  ultimately show ?thesis
    using created_repl [OF geo v y(3) nn off op] created_repl_orig [OF y(3) nn] y(2,4) by auto
qed

end
