(* ===== verification/Instr_Destroy.thy ===== *)
theory Instr_Destroy
  imports Instr_Spec
begin

text \<open>
  Isolation of an instrumentor from the others (marks in the global table), its creation and
  its destruction.
\<close>

subsection \<open>Marks of the other instrumentors\<close>

definition others :: "kedr_coi_instrumentor \<Rightarrow> world \<Rightarrow> instrument_data_search hash_elem set" where
  "others i w = entries (ops_table_global w) - search_entries (idatas i)"

lemma others_cong:
  "idatas j = idatas i \<Longrightarrow> ops_table_global w' = ops_table_global w \<Longrightarrow> others j w' = others i w"
  by (simp add: others_def)

lemma others_unreffed:
  assumes u: "unreffed b i w d x i' w'" and x: "idatas i d = Some x"
  shows "others i' w' = others i w"
proof (cases "refs x = 1")
  case True
  with u have "idatas i' = (idatas i)(d := None)"
    "entries (ops_table_global w') = entries (ops_table_global w) - idata_marks d (impl x)"
    by (auto simp: unreffed_def)
  moreover have "idata_marks d (impl x) \<subseteq> search_entries (idatas i)" using x by auto
  ultimately show ?thesis
    unfolding others_def by (simp only: search_entries_free [of "idatas i" d, OF x]) blast
next
  case False
  with u have "i' = set_idata i d (x\<lparr>refs := refs x - 1\<rparr>)" "w' = w" by (auto simp: unreffed_def)
  then show ?thesis using search_entries_refs [of "idatas i" d x, OF x, of "x\<lparr>refs := refs x - 1\<rparr>"]
    by (simp add: others_def)
qed

lemma others_get_data:
  assumes inv: "instr_inv hp R H i w" and v: "ops \<noteq> NULL \<Longrightarrow> valid_ops R w ops"
    and get: "instrumentor_get_data hp i ops w = Some (r, i1, w1)"
  shows "others i1 w1 = others i w"
proof (cases "instrumentor_find_data hp i ops")
  case (Some d)
  with get_data_ok [OF inv v] get obtain x where "idatas i d = Some x" "w1 = w"
    "i1 = set_idata i d (x\<lparr>refs := refs x + 1\<rparr>)" by auto
  then show ?thesis using search_entries_refs [of "idatas i" d x "x\<lparr>refs := refs x + 1\<rparr>"]
    by (simp add: others_def)
next
  case None
  with get_data_ok [OF inv v] get obtain place where
    c: "created hp R H place ops i w r i1 w1" by auto
  show ?thesis
  proof (cases r)
    case (Inl err)
    with c have "i1 = i" "w1 = w\<lparr>pending := pending w1\<rparr>" by (auto simp: created_def)
    then show ?thesis by (metis others_cong select_convs(2) surjective update_convs(3))
  next
    case (Inr d)
    with c obtain y where y: "idatas i d = None" "\<forall>f. (d, f) \<notin> fst ` entries (ops_table_global w)"
      "idatas i1 = (idatas i)(d \<mapsto> apf_instrument_data_init y)"
      "entries (ops_table_global w1) = entries (ops_table_global w) \<union> idata_marks d y"
      by (auto simp: created_def)
    have "idata_marks d y \<inter> entries (ops_table_global w) = {}" using y(2) by force
    then show ?thesis
      unfolding others_def y(3,4) search_entries_set [of "idatas i" d, OF y(1)]
      by (auto simp: apf_instrument_data_init_def)
  qed
qed

text \<open>Operations marked by another instrumentor cannot be instrumented.\<close>

lemma get_data_busy:
  assumes inv: "instr_inv hp R H i w" and v: "ops \<noteq> NULL \<Longrightarrow> valid_ops R w ops"
    and busy: "((e, g), ops) \<in> others i w"
  shows "\<exists>err w1. instrumentor_get_data hp i ops w = Some (Inl err, i, w1) \<and>
           err \<in> {- ENOMEM, - EBUSY} \<and> w1 = w\<lparr>pending := pending w1\<rparr> \<and> instr_inv hp R H i w1"
proof -
  have E: "((e, g), ops) \<in> entries (ops_table_global w)" "((e, g), ops) \<notin> search_entries (idatas i)"
    using busy by (auto simp only: others_def Diff_iff)
  obtain r i1 w1 where get: "instrumentor_get_data hp i ops w = Some (r, i1, w1)"
    using get_data_ok [OF inv v] by blast
  show ?thesis
  proof (cases r)
    case (Inl err)
    with get_data_Inl [OF inv v] get show ?thesis by auto
  next
    case (Inr d)
    have get': "instrumentor_get_data hp i ops w = Some (Inr d, i1, w1)" using get Inr by simp
    from get_data_Inr [OF inv v get'] obtain x where
      x1: "idatas i1 d = Some x" "data_of i ops w w1 x" and inv1: "instr_inv hp R (add_mset d H) i1 w1"
      by auto
    then have "ops \<in> snd ` impl_keys (impl x)" by (simp add: data_of_def my_operations_iff)
    then obtain f where x: "idatas i1 d = Some x" "(f, ops) \<in> impl_keys (impl x)" using x1 by auto
    have s: "search_entries (idatas i1) \<subseteq> entries (ops_table_global w1)"
      "unique_keys (entries (ops_table_global w1))"
      using instr_invD(2) [OF inv1] by (auto simp: tables_ok_def search_ok_def)
    have "((e, g), ops) \<in> others i1 w1" using others_get_data [OF inv v get] busy by simp
    then have "((e, g), ops) \<in> entries (ops_table_global w1)" "((e, g), ops) \<notin> search_entries (idatas i1)"
      by (auto simp only: others_def Diff_iff)
    moreover have "((d, f), ops) \<in> search_entries (idatas i1)" using x by auto
    ultimately have False using unique_keysD [OF s(2)] s(1) by blast
    then show ?thesis ..
  qed
qed

lemma watch_busy:
  assumes inv: "instr_inv hp R {#} i w" and v: "ops_p \<noteq> NULL \<Longrightarrow> valid_ops R w ops_p"
    and new: "\<not> watched hp i object" and busy: "((e, g), ops_p) \<in> others i w"
  shows "\<exists>err w1. kedr_coi_instrumentor_watch hp i object ops_p w = Some (err, ops_p, i, w1) \<and>
           err \<in> {- ENOMEM, - EBUSY} \<and> w1 = w\<lparr>pending := pending w1\<rparr>"
proof -
  have nw: "instrumentor_find_watch_data hp i object = None" using new by (simp add: watched_def)
  from get_data_busy [OF inv v busy] obtain err w1 where
    "instrumentor_get_data hp i ops_p w = Some (Inl err, i, w1)"
    "err \<in> {- ENOMEM, - EBUSY}" "w1 = w\<lparr>pending := pending w1\<rparr>" by blast
  with nw show ?thesis
    unfolding kedr_coi_instrumentor_watch_def instrumentor_watch_internal_def by auto
qed

subsection \<open>Destruction of an instrumentor\<close>

text \<open>
  While kedr_coi_instrumentor_destroy runs, the references of the watches not yet destroyed
  are references the running operation holds.
\<close>

definition empty_table :: "'e hash_table" where
  "empty_table = \<lparr>heads = init_hlist_heads BITS_DEFAULT, bits = BITS_DEFAULT, n_elems = 0\<rparr>"

lemma table_inv_empty [simp]: "table_inv hp empty_table" "entries empty_table = {}"
  by (simp_all add: empty_table_def table_inv_def table_elems_def)

definition watch_refs :: "kedr_coi_instrumentor \<Rightarrow> ptr hash_elem list \<Rightarrow> ptr multiset" where
  "watch_refs i xs = image_mset (\<lambda>x. the (watch_datas i (fst x))) (mset xs)"

lemma count_watch_refs:
  assumes "distinct (map fst xs)" and "fst ` set xs \<subseteq> dom (watch_datas i)"
  shows "count (watch_refs i xs) d = card {wd \<in> fst ` set xs. watch_datas i wd = Some d}"
  using assms
proof (induction xs)
  case (Cons x xs)
  let ?S = "{wd \<in> fst ` set xs. watch_datas i wd = Some d}"
  have x: "fst x \<notin> fst ` set xs" using Cons.prems(1) by simp
  obtain e where e: "watch_datas i (fst x) = Some e" using Cons.prems(2) by auto
  have "{wd \<in> fst ` set (x # xs). watch_datas i wd = Some d} =
        (if e = d then insert (fst x) ?S else ?S)" using e by auto
  moreover have "finite ?S" "fst x \<notin> ?S" using x by auto
  ultimately show ?case using Cons e by (simp add: watch_refs_def)
qed (simp add: watch_refs_def)

lemma hold_watches:
  assumes inv: "instr_inv hp R {#} i w"
  shows "instr_inv hp R (watch_refs i (table_elems (objects_table i))) (relink empty_table Map.empty i) w"
proof -
  let ?xs = "table_elems (objects_table i)" and ?j = "relink empty_table Map.empty i"
  note I = instr_invD [OF inv]
  note O = objects_okD [OF inv_objects [OF inv]]
  have dis: "distinct (map fst ?xs)" using O(1) by (simp add: table_inv_def)
  have c: "count (watch_refs i ?xs) d = watch_count i d" for d
  proof -
    have "{wd \<in> fst ` set ?xs. watch_datas i wd = Some d} = {wd. watch_datas i wd = Some d}"
      using O(3) by auto
    then show ?thesis using count_watch_refs [OF dis, of i d] O(3) by (simp add: watch_count_def)
  qed
  have "geometry_ok R ?j" using I(1) by (simp add: geometry_ok_def)
  moreover have "tables_ok hp ?j w" using I(2) by (simp add: tables_ok_def objects_ok_def)
  moreover have "mem_ok R ?j w" using I(4) by (simp add: mem_ok_def)
  moreover have "allocs_ok ?j w" using I(5) by (auto simp: allocs_ok_def fresh_ptr_def)
  moreover have "count_ok (watch_refs i ?xs) ?j d x" if "idatas i d = Some x" for d x
    using refs_okD [OF I(3) that] c [of d] by (simp add: count_ok_def watch_count_def)
  moreover have "set_mset (watch_refs i ?xs) \<subseteq> ran (watch_datas i)"
    using O(3) by (force simp: watch_refs_def intro: ranI)
  then have "set_mset (watch_refs i ?xs) \<subseteq> dom (idatas i)"
    using I(3) by (auto simp: refs_ok_def)
  ultimately show ?thesis by (simp add: instr_inv_def refs_ok_def)
qed

lemma unref_relinked:
  assumes "instr_inv hp R (add_mset d H) (relink t m i) w"
  shows "\<exists>x j w'. idatas i d = Some x \<and> instrument_data_unref hp i d w = Some (j, w') \<and>
           instr_inv hp R H (relink t m j) w' \<and> unreffed True (relink t m i) w d x (relink t m j) w'"
proof -
  obtain x where x: "idatas (relink t m i) d = Some x" using held_idata [OF assms] by blast
  from unref_ok(1) [OF assms x] x show ?thesis by (auto simp: unref_relink)
qed

definition no_foreign :: "kedr_coi_instrumentor \<Rightarrow> bool" where
  "no_foreign i \<longleftrightarrow> (\<forall>d x. idatas i d = Some x \<longrightarrow> foreign_data_list x = [])"

lemma no_foreign_unreffed:
  assumes "unreffed b i w d x i' w'" and "idatas i d = Some x" and "no_foreign i"
  shows "no_foreign i'"
  using assms by (auto simp: no_foreign_def unreffed_def split: if_splits)

text \<open>No reference is left, so no object is left.\<close>

lemma no_refs_no_idatas:
  assumes inv: "instr_inv hp R {#} i w" and "no_foreign i" and "watch_datas i = Map.empty"
  shows "idatas i = Map.empty"
proof
  fix d
  show "idatas i d = None"
  proof (cases "idatas i d")
    case (Some x)
    from refs_okD [OF instr_invD(3) [OF inv] this] assms(2,3) Some show ?thesis
      by (auto simp: count_ok_def watch_count_def no_foreign_def)
  qed simp
qed

text \<open>What the loop over the table of watched objects has done when the elements xs remain.\<close>

definition destroy_loop ::
  "hash_fn \<Rightarrow> size_t set \<Rightarrow> kedr_coi_instrumentor \<Rightarrow> world \<Rightarrow> bool \<Rightarrow> ptr hash_elem list \<Rightarrow>
   kedr_coi_instrumentor \<times> world \<times> ptr list \<Rightarrow> bool" where
  "destroy_loop hp R i0 w0 trace xs s \<longleftrightarrow>
     (case s of (i, w, traced) \<Rightarrow>
        instr_inv hp R (watch_refs i xs) (relink empty_table Map.empty i) w \<and>
        no_foreign i \<and> others i w = others i0 w0 \<and> objects_table i = objects_table i0 \<and>
        distinct (map fst xs) \<and> dom (watch_datas i) = fst ` set xs \<and>
        traced @ (if trace then map snd xs else []) =
          (if trace then map snd (table_elems (objects_table i0)) else []))"

lemma watch_refs_cong:
  "(\<And>x. x \<in> set xs \<Longrightarrow> watch_datas j (fst x) = watch_datas i (fst x)) \<Longrightarrow>
   watch_refs j xs = watch_refs i xs"
  unfolding watch_refs_def by (intro image_mset_cong) auto

lemma destroy_step:
  assumes "destroy_loop hp R i0 w0 trace (x # xs) s"
  shows "\<exists>s'. instrumentor_destroy_watch_data_callback hp trace x s = Some s' \<and>
           destroy_loop hp R i0 w0 trace xs s'"
proof -
  obtain wd object where xe: "x = (wd, object)" by (cases x)
  obtain i w traced where s: "s = (i, w, traced)" by (cases s)
  note L = assms [unfolded destroy_loop_def s prod.case xe]
  have "wd \<in> dom (watch_datas i)" using L by simp
  then obtain d where d: "watch_datas i wd = Some d" by blast
  have "instr_inv hp R (add_mset d (watch_refs i xs)) (relink empty_table Map.empty i) w"
    using L d by (simp add: watch_refs_def)
  from unref_relinked [OF this] obtain y j w' where
    y: "idatas i d = Some y" and un: "instrument_data_unref hp i d w = Some (j, w')"
    and inv: "instr_inv hp R (watch_refs i xs) (relink empty_table Map.empty j) w'"
    and u: "unreffed True (relink empty_table Map.empty i) w d y (relink empty_table Map.empty j) w'"
    by blast
  note same = unref_watches [OF disjI1 [OF un]]
  let ?j = "free_watch j wd"
  have rel: "relink empty_table Map.empty ?j = relink empty_table Map.empty j"
    by (simp add: relink_def free_watch_def)
  have wd: "wd \<notin> fst ` set xs" using L by simp
  then have refs: "watch_refs ?j xs = watch_refs i xs"
    by (intro watch_refs_cong) (auto simp: same)
  have yr: "idatas (relink empty_table Map.empty i) d = Some y" using y by simp
  have "others (relink empty_table Map.empty j) w' = others (relink empty_table Map.empty i) w"
    by (rule others_unreffed [OF u yr])
  then have "others ?j w' = others i w" by (simp add: others_def)
  moreover have "no_foreign (relink empty_table Map.empty j)"
    by (rule no_foreign_unreffed [OF u yr]) (use L in \<open>simp add: no_foreign_def\<close>)
  then have "no_foreign ?j" by (simp add: no_foreign_def)
  moreover have "dom (watch_datas ?j) = fst ` set xs" using L wd by (auto simp: same)
  ultimately have "destroy_loop hp R i0 w0 trace xs
      (?j, w', if trace then traced @ [object] else traced)"
    using L inv by (auto simp: destroy_loop_def rel refs same)
  then show ?thesis by (simp add: xe s instrumentor_destroy_watch_data_callback_def d un)
qed

lemma instrumentor_destroy_ok:
  assumes inv: "instr_inv hp R {#} i w" and nf: "no_foreign i"
  shows "\<exists>i' w'. kedr_coi_instrumentor_destroy hp i trace w =
             Some (if trace then map snd (table_elems (objects_table i)) else [], i', w') \<and>
           idatas i' = Map.empty \<and> watch_datas i' = Map.empty \<and> entries (idata_table i') = {} \<and>
           entries (ops_table_global w') = others i w"
proof -
  note O = objects_okD [OF inv_objects [OF inv]]
  have start: "destroy_loop hp R i w trace (table_elems (objects_table i)) (i, w, [])"
    using hold_watches [OF inv] nf O by (simp add: destroy_loop_def table_inv_def)
  have "\<exists>s'. fold_opt (instrumentor_destroy_watch_data_callback hp trace)
          (table_elems (objects_table i)) (i, w, []) = Some s' \<and> destroy_loop hp R i w trace [] s'"
    by (rule fold_opt_rule [where I = "destroy_loop hp R i w trace", OF start]) (rule destroy_step)
  then obtain s' where
    s': "fold_opt (instrumentor_destroy_watch_data_callback hp trace) (table_elems (objects_table i))
           (i, w, []) = Some s'" "destroy_loop hp R i w trace [] s'" by blast
  obtain i' w' traced where s: "s' = (i', w', traced)" by (cases s')
  note run = s'(1) [unfolded s] and L = s'(2) [unfolded s]
  have wd: "watch_datas i' = Map.empty" using L by (simp add: destroy_loop_def)
  have inv': "instr_inv hp R {#} (relink empty_table Map.empty i') w'"
    using L by (simp add: destroy_loop_def watch_refs_def)
  have nf': "no_foreign (relink empty_table Map.empty i')"
    using L by (simp add: destroy_loop_def no_foreign_def)
  have id: "idatas i' = Map.empty" using no_refs_no_idatas [OF inv' nf'] by simp
  have "entries (idata_table i') = search_entries (idatas i')"
    using instr_invD(2) [OF inv'] by (simp add: tables_ok_def search_ok_def)
  moreover have "search_entries (Map.empty) = {}" by (auto simp: search_entries_def)
  ultimately have e: "entries (idata_table i') = {}" "entries (ops_table_global w') = others i w"
    using L id by (simp_all add: destroy_loop_def others_def)
  have "kedr_coi_instrumentor_destroy hp i trace w = Some (traced, i', w')"
    by (simp add: kedr_coi_instrumentor_destroy_def destroy_eq destroy_None run)
  moreover have "traced = (if trace then map snd (table_elems (objects_table i)) else [])"
    using L by (cases trace) (simp_all add: destroy_loop_def)
  ultimately show ?thesis using wd id e by auto
qed

subsection \<open>Creation\<close>

text \<open>What the rest of the kernel guarantees for an instrumentor that starts with no object.\<close>

definition world_ok :: "hash_fn \<Rightarrow> world \<Rightarrow> bool" where
  "world_ok hp w \<longleftrightarrow>
     table_inv hp (ops_table_global w) \<and> unique_keys (entries (ops_table_global w)) \<and>
     (\<forall>p. Some p \<in> set (pending w) \<longrightarrow> p \<noteq> NULL \<and> p \<notin> dom (ops_mem w) \<and>
        (\<forall>((d, f), k) \<in> entries (ops_table_global w). p \<noteq> d \<and> p \<noteq> k)) \<and>
     distinct (filter (\<lambda>a. a \<noteq> None) (pending w))"

lemma kmalloc_tl: "kmalloc as = (a, as') \<Longrightarrow> as' = tl as"
  by (auto simp: kmalloc_def split: list.splits)

lemma hash_table_init_Inr:
  "kedr_coi_hash_table_init as = (Inr t, as') \<Longrightarrow> t = empty_table \<and> as' = tl as"
  by (auto simp: kedr_coi_hash_table_init_def empty_table_def split: prod.splits option.splits
      dest: kmalloc_tl)

lemma create_shape:
  assumes "kedr_coi_instrumentor_create sz rs place as = (Some i, as')"
  shows "as' = tl (tl (tl (tl as)))" "idata_table i = empty_table" "objects_table i = empty_table"
    "foreign_ops_p_table i = empty_table" "operations_struct_size i = sz"
    "replacements i = (case rs of None \<Rightarrow> empty_replacements | Some rs \<Rightarrow> rs)"
    "replace_at_place i = place"
    "idatas i = Map.empty" "watch_datas i = Map.empty" "idatas_foreign i = Map.empty"
    "foreign_instrumentors i = Map.empty"
  using assms
  by (auto simp: kedr_coi_instrumentor_create_def split: prod.splits option.splits sum.splits
      dest!: hash_table_init_Inr kmalloc_tl)

lemma set_tl4: "x \<in> set (tl (tl (tl (tl as)))) \<Longrightarrow> x \<in> set as"
  by (cases as; cases "tl as"; cases "tl (tl as)"; cases "tl (tl (tl as))") auto

lemma distinct_filter_tl: "distinct (filter P as) \<Longrightarrow> distinct (filter P (tl as))"
  by (cases as) (auto split: if_splits)

lemma create_ok:
  assumes c: "kedr_coi_instrumentor_create sz rs place (pending w) = (Some i, as')"
    and w: "world_ok hp w"
    and geo: "repl_offsets (case rs of None \<Rightarrow> empty_replacements | Some rs \<Rightarrow> rs) \<subseteq> R"
      "\<And>off. off \<in> R \<Longrightarrow> off < sz"
  shows "instr_inv hp R {#} i (w\<lparr>pending := as'\<rparr>)"
proof -
  note S = create_shape [OF c]
  have "search_entries Map.empty = {}" by (auto simp: search_entries_def)
  then have "tables_ok hp i (w\<lparr>pending := as'\<rparr>)"
    using w by (simp add: tables_ok_def search_ok_def objects_ok_def S world_ok_def)
  moreover have "distinct (filter (\<lambda>a. a \<noteq> None) as')"
    using w S(1) by (simp add: world_ok_def distinct_filter_tl)
  then have "allocs_ok i (w\<lparr>pending := as'\<rparr>)"
    using w set_tl4 [of _ "pending w"] S(1)
    by (auto simp: allocs_ok_def fresh_ptr_def S world_ok_def)
  moreover have "geometry_ok R i" using geo by (simp add: geometry_ok_def S)
  moreover have "refs_ok {#} i" by (simp add: refs_ok_def S)
  moreover have "mem_ok R i (w\<lparr>pending := as'\<rparr>)" by (simp add: mem_ok_def S)
  ultimately show ?thesis by (simp add: instr_inv_def)
qed

lemma empty_replacements_offsets [simp]: "repl_offsets empty_replacements = {}"
  by (simp add: repl_offsets_def empty_replacements_def for_each_replacement_def)

end
