(* ===== verification/Instr_Reach.thy ===== *)
theory Instr_Reach
  imports Instr_Destroy
begin

text \<open>
  The normal instrumentor as a state machine: the calls of its interface in any order,
  interleaved with steps of the kernel that write, allocate and free operations structures.
  The kernel is only assumed to use live structures and not to free an instrumented one.
\<close>

type_synonym instr_state = "kedr_coi_instrumentor \<times> world"

inductive instr_step :: "hash_fn \<Rightarrow> size_t set \<Rightarrow> instr_state \<Rightarrow> instr_state \<Rightarrow> bool"
  for hp :: hash_fn and R :: "size_t set" where
  step_watch: "(ops_p \<noteq> NULL \<Longrightarrow> valid_ops R w ops_p) \<Longrightarrow>
     kedr_coi_instrumentor_watch hp i object ops_p w = Some (r, ops_p', i', w') \<Longrightarrow>
     instr_step hp R (i, w) (i', w')"
| step_forget: "kedr_coi_instrumentor_forget hp i object ops_p w = Some (r, ops_p', i', w') \<Longrightarrow>
     instr_step hp R (i, w) (i', w')"
| step_watch_direct: "(object \<noteq> NULL \<Longrightarrow> valid_ops R w object) \<Longrightarrow>
     kedr_coi_instrumentor_watch_direct hp i object w = Some (r, i', w') \<Longrightarrow>
     instr_step hp R (i, w) (i', w')"
| step_forget_direct:
    "kedr_coi_instrumentor_forget_direct hp i object norestore w = Some (r, i', w') \<Longrightarrow>
     instr_step hp R (i, w) (i', w')"
| kernel_write: "ops_mem w ops = Some m \<Longrightarrow> off \<in> dom m \<Longrightarrow>
     instr_step hp R (i, w) (i, set_ops w ops (m(off \<mapsto> op)))"
| kernel_alloc: "ops \<noteq> NULL \<Longrightarrow> ops_mem w ops = None \<Longrightarrow> Some ops \<notin> set (pending w) \<Longrightarrow>
     instr_step hp R (i, w) (i, set_ops w ops m)"
| kernel_free: "instrumentor_find_data hp i ops = None \<Longrightarrow>
     instr_step hp R (i, w) (i, free_ops w ops)"

inductive instr_reach :: "hash_fn \<Rightarrow> size_t set \<Rightarrow> instr_state \<Rightarrow> instr_state \<Rightarrow> bool"
  for hp :: hash_fn and R :: "size_t set" and s0 :: instr_state where
  reach_start: "instr_reach hp R s0 s0"
| reach_step: "instr_reach hp R s0 s \<Longrightarrow> instr_step hp R s s' \<Longrightarrow> instr_reach hp R s0 s'"

lemma instr_inv_mem:
  assumes inv: "instr_inv hp R H i w"
    and g: "ops_table_global w' = ops_table_global w" "pending w' = pending w"
    and ok: "\<And>d x. idatas i d = Some x \<Longrightarrow> impl_ok R w (impl x) \<Longrightarrow> impl_ok R w' (impl x)"
    and dom: "\<And>p. Some p \<in> set (pending w) \<Longrightarrow> p \<notin> dom (ops_mem w) \<Longrightarrow> p \<notin> dom (ops_mem w')"
  shows "instr_inv hp R H i w'"
proof -
  note I = instr_invD [OF inv]
  have "tables_ok hp i w'" using I(2) g by (simp add: tables_ok_def)
  moreover have "mem_ok R i w'" using I(4) ok by (auto simp: mem_ok_def)
  moreover have "allocs_ok i w'" using I(5) dom g unfolding allocs_ok_def fresh_ptr_def by metis
  ultimately show ?thesis using I by (simp add: instr_inv_def)
qed

lemma watch_inv:
  assumes inv: "instr_inv hp R {#} i w" and v: "ops_p \<noteq> NULL \<Longrightarrow> valid_ops R w ops_p"
  shows "\<exists>r p i' w'. kedr_coi_instrumentor_watch hp i object ops_p w = Some (r, p, i', w') \<and>
           instr_inv hp R {#} i' w' \<and> r \<in> {0, 1, - ENOMEM, - EBUSY}"
proof (cases "object_idata hp i object")
  case None
  then have "\<not> watched hp i object" using watched_object_idata [OF inv] by simp
  from watch_new_ok [OF inv v this] show ?thesis by blast
next
  case (Some x)
  from watch_again_ok [OF inv v Some] show ?thesis by (auto split: if_splits)
qed

lemma forget_inv:
  assumes inv: "instr_inv hp R {#} i w"
  shows "\<exists>r p i' w'. kedr_coi_instrumentor_forget hp i object ops_p w = Some (r, p, i', w') \<and>
           instr_inv hp R {#} i' w' \<and> r \<in> {0, 1}"
    and "\<exists>r i' w'. kedr_coi_instrumentor_forget_direct hp i object norestore w = Some (r, i', w') \<and>
           instr_inv hp R {#} i' w' \<and> r \<in> {0, 1}"
proof -
  have "(\<exists>r p i' w'. kedr_coi_instrumentor_forget hp i object ops_p w = Some (r, p, i', w') \<and>
           instr_inv hp R {#} i' w' \<and> r \<in> {0, 1}) \<and>
        (\<exists>r i' w'. kedr_coi_instrumentor_forget_direct hp i object norestore w = Some (r, i', w') \<and>
           instr_inv hp R {#} i' w' \<and> r \<in> {0, 1})"
  proof (cases "object_idata hp i object")
    case None
    then have "\<not> watched hp i object" using watched_object_idata [OF inv] by simp
    from forget_unknown [OF this] inv show ?thesis by auto
  next
    case (Some x)
    have A: "\<exists>p i' w'. kedr_coi_instrumentor_forget hp i object ops_p w = Some (0, p, i', w') \<and>
        instr_inv hp R {#} i' w'" using forget_ok [OF inv Some, of ops_p] by blast
    have B: "\<exists>i' w'. kedr_coi_instrumentor_forget_direct hp i object norestore w = Some (0, i', w') \<and>
        instr_inv hp R {#} i' w'" using forget_direct_ok [OF inv Some, of norestore] by blast
    from A B show ?thesis by fastforce
  qed
  then show "\<exists>r p i' w'. kedr_coi_instrumentor_forget hp i object ops_p w = Some (r, p, i', w') \<and>
           instr_inv hp R {#} i' w' \<and> r \<in> {0, 1}"
    and "\<exists>r i' w'. kedr_coi_instrumentor_forget_direct hp i object norestore w = Some (r, i', w') \<and>
           instr_inv hp R {#} i' w' \<and> r \<in> {0, 1}"
    by blast+
qed

lemma kernel_write_inv:
  assumes inv: "instr_inv hp R H i w" and m: "ops_mem w ops = Some m" "off \<in> dom m"
  shows "instr_inv hp R H i (set_ops w ops (m(off \<mapsto> op)))"
proof (rule instr_inv_mem [OF inv])
  fix d x assume "impl_ok R w (impl x)"
  then show "impl_ok R (set_ops w ops (m(off \<mapsto> op))) (impl x)"
    using m by (cases "impl x") (auto simp: valid_ops_def)
qed (use m in auto)

lemma kernel_alloc_inv:
  assumes inv: "instr_inv hp R H i w" and p: "ops_mem w ops = None" "Some ops \<notin> set (pending w)"
  shows "instr_inv hp R H i (set_ops w ops m)"
proof (rule instr_inv_mem [OF inv])
  fix d x assume "impl_ok R w (impl x)"
  then show "impl_ok R (set_ops w ops m) (impl x)"
    using p by (cases "impl x") (auto simp: valid_ops_def)
qed (use p in auto)

lemma kernel_free_inv:
  assumes inv: "instr_inv hp R H i w" and f: "instrumentor_find_data hp i ops = None"
  shows "instr_inv hp R H i (free_ops w ops)"
proof (rule instr_inv_mem [OF inv])
  fix d x assume x: "idatas i d = Some x" "impl_ok R w (impl x)"
  have "\<not> (\<exists>f. (f, ops) \<in> impl_keys (impl x))"
    using find_data_iff [OF instr_invD(2) [OF inv], of ops d] f x(1) by auto
  then have "ops \<notin> snd ` impl_keys (impl x)" by force
  from impl_ok_free [OF x(2) this] show "impl_ok R (free_ops w ops) (impl x)" by simp
qed auto

lemma step_inv:
  assumes "instr_step hp R s s'" and "instr_inv hp R {#} (fst s) (snd s)"
  shows "instr_inv hp R {#} (fst s') (snd s')"
  using assms
proof (induction rule: instr_step.induct)
  case (step_watch ops_p w i object r ops_p' i' w')
  from watch_inv [of hp R i w ops_p object] step_watch show ?case by auto
next
  case (step_forget i object ops_p w r ops_p' i' w')
  from forget_inv(1) [of hp R i w object ops_p] step_forget show ?case by auto
next
  case (step_watch_direct object w i r i' w')
  from watch_inv [of hp R i w object object] step_watch_direct show ?case
    by (auto simp: kedr_coi_instrumentor_watch_direct_def)
next
  case (step_forget_direct i object norestore w r i' w')
  from forget_inv(2) [of hp R i w object norestore] step_forget_direct show ?case by auto
next
  case (kernel_write w ops m off i op)
  from kernel_write_inv [of hp R "{#}" i w ops m off op] kernel_write show ?case by simp
next
  case (kernel_alloc ops w i m)
  from kernel_alloc_inv [of hp R "{#}" i w ops m] kernel_alloc show ?case by simp
next
  case (kernel_free i ops w)
  from kernel_free_inv [of hp R "{#}" i w ops] kernel_free show ?case by simp
qed

lemma reach_inv:
  assumes "instr_reach hp R s0 s" and "instr_inv hp R {#} (fst s0) (snd s0)"
  shows "instr_inv hp R {#} (fst s) (snd s)"
  using assms by (induction rule: instr_reach.induct) (auto intro: step_inv)

subsection \<open>Shared data\<close>

lemma shared_refs:
  assumes inv: "instr_inv hp R H i w" and ne: "o1 \<noteq> o2"
    and w1: "instrumentor_find_watch_data hp i o1 = Some wd1" "watch_datas i wd1 = Some d"
    and w2: "instrumentor_find_watch_data hp i o2 = Some wd2" "watch_datas i wd2 = Some d"
    and x: "idatas i d = Some x"
  shows "2 \<le> refs x"
proof -
  note ob = inv_objects [OF inv]
  have "wd1 \<noteq> wd2"
    using w1(1) w2(1) ne kedr_table.elem_once [OF objects_okD(1) [OF ob], of wd1 o1 o2]
    by (auto simp: find_watch_iff [OF ob])
  moreover have "finite {v. watch_datas i v = Some d}"
    using instr_invD(3) [OF inv]
    by (auto simp: refs_ok_def intro: finite_subset [of _ "dom (watch_datas i)"])
  then have "card {wd1, wd2} \<le> watch_count i d"
    unfolding watch_count_def by (intro card_mono) (use w1(2) w2(2) in auto)
  ultimately show ?thesis using refs_okD [OF instr_invD(3) [OF inv] x] by (simp add: count_ok_def)
qed

lemma inv_world_ok: "instr_inv hp R H i w \<Longrightarrow> world_ok hp w"
  by (auto simp: instr_inv_def tables_ok_def search_ok_def allocs_ok_def fresh_ptr_def world_ok_def
      split: prod.splits)

subsection \<open>Watching an object again\<close>

lemma forget_direct_free:
  assumes inv: "instr_inv hp R {#} i w" and x: "object_idata hp i object = Some x"
    and y: "impl x = Ap_idata ops c" "refs x = 1"
  shows "\<exists>i' w'. kedr_coi_instrumentor_forget_direct hp i object norestore w = Some (0, i', w') \<and>
           instr_inv hp R {#} i' w' \<and> \<not> watched hp i' object \<and> destroyed_mem (\<not> norestore) i w w' (impl x) \<and>
           replacements i' = replacements i \<and> replace_at_place i' = replace_at_place i \<and>
           instrumentor_find_data hp i' ops = None"
proof -
  obtain wd d where wd: "instrumentor_find_watch_data hp i object = Some wd"
    and d: "watch_datas i wd = Some d" "idatas i d = Some x" using x by (auto simp: object_idata_def)
  have "\<exists>t i' w'. (if norestore then instrumentor_destroy_watch_data_norestore hp i wd w
                   else instrumentor_destroy_watch_data hp i wd w) = Some (i', w') \<and>
           table_del (objects_table i) wd = Some t \<and>
           instr_inv hp R {#} i' w' \<and> unreffed (\<not> norestore) (unlink_watch t wd i) w d x i' w'"
    using destroy_watch_ok [OF inv wd d] by (cases norestore) simp_all
  then obtain t i' w' where
    D: "(if norestore then instrumentor_destroy_watch_data_norestore hp i wd w
         else instrumentor_destroy_watch_data hp i wd w) = Some (i', w')"
    "table_del (objects_table i) wd = Some t" "instr_inv hp R {#} i' w'"
    and u: "unreffed (\<not> norestore) (unlink_watch t wd i) w d x i' w'" by blast
  have run: "kedr_coi_instrumentor_forget_direct hp i object norestore w = Some (0, i', w')"
    using wd d D(1) by (cases norestore) (simp_all add: kedr_coi_instrumentor_forget_direct_def Let_def)
  have m: "destroyed_mem (\<not> norestore) i w w' (impl x)"
    using u y(2) destroyed_mem_cong [of "unlink_watch t wd i" i "\<not> norestore" w w' "impl x"]
    by (auto simp: unreffed_def unlink_watch_def)
  have id: "idatas i' = (idatas i)(d := None)"
    using u y(2) by (auto simp: unreffed_def free_idata_def unlink_watch_def)
  have cfg: "replace_at_place i' = replace_at_place i"
    using u y(2) by (auto simp: unreffed_def free_idata_def unlink_watch_def relink_def)
  have own: "instrumentor_find_data hp i ops = Some d"
    using find_data_iff [OF instr_invD(2) [OF inv], of ops d] d(2) y(1) by auto
  have "instrumentor_find_data hp i' ops = None"
  proof (rule ccontr)
    assume "instrumentor_find_data hp i' ops \<noteq> None"
    then obtain e z f where e: "idatas i' e = Some z" "(f, ops) \<in> impl_keys (impl z)"
      using find_data_iff [OF instr_invD(2) [OF D(3)], of ops] by auto
    then have "idatas i e = Some z" "e \<noteq> d" by (auto simp: id split: if_splits)
    then show False using find_data_iff [OF instr_invD(2) [OF inv], of ops e] e(2) own by auto
  qed
  then show ?thesis using run m cfg D(3) destroyed_watch_view(1,2) [OF inv wd D(2) u] by auto
qed

lemma replace_at_member:
  assumes "distinct (map operation_offset rs)" and "r \<in> set rs" and "operation_offset r = off"
  shows "fold (replace_at off) rs op = replace_operation op r"
proof -
  have "find (\<lambda>r. operation_offset r = off) rs = Some r"
    using assms by (induction rs) auto
  then show ?thesis by (simp add: replace_at_distinct [OF assms(1)])
qed


lemma replaced_again: "replace_operation op r = repl r \<Longrightarrow> held \<in> {op, repl r} \<Longrightarrow> replace_operation held r = repl r"
  by (auto simp: replace_operation_def replace_operation_generic_def)

lemma direct_watch_again:
  assumes inv: "instr_inv hp R {#} i w" and v: "valid_ops R w object"
    and new: "\<not> watched hp i object" and fresh: "instrumentor_find_data hp i object = None"
    and place: "replace_at_place i object"
    and watch: "kedr_coi_instrumentor_watch_direct hp i object w = Some (0, i1, w1)"
    and r: "distinct (map operation_offset (for_each_replacement (replacements i)))"
      "r \<in> set (for_each_replacement (replacements i))" "operation_offset r = off"
    and op: "read_op w object off = Some op" "replace_operation op r = repl r"
  shows "\<exists>i2 w2. kedr_coi_instrumentor_forget_direct hp i1 object norestore w1 = Some (0, i2, w2) \<and>
     (let held = (if norestore then repl r else op) in
       read_op w2 object off = Some held \<and>
       kedr_coi_instrumentor_get_orig_operation hp i2 object object off w2 =
         Some (if held \<in> repl ` set (for_each_replacement (replacements i))
               then (- EINVAL, Inl (- EINVAL)) else (1, Inr held)) \<and>
       (\<forall>i3 w3. kedr_coi_instrumentor_watch_direct hp i2 object w2 = Some (0, i3, w3) \<longrightarrow>
          read_op w3 object off = Some (repl r) \<and>
          kedr_coi_instrumentor_get_orig_operation hp i3 object object off w3 = Some (0, Inr held)))"
proof -
  let ?rs = "for_each_replacement (replacements i)"
  have R: "off \<in> R" using instr_invD(1) [OF inv] r(2,3) by (auto simp: geometry_ok_def repl_offsets_def)
  have nn: "object \<noteq> NULL" using v by (simp add: valid_ops_def)
  from watch obtain p where w1: "kedr_coi_instrumentor_watch hp i object object w = Some (0, p, i1, w1)"
    by (auto simp: kedr_coi_instrumentor_watch_direct_def split: Option.bind_splits)
  have nn_op: "(if object = NULL then Some NULL else read_op w object off) = Some op" using op(1) nn by simp
  from watch_created [OF inv v new fresh w1] obtain y where
    y: "object_idata hp i1 object = Some (apf_instrument_data_init y)" "at_place y"
      "created_mem i object w w1 y" "instr_inv hp R {#} i1 w1"
    using place nn by auto
  from y(2,3) obtain c where c: "y = Ap_idata object c" by (cases y) auto
  have x: "impl (apf_instrument_data_init y) = Ap_idata object c" "refs (apf_instrument_data_init y) = 1"
    by (simp_all add: apf_instrument_data_init_def c)
  have cfg: "replacements i1 = replacements i" "replace_at_place i1 = replace_at_place i"
    using watch_config [OF w1] by (simp_all add: same_config_def)
  have rd1: "read_op w1 object off = Some (repl r)"
    using watch_intercepts_ok [OF inv v new fresh w1 R nn_op, of object] place nn op(2)
      replace_at_member [OF r] by auto
  from forget_direct_free [OF y(4,1) x, of norestore] obtain i2 w2 where
    f: "kedr_coi_instrumentor_forget_direct hp i1 object norestore w1 = Some (0, i2, w2)"
      "instr_inv hp R {#} i2 w2" "\<not> watched hp i2 object" "destroyed_mem (\<not> norestore) i1 w1 w2 (Ap_idata object c)"
      "replacements i2 = replacements i" "instrumentor_find_data hp i2 object = None"
      "replace_at_place i2 = replace_at_place i"
    using x cfg by auto
  define held where "held = (if norestore then repl r else op)"
  have mem: "ops_mem w2 = (if norestore then ops_mem w1 else ops_mem w)"
  proof (cases norestore)
    case True
    then show ?thesis using f(4) by auto
  next
    case False
    then have "destroyed_mem True i1 w1 w2 y" using f(4) c by simp
    from created_destroyed [OF instr_invD(1) [OF inv] v y(3) this refl cfg(1)] nn False show ?thesis by simp
  qed
  obtain d where "idatas i1 d = Some (apf_instrument_data_init y)"
    using y(1) by (auto simp: object_idata_def split: Option.bind_splits)
  then have "impl_ok R w1 (Ap_idata object c)" using instr_invD(4) [OF y(4)] x(1) unfolding mem_ok_def by metis
  then have v1: "valid_ops R w1 object" by simp
  have rd2: "read_op w2 object off = Some held"
    using rd1 op(1) mem nn by (simp add: held_def read_op_def ops_content_def)
  have v2: "valid_ops R w2 object" using v v1 mem by (simp add: valid_ops_def)
  have unwatched: "object_idata hp i2 object = None" using f(3) watched_object_idata [OF f(2)] by simp
  from get_orig_total [OF f(2) v2 R, of object] unwatched f(5,6) rd2 have
    g2: "kedr_coi_instrumentor_get_orig_operation hp i2 object object off w2 =
         Some (if held \<in> repl ` set ?rs then (- EINVAL, Inl (- EINVAL)) else (1, Inr held))" by auto
  have "read_op w3 object off = Some (repl r) \<and>
      kedr_coi_instrumentor_get_orig_operation hp i3 object object off w3 = Some (0, Inr held)"
    if "kedr_coi_instrumentor_watch_direct hp i2 object w2 = Some (0, i3, w3)" for i3 w3
  proof -
    from that obtain q where w3: "kedr_coi_instrumentor_watch hp i2 object object w2 = Some (0, q, i3, w3)"
      by (auto simp: kedr_coi_instrumentor_watch_direct_def split: Option.bind_splits)
    have "(if object = NULL then Some NULL else read_op w2 object off) = Some held" using rd2 nn by simp
    note W = watch_intercepts_ok [OF f(2) v2 f(3,6) w3 R this, of object]
    have "fold (replace_at off) (for_each_replacement (replacements i2)) held = repl r"
      using replace_at_member [OF r] replaced_again [OF op(2), of held] f(5) by (simp add: held_def)
    with W nn place f(7) show ?thesis by auto
  qed
  then show ?thesis using f(1) rd2 g2 unfolding held_def [symmetric] Let_def by blast
qed


end
