(* ===== verification/Examples.thy ===== *)
theory Examples
  imports Instr_Reach
begin

text \<open>
  Small concrete states: an operations structure with two pointer fields, the replacements
  of an instrumentor for it, and the instrumentors created from them (at place and with a
  copy).  They instantiate the hypotheses of the properties.
\<close>

definition ex_table :: "nat hash_table" where
  "ex_table = table_add low_bits_hash (table_add low_bits_hash empty_table 1 0x11) 2 0x21"

definition ex_ops :: ops_struct where
  "ex_ops = (\<lambda>off. if off = 0 then Some 0x100 else if off = 8 then Some NULL else None)"

definition ex_replacements :: "kedr_coi_replacement list" where
  "ex_replacements =
     [\<lparr>operation_offset = 0, repl = 0x900, mode = replace_not_null\<rparr>,
      \<lparr>operation_offset = 8, repl = 0x908, mode = replace_not_null\<rparr>,
      \<lparr>operation_offset = - 1, repl = NULL, mode = replace_null\<rparr>]"

definition ex_kernel :: world where
  "ex_kernel = \<lparr>ops_mem = (\<lambda>p. if p = 0x1000 then Some ex_ops else None),
                ops_table_global = empty_table,
                pending = map Some [0x10, 0x20, 0x30, 0x40, 0x50, 0x60, 0x70, 0x80, 0x90, 0xa0]\<rparr>"

definition ex_create :: "bool \<Rightarrow> kedr_coi_instrumentor option \<times> allocs" where
  "ex_create place = kedr_coi_instrumentor_create 16 (Some ex_replacements) (\<lambda>p. place) (pending ex_kernel)"

definition ex_instr :: "bool \<Rightarrow> kedr_coi_instrumentor" where
  "ex_instr place = the (fst (ex_create place))"

definition ex_world :: world where
  "ex_world = ex_kernel\<lparr>pending := map Some [0x50, 0x60, 0x70, 0x80, 0x90, 0xa0]\<rparr>"

lemma ex_create_eq:
  "kedr_coi_instrumentor_create 16 (Some ex_replacements) (\<lambda>p. place) (pending ex_kernel) =
     (Some (ex_instr place), pending ex_world)"
  by (simp add: ex_instr_def ex_create_def kedr_coi_instrumentor_create_def ex_kernel_def ex_world_def
      kmalloc_def kedr_coi_hash_table_init_def)

lemmas ex_shape = create_shape [OF ex_create_eq]

lemma ex_world_ok: "world_ok low_bits_hash ex_kernel"
  by (auto simp: world_ok_def ex_kernel_def)

lemma ex_for_each: "for_each_replacement ex_replacements =
     [\<lparr>operation_offset = 0, repl = 0x900, mode = replace_not_null\<rparr>,
      \<lparr>operation_offset = 8, repl = 0x908, mode = replace_not_null\<rparr>]"
  by (simp add: ex_replacements_def for_each_replacement_def)

lemma ex_offsets: "repl_offsets ex_replacements = {0, 8}"
  by (simp add: repl_offsets_def ex_for_each)

lemma ex_kernel_pending: "ex_kernel\<lparr>pending := pending ex_world\<rparr> = ex_world"
  by (simp add: ex_world_def)

lemma ex_inv: "instr_inv low_bits_hash {0, 8} {#} (ex_instr place) ex_world"
proof -
  have b: "off < 16" if "off \<in> {0, 8}" for off :: size_t using that by auto
  have "repl_offsets (case Some ex_replacements of None \<Rightarrow> empty_replacements | Some rs \<Rightarrow> rs) \<subseteq> {0, 8}"
    by (simp add: ex_offsets)
  from create_ok [OF ex_create_eq ex_world_ok this b] show ?thesis by (simp add: ex_kernel_pending)
qed

lemma ex_valid: "valid_ops {0, 8} ex_world 0x1000"
  by (auto simp: valid_ops_def ex_world_def ex_kernel_def ex_ops_def)

lemma ex_table_inv: "table_inv low_bits_hash ex_table"
  unfolding ex_table_def
  by (intro table_inv_add) (simp_all add: entries_add [OF table_inv_heads])

lemma ex_table_entries: "entries ex_table = {(1, 0x11), (2, 0x21)}"
  unfolding ex_table_def
  by (subst entries_add, rule table_inv_heads, intro table_inv_add, simp_all add: entries_add [OF table_inv_heads])
    auto

lemma low_bits_hash_eq [simp]: "hash_ptr low_bits_hash k b = unat k mod 2 ^ b"
  by transfer simp

lemmas ex_eval =
  kedr_coi_instrumentor_watch_def instrumentor_watch_internal_def instrumentor_find_watch_data_def
  instrumentor_get_data_def instrumentor_find_data_def ap_idata_create_def uc_idata_create_def
  ex_shape world_kmalloc_def ex_world_def ex_kernel_def kmalloc_def kedr_coi_hash_table_find_elem_def
  empty_table_def init_hlist_heads_def hash_function_def BITS_DEFAULT_def add_search_eq
  ops_content_def ex_for_each replace_step_def read_op_def write_op_def memcpy_ops_def ex_ops_def
  replace_operation_def replace_operation_generic_def Let_def table_add_def hlist_add_head_def
  apf_instrument_data_init_def ap_idata_ops_get_operations_def uc_idata_ops_get_repl_operations_def

text \<open>The object 0x2000 with the operations 0x1000, watched.\<close>

definition ex_watch :: "bool \<Rightarrow> int \<times> ptr \<times> kedr_coi_instrumentor \<times> world" where
  "ex_watch place = the (kedr_coi_instrumentor_watch low_bits_hash (ex_instr place) 0x2000 0x1000 ex_world)"

definition ex_watched :: "bool \<Rightarrow> kedr_coi_instrumentor" where
  "ex_watched place = fst (snd (snd (ex_watch place)))"

definition ex_watched_world :: "bool \<Rightarrow> world" where
  "ex_watched_world place = snd (snd (snd (ex_watch place)))"

lemma ex_not_watched [simp]: "\<not> watched low_bits_hash (ex_instr place) object"
  by (simp add: watched_def instrumentor_find_watch_data_def ex_shape empty_table_def
      kedr_coi_hash_table_find_elem_def init_hlist_heads_def BITS_DEFAULT_def hash_function_def)

lemma ex_watch_eq:
  "kedr_coi_instrumentor_watch low_bits_hash (ex_instr place) 0x2000 0x1000 ex_world =
     Some (0, if place then 0x1000 else 0x60, ex_watched place, ex_watched_world place)"
  by (cases place) (simp_all add: ex_watched_def ex_watched_world_def ex_watch_def ex_eval)

lemma ex_watched_inv: "instr_inv low_bits_hash {0, 8} {#} (ex_watched place) (ex_watched_world place)"
  and ex_object_watched: "watched low_bits_hash (ex_watched place) object \<longleftrightarrow> object = 0x2000"
  using watch_new_ok [OF ex_inv [of place] ex_valid ex_not_watched, of "0x2000"]
  by (simp_all add: ex_watch_eq errno_defs)

lemma ex_object_idata:
  "\<exists>x. object_idata low_bits_hash (ex_watched place) 0x2000 = Some x"
  using watched_object_idata [OF ex_watched_inv, of place "0x2000"] ex_object_watched by simp

lemma replicate_16: "replicate 16 x = [x, x, x, x, x, x, x, x, x, x, x, x, x, x, x, x]"
  by (simp add: eval_nat_numeral)

text \<open>A second object with the same operations.\<close>

definition ex_watch2 :: "int \<times> ptr \<times> kedr_coi_instrumentor \<times> world" where
  "ex_watch2 = the (kedr_coi_instrumentor_watch low_bits_hash (ex_watched True) 0x3000 0x1000
                      (ex_watched_world True))"

definition ex_watched2 :: kedr_coi_instrumentor where
  "ex_watched2 = fst (snd (snd ex_watch2))"

definition ex_watched2_world :: world where
  "ex_watched2_world = snd (snd (snd ex_watch2))"

lemmas ex_eval2 = ex_watched2_def ex_watched2_world_def ex_watch2_def ex_watched_def
  ex_watched_world_def ex_watch_def instrument_data_ref_def

lemma ex_watch2_eq:
  "kedr_coi_instrumentor_watch low_bits_hash (ex_watched True) 0x3000 0x1000 (ex_watched_world True) =
     Some (0, 0x1000, ex_watched2, ex_watched2_world)"
  by (simp add: ex_eval2 ex_eval)

lemma ex_watch2_data:
  "instrumentor_find_watch_data low_bits_hash ex_watched2 0x2000 = Some 0x70"
  "instrumentor_find_watch_data low_bits_hash ex_watched2 0x3000 = Some 0x80"
  "watch_datas ex_watched2 0x70 = Some 0x50" "watch_datas ex_watched2 0x80 = Some 0x50"
  "\<exists>x. idatas ex_watched2 0x50 = Some x \<and> refs x = 2"
  by (simp_all add: ex_eval2 ex_eval)

lemma ex_watched_valid: "valid_ops {0, 8} (ex_watched_world place) 0x1000"
proof -
  have "\<exists>m. ops_mem (ex_watched_world place) 0x1000 = Some m \<and> {0, 8} \<subseteq> dom m"
    by (cases place) (auto simp: ex_eval2 ex_eval)
  then show ?thesis by (simp add: valid_ops_def)
qed

lemma ex_watched2_inv: "instr_inv low_bits_hash {0, 8} {#} ex_watched2 ex_watched2_world"
  using watch_inv [OF ex_watched_inv ex_watched_valid, of True "0x3000"] by (simp add: ex_watch2_eq)

text \<open>Another instrumentor, in a world where the first one watches an object.\<close>

lemma ex_other_inv:
  "instr_inv low_bits_hash {0, 8} {#} (ex_instr False) ((ex_watched_world True)\<lparr>pending := [Some 0x90, Some 0xa0]\<rparr>)"
proof -
  let ?w = "(ex_watched_world True)\<lparr>pending := map Some [0xb0, 0xc0, 0xd0, 0xe0, 0x90, 0xa0]\<rparr>"
  have "kedr_coi_instrumentor_create 16 (Some ex_replacements) (\<lambda>p. False) (pending ?w) =
      (Some (ex_instr False), [Some 0x90, Some 0xa0])"
    by (simp add: ex_instr_def ex_create_def kedr_coi_instrumentor_create_def ex_kernel_def
        kmalloc_def kedr_coi_hash_table_init_def)
  moreover have "world_ok low_bits_hash ?w"
  proof -
    have "world_ok low_bits_hash (ex_watched_world True)" by (rule inv_world_ok [OF ex_watched_inv])
    moreover have "entries (ops_table_global (ex_watched_world True)) = {((0x50, ap_ops_elem), 0x1000)}"
      by (simp add: ex_eval2 ex_eval table_elems_def replicate_16)
    moreover have "dom (ops_mem (ex_watched_world True)) = {0x1000}"
      by (auto simp: ex_eval2 ex_eval split: if_splits)
    ultimately show ?thesis by (auto simp: world_ok_def)
  qed
  moreover have "off < 16" if "off \<in> {0, 8}" for off :: size_t using that by auto
  moreover have "repl_offsets (case Some ex_replacements of None \<Rightarrow> empty_replacements | Some rs \<Rightarrow> rs) \<subseteq> {0, 8}"
    by (simp add: ex_offsets)
  ultimately have "instr_inv low_bits_hash {0, 8} {#} (ex_instr False) (?w\<lparr>pending := [Some 0x90, Some 0xa0]\<rparr>)"
    by (intro create_ok)
  then show ?thesis by simp
qed

lemma ex_other_marks:
  "((0x50, ap_ops_elem), 0x1000) \<in> others (ex_instr False) ((ex_watched_world True)\<lparr>pending := [Some 0x90, Some 0xa0]\<rparr>)"
  by (simp add: others_def search_entries_def ex_eval2 ex_eval table_elems_def replicate_16)

lemma ex_no_foreign: "no_foreign ex_watched2"
  by (simp add: no_foreign_def ex_eval2 ex_eval)

end
