(* ===== verification/Foreign_Impl.thy ===== *)
theory Foreign_Impl
  imports Instrumentor
begin

text \<open>
  Model of the foreign at place instrumentation in
  src/sources/core/kedr_coi_instrumentors_impl.c (the apf_ functions): foreign data are chained
  in the list of the instrument_data object they are bound to, and every one replaces
  operations in the structure that the object already replaced.  When one is removed, the
  operations it had replaced are reconstructed from the rest of the chain.
\<close>

definition set_foreign :: "kedr_coi_instrumentor \<Rightarrow> ptr \<Rightarrow> instrument_data_foreign \<Rightarrow> kedr_coi_instrumentor" where
  "set_foreign i fd y = i\<lparr>idatas_foreign := (idatas_foreign i)(fd \<mapsto> y)\<rparr>"

definition free_foreign :: "kedr_coi_instrumentor \<Rightarrow> ptr \<Rightarrow> kedr_coi_instrumentor" where
  "free_foreign i fd = i\<lparr>idatas_foreign := (idatas_foreign i)(fd := None)\<rparr>"

lemma set_foreign_simps [simp]:
  "idatas_foreign (set_foreign i fd y) = (idatas_foreign i)(fd \<mapsto> y)"
  "idatas (set_foreign i fd y) = idatas i"
  "idata_table (set_foreign i fd y) = idata_table i"
  "objects_table (set_foreign i fd y) = objects_table i"
  "operations_struct_size (set_foreign i fd y) = operations_struct_size i"
  "replacements (set_foreign i fd y) = replacements i"
  "replace_at_place (set_foreign i fd y) = replace_at_place i"
  "foreign_ops_p_table (set_foreign i fd y) = foreign_ops_p_table i"
  "watch_datas (set_foreign i fd y) = watch_datas i"
  "foreign_instrumentors (set_foreign i fd y) = foreign_instrumentors i"
  by (simp_all add: set_foreign_def)

lemma free_foreign_simps [simp]:
  "idatas_foreign (free_foreign i fd) = (idatas_foreign i)(fd := None)"
  "idatas (free_foreign i fd) = idatas i"
  "idata_table (free_foreign i fd) = idata_table i"
  "objects_table (free_foreign i fd) = objects_table i"
  "operations_struct_size (free_foreign i fd) = operations_struct_size i"
  "replacements (free_foreign i fd) = replacements i"
  "replace_at_place (free_foreign i fd) = replace_at_place i"
  "foreign_ops_p_table (free_foreign i fd) = foreign_ops_p_table i"
  "watch_datas (free_foreign i fd) = watch_datas i"
  "foreign_instrumentors (free_foreign i fd) = foreign_instrumentors i"
  by (simp_all add: free_foreign_def)

subsection \<open>Creating and finding\<close>

text \<open>The body of the loop that replaces one operation for a foreign instrumentor.\<close>

definition foreign_replace_step ::
  "idata_impl \<Rightarrow> ptr \<Rightarrow> kedr_coi_replacement \<Rightarrow> world \<Rightarrow> world option" where
  "foreign_replace_step y ops r w =
     do { op \<leftarrow> read_op w ops (operation_offset r);
          op_orig \<leftarrow> instrument_data_get_orig_operation w y (operation_offset r);
          write_op w ops (operation_offset r) (replace_operation_generic op op_orig r) }"

definition apf_idata_ops_create_foreign_data ::
  "kedr_coi_instrumentor \<Rightarrow> ptr \<Rightarrow> ptr \<Rightarrow> world \<Rightarrow>
   ((int + ptr) \<times> kedr_coi_instrumentor \<times> world) option" where
  "apf_idata_ops_create_foreign_data i d fi w =
     (case world_kmalloc w of
        (None, w) \<Rightarrow> Some (Inl (- ENOMEM), i, w)
      | (Some fd, w) \<Rightarrow>
          do { x \<leftarrow> idatas i d;
               f \<leftarrow> foreign_instrumentors i fi;
               let ops = instrument_data_get_repl_operations (impl x);
               let i = set_foreign i fd \<lparr>f_refs = 1, idata_binded = d, f_instrumentor = fi\<rparr>;
               let i = set_idata i d (x\<lparr>foreign_data_list := foreign_data_list x @ [fd]\<rparr>);
               w \<leftarrow> fold_opt (foreign_replace_step (impl x) ops)
                      (for_each_replacement (f_replacements f)) w;
               Some (Inr fd, i, w) })"

text \<open>The walk over the list stops at the first data of the foreign instrumentor.\<close>

fun find_foreign_in ::
  "(ptr \<rightharpoonup> instrument_data_foreign) \<Rightarrow> ptr \<Rightarrow> ptr list \<Rightarrow> ptr option option" where
  "find_foreign_in m fi [] = Some None"
| "find_foreign_in m fi (fd # fds) =
     do { y \<leftarrow> m fd; if f_instrumentor y = fi then Some (Some fd) else find_foreign_in m fi fds }"

definition apf_idata_ops_find_foreign_data ::
  "kedr_coi_instrumentor \<Rightarrow> ptr \<Rightarrow> ptr \<Rightarrow> ptr option option" where
  "apf_idata_ops_find_foreign_data i d fi =
     do { x \<leftarrow> idatas i d; find_foreign_in (idatas_foreign i) fi (foreign_data_list x) }"

definition apf_idata_foreign_ops_get_repl_operations ::
  "kedr_coi_instrumentor \<Rightarrow> ptr \<Rightarrow> ptr option" where
  "apf_idata_foreign_ops_get_repl_operations i fd =
     do { y \<leftarrow> idatas_foreign i fd;
          x \<leftarrow> idatas i (idata_binded y);
          Some (instrument_data_get_repl_operations (impl x)) }"

subsection \<open>Normal and chained operations\<close>

definition apf_idata_foreign_ops_get_normal_operation ::
  "kedr_coi_instrumentor \<Rightarrow> ptr \<Rightarrow> size_t \<Rightarrow> world \<Rightarrow> ptr option" where
  "apf_idata_foreign_ops_get_normal_operation i fd off w =
     do { y \<leftarrow> idatas_foreign i fd;
          x \<leftarrow> idatas i (idata_binded y);
          op \<leftarrow> instrument_data_get_orig_operation w (impl x) off;
          Some (case find (\<lambda>r. operation_offset r = off) (for_each_replacement (replacements i)) of
                  None \<Rightarrow> op | Some r \<Rightarrow> replace_operation op r) }"

text \<open>
  The replacements of the foreign data in the list, in order; a foreign data that is not
  there, or whose instrumentor is not there, is a crash.
\<close>

fun foreign_chain :: "kedr_coi_instrumentor \<Rightarrow> ptr list \<Rightarrow> kedr_coi_replacement list list option" where
  "foreign_chain i [] = Some []"
| "foreign_chain i (fd # fds) =
     do { y \<leftarrow> idatas_foreign i fd;
          f \<leftarrow> foreign_instrumentors i (f_instrumentor y);
          rest \<leftarrow> foreign_chain i fds;
          Some (for_each_replacement (f_replacements f) # rest) }"

text \<open>The data before fd in the list, the nearest one first.\<close>

definition previous_foreign :: "ptr \<Rightarrow> ptr list \<Rightarrow> ptr list" where
  "previous_foreign fd fds = rev (takeWhile (\<lambda>e. e \<noteq> fd) fds)"

fun chain_walk :: "size_t \<Rightarrow> ptr \<Rightarrow> ptr \<Rightarrow> kedr_coi_replacement list \<Rightarrow> ptr" where
  "chain_walk off op_orig op [] = op_orig"
| "chain_walk off op_orig op (r # rs) =
     (if operation_offset r = off
      then (let op = replace_operation op r
            in if op \<noteq> op_orig then op else chain_walk off op_orig op rs)
      else chain_walk off op_orig op rs)"

definition apf_idata_foreign_ops_get_chain_operation ::
  "kedr_coi_instrumentor \<Rightarrow> ptr \<Rightarrow> size_t \<Rightarrow> world \<Rightarrow> ptr option" where
  "apf_idata_foreign_ops_get_chain_operation i fd off w =
     do { y \<leftarrow> idatas_foreign i fd;
          x \<leftarrow> idatas i (idata_binded y);
          op_orig \<leftarrow> instrument_data_get_orig_operation w (impl x) off;
          chain \<leftarrow> foreign_chain i (previous_foreign fd (foreign_data_list x));
          Some (chain_walk off op_orig op_orig (concat chain)) }"

subsection \<open>Destroying\<close>

text \<open>All replacements of one foreign data at the offset, then the check after them.\<close>

fun repeat_replacements :: "size_t \<Rightarrow> ptr \<Rightarrow> kedr_coi_replacement list \<Rightarrow> ptr \<Rightarrow> ptr" where
  "repeat_replacements off op_orig [] op = op"
| "repeat_replacements off op_orig (r # rs) op =
     repeat_replacements off op_orig rs
       (if operation_offset r = off then replace_operation_generic op op_orig r else op)"

fun undo_foreign :: "size_t \<Rightarrow> ptr \<Rightarrow> ptr \<Rightarrow> kedr_coi_replacement list list \<Rightarrow> ptr \<Rightarrow> ptr" where
  "undo_foreign off op_orig own [] op = op"
| "undo_foreign off op_orig own (rs # rss) op =
     (let op = repeat_replacements off op_orig rs op
      in if op \<noteq> own then op else undo_foreign off op_orig own rss op)"

fun undo_normal :: "size_t \<Rightarrow> ptr \<Rightarrow> ptr \<Rightarrow> kedr_coi_replacement list \<Rightarrow> ptr \<Rightarrow> ptr" where
  "undo_normal off op_orig own [] op = op"
| "undo_normal off op_orig own (r # rs) op =
     (if operation_offset r = off
      then (let op = replace_operation_generic op op_orig r
            in if op \<noteq> own then op else undo_normal off op_orig own rs op)
      else undo_normal off op_orig own rs op)"

text \<open>The operation that takes the place of the one replaced by own.\<close>

definition undo_operation ::
  "size_t \<Rightarrow> ptr \<Rightarrow> ptr \<Rightarrow> kedr_coi_replacement list list \<Rightarrow> kedr_coi_replacement list \<Rightarrow> ptr" where
  "undo_operation off op_orig own chain normal =
     (let op = undo_foreign off op_orig own chain own
      in if op \<noteq> own then op
         else let op = undo_normal off op_orig own normal op
              in if op = own then op_orig else op)"

definition foreign_restore_step ::
  "kedr_coi_instrumentor \<Rightarrow> idata_impl \<Rightarrow> ptr \<Rightarrow> kedr_coi_replacement list list \<Rightarrow>
   kedr_coi_replacement \<Rightarrow> world \<Rightarrow> world option" where
  "foreign_restore_step i y ops chain r w =
     do { op \<leftarrow> read_op w ops (operation_offset r);
          if op \<noteq> repl r then Some w
          else do { op_orig \<leftarrow> instrument_data_get_orig_operation w y (operation_offset r);
                    write_op w ops (operation_offset r)
                      (undo_operation (operation_offset r) op_orig (repl r) chain
                         (for_each_replacement (replacements i))) } }"

definition apf_idata_foreign_ops_destroy_common ::
  "hash_fn \<Rightarrow> kedr_coi_instrumentor \<Rightarrow> ptr \<Rightarrow> ptr \<Rightarrow> bool \<Rightarrow> world \<Rightarrow>
   (kedr_coi_instrumentor \<times> world) option" where
  "apf_idata_foreign_ops_destroy_common hp i fi fd norestore w =
     do { f \<leftarrow> foreign_instrumentors i fi;
          y \<leftarrow> idatas_foreign i fd;
          let d = idata_binded y;
          x \<leftarrow> idatas i d;
          let ops = instrument_data_get_repl_operations (impl x);
          let ops_orig = instrument_data_get_orig_operations (impl x);
          w \<leftarrow> (if norestore \<and> ops_orig = ops then Some w
                else do { chain \<leftarrow> foreign_chain i (previous_foreign fd (foreign_data_list x));
                          fold_opt (foreign_restore_step i (impl x) ops chain)
                            (for_each_replacement (f_replacements f)) w });
          let i = set_idata i d (x\<lparr>foreign_data_list := remove1 fd (foreign_data_list x)\<rparr>);
          (i, w) \<leftarrow> (if \<not> norestore then instrument_data_unref hp i d w
                      else instrument_data_unref_norestore hp i d w);
          Some (free_foreign i fd, w) }"

definition apf_idata_foreign_ops_destroy ::
  "hash_fn \<Rightarrow> kedr_coi_instrumentor \<Rightarrow> ptr \<Rightarrow> ptr \<Rightarrow> world \<Rightarrow> (kedr_coi_instrumentor \<times> world) option" where
  "apf_idata_foreign_ops_destroy hp i fi fd w =
     apf_idata_foreign_ops_destroy_common hp i fi fd False w"

definition apf_idata_foreign_ops_destroy_norestore ::
  "hash_fn \<Rightarrow> kedr_coi_instrumentor \<Rightarrow> ptr \<Rightarrow> ptr \<Rightarrow> world \<Rightarrow> (kedr_coi_instrumentor \<times> world) option" where
  "apf_idata_foreign_ops_destroy_norestore hp i fi fd w =
     apf_idata_foreign_ops_destroy_common hp i fi fd True w"

end
