(* ===== verification/Foreign_Instrumentor.thy ===== *)
theory Foreign_Instrumentor
  imports Foreign_Impl
begin

text \<open>
  Model of the foreign instrumentor in src/sources/core/kedr_coi_instrumentors.c.  A foreign
  instrumentor is bound to a normal one and works on its tables and data, under its lock; it
  is one entry of the map foreign_instrumentors of the normal instrumentor and is named by its
  address.  Watching needs the address of the operations field (a key of the table of watched
  fields) as well as its value.
\<close>

definition set_foreign_instrumentor ::
  "kedr_coi_instrumentor \<Rightarrow> ptr \<Rightarrow> kedr_coi_foreign_instrumentor \<Rightarrow> kedr_coi_instrumentor" where
  "set_foreign_instrumentor i fi f =
     i\<lparr>foreign_instrumentors := (foreign_instrumentors i)(fi \<mapsto> f)\<rparr>"

subsection \<open>Foreign data\<close>

definition instrument_data_foreign_get_repl_operations :: "kedr_coi_instrumentor \<Rightarrow> ptr \<Rightarrow> ptr option" where
  "instrument_data_foreign_get_repl_operations i fd = apf_idata_foreign_ops_get_repl_operations i fd"

definition instrument_data_foreign_ref :: "kedr_coi_instrumentor \<Rightarrow> ptr \<Rightarrow> kedr_coi_instrumentor option" where
  "instrument_data_foreign_ref i fd =
     do { y \<leftarrow> idatas_foreign i fd; Some (set_foreign i fd (y\<lparr>f_refs := f_refs y + 1\<rparr>)) }"

definition instrument_data_foreign_unref ::
  "hash_fn \<Rightarrow> kedr_coi_instrumentor \<Rightarrow> ptr \<Rightarrow> ptr \<Rightarrow> world \<Rightarrow> (kedr_coi_instrumentor \<times> world) option" where
  "instrument_data_foreign_unref hp i fi fd w =
     do { y \<leftarrow> idatas_foreign i fd;
          let n = f_refs y - 1;
          let i = set_foreign i fd (y\<lparr>f_refs := n\<rparr>);
          if n = 0 then apf_idata_foreign_ops_destroy hp i fi fd w else Some (i, w) }"

definition instrument_data_foreign_unref_norestore ::
  "hash_fn \<Rightarrow> kedr_coi_instrumentor \<Rightarrow> ptr \<Rightarrow> ptr \<Rightarrow> world \<Rightarrow> (kedr_coi_instrumentor \<times> world) option" where
  "instrument_data_foreign_unref_norestore hp i fi fd w =
     do { y \<leftarrow> idatas_foreign i fd;
          let n = f_refs y - 1;
          let i = set_foreign i fd (y\<lparr>f_refs := n\<rparr>);
          if n = 0 then apf_idata_foreign_ops_destroy_norestore hp i fi fd w else Some (i, w) }"

definition instrumentor_foreign_find_data ::
  "hash_fn \<Rightarrow> kedr_coi_instrumentor \<Rightarrow> ptr \<Rightarrow> ptr \<Rightarrow> ptr option option" where
  "instrumentor_foreign_find_data hp i fi ops =
     (case instrumentor_find_data hp i ops of
        None \<Rightarrow> Some None
      | Some d \<Rightarrow> apf_idata_ops_find_foreign_data i d fi)"

definition instrumentor_foreign_get_data ::
  "hash_fn \<Rightarrow> kedr_coi_instrumentor \<Rightarrow> ptr \<Rightarrow> ptr \<Rightarrow> world \<Rightarrow>
   ((int + ptr) \<times> kedr_coi_instrumentor \<times> world) option" where
  "instrumentor_foreign_get_data hp i fi ops w =
     do { found \<leftarrow> instrumentor_foreign_find_data hp i fi ops;
          (case found of
             Some fd \<Rightarrow> do { i \<leftarrow> instrument_data_foreign_ref i fd; Some (Inr fd, i, w) }
           | None \<Rightarrow>
               do { (r, i, w) \<leftarrow> instrumentor_get_data hp i ops w;
                    (case r of
                       Inl err \<Rightarrow> Some (Inl err, i, w)
                     | Inr d \<Rightarrow>
                         do { (r, i, w) \<leftarrow> apf_idata_ops_create_foreign_data i d fi w;
                              (case r of
                                 Inl err \<Rightarrow> do { (i, w) \<leftarrow> instrument_data_unref hp i d w;
                                                 Some (Inl err, i, w) }
                               | Inr fd \<Rightarrow> Some (Inr fd, i, w)) }) }) }"

subsection \<open>Watches\<close>

definition instrumentor_foreign_find_watch_data_by_id ::
  "hash_fn \<Rightarrow> kedr_coi_instrumentor \<Rightarrow> ptr \<Rightarrow> ptr \<Rightarrow> ptr option option" where
  "instrumentor_foreign_find_watch_data_by_id hp i fi ident =
     do { f \<leftarrow> foreign_instrumentors i fi;
          Some (kedr_coi_hash_table_find_elem hp (ids_table f) ident) }"

definition instrumentor_foreign_find_watch_data_by_tie ::
  "hash_fn \<Rightarrow> kedr_coi_instrumentor \<Rightarrow> ptr \<Rightarrow> ptr \<Rightarrow> ptr option option" where
  "instrumentor_foreign_find_watch_data_by_tie hp i fi tie =
     do { f \<leftarrow> foreign_instrumentors i fi;
          Some (kedr_coi_hash_table_find_elem hp (ties_table f) tie) }"

definition instrumentor_foreign_destroy_watch_data ::
  "hash_fn \<Rightarrow> kedr_coi_instrumentor \<Rightarrow> ptr \<Rightarrow> ptr \<Rightarrow> world \<Rightarrow> (kedr_coi_instrumentor \<times> world) option" where
  "instrumentor_foreign_destroy_watch_data hp i fi wd w =
     do { f \<leftarrow> foreign_instrumentors i fi;
          fd \<leftarrow> f_watch_datas f wd;
          (i, w) \<leftarrow> instrument_data_foreign_unref hp i fi fd w;
          f \<leftarrow> foreign_instrumentors i fi;
          (ids, as) \<leftarrow> kedr_coi_hash_table_remove_elem hp (ids_table f) wd (pending w);
          (ties, as) \<leftarrow> kedr_coi_hash_table_remove_elem hp (ties_table f) wd as;
          (fields, as) \<leftarrow> kedr_coi_hash_table_remove_elem hp (foreign_ops_p_table i) wd as;
          let f = f\<lparr>ids_table := ids, ties_table := ties,
                    f_watch_datas := (f_watch_datas f)(wd := None)\<rparr>;
          Some (set_foreign_instrumentor (i\<lparr>foreign_ops_p_table := fields\<rparr>) fi f,
                w\<lparr>pending := as\<rparr>) }"

definition instrument_data_foreign_replace_ops ::
  "kedr_coi_instrumentor \<Rightarrow> ptr \<Rightarrow> ptr \<Rightarrow> ptr option" where
  "instrument_data_foreign_replace_ops i fd ops_p =
     do { ops_repl \<leftarrow> instrument_data_foreign_get_repl_operations i fd;
          Some (if ops_repl \<noteq> ops_p then ops_repl else ops_p) }"

definition instrument_data_foreign_normal_operation ::
  "kedr_coi_instrumentor \<Rightarrow> ptr \<Rightarrow> size_t \<Rightarrow> world \<Rightarrow> ptr option" where
  "instrument_data_foreign_normal_operation i fd off w =
     apf_idata_foreign_ops_get_normal_operation i fd off w"

definition instrument_data_foreign_chain_operation ::
  "kedr_coi_instrumentor \<Rightarrow> ptr \<Rightarrow> size_t \<Rightarrow> world \<Rightarrow> ptr option" where
  "instrument_data_foreign_chain_operation i fd off w =
     apf_idata_foreign_ops_get_chain_operation i fd off w"

definition instrumentor_foreign_get_orig_operation_nodata ::
  "kedr_coi_instrumentor \<Rightarrow> ptr \<Rightarrow> ptr \<Rightarrow> size_t \<Rightarrow> world \<Rightarrow> (int + ptr) option" where
  "instrumentor_foreign_get_orig_operation_nodata i fi ops off w =
     do { f \<leftarrow> foreign_instrumentors i fi;
          op \<leftarrow> read_op w ops off;
          Some (if list_ex (\<lambda>r. repl r = op) (for_each_replacement (f_replacements f))
                then Inl (- EINVAL) else Inr op) }"

text \<open>
  The second half of foreign_instrumentor_watch, from the initialised watch data on, with the
  clean up of its error labels as they are.
\<close>

definition foreign_watch_add ::
  "hash_fn \<Rightarrow> kedr_coi_instrumentor \<Rightarrow> ptr \<Rightarrow> ptr \<Rightarrow> ptr \<Rightarrow> ptr \<Rightarrow> ptr \<Rightarrow> ptr \<Rightarrow> ptr \<Rightarrow> world \<Rightarrow>
   (int \<times> ptr \<times> kedr_coi_instrumentor \<times> world) option" where
  "foreign_watch_add hp i fi wd fd ident tie field ops_p w =
     do { f \<leftarrow> foreign_instrumentors i fi;
          let (err, ids, as) = kedr_coi_hash_table_add_elem hp (ids_table f) wd ident (pending w);
          if err \<noteq> 0
          then do { (i, w) \<leftarrow> instrument_data_foreign_unref hp i fi fd (w\<lparr>pending := as\<rparr>);
                    Some (err, ops_p, i, w) }
          else do {
            let (err, ties, as) = kedr_coi_hash_table_add_elem hp (ties_table f) wd tie as;
            if err \<noteq> 0
            then do { (ids, as) \<leftarrow> kedr_coi_hash_table_remove_elem hp ids wd as;
                      let i = set_foreign_instrumentor i fi (f\<lparr>ids_table := ids\<rparr>);
                      (i, w) \<leftarrow> instrument_data_foreign_unref hp i fi fd (w\<lparr>pending := as\<rparr>);
                      Some (err, ops_p, i, w) }
            else do {
              let (err, fields, as) = kedr_coi_hash_table_add_elem hp
                                        (foreign_ops_p_table i) wd field as;
              if err \<noteq> 0
              then do { (fields, as) \<leftarrow> kedr_coi_hash_table_remove_elem hp
                                          (foreign_ops_p_table i) wd as;
                        (ids, as) \<leftarrow> kedr_coi_hash_table_remove_elem hp ids wd as;
                        let i = set_foreign_instrumentor (i\<lparr>foreign_ops_p_table := fields\<rparr>) fi
                                  (f\<lparr>ids_table := ids, ties_table := ties\<rparr>);
                        (i, w) \<leftarrow> instrument_data_foreign_unref hp i fi fd (w\<lparr>pending := as\<rparr>);
                        Some (err, ops_p, i, w) }
              else do {
                let f = f\<lparr>ids_table := ids, ties_table := ties,
                          f_watch_datas := (f_watch_datas f)(wd \<mapsto> fd)\<rparr>;
                let i = set_foreign_instrumentor (i\<lparr>foreign_ops_p_table := fields\<rparr>) fi f;
                p \<leftarrow> instrument_data_foreign_replace_ops i fd ops_p;
                Some (0, p, i, w\<lparr>pending := as\<rparr>) } } } }"

text \<open>
  When the update of a watch fails, the code looks at the field idata_binded of the error
  pointer it has just got; that access is a crash.
\<close>

definition foreign_instrumentor_watch ::
  "hash_fn \<Rightarrow> kedr_coi_instrumentor \<Rightarrow> ptr \<Rightarrow> ptr \<Rightarrow> ptr \<Rightarrow> ptr \<Rightarrow> ptr \<Rightarrow> world \<Rightarrow>
   (int \<times> ptr \<times> kedr_coi_instrumentor \<times> world) option" where
  "foreign_instrumentor_watch hp i fi ident tie field ops_p w =
     do { found \<leftarrow> instrumentor_foreign_find_watch_data_by_id hp i fi ident;
          (case found of
             Some wd \<Rightarrow>
               do { f \<leftarrow> foreign_instrumentors i fi;
                    fd \<leftarrow> f_watch_datas f wd;
                    y \<leftarrow> idatas_foreign i fd;
                    x \<leftarrow> idatas i (idata_binded y);
                    if \<not> instrument_data_my_operations (impl x) ops_p
                    then do {
                      (r, i, w) \<leftarrow> instrumentor_foreign_get_data hp i fi ops_p w;
                      (case r of
                         Inl err \<Rightarrow> None
                       | Inr fd' \<Rightarrow>
                           do { (i, w) \<leftarrow> instrument_data_foreign_unref hp i fi fd w;
                                f \<leftarrow> foreign_instrumentors i fi;
                                let i = set_foreign_instrumentor i fi
                                          (f\<lparr>f_watch_datas := (f_watch_datas f)(wd \<mapsto> fd')\<rparr>);
                                p \<leftarrow> instrument_data_foreign_replace_ops i fd' ops_p;
                                Some (1, p, i, w) }) }
                    else do { p \<leftarrow> instrument_data_foreign_replace_ops i fd ops_p;
                              Some (1, p, i, w) } }
           | None \<Rightarrow>
               (if kedr_coi_hash_table_find_elem hp (foreign_ops_p_table i) field \<noteq> None
                then Some (- EBUSY, ops_p, i, w)
                else do {
                  (r, i, w) \<leftarrow> instrumentor_foreign_get_data hp i fi ops_p w;
                  (case r of
                     Inl err \<Rightarrow> Some (err, ops_p, i, w)
                   | Inr fd \<Rightarrow>
                       (case world_kmalloc w of
                          (None, w) \<Rightarrow>
                            do { (i, w) \<leftarrow> instrument_data_foreign_unref hp i fi fd w;
                                 Some (- ENOMEM, ops_p, i, w) }
                        | (Some wd, w) \<Rightarrow>
                            foreign_watch_add hp i fi wd fd ident tie field ops_p w)) })) }"

subsection \<open>Binding\<close>

text \<open>
  The result: the returned code, the new value of the operations field, the chained and the
  original operation (either may be an error pointer), the instrumentor and the world.
\<close>

type_synonym bind_result = "int \<times> ptr \<times> (int + ptr) \<times> (int + ptr) \<times> kedr_coi_instrumentor \<times> world"

text \<open>BUG_ON(IS_ERR(r)).\<close>

definition bug_on_err :: "int + ptr \<Rightarrow> ptr option" where
  "bug_on_err r = (case r of Inl err \<Rightarrow> None | Inr op \<Rightarrow> Some op)"

definition foreign_instrumentor_bind ::
  "hash_fn \<Rightarrow> kedr_coi_instrumentor \<Rightarrow> ptr \<Rightarrow> ptr \<Rightarrow> ptr \<Rightarrow> ptr \<Rightarrow> size_t \<Rightarrow> world \<Rightarrow> bind_result option" where
  "foreign_instrumentor_bind hp i fi object tie ops_p off w =
     do { by_tie \<leftarrow> instrumentor_foreign_find_watch_data_by_tie hp i fi tie;
          (case by_tie of
             Some fwd \<Rightarrow>
               do { f \<leftarrow> foreign_instrumentors i fi;
                    fd \<leftarrow> f_watch_datas f fwd;
                    y \<leftarrow> idatas_foreign i fd;
                    x \<leftarrow> idatas i (idata_binded y);
                    op_chained \<leftarrow> instrument_data_foreign_normal_operation i fd off w;
                    op_orig \<leftarrow> instrument_data_get_orig_operation w (impl x) off;
                    (r, p, i, w) \<leftarrow> instrumentor_watch_internal hp i object ops_p w;
                    Some (r, p, Inr op_chained, Inr op_orig, i, w) }
           | None \<Rightarrow>
          (case instrumentor_find_watch_data hp i object of
             Some wd \<Rightarrow>
               do { d \<leftarrow> watch_datas i wd;
                    x \<leftarrow> idatas i d;
                    let p = instrument_data_replace_ops x ops_p;
                    found \<leftarrow> instrumentor_foreign_find_data hp i fi p;
                    op_chained \<leftarrow>
                      (case found of
                         Some fd \<Rightarrow> instrument_data_foreign_normal_operation i fd off w
                       | None \<Rightarrow> do { r \<leftarrow> instrumentor_foreign_get_orig_operation_nodata i fi p off w;
                                      bug_on_err r });
                    op_orig \<leftarrow> instrument_data_get_orig_operation w (impl x) off;
                    Some (1, p, Inr op_chained, Inr op_orig, i, w) }
           | None \<Rightarrow>
          (case instrumentor_find_data hp i ops_p of
             Some d \<Rightarrow>
               do { x \<leftarrow> idatas i d;
                    found \<leftarrow> instrumentor_foreign_find_data hp i fi ops_p;
                    (p, op_chained) \<leftarrow>
                      (case found of
                         Some fd \<Rightarrow>
                           do { op \<leftarrow> instrument_data_foreign_chain_operation i fd off w;
                                Some (ops_p, op) }
                       | None \<Rightarrow>
                           do { let p = instrument_data_restore_ops x ops_p;
                                r \<leftarrow> instrumentor_foreign_get_orig_operation_nodata i fi p off w;
                                op \<leftarrow> bug_on_err r;
                                Some (p, op) });
                    op_orig \<leftarrow> instrument_data_get_orig_operation w (impl x) off;
                    Some (1, p, Inr op_chained, Inr op_orig, i, w) }
           | None \<Rightarrow>
               do { r \<leftarrow> instrumentor_foreign_get_orig_operation_nodata i fi ops_p off w;
                    Some (case r of Inl err \<Rightarrow> err | Inr op \<Rightarrow> 1, ops_p, r, r, i, w) }))) }"

subsection \<open>Interface\<close>

definition kedr_coi_foreign_instrumentor_create ::
  "kedr_coi_instrumentor \<Rightarrow> kedr_coi_replacement list option \<Rightarrow> world \<Rightarrow>
   ptr option \<times> kedr_coi_instrumentor \<times> world" where
  "kedr_coi_foreign_instrumentor_create i rs w =
     (case world_kmalloc w of (None, w) \<Rightarrow> (None, i, w) | (Some fi, w) \<Rightarrow>
     (case kedr_coi_hash_table_init (pending w) of
        (Inl _, as) \<Rightarrow> (None, i, w\<lparr>pending := as\<rparr>) | (Inr ids, as) \<Rightarrow>
     (case kedr_coi_hash_table_init as of
        (Inl _, as) \<Rightarrow> (None, i, w\<lparr>pending := as\<rparr>) | (Inr ties, as) \<Rightarrow>
        (Some fi,
         set_foreign_instrumentor i fi
           \<lparr>ids_table = ids, ties_table = ties,
            f_replacements = (case rs of None \<Rightarrow> empty_replacements | Some rs \<Rightarrow> rs),
            f_watch_datas = Map.empty\<rparr>,
         w\<lparr>pending := as\<rparr>))))"

definition instrumentor_foreign_destroy_watch_data_callback ::
  "hash_fn \<Rightarrow> ptr \<Rightarrow> bool \<Rightarrow> ptr hash_elem \<Rightarrow> kedr_coi_instrumentor \<times> world \<times> ptr list \<Rightarrow>
   (kedr_coi_instrumentor \<times> world \<times> ptr list) option" where
  "instrumentor_foreign_destroy_watch_data_callback hp fi trace = (\<lambda>(wd, object) (i, w, traced).
     do { f \<leftarrow> foreign_instrumentors i fi;
          fd \<leftarrow> f_watch_datas f wd;
          (i, w) \<leftarrow> instrument_data_foreign_unref hp i fi fd w;
          f \<leftarrow> foreign_instrumentors i fi;
          (ties, as) \<leftarrow> kedr_coi_hash_table_remove_elem hp (ties_table f) wd (pending w);
          (fields, as) \<leftarrow> kedr_coi_hash_table_remove_elem hp (foreign_ops_p_table i) wd as;
          let f = f\<lparr>ties_table := ties, f_watch_datas := (f_watch_datas f)(wd := None)\<rparr>;
          Some (set_foreign_instrumentor (i\<lparr>foreign_ops_p_table := fields\<rparr>) fi f,
                w\<lparr>pending := as\<rparr>, if trace then traced @ [object] else traced) })"

definition kedr_coi_foreign_instrumentor_destroy ::
  "hash_fn \<Rightarrow> kedr_coi_instrumentor \<Rightarrow> ptr \<Rightarrow> bool \<Rightarrow> world \<Rightarrow>
   (ptr list \<times> kedr_coi_instrumentor \<times> world) option" where
  "kedr_coi_foreign_instrumentor_destroy hp i fi trace w =
     do { f \<leftarrow> foreign_instrumentors i fi;
          (i, w, traced) \<leftarrow> kedr_coi_hash_table_destroy (ids_table f)
            (Some (instrumentor_foreign_destroy_watch_data_callback hp fi trace)) (i, w, []);
          f \<leftarrow> foreign_instrumentors i fi;
          (i, w) \<leftarrow> kedr_coi_hash_table_destroy (ties_table f) None (i, w);
          Some (traced, i\<lparr>foreign_instrumentors := (foreign_instrumentors i)(fi := None)\<rparr>, w) }"

definition kedr_coi_foreign_instrumentor_watch ::
  "hash_fn \<Rightarrow> kedr_coi_instrumentor \<Rightarrow> ptr \<Rightarrow> ptr \<Rightarrow> ptr \<Rightarrow> ptr \<Rightarrow> ptr \<Rightarrow> world \<Rightarrow>
   (int \<times> ptr \<times> kedr_coi_instrumentor \<times> world) option" where
  "kedr_coi_foreign_instrumentor_watch hp i fi ident tie field ops_p w =
     foreign_instrumentor_watch hp i fi ident tie field ops_p w"

text \<open>Here ops_p is None when the caller passes a NULL pointer.\<close>

definition kedr_coi_foreign_instrumentor_forget ::
  "hash_fn \<Rightarrow> kedr_coi_instrumentor \<Rightarrow> ptr \<Rightarrow> ptr \<Rightarrow> ptr option \<Rightarrow> world \<Rightarrow>
   (int \<times> ptr option \<times> kedr_coi_instrumentor \<times> world) option" where
  "kedr_coi_foreign_instrumentor_forget hp i fi ident ops_p w =
     do { found \<leftarrow> instrumentor_foreign_find_watch_data_by_id hp i fi ident;
          (case found of
             Some wd \<Rightarrow>
               do { f \<leftarrow> foreign_instrumentors i fi;
                    fd \<leftarrow> f_watch_datas f wd;
                    ops_p \<leftarrow> (case ops_p of None \<Rightarrow> Some None
                              | Some p \<Rightarrow> do { y \<leftarrow> idatas_foreign i fd;
                                               x \<leftarrow> idatas i (idata_binded y);
                                               Some (Some (instrument_data_restore_ops x p)) });
                    (i, w) \<leftarrow> instrumentor_foreign_destroy_watch_data hp i fi wd w;
                    Some (0, ops_p, i, w) }
           | None \<Rightarrow> Some (1, ops_p, i, w)) }"

definition kedr_coi_foreign_instrumentor_bind ::
  "hash_fn \<Rightarrow> kedr_coi_instrumentor \<Rightarrow> ptr \<Rightarrow> ptr \<Rightarrow> ptr \<Rightarrow> ptr \<Rightarrow> size_t \<Rightarrow> world \<Rightarrow> bind_result option" where
  "kedr_coi_foreign_instrumentor_bind hp i fi object tie ops_p off w =
     foreign_instrumentor_bind hp i fi object tie ops_p off w"

end
