(* ===== verification/Foreign_Spec.thy ===== *)
theory Foreign_Spec
  imports Foreign_Instrumentor Instr_Spec
begin

text \<open>
  The chain of foreign instrumentations over one structure: what every operation of the
  structure is for a given chain, that adding a foreign data extends the chain and that
  removing one, wherever it is in the chain, leaves the operations of the chain without it.
\<close>

subsection \<open>The operation a chain gives\<close>

definition applies :: "size_t \<Rightarrow> ptr \<Rightarrow> kedr_coi_replacement \<Rightarrow> bool" where
  "applies off op_orig r \<longleftrightarrow> operation_offset r = off \<and>
     (mode r = replace_all \<or> (if op_orig \<noteq> NULL then mode r = replace_not_null else mode r = replace_null))"

lemma generic_applies:
  "operation_offset r = off \<Longrightarrow>
   replace_operation_generic op op_orig r = (if applies off op_orig r then repl r else op)"
  by (simp add: replace_operation_generic_def applies_def)

definition chain_content ::
  "size_t \<Rightarrow> ptr \<Rightarrow> kedr_coi_replacement list \<Rightarrow> kedr_coi_replacement list list \<Rightarrow> ptr" where
  "chain_content off op_orig normal chain =
     repeat_replacements off op_orig (concat chain) (fold (replace_at off) normal op_orig)"

lemma repeat_append:
  "repeat_replacements off o' (xs @ ys) op = repeat_replacements off o' ys (repeat_replacements off o' xs op)"
  by (induction xs arbitrary: op) simp_all

lemma repeat_eq:
  "repeat_replacements off o' rs op =
     (if \<exists>r \<in> set rs. applies off o' r then repl (last (filter (applies off o') rs)) else op)"
proof (induction rs arbitrary: op)
  case (Cons r rs)
  show ?case
  proof (cases "operation_offset r = off")
    case True
    with Cons show ?thesis by (auto simp: generic_applies filter_empty_conv)
  next
    case False
    then have "\<not> applies off o' r" by (simp add: applies_def)
    with False Cons show ?thesis by auto
  qed
qed simp

lemma repeat_repl:
  "\<exists>r \<in> set rs. applies off o' r \<Longrightarrow>
   \<exists>r \<in> set rs. applies off o' r \<and> repeat_replacements off o' rs op = repl r"
  unfolding repeat_eq
  using last_in_set [of "filter (applies off o') rs"] by (auto simp: filter_empty_conv)

lemma undo_foreign_eq:
  assumes "\<And>r. r \<in> set (concat rss) \<Longrightarrow> operation_offset r = off \<Longrightarrow> repl r \<noteq> own"
  shows "undo_foreign off o' own rss own = repeat_replacements off o' (concat (rev rss)) own"
  using assms
proof (induction rss)
  case (Cons rs rss)
  let ?op = "repeat_replacements off o' rs own"
  show ?case
  proof (cases "\<exists>r \<in> set rs. applies off o' r")
    case True
    from repeat_repl [OF this, of own] obtain r where
      "r \<in> set rs" "applies off o' r" "?op = repl r" by blast
    with Cons.prems [of r] have "?op \<noteq> own" by (simp add: applies_def)
    moreover have "repeat_replacements off o' rs (repeat_replacements off o' (concat (rev rss)) own) = ?op"
      using True by (simp only: repeat_eq if_True)
    ultimately show ?thesis by (simp add: repeat_append)
  next
    case False
    then have "repeat_replacements off o' rs op = op" for op by (simp add: repeat_eq)
    with Cons show ?thesis by (simp add: repeat_append)
  qed
qed simp

lemma normal_content:
  assumes "distinct (map operation_offset normal)"
  shows "fold (replace_at off) normal o' =
         (if \<exists>r \<in> set normal. applies off o' r then repl (the (find (\<lambda>r. operation_offset r = off) normal)) else o')"
  unfolding replace_at_distinct [OF assms]
proof (cases "find (\<lambda>r. operation_offset r = off) normal")
  case None
  then show "(case find (\<lambda>r. operation_offset r = off) normal of None \<Rightarrow> o' | Some r \<Rightarrow> replace_operation o' r) =
     (if \<exists>r \<in> set normal. applies off o' r then repl (the (find (\<lambda>r. operation_offset r = off) normal)) else o')"
    using find_None_iff [of "\<lambda>r. operation_offset r = off" normal] by (simp add: None) (auto simp: applies_def)
next
  case (Some r)
  then have r: "r \<in> set normal" "operation_offset r = off"
    using find_Some_iff [of "\<lambda>r. operation_offset r = off" normal r] by auto
  have "applies off o' r \<longleftrightarrow> (\<exists>r \<in> set normal. applies off o' r)"
    using r assms by (auto simp: applies_def distinct_map dest: inj_onD)
  with Some r(2) show "(case find (\<lambda>r. operation_offset r = off) normal of None \<Rightarrow> o' | Some r \<Rightarrow> replace_operation o' r) =
     (if \<exists>r \<in> set normal. applies off o' r then repl (the (find (\<lambda>r. operation_offset r = off) normal)) else o')"
    by (simp add: replace_operation_def generic_applies)
qed

lemma undo_normal_eq:
  assumes "distinct (map operation_offset normal)"
    and "\<And>r. r \<in> set normal \<Longrightarrow> operation_offset r = off \<Longrightarrow> repl r \<noteq> own"
  shows "undo_normal off o' own normal own =
         (if \<exists>r \<in> set normal. applies off o' r then repl (the (find (\<lambda>r. operation_offset r = off) normal)) else own)"
  using assms
proof (induction normal)
  case (Cons r rs)
  show ?case
  proof (cases "operation_offset r = off")
    case True
    then have other: "\<not> applies off o' s" if "s \<in> set rs" for s
    proof -
      have "operation_offset r \<notin> operation_offset ` set rs" using Cons.prems(1) by simp
      then have "operation_offset s \<noteq> off" using that True by (metis imageI)
      then show ?thesis by (simp add: applies_def)
    qed
    have "undo_normal off o' own rs own = own" using Cons other by auto
    with True Cons.prems(2) [of r] other show ?thesis by (auto simp: generic_applies)
  next
    case False
    then have "\<not> applies off o' r" by (simp add: applies_def)
    with False Cons show ?thesis by simp
  qed
qed simp

text \<open>
  Undoing a replacement gives the operation of the chain before it, when the replacement is
  not used by anybody else for this operation.
\<close>

lemma undo_operation_eq:
  assumes normal: "distinct (map operation_offset normal)"
    and own: "own \<noteq> o'"
      "\<And>r. r \<in> set (concat pre) \<Longrightarrow> operation_offset r = off \<Longrightarrow> repl r \<noteq> own"
      "\<And>r. r \<in> set normal \<Longrightarrow> operation_offset r = off \<Longrightarrow> repl r \<noteq> own"
  shows "undo_operation off o' own (rev pre) normal = chain_content off o' normal pre"
proof -
  have f: "undo_foreign off o' own (rev pre) own = repeat_replacements off o' (concat pre) own"
    using undo_foreign_eq [of "rev pre" off own o'] own(2) by simp
  have n: "undo_normal off o' own normal own =
      (if \<exists>r \<in> set normal. applies off o' r
       then repl (the (find (\<lambda>r. operation_offset r = off) normal)) else own)"
    by (rule undo_normal_eq [OF normal own(3)])
  show ?thesis
  proof (cases "\<exists>r \<in> set (concat pre). applies off o' r")
    case True
    from repeat_repl [OF this, of own] obtain r where
      "r \<in> set (concat pre)" "applies off o' r" "repeat_replacements off o' (concat pre) own = repl r"
      by blast
    with own(2) [of r] have "repeat_replacements off o' (concat pre) own \<noteq> own"
      by (simp add: applies_def)
    moreover have "repeat_replacements off o' (concat pre) (fold (replace_at off) normal o') =
        repeat_replacements off o' (concat pre) own"
      using True by (simp only: repeat_eq if_True)
    ultimately show ?thesis by (simp add: undo_operation_def f chain_content_def Let_def)
  next
    case False
    then have id: "repeat_replacements off o' (concat pre) op = op" for op by (simp only: repeat_eq if_False)
    show ?thesis
    proof (cases "\<exists>r \<in> set normal. applies off o' r")
      case True
      then obtain r where r: "r \<in> set normal" "applies off o' r" by blast
      then obtain s where s: "find (\<lambda>r. operation_offset r = off) normal = Some s"
        using find_None_iff [of "\<lambda>r. operation_offset r = off" normal]
        by (cases "find (\<lambda>r. operation_offset r = off) normal") (auto simp: applies_def)
      then have "s \<in> set normal" "operation_offset s = off"
        using find_Some_iff [of "\<lambda>r. operation_offset r = off" normal s] by auto
      with own(3) have "repl s \<noteq> own" by blast
      with True s show ?thesis
        by (simp add: undo_operation_def f id n chain_content_def normal_content [OF normal] Let_def)
    next
      case no: False
      then show ?thesis
        by (simp add: undo_operation_def f id n chain_content_def normal_content [OF normal] Let_def)
    qed
  qed
qed

text \<open>
  The replacement r belongs to nobody else in the chain, and is not the original operation.
\<close>

definition own_repl ::
  "ptr \<Rightarrow> kedr_coi_replacement list \<Rightarrow> kedr_coi_replacement list list \<Rightarrow> kedr_coi_replacement \<Rightarrow> bool" where
  "own_repl op_orig normal chain r \<longleftrightarrow> repl r \<noteq> op_orig \<and>
     (\<forall>s \<in> set normal \<union> set (concat chain). operation_offset s = operation_offset r \<longrightarrow> repl s \<noteq> repl r)"

lemma chain_content_not_own:
  assumes normal: "distinct (map operation_offset normal)"
    and own: "own_repl o' normal chain r" and off: "operation_offset r = off"
  shows "chain_content off o' normal chain \<noteq> repl r"
proof (cases "\<exists>s \<in> set (concat chain). applies off o' s")
  case True
  from repeat_repl [OF this, of "fold (replace_at off) normal o'"] obtain s where
    "s \<in> set (concat chain)" "applies off o' s" "chain_content off o' normal chain = repl s"
    unfolding chain_content_def by blast
  with own off show ?thesis by (auto simp: own_repl_def applies_def)
next
  case False
  then have c: "chain_content off o' normal chain = fold (replace_at off) normal o'"
    unfolding chain_content_def by (simp only: repeat_eq if_False)
  show ?thesis
  proof (cases "find (\<lambda>r. operation_offset r = off) normal")
    case None
    with own c show ?thesis by (auto simp: replace_at_distinct [OF normal] own_repl_def)
  next
    case (Some s)
    then have "s \<in> set normal" "operation_offset s = off"
      using find_Some_iff [of "\<lambda>r. operation_offset r = off" normal s] by auto
    with own off Some c show ?thesis
      by (auto simp: replace_at_distinct [OF normal] own_repl_def replace_operation_def
          replace_operation_generic_def)
  qed
qed

text \<open>What the loop over the removed data's replacements does to the operation at off.\<close>

definition restore_at ::
  "size_t \<Rightarrow> ptr \<Rightarrow> kedr_coi_replacement list list \<Rightarrow> kedr_coi_replacement list \<Rightarrow>
   kedr_coi_replacement \<Rightarrow> ptr \<Rightarrow> ptr" where
  "restore_at off op_orig chain normal r op =
     (if operation_offset r = off \<and> op = repl r then undo_operation off op_orig (repl r) chain normal else op)"

lemma single_offset:
  assumes "distinct (map operation_offset rs)" and "r \<in> set rs" and "operation_offset r = off"
  shows "filter (\<lambda>r. operation_offset r = off) rs = [r]"
  using assms
proof (induction rs)
  case (Cons s rs)
  show ?case
  proof (cases "s = r")
    case True
    have "operation_offset s \<notin> operation_offset ` set rs" using Cons.prems(1) by simp
    then have "filter (\<lambda>r. operation_offset r = off) rs = []"
      using True Cons.prems(3) by (auto simp: filter_empty_conv) (metis imageI)
    with True Cons.prems(3) show ?thesis by simp
  next
    case False
    then have "r \<in> set rs" using Cons.prems(2) by simp
    moreover have "operation_offset s \<notin> operation_offset ` set rs" using Cons.prems(1) by simp
    ultimately have "operation_offset s \<noteq> off" using Cons.prems(3) by (metis imageI)
    with Cons \<open>r \<in> set rs\<close> show ?thesis by simp
  qed
qed simp

lemma fold_skip: "(\<And>r. r \<in> set rs \<Longrightarrow> \<not> P r \<Longrightarrow> f r = id) \<Longrightarrow> fold f rs = fold f (filter P rs)"
  by (induction rs) auto

lemma repeat_filter:
  "repeat_replacements off o' rs op =
   repeat_replacements off o' (filter (\<lambda>r. operation_offset r = off) rs) op"
  by (induction rs arbitrary: op) simp_all

lemma remove_from_chain:
  assumes normal: "distinct (map operation_offset normal)" and dist: "distinct (map operation_offset rs)"
    and own: "\<And>r. r \<in> set rs \<Longrightarrow> operation_offset r = off \<Longrightarrow> own_repl o' normal (pre @ post) r"
  shows "fold (restore_at off o' (rev pre) normal) rs (chain_content off o' normal (pre @ [rs] @ post)) =
         chain_content off o' normal (pre @ post)"
proof -
  let ?f = "restore_at off o' (rev pre) normal" and ?P = "\<lambda>r. operation_offset r = off"
  let ?A = "chain_content off o' normal pre"
  have split: "chain_content off o' normal (pre @ [rs] @ post) =
      repeat_replacements off o' (concat post) (repeat_replacements off o' rs ?A)"
    and without: "chain_content off o' normal (pre @ post) = repeat_replacements off o' (concat post) ?A"
    by (simp_all add: chain_content_def repeat_append)
  have skip: "fold ?f rs = fold ?f (filter ?P rs)"
    by (rule fold_skip) (auto simp: restore_at_def fun_eq_iff)
  show ?thesis
  proof (cases "\<exists>r \<in> set rs. operation_offset r = off")
    case False
    then have "filter ?P rs = []" by (auto simp: filter_empty_conv)
    then show ?thesis
      unfolding skip split without by (simp add: repeat_filter [of off o' rs])
  next
    case True
    then obtain r where r: "r \<in> set rs" "operation_offset r = off" by blast
    note F = single_offset [OF dist r]
    have L: "repeat_replacements off o' rs ?A = (if applies off o' r then repl r else ?A)"
      using r(2) by (simp add: repeat_filter [of off o' rs] F generic_applies)
    have step: "fold ?f rs v = ?f r v" for v unfolding skip F by simp
    note o = own [OF r]
    have opre: "own_repl o' normal pre r" using o by (auto simp: own_repl_def)
    have undo: "undo_operation off o' (repl r) (rev pre) normal = ?A"
      by (rule undo_operation_eq [OF normal]) (use opre r(2) in \<open>auto simp: own_repl_def\<close>)
    have ne: "chain_content off o' normal (pre @ post) \<noteq> repl r"
      by (rule chain_content_not_own [OF normal o r(2)])
    show ?thesis
    proof (cases "applies off o' r \<and> \<not> (\<exists>s \<in> set (concat post). applies off o' s)")
      case True
      then have id: "repeat_replacements off o' (concat post) v = v" for v
        by (simp only: repeat_eq if_False simp_thms)
      show ?thesis unfolding split without step L id using True r(2) by (simp add: restore_at_def undo)
    next
      case False
      have "repeat_replacements off o' (concat post) (repeat_replacements off o' rs ?A) =
          repeat_replacements off o' (concat post) ?A"
      proof (cases "applies off o' r")
        case True
        with False have "\<exists>s \<in> set (concat post). applies off o' s" by blast
        then show ?thesis by (simp only: repeat_eq [of off o' "concat post"] if_True)
      qed (simp add: L)
      with ne show ?thesis unfolding split without step by (simp add: restore_at_def)
    qed
  qed
qed

subsection \<open>The loops on memory\<close>

fun separate :: "idata_impl \<Rightarrow> bool" where
  "separate (Ap_idata p c) = True"
| "separate (Uc_idata p q) \<longleftrightarrow> p \<noteq> q"

lemma orig_stable:
  "separate y \<Longrightarrow> ops = instrument_data_get_repl_operations y \<Longrightarrow>
   instrument_data_get_orig_operation (set_ops w ops m) y off = instrument_data_get_orig_operation w y off"
  by (cases y) (auto simp: ap_idata_ops_get_orig_operation_def uc_idata_ops_get_orig_operation_def
      uc_idata_ops_get_repl_operations_def operation_at_offset_def read_op_def ops_content_def)

lemma foreign_replace_loop:
  assumes "ops \<noteq> NULL" and "ops = instrument_data_get_repl_operations y" and "separate y"
    and "ops_mem w ops = Some m" and "operation_offset ` set rs \<subseteq> dom m"
    and "\<And>off. off \<in> operation_offset ` set rs \<Longrightarrow> instrument_data_get_orig_operation w y off = Some (og off)"
  shows "fold_opt (foreign_replace_step y ops) rs w =
         Some (set_ops w ops (\<lambda>off. map_option (repeat_replacements off (og off) rs) (m off)))"
  using assms(4-6)
proof (induction rs arbitrary: w m)
  case Nil
  then show ?case by (simp add: option.map_ident)
next
  case (Cons r rs)
  let ?off = "operation_offset r"
  obtain v where v: "m ?off = Some v" using Cons.prems(2) by auto
  let ?m = "m(?off \<mapsto> replace_operation_generic v (og ?off) r)"
  have step: "foreign_replace_step y ops r w = Some (set_ops w ops ?m)"
    using Cons.prems(1) Cons.prems(3) [of ?off] v assms(1)
    by (simp add: foreign_replace_step_def read_op_def write_op_def ops_content_def)
  have "fold_opt (foreign_replace_step y ops) rs (set_ops w ops ?m) =
        Some (set_ops (set_ops w ops ?m) ops
               (\<lambda>off. map_option (repeat_replacements off (og off) rs) (?m off)))"
  proof (rule Cons.IH)
    show "operation_offset ` set rs \<subseteq> dom ?m" using Cons.prems(2) by auto
    show "instrument_data_get_orig_operation (set_ops w ops ?m) y off = Some (og off)"
      if "off \<in> operation_offset ` set rs" for off
      using Cons.prems(3) [of off] that orig_stable [OF assms(3,2)] by simp
  qed (simp add: fun_eq_iff)
  moreover have "(\<lambda>off. map_option (repeat_replacements off (og off) rs) (?m off)) =
      (\<lambda>off. map_option (repeat_replacements off (og off) (r # rs)) (m off))"
  proof
    fix off
    show "map_option (repeat_replacements off (og off) rs) (?m off) =
        map_option (repeat_replacements off (og off) (r # rs)) (m off)"
      using v by (cases "m off"; cases "off = ?off") auto
  qed
  ultimately show ?case using step by (simp only: fold_opt.simps bind.bind_lunit set_ops_simps(4))
qed

lemma foreign_restore_loop:
  assumes "ops \<noteq> NULL" and "ops = instrument_data_get_repl_operations y" and "separate y"
    and "ops_mem w ops = Some m" and "operation_offset ` set rs \<subseteq> dom m"
    and "\<And>off. off \<in> operation_offset ` set rs \<Longrightarrow> instrument_data_get_orig_operation w y off = Some (og off)"
  shows "fold_opt (foreign_restore_step i y ops chain) rs w =
         Some (set_ops w ops (\<lambda>off. map_option (fold (restore_at off (og off) chain
                                 (for_each_replacement (replacements i))) rs) (m off)))"
  using assms(4-6)
proof (induction rs arbitrary: w m)
  case Nil
  then show ?case by (simp add: option.map_ident)
next
  case (Cons r rs)
  let ?off = "operation_offset r" and ?N = "for_each_replacement (replacements i)"
  obtain v where v: "m ?off = Some v" using Cons.prems(2) by auto
  let ?m = "m(?off \<mapsto> restore_at ?off (og ?off) chain ?N r v)"
  have same: "v \<noteq> repl r \<Longrightarrow> ?m = m" using v by (simp add: restore_at_def fun_upd_idem)
  have step: "foreign_restore_step i y ops chain r w = Some (set_ops w ops ?m)"
    using Cons.prems(1) Cons.prems(3) [of ?off] v assms(1) same
    by (auto simp: foreign_restore_step_def read_op_def write_op_def ops_content_def restore_at_def)
  have "fold_opt (foreign_restore_step i y ops chain) rs (set_ops w ops ?m) =
        Some (set_ops (set_ops w ops ?m) ops
               (\<lambda>off. map_option (fold (restore_at off (og off) chain ?N) rs) (?m off)))"
  proof (rule Cons.IH)
    show "operation_offset ` set rs \<subseteq> dom ?m" using Cons.prems(2) by auto
    show "instrument_data_get_orig_operation (set_ops w ops ?m) y off = Some (og off)"
      if "off \<in> operation_offset ` set rs" for off
      using Cons.prems(3) [of off] that orig_stable [OF assms(3,2)] by simp
  qed (simp add: fun_eq_iff)
  moreover have "(\<lambda>off. map_option (fold (restore_at off (og off) chain ?N) rs) (?m off)) =
      (\<lambda>off. map_option (fold (restore_at off (og off) chain ?N) (r # rs)) (m off))"
  proof
    fix off
    show "map_option (fold (restore_at off (og off) chain ?N) rs) (?m off) =
        map_option (fold (restore_at off (og off) chain ?N) (r # rs)) (m off)"
      using v by (cases "m off"; cases "off = ?off") (auto simp: restore_at_def)
  qed
  ultimately show ?case using step by (simp only: fold_opt.simps bind.bind_lunit set_ops_simps(4))
qed

subsection \<open>The state of a chain\<close>

text \<open>
  The operations at the offsets R of the structure that the object y works on are those of
  the chain of replacement lists.
\<close>

definition chain_mem ::
  "size_t set \<Rightarrow> kedr_coi_replacement list \<Rightarrow> idata_impl \<Rightarrow> kedr_coi_replacement list list \<Rightarrow> world \<Rightarrow> bool" where
  "chain_mem R normal y chain w \<longleftrightarrow>
     instrument_data_get_repl_operations y \<noteq> NULL \<and> separate y \<and>
     (\<exists>m. ops_mem w (instrument_data_get_repl_operations y) = Some m \<and>
        (\<forall>off \<in> R. \<exists>op_orig. instrument_data_get_orig_operation w y off = Some op_orig \<and>
           m off = Some (chain_content off op_orig normal chain)))"

lemma chain_mem_orig:
  assumes "chain_mem R normal y chain w"
  obtains m og where "ops_mem w (instrument_data_get_repl_operations y) = Some m"
    "\<And>off. off \<in> R \<Longrightarrow> instrument_data_get_orig_operation w y off = Some (og off)"
    "\<And>off. off \<in> R \<Longrightarrow> m off = Some (chain_content off (og off) normal chain)"
proof -
  from assms obtain m where m: "ops_mem w (instrument_data_get_repl_operations y) = Some m"
    and P: "\<forall>off \<in> R. \<exists>op_orig. instrument_data_get_orig_operation w y off = Some op_orig \<and>
           m off = Some (chain_content off op_orig normal chain)"
    unfolding chain_mem_def by blast
  show thesis
    by (rule that [OF m, of "\<lambda>off. the (instrument_data_get_orig_operation w y off)"]) (use P in force)+
qed

lemma chain_content_snoc:
  "chain_content off op_orig normal (chain @ [rs]) =
   repeat_replacements off op_orig rs (chain_content off op_orig normal chain)"
  by (simp add: chain_content_def repeat_append)

lemma extend_chain:
  assumes c: "chain_mem R normal y chain w" and rs: "operation_offset ` set rs \<subseteq> R"
    and ops: "ops = instrument_data_get_repl_operations y"
  shows "\<exists>w'. fold_opt (foreign_replace_step y ops) rs w = Some w' \<and> chain_mem R normal y (chain @ [rs]) w'"
proof -
  from c obtain m og where m: "ops_mem w ops = Some m"
    and og: "\<And>off. off \<in> R \<Longrightarrow> instrument_data_get_orig_operation w y off = Some (og off)"
    and cont: "\<And>off. off \<in> R \<Longrightarrow> m off = Some (chain_content off (og off) normal chain)"
    unfolding ops by (rule chain_mem_orig) blast
  have ne: "ops \<noteq> NULL" "separate y" using c by (simp_all add: chain_mem_def ops)
  have run: "fold_opt (foreign_replace_step y ops) rs w =
         Some (set_ops w ops (\<lambda>off. map_option (repeat_replacements off (og off) rs) (m off)))"
    by (rule foreign_replace_loop [OF ne(1) ops ne(2) m]) (use rs cont og in auto)
  then show ?thesis
    using ne og cont by (simp add: chain_mem_def chain_content_snoc orig_stable [OF ne(2) refl] ops)
qed

lemma shorten_chain:
  assumes c: "chain_mem R (for_each_replacement (replacements i)) y (pre @ [rs] @ post) w"
    and rs: "operation_offset ` set rs \<subseteq> R"
    and ops: "ops = instrument_data_get_repl_operations y"
    and normal: "distinct (map operation_offset (for_each_replacement (replacements i)))"
    and dist: "distinct (map operation_offset rs)"
    and own: "\<And>r op. r \<in> set rs \<Longrightarrow>
      instrument_data_get_orig_operation w y (operation_offset r) = Some op \<Longrightarrow>
      own_repl op (for_each_replacement (replacements i)) (pre @ post) r"
  shows "\<exists>w'. fold_opt (foreign_restore_step i y ops (rev pre)) rs w = Some w' \<and>
           chain_mem R (for_each_replacement (replacements i)) y (pre @ post) w' \<and>
           pending w' = pending w \<and> ops_table_global w' = ops_table_global w"
proof -
  let ?N = "for_each_replacement (replacements i)"
  from c obtain m og where m: "ops_mem w ops = Some m"
    and og: "\<And>off. off \<in> R \<Longrightarrow> instrument_data_get_orig_operation w y off = Some (og off)"
    and cont: "\<And>off. off \<in> R \<Longrightarrow> m off = Some (chain_content off (og off) ?N (pre @ [rs] @ post))"
    unfolding ops by (rule chain_mem_orig) blast
  have ne: "ops \<noteq> NULL" "separate y" using c by (simp_all add: chain_mem_def ops)
  have run: "fold_opt (foreign_restore_step i y ops (rev pre)) rs w =
         Some (set_ops w ops (\<lambda>off. map_option (fold (restore_at off (og off) (rev pre) ?N) rs) (m off)))"
    by (rule foreign_restore_loop [OF ne(1) ops ne(2) m]) (use rs cont og in auto)
  have "fold (restore_at off (og off) (rev pre) ?N) rs (chain_content off (og off) ?N (pre @ [rs] @ post)) =
        chain_content off (og off) ?N (pre @ post)" if "off \<in> R" for off
  proof (rule remove_from_chain [OF normal dist])
    fix r assume r: "r \<in> set rs" "operation_offset r = off"
    show "own_repl (og off) ?N (pre @ post) r" by (rule own [OF r(1)]) (simp add: r(2) og that)
  qed
  with run ne og cont show ?thesis
    by (simp add: chain_mem_def orig_stable [OF ne(2) refl] ops)
qed

subsection \<open>Creating and destroying foreign data\<close>

lemma foreign_chain_append:
  "foreign_chain i (xs @ ys) = do { a \<leftarrow> foreign_chain i xs; b \<leftarrow> foreign_chain i ys; Some (a @ b) }"
  by (induction xs) (auto split: Option.bind_splits)

lemma foreign_chain_rev: "foreign_chain i xs = Some c \<Longrightarrow> foreign_chain i (rev xs) = Some (rev c)"
  by (induction xs arbitrary: c) (auto simp: foreign_chain_append)

lemma foreign_chain_cong:
  assumes "\<And>fd. fd \<in> set xs \<Longrightarrow> idatas_foreign j fd = idatas_foreign i fd"
    and "foreign_instrumentors j = foreign_instrumentors i"
  shows "foreign_chain j xs = foreign_chain i xs"
  using assms(1)
proof (induction xs)
  case (Cons x xs)
  then have "foreign_chain j xs = foreign_chain i xs" "idatas_foreign j x = idatas_foreign i x" by simp_all
  then show ?case by (simp add: assms(2))
qed simp

lemma previous_foreign_eq: "fd \<notin> set pre \<Longrightarrow> previous_foreign fd (pre @ fd # post) = rev pre"
proof -
  assume a: "fd \<notin> set pre"
  have "takeWhile (\<lambda>e. e \<noteq> fd) (pre @ fd # post) = pre @ takeWhile (\<lambda>e. e \<noteq> fd) (fd # post)"
    by (rule takeWhile_append2) (use a in auto)
  then show ?thesis by (simp add: previous_foreign_def)
qed

lemma create_foreign_ok:
  assumes x: "idatas i d = Some x" and f: "foreign_instrumentors i fi = Some f"
    and c: "foreign_chain i (foreign_data_list x) = Some chain"
    and mem: "chain_mem R (for_each_replacement (replacements i)) (impl x) chain w"
    and offs: "repl_offsets (f_replacements f) \<subseteq> R"
    and fresh: "\<And>p. Some p \<in> set (pending w) \<Longrightarrow> p \<notin> set (foreign_data_list x)"
  shows "\<exists>r i' w'. apf_idata_ops_create_foreign_data i d fi w = Some (r, i', w') \<and>
           (case r of
              Inl err \<Rightarrow> err = - ENOMEM \<and> i' = i \<and> ops_mem w' = ops_mem w
            | Inr fd \<Rightarrow> idatas i' d = Some (x\<lparr>foreign_data_list := foreign_data_list x @ [fd]\<rparr>) \<and>
                idatas_foreign i' fd = Some \<lparr>f_refs = 1, idata_binded = d, f_instrumentor = fi\<rparr> \<and>
                foreign_chain i' (foreign_data_list x @ [fd]) =
                  Some (chain @ [for_each_replacement (f_replacements f)]) \<and>
                chain_mem R (for_each_replacement (replacements i)) (impl x)
                  (chain @ [for_each_replacement (f_replacements f)]) w')"
proof -
  obtain a w1 where k: "world_kmalloc w = (a, w1)" by force
  then have w1: "ops_mem w1 = ops_mem w" by (auto simp: world_kmalloc_def split: prod.splits)
  show ?thesis
  proof (cases a)
    case None
    with k w1 show ?thesis by (simp add: apf_idata_ops_create_foreign_data_def)
  next
    case (Some fd)
    let ?L = "for_each_replacement (f_replacements f)" and ?N = "for_each_replacement (replacements i)"
    let ?ops = "instrument_data_get_repl_operations (impl x)"
    let ?i = "set_idata (set_foreign i fd \<lparr>f_refs = 1, idata_binded = d, f_instrumentor = fi\<rparr>) d
                (x\<lparr>foreign_data_list := foreign_data_list x @ [fd]\<rparr>)"
    have fd: "fd \<notin> set (foreign_data_list x)"
      using fresh [of fd] k Some by (auto simp: world_kmalloc_def kmalloc_def split: prod.splits list.splits)
    have "instrument_data_get_orig_operation w1 (impl x) off = instrument_data_get_orig_operation w (impl x) off" for off
      using w1 by (cases "impl x") (simp_all add: ap_idata_ops_get_orig_operation_def
          uc_idata_ops_get_orig_operation_def operation_at_offset_def read_op_def ops_content_def)
    then have c1: "chain_mem R ?N (impl x) chain w1" using mem w1 by (simp add: chain_mem_def)
    have o1: "operation_offset ` set ?L \<subseteq> R" using offs by (simp add: repl_offsets_def)
    from extend_chain [OF c1 o1 refl] obtain w2 where
      w2: "fold_opt (foreign_replace_step (impl x) ?ops) ?L w1 = Some w2"
        "chain_mem R ?N (impl x) (chain @ [?L]) w2" by blast
    have run: "apf_idata_ops_create_foreign_data i d fi w = Some (Inr fd, ?i, w2)"
      by (simp add: apf_idata_ops_create_foreign_data_def k Some x f w2(1))
    have "foreign_chain ?i (foreign_data_list x) = foreign_chain i (foreign_data_list x)"
      by (rule foreign_chain_cong) (use fd in auto)
    then have "foreign_chain ?i (foreign_data_list x @ [fd]) = Some (chain @ [?L])"
      using c f by (simp add: foreign_chain_append)
    with run w2(2) show ?thesis by simp
  qed
qed

lemma destroy_foreign_ok:
  assumes f: "foreign_instrumentors i fi = Some f" and y: "idatas_foreign i fd = Some y"
    and yd: "idata_binded y = d" "f_instrumentor y = fi"
    and x: "idatas i d = Some x" "foreign_data_list x = pre @ fd # post" "refs x \<noteq> 1"
    and dist: "distinct (foreign_data_list x)"
    and c: "foreign_chain i pre = Some cpre" "foreign_chain i post = Some cpost"
    and mem: "chain_mem R (for_each_replacement (replacements i)) (impl x)
                (cpre @ [for_each_replacement (f_replacements f)] @ cpost) w"
    and offs: "repl_offsets (f_replacements f) \<subseteq> R"
    and normal: "distinct (map operation_offset (for_each_replacement (replacements i)))"
    and L: "distinct (map operation_offset (for_each_replacement (f_replacements f)))"
    and own: "\<And>r op. r \<in> set (for_each_replacement (f_replacements f)) \<Longrightarrow>
      instrument_data_get_orig_operation w (impl x) (operation_offset r) = Some op \<Longrightarrow>
      own_repl op (for_each_replacement (replacements i)) (cpre @ cpost) r"
  shows "\<exists>i' w'. apf_idata_foreign_ops_destroy hp i fi fd w = Some (i', w') \<and>
           idatas i' d = Some (x\<lparr>foreign_data_list := pre @ post, refs := refs x - 1\<rparr>) \<and>
           idatas_foreign i' fd = None \<and> foreign_chain i' (pre @ post) = Some (cpre @ cpost) \<and>
           chain_mem R (for_each_replacement (replacements i)) (impl x) (cpre @ cpost) w'"
proof -
  let ?L = "for_each_replacement (f_replacements f)" and ?N = "for_each_replacement (replacements i)"
  let ?ops = "instrument_data_get_repl_operations (impl x)"
  have fd: "fd \<notin> set pre" "fd \<notin> set post" using dist by (simp_all add: x(2))
  have prev: "foreign_chain i (previous_foreign fd (foreign_data_list x)) = Some (rev cpre)"
    unfolding x(2) previous_foreign_eq [OF fd(1)] by (rule foreign_chain_rev [OF c(1)])
  have offs': "operation_offset ` set ?L \<subseteq> R" using offs by (simp add: repl_offsets_def)
  have "\<exists>w'. fold_opt (foreign_restore_step i (impl x) ?ops (rev cpre)) ?L w = Some w' \<and>
          chain_mem R ?N (impl x) (cpre @ cpost) w' \<and>
          pending w' = pending w \<and> ops_table_global w' = ops_table_global w"
    by (rule shorten_chain [OF mem offs' refl normal L]) (rule own)
  then obtain w' where
    w': "fold_opt (foreign_restore_step i (impl x) ?ops (rev cpre)) ?L w = Some w'"
      "chain_mem R ?N (impl x) (cpre @ cpost) w'" by blast
  let ?x = "x\<lparr>foreign_data_list := pre @ post\<rparr>"
  let ?j = "free_foreign (set_idata i d (?x\<lparr>refs := refs x - 1\<rparr>)) fd"
  have rem: "remove1 fd (foreign_data_list x) = pre @ post" using fd by (simp add: x(2) remove1_append)
  have "instrument_data_unref hp (set_idata i d ?x) d w' = Some (set_idata i d (?x\<lparr>refs := refs x - 1\<rparr>), w')"
    using x(3) by (simp add: instrument_data_unref_def Let_def)
  then have run: "apf_idata_foreign_ops_destroy hp i fi fd w = Some (?j, w')"
    by (simp add: apf_idata_foreign_ops_destroy_def apf_idata_foreign_ops_destroy_common_def f y yd x(1)
        prev w'(1) rem Let_def)
  have "foreign_chain ?j (pre @ post) = foreign_chain i (pre @ post)"
    by (rule foreign_chain_cong) (use fd in auto)
  then have "foreign_chain ?j (pre @ post) = Some (cpre @ cpost)" using c by (simp add: foreign_chain_append)
  with run w'(2) show ?thesis by simp
qed

subsection \<open>What a foreign replacement is told\<close>

text \<open>Without the entry for an offset in the rest of a list the walks pass it by.\<close>

lemma repeat_skip:
  "off \<notin> operation_offset ` set rs \<Longrightarrow> repeat_replacements off o' rs op = op"
  by (induction rs arbitrary: op) auto

lemma walk_skip:
  "off \<notin> operation_offset ` set rs \<Longrightarrow> chain_walk off o' op (rs @ ys) = chain_walk off o' op ys"
  by (induction rs) auto

lemma repeat_find:
  "distinct (map operation_offset rs) \<Longrightarrow>
   repeat_replacements off o' rs op =
     (case find (\<lambda>r. operation_offset r = off) rs of None \<Rightarrow> op
      | Some r \<Rightarrow> replace_operation_generic op o' r)"
  by (induction rs arbitrary: op) (auto simp: repeat_skip)

lemma walk_find:
  assumes "distinct (map operation_offset rs)"
    and "\<And>r. r \<in> set rs \<Longrightarrow> operation_offset r = off \<Longrightarrow> repl r \<noteq> o'"
  shows "chain_walk off o' o' (rs @ ys) =
           (case find (\<lambda>r. operation_offset r = off) rs of None \<Rightarrow> chain_walk off o' o' ys
            | Some r \<Rightarrow> replace_operation_generic (chain_walk off o' o' ys) o' r)"
  using assms
proof (induction rs)
  case (Cons r rs)
  show ?case
  proof (cases "operation_offset r = off")
    case True
    then have "off \<notin> operation_offset ` set rs" "repl r \<noteq> o'" using Cons.prems by auto
    then show ?thesis using True
      by (auto simp: walk_skip replace_operation_def replace_operation_generic_def Let_def)
  next
    case False
    then show ?thesis using Cons by auto
  qed
qed simp

text \<open>
  The chained operation is what the earlier foreign data alone make of the original one.
\<close>

lemma chain_walk_eq:
  assumes "\<And>rs. rs \<in> set chain \<Longrightarrow> distinct (map operation_offset rs)"
    and "\<And>r. r \<in> set (concat chain) \<Longrightarrow> operation_offset r = off \<Longrightarrow> repl r \<noteq> o'"
  shows "chain_walk off o' o' (concat (rev chain)) = chain_content off o' [] chain"
  using assms
proof (induction chain rule: rev_induct)
  case Nil
  then show ?case by (simp add: chain_content_def)
next
  case (snoc rs chain)
  have "chain_walk off o' o' (concat (rev chain)) = chain_content off o' [] chain"
    by (rule snoc.IH) (use snoc.prems in auto)
  then show ?case
    using snoc.prems by (simp add: walk_find chain_content_snoc repeat_find split: option.split)
qed

end
