(* ===== verification/Foreign_Examples.thy ===== *)
theory Foreign_Examples
  imports Examples Foreign_Spec
begin

text \<open>
  Two foreign instrumentors that instrument the operations structure 0x1000, which a normal
  instrumentor has already instrumented at place; and a foreign watch of an object.
\<close>

definition ex_replace :: "ptr \<Rightarrow> kedr_coi_replacement list" where
  "ex_replace p = [\<lparr>operation_offset = 0, repl = p, mode = replace_all\<rparr>,
                   \<lparr>operation_offset = - 1, repl = NULL, mode = replace_null\<rparr>]"

definition ex_foreign :: "ptr \<Rightarrow> kedr_coi_foreign_instrumentor" where
  "ex_foreign p = \<lparr>ids_table = empty_table, ties_table = empty_table, f_replacements = ex_replace p,
                   f_watch_datas = Map.empty\<rparr>"

definition ex_base :: kedr_coi_instrumentor where
  "ex_base = set_foreign_instrumentor (set_foreign_instrumentor (ex_watched True) 0xf0 (ex_foreign 0xa00))
               0xf8 (ex_foreign 0xb00)"

definition ex_base_world :: world where
  "ex_base_world = (ex_watched_world True)\<lparr>pending := [Some 0xd0, Some 0xd8]\<rparr>"

lemma ex_replace_each: "for_each_replacement (ex_replace p) = [\<lparr>operation_offset = 0, repl = p, mode = replace_all\<rparr>]"
  by (simp add: ex_replace_def for_each_replacement_def)

text \<open>The data of the two, one after the other.\<close>

definition ex_chain1 :: "(int + ptr) \<times> kedr_coi_instrumentor \<times> world" where
  "ex_chain1 = the (instrumentor_foreign_get_data low_bits_hash ex_base 0xf0 0x1000 ex_base_world)"

definition ex_chain2 :: "(int + ptr) \<times> kedr_coi_instrumentor \<times> world" where
  "ex_chain2 = the (instrumentor_foreign_get_data low_bits_hash (fst (snd ex_chain1)) 0xf8 0x1000 (snd (snd ex_chain1)))"

lemmas ex_foreign_eval = ex_base_def ex_base_world_def ex_foreign_def ex_replace_each
  set_foreign_instrumentor_def instrumentor_foreign_get_data_def instrumentor_foreign_find_data_def
  apf_idata_ops_find_foreign_data_def apf_idata_ops_create_foreign_data_def foreign_replace_step_def
  ap_idata_ops_get_orig_operation_def operation_at_offset_def

lemma ex_chain_run:
  "instrumentor_foreign_get_data low_bits_hash ex_base 0xf0 0x1000 ex_base_world = Some ex_chain1"
  "instrumentor_foreign_get_data low_bits_hash (fst (snd ex_chain1)) 0xf8 0x1000 (snd (snd ex_chain1)) = Some ex_chain2"
  "fst ex_chain1 = Inr 0xd0" "fst ex_chain2 = Inr 0xd8"
  by (simp_all add: ex_chain2_def ex_chain1_def ex_foreign_eval ex_eval2 ex_eval)

definition ex_two :: kedr_coi_instrumentor where
  "ex_two = fst (snd ex_chain2)"

definition ex_two_world :: world where
  "ex_two_world = snd (snd ex_chain2)"

definition ex_copy :: ops_struct where
  "ex_copy = (\<lambda>off. if off < 16 then if off = 0 then Some 0x100 else if off = 8 then Some NULL else None
                    else None)"

definition ex_data :: instrument_data where
  "ex_data = \<lparr>refs = 3, impl = Ap_idata 0x1000 ex_copy, foreign_data_list = [0xd0, 0xd8]\<rparr>"

lemma ex_two_shape:
  "idatas_foreign ex_two 0xd0 = Some \<lparr>f_refs = 1, idata_binded = 0x50, f_instrumentor = 0xf0\<rparr>"
  "idatas_foreign ex_two 0xd8 = Some \<lparr>f_refs = 1, idata_binded = 0x50, f_instrumentor = 0xf8\<rparr>"
  "foreign_instrumentors ex_two 0xf0 = Some (ex_foreign 0xa00)"
  "foreign_instrumentors ex_two 0xf8 = Some (ex_foreign 0xb00)"
  "replacements ex_two = ex_replacements" "idatas ex_two 0x50 = Some ex_data"
  by (simp_all add: ex_two_def ex_chain2_def ex_chain1_def ex_foreign_eval ex_eval2 ex_eval ex_data_def ex_copy_def)

lemma ex_two_mem:
  "ops_mem ex_two_world 0x1000 = Some (\<lambda>off. if off = 0 then Some 0xb00 else if off = 8 then Some NULL else None)"
  by (simp add: ex_two_world_def ex_chain2_def ex_chain1_def ex_foreign_eval ex_eval2 ex_eval fun_eq_iff)

lemma ex_two_chain:
  "foreign_chain ex_two (foreign_data_list ex_data) =
     Some [for_each_replacement (ex_replace 0xa00), for_each_replacement (ex_replace 0xb00)]"
  by (simp add: ex_data_def ex_two_shape ex_foreign_def)

lemma ex_two_chain_mem:
  "chain_mem {0, 8} (for_each_replacement (replacements ex_two)) (impl ex_data)
     [for_each_replacement (ex_replace 0xa00), for_each_replacement (ex_replace 0xb00)]
     (ex_two_world\<lparr>pending := as\<rparr>)"
  by (simp add: chain_mem_def ex_two_shape ex_two_mem ex_for_each ex_replace_each chain_content_def ex_data_def ex_copy_def
      ap_idata_ops_get_orig_operation_def ap_idata_ops_get_operations_def operation_at_offset_def
      replace_at_def replace_operation_def replace_operation_generic_def)

text \<open>A factory at 0x4000 that the first foreign instrumentor watches.\<close>

definition ex_fw :: "int \<times> ptr \<times> kedr_coi_instrumentor \<times> world" where
  "ex_fw = the (kedr_coi_foreign_instrumentor_watch low_bits_hash ex_base 0xf0 0x4000 0x4000 0x4020 0x1000 ex_base_world)"

lemmas ex_fw_eval = kedr_coi_foreign_instrumentor_watch_def foreign_instrumentor_watch_def
  instrumentor_foreign_find_watch_data_by_id_def foreign_watch_add_def
  instrument_data_foreign_replace_ops_def instrument_data_foreign_get_repl_operations_def
  apf_idata_foreign_ops_get_repl_operations_def

lemma ex_fw_eq:
  "\<exists>i w. kedr_coi_foreign_instrumentor_watch low_bits_hash ex_base 0xf0 0x4000 0x4000 0x4020 0x1000 ex_base_world =
     Some (0, 0x1000, i, w) \<and> ex_fw = (0, 0x1000, i, w) \<and> pending w = []"
  by (simp add: ex_fw_def ex_fw_eval ex_foreign_eval ex_eval2 ex_eval)

definition ex_fi :: kedr_coi_instrumentor where
  "ex_fi = fst (snd (snd ex_fw))"

lemma ex_fi_shape:
  "instrumentor_foreign_find_watch_data_by_id low_bits_hash ex_fi 0xf0 0x4000 = Some (Some 0xd8)"
  "\<exists>f. foreign_instrumentors ex_fi 0xf0 = Some f \<and> f_watch_datas f 0xd8 = Some 0xd0"
  "idatas_foreign ex_fi 0xd0 = Some \<lparr>f_refs = 1, idata_binded = 0x50, f_instrumentor = 0xf0\<rparr>"
  "\<exists>x. idatas ex_fi 0x50 = Some x \<and> \<not> instrument_data_my_operations (impl x) NULL"
  "instrumentor_find_data low_bits_hash ex_fi NULL = None"
  by (simp_all add: ex_fi_def ex_fw_def ex_fw_eval ex_foreign_eval ex_eval2 ex_eval ap_idata_ops_my_operations_def)

end
