(* ===== verification/Foreign_Properties.thy ===== *)
theory Foreign_Properties
  imports Foreign_Examples
begin

text \<open>
  The properties of foreign instrumentation (the apf_ functions of
  src/sources/core/kedr_coi_instrumentors_impl.c and the foreign part of
  kedr_coi_instrumentors.c).  The contents of an instrumented structure are described by
  chain_content: the normal replacements applied to the original operation, then those of the
  foreign data in the list, the last one on top.
\<close>

text \<open>C19: Adding foreign data to instrumented operations puts its replacements on top: it fails
  with -ENOMEM and changes nothing, or appends the new data to the list, and every operation in
  the structure is what the chain extended by its replacements makes of the original one.\<close>

theorem foreign_data_create:
  assumes "idatas i d = Some x" and "foreign_instrumentors i fi = Some f"
    and "foreign_chain i (foreign_data_list x) = Some chain"
    and "chain_mem R (for_each_replacement (replacements i)) (impl x) chain w"
    and "repl_offsets (f_replacements f) \<subseteq> R"
    and "\<And>p. Some p \<in> set (pending w) \<Longrightarrow> p \<notin> set (foreign_data_list x)"
  shows "\<exists>r i' w'. apf_idata_ops_create_foreign_data i d fi w = Some (r, i', w') \<and>
           (case r of
              Inl err \<Rightarrow> err = - ENOMEM \<and> i' = i \<and> ops_mem w' = ops_mem w
            | Inr fd \<Rightarrow> idatas i' d = Some (x\<lparr>foreign_data_list := foreign_data_list x @ [fd]\<rparr>) \<and>
                idatas_foreign i' fd = Some \<lparr>f_refs = 1, idata_binded = d, f_instrumentor = fi\<rparr> \<and>
                foreign_chain i' (foreign_data_list x @ [fd]) =
                  Some (chain @ [for_each_replacement (f_replacements f)]) \<and>
                chain_mem R (for_each_replacement (replacements i)) (impl x)
                  (chain @ [for_each_replacement (f_replacements f)]) w')"
  by (rule create_foreign_ok [OF assms(1-5)]) (rule assms(6))

theorem foreign_data_create_witness:
  "\<exists>r i' w'. apf_idata_ops_create_foreign_data ex_two 0x50 0xf0 (ex_two_world\<lparr>pending := [Some 0xe0]\<rparr>) = Some (r, i', w')"
proof -
  have o: "repl_offsets (f_replacements (ex_foreign 0xa00)) \<subseteq> {0, 8}"
    by (simp add: ex_foreign_def ex_replace_each repl_offsets_def)
  have "p \<notin> set (foreign_data_list ex_data)" if "Some p \<in> set (pending (ex_two_world\<lparr>pending := [Some 0xe0]\<rparr>))" for p
    using that by (simp add: ex_data_def)
  from foreign_data_create [OF ex_two_shape(6,3) ex_two_chain ex_two_chain_mem o this]
  show ?thesis by blast
qed

text \<open>C9: Foreign data can be removed from anywhere in the list, not only the last one added: when
  the instrumented data stays in use and the replacements of the removed one are its own, every
  operation in the structure becomes what the chain without it makes of the original one.\<close>

theorem foreign_data_destroy:
  assumes "foreign_instrumentors i fi = Some f" and "idatas_foreign i fd = Some y"
    and "idata_binded y = d" and "f_instrumentor y = fi"
    and "idatas i d = Some x" and "foreign_data_list x = ds1 @ fd # ds2" and "refs x \<noteq> 1"
    and "distinct (foreign_data_list x)"
    and "foreign_chain i ds1 = Some c1" and "foreign_chain i ds2 = Some c2"
    and "chain_mem R (for_each_replacement (replacements i)) (impl x)
           (c1 @ [for_each_replacement (f_replacements f)] @ c2) w"
    and "repl_offsets (f_replacements f) \<subseteq> R"
    and "distinct (map operation_offset (for_each_replacement (replacements i)))"
    and "distinct (map operation_offset (for_each_replacement (f_replacements f)))"
    and "\<And>r op. r \<in> set (for_each_replacement (f_replacements f)) \<Longrightarrow>
      instrument_data_get_orig_operation w (impl x) (operation_offset r) = Some op \<Longrightarrow>
      own_repl op (for_each_replacement (replacements i)) (c1 @ c2) r"
  shows "\<exists>i' w'. apf_idata_foreign_ops_destroy hp i fi fd w = Some (i', w') \<and>
           idatas i' d = Some (x\<lparr>foreign_data_list := ds1 @ ds2, refs := refs x - 1\<rparr>) \<and>
           idatas_foreign i' fd = None \<and> foreign_chain i' (ds1 @ ds2) = Some (c1 @ c2) \<and>
           chain_mem R (for_each_replacement (replacements i)) (impl x) (c1 @ c2) w'"
  by (rule destroy_foreign_ok [OF assms(1-14)]) (rule assms(15))

theorem foreign_data_destroy_witness:
  "\<exists>i' w'. apf_idata_foreign_ops_destroy low_bits_hash ex_two 0xf0 0xd0 ex_two_world = Some (i', w') \<and>
     read_op w' 0x1000 0 = Some 0xb00"
proof -
  let ?L = "for_each_replacement (ex_replace 0xa00)" and ?M = "for_each_replacement (ex_replace 0xb00)"
  let ?y = "\<lparr>f_refs = 1, idata_binded = 0x50, f_instrumentor = 0xf0\<rparr>"
  have y: "idata_binded ?y = 0x50" "f_instrumentor ?y = 0xf0" by simp_all
  have x: "foreign_data_list ex_data = [] @ 0xd0 # [0xd8]" "refs ex_data \<noteq> 1" "distinct (foreign_data_list ex_data)"
    by (simp_all add: ex_data_def)
  have c: "foreign_chain ex_two [] = Some []" "foreign_chain ex_two [0xd8] = Some [?M]"
    by (simp_all add: ex_two_shape ex_foreign_def)
  have mem: "chain_mem {0, 8} (for_each_replacement (replacements ex_two)) (impl ex_data)
      ([] @ [for_each_replacement (f_replacements (ex_foreign 0xa00))] @ [?M]) ex_two_world"
    using ex_two_chain_mem [of "pending ex_two_world"] by (simp add: ex_foreign_def)
  have o: "repl_offsets (f_replacements (ex_foreign 0xa00)) \<subseteq> {0, 8}"
    "distinct (map operation_offset (for_each_replacement (replacements ex_two)))"
    "distinct (map operation_offset (for_each_replacement (f_replacements (ex_foreign 0xa00))))"
    by (simp_all add: ex_foreign_def ex_replace_each repl_offsets_def ex_two_shape ex_for_each)
  have own: "own_repl op (for_each_replacement (replacements ex_two)) ([] @ [?M]) r"
    if "r \<in> set (for_each_replacement (f_replacements (ex_foreign 0xa00)))"
       "instrument_data_get_orig_operation ex_two_world (impl ex_data) (operation_offset r) = Some op" for r op
    using that by (auto simp: own_repl_def ex_foreign_def ex_replace_each ex_two_shape ex_for_each ex_data_def ex_copy_def
        ap_idata_ops_get_orig_operation_def operation_at_offset_def)
  from foreign_data_destroy [OF ex_two_shape(3,1) y ex_two_shape(6) x c mem o, of low_bits_hash] own
  obtain i' w' where D: "apf_idata_foreign_ops_destroy low_bits_hash ex_two 0xf0 0xd0 ex_two_world = Some (i', w')"
    "chain_mem {0, 8} (for_each_replacement (replacements ex_two)) (impl ex_data) ([] @ [?M]) w'" by blast
  have "read_op w' 0x1000 0 = Some 0xb00"
    using D(2) by (auto simp: chain_mem_def ex_data_def ex_copy_def ex_two_shape ex_for_each ex_replace_each chain_content_def
        ap_idata_ops_get_orig_operation_def ap_idata_ops_get_operations_def operation_at_offset_def
        replace_at_def replace_operation_def replace_operation_generic_def read_op_def ops_content_def)
  with D(1) show ?thesis by blast
qed

text \<open>C20: What a foreign replacement finds to call.  The normal operation of foreign data is what
  the normal replacements make of the original operation.  The chained operation, which the
  code finds by walking the list backwards from the data, is what the foreign data before it
  in the list, without the normal replacements, make of the original one.\<close>

theorem foreign_chained_operations:
  assumes "idatas_foreign i fd = Some y" and "idatas i (idata_binded y) = Some x"
    and "foreign_data_list x = ds1 @ fd # ds2" and "fd \<notin> set ds1"
    and "foreign_chain i ds1 = Some chain" and "instrument_data_get_orig_operation w (impl x) off = Some op_orig"
    and "distinct (map operation_offset (for_each_replacement (replacements i)))"
    and "\<And>rs. rs \<in> set chain \<Longrightarrow> distinct (map operation_offset rs)"
    and "\<And>r. r \<in> set (concat chain) \<Longrightarrow> operation_offset r = off \<Longrightarrow> repl r \<noteq> op_orig"
  shows "apf_idata_foreign_ops_get_normal_operation i fd off w =
           Some (chain_content off op_orig (for_each_replacement (replacements i)) []) \<and>
         apf_idata_foreign_ops_get_chain_operation i fd off w = Some (chain_content off op_orig [] chain)"
proof -
  have "foreign_chain i (previous_foreign fd (foreign_data_list x)) = Some (rev chain)"
    unfolding assms(3) previous_foreign_eq [OF assms(4)] by (rule foreign_chain_rev [OF assms(5)])
  then have "apf_idata_foreign_ops_get_chain_operation i fd off w =
      Some (chain_walk off op_orig op_orig (concat (rev chain)))"
    by (simp add: apf_idata_foreign_ops_get_chain_operation_def assms(1,2,6))
  moreover have "chain_walk off op_orig op_orig (concat (rev chain)) = chain_content off op_orig [] chain"
    by (rule chain_walk_eq) (use assms(8,9) in auto)
  ultimately show ?thesis
    by (simp add: apf_idata_foreign_ops_get_normal_operation_def assms(1,2,6) chain_content_def
        replace_at_distinct [OF assms(7)])
qed

theorem foreign_chained_operations_witness:
  "apf_idata_foreign_ops_get_normal_operation ex_two 0xd8 0 ex_two_world = Some 0x900 \<and>
   apf_idata_foreign_ops_get_chain_operation ex_two 0xd8 0 ex_two_world = Some 0xa00"
proof -
  have x: "idatas ex_two (idata_binded \<lparr>f_refs = 1, idata_binded = 0x50, f_instrumentor = 0xf8\<rparr>) = Some ex_data"
    by (simp add: ex_two_shape)
  have d: "foreign_data_list ex_data = [0xd0] @ 0xd8 # []" "0xd8 \<notin> set [0xd0 :: ptr]" by (simp_all add: ex_data_def)
  have c: "foreign_chain ex_two [0xd0] = Some [for_each_replacement (ex_replace 0xa00)]"
    by (simp add: ex_two_shape ex_foreign_def)
  have o: "instrument_data_get_orig_operation ex_two_world (impl ex_data) 0 = Some 0x100"
    by (simp add: ex_data_def ex_copy_def ap_idata_ops_get_orig_operation_def operation_at_offset_def)
  have n: "distinct (map operation_offset (for_each_replacement (replacements ex_two)))"
    by (simp add: ex_two_shape ex_for_each)
  show ?thesis
    using foreign_chained_operations [OF ex_two_shape(2) x d c o n]
    by (simp add: ex_replace_each chain_content_def ex_two_shape ex_for_each replace_at_def
        replace_operation_def replace_operation_generic_def)
qed

text \<open>C29: Updating a foreign watch crashes when it runs out of memory: if the object is watched
  under its identifier, its field now holds other operations that are not instrumented yet,
  and the next allocation fails, the code follows the error pointer it got instead of the
  data.\<close>

theorem foreign_watch_update_crashes:
  assumes "instrumentor_foreign_find_watch_data_by_id hp i fi ident = Some (Some wd)"
    and "foreign_instrumentors i fi = Some f" and "f_watch_datas f wd = Some fd"
    and "idatas_foreign i fd = Some y" and "idatas i (idata_binded y) = Some x"
    and "\<not> instrument_data_my_operations (impl x) ops_p"
    and "instrumentor_find_data hp i ops_p = None" and "pending w = []"
  shows "kedr_coi_foreign_instrumentor_watch hp i fi ident tie field ops_p w = None"
proof -
  have "instrumentor_foreign_get_data hp i fi ops_p w = None \<or>
      (\<exists>err i' w'. instrumentor_foreign_get_data hp i fi ops_p w = Some (Inl err, i', w'))"
    by (cases "ops_p \<noteq> NULL \<and> replace_at_place i ops_p")
      (auto simp: instrumentor_foreign_get_data_def instrumentor_foreign_find_data_def assms(7,8) instrumentor_get_data_def
        ap_idata_create_def uc_idata_create_def world_kmalloc_def kmalloc_def split: if_splits)
  then show ?thesis
    by (auto simp: kedr_coi_foreign_instrumentor_watch_def foreign_instrumentor_watch_def assms(1-6))
qed

theorem foreign_watch_update_crashes_witness:
  "kedr_coi_foreign_instrumentor_watch low_bits_hash ex_base 0xf0 0x4000 0x4000 0x4020 0x1000 ex_base_world =
     Some ex_fw \<and>
   kedr_coi_foreign_instrumentor_watch low_bits_hash (fst (snd (snd ex_fw))) 0xf0 0x4000 0x4000 0x4020 NULL
     (snd (snd (snd ex_fw))) = None"
proof -
  obtain i w where fw: "kedr_coi_foreign_instrumentor_watch low_bits_hash ex_base 0xf0 0x4000 0x4000 0x4020 0x1000 ex_base_world =
     Some ex_fw" "ex_fw = (0, 0x1000, i, w)" "pending w = []" using ex_fw_eq by auto
  have i: "i = ex_fi" unfolding ex_fi_def by (subst fw(2)) simp
  have e: "fst (snd (snd ex_fw)) = ex_fi" "snd (snd (snd ex_fw)) = w"
    by (subst fw(2), simp add: i)+
  obtain f x where f: "foreign_instrumentors ex_fi 0xf0 = Some f" "f_watch_datas f 0xd8 = Some 0xd0"
    and x: "idatas ex_fi 0x50 = Some x" "\<not> instrument_data_my_operations (impl x) NULL"
    using ex_fi_shape(2,4) by blast
  let ?y = "\<lparr>f_refs = 1, idata_binded = 0x50, f_instrumentor = 0xf0\<rparr>"
  have "idatas ex_fi (idata_binded ?y) = Some x" using x by simp
  from foreign_watch_update_crashes [OF ex_fi_shape(1) f ex_fi_shape(3) this x(2) ex_fi_shape(5) fw(3)]
  show ?thesis using fw(1) by (simp add: e)
qed

end
