(* ===== verification/Payloads.thy ===== *)
theory Payloads
  imports Instr_State
begin

text \<open>
  Model of src/sources/core/payloads.c: the payloads registered with an interceptor, the
  operations it can intercept, and the computation of the replacements and handler arrays
  when the payloads are used.

  A payload is named by its address; its contents, which belong to the client and do not
  change while it is registered, are given by the argument pm.  Each payload element holds a
  different payload (adding a payload twice is refused), so the element is named by its
  payload's address too.  An operation_info is named by its index in the list of operations.
  The outcome of mutex_lock_killable, 0 or an error, is an argument; reference counts of
  modules, and whether a module can still be referenced, are part of the environment.
\<close>

record kedr_coi_handler =
  h_offset :: size_t
  func :: ptr
  external :: bool

record kedr_coi_payload =
  mod_p :: ptr
  pre_handlers :: "kedr_coi_handler list option"
  post_handlers :: "kedr_coi_handler list option"

text \<open>Arrays of handlers end with an element whose offset is -1.\<close>

definition for_each_handler :: "kedr_coi_handler list \<Rightarrow> kedr_coi_handler list" where
  "for_each_handler hs = takeWhile (\<lambda>h. h_offset h \<noteq> - 1) hs"

record kedr_coi_intermediate =
  i_operation_offset :: size_t
  i_repl :: ptr
  i_group_id :: int
  i_internal_only :: bool

definition for_each_intermediate :: "kedr_coi_intermediate list \<Rightarrow> kedr_coi_intermediate list" where
  "for_each_intermediate is = takeWhile (\<lambda>i. i_operation_offset i \<noteq> - 1) is"

subsection \<open>Arrays of pointers\<close>

record parray =
  elems :: "ptr list option"
  n_elems_p :: nat

definition parray_init :: parray where
  "parray_init = \<lparr>elems = None, n_elems_p = 0\<rparr>"

definition parray_reset :: "parray \<Rightarrow> parray" where
  "parray_reset a = (if n_elems_p a \<noteq> 0 then \<lparr>elems = None, n_elems_p = 0\<rparr> else a)"

definition parray_add_elem :: "parray \<Rightarrow> ptr \<Rightarrow> allocs \<Rightarrow> int \<times> parray \<times> allocs" where
  "parray_add_elem a e as =
     (case kmalloc as of
        (None, as) \<Rightarrow> (- ENOMEM, a, as)
      | (Some _, as) \<Rightarrow>
          (0, \<lparr>elems = Some (take (n_elems_p a) (case elems a of None \<Rightarrow> [] | Some es \<Rightarrow> es) @ [e, NULL]),
               n_elems_p = n_elems_p a + 1\<rparr>, as))"

subsection \<open>Operations\<close>

record operation_info =
  o_offset :: size_t
  o_repl :: ptr
  group_id :: int
  internal_only :: bool
  is_intercepted :: bool
  o_pre_handlers :: parray
  o_post_handlers :: parray
  default_is_intercepted :: bool
  default_pre_handlers :: parray
  default_post_handlers :: parray

definition operation_info_init :: "kedr_coi_intermediate \<Rightarrow> operation_info" where
  "operation_info_init i =
     \<lparr>o_offset = i_operation_offset i, o_repl = i_repl i, group_id = i_group_id i,
      internal_only = i_internal_only i,
      is_intercepted = False, o_pre_handlers = parray_init, o_post_handlers = parray_init,
      default_is_intercepted = False, default_pre_handlers = parray_init,
      default_post_handlers = parray_init\<rparr>"

definition operation_info_clear_interception :: "operation_info \<Rightarrow> operation_info" where
  "operation_info_clear_interception oi =
     (let oi = (if is_intercepted oi
               then oi\<lparr>is_intercepted := False, o_pre_handlers := parray_reset (o_pre_handlers oi),
                      o_post_handlers := parray_reset (o_post_handlers oi)\<rparr> else oi)
      in if default_is_intercepted oi
         then oi\<lparr>default_is_intercepted := False,
                default_pre_handlers := parray_reset (default_pre_handlers oi),
                default_post_handlers := parray_reset (default_post_handlers oi)\<rparr> else oi)"

definition operation_info_add_pre ::
  "operation_info \<Rightarrow> ptr \<Rightarrow> bool \<Rightarrow> allocs \<Rightarrow> int \<times> operation_info \<times> allocs" where
  "operation_info_add_pre oi pre ext as =
     (let (result, a, as) = parray_add_elem (o_pre_handlers oi) pre as
      in if result \<noteq> 0 then (result, oi, as)
         else let oi = oi\<lparr>o_pre_handlers := a, is_intercepted := True\<rparr>
              in if ext
                 then let (result, a, as) = parray_add_elem (default_pre_handlers oi) pre as
                      in if result \<noteq> 0 then (result, oi, as)
                         else (0, oi\<lparr>default_pre_handlers := a, default_is_intercepted := True\<rparr>, as)
                 else (0, oi, as))"

definition operation_info_add_post ::
  "operation_info \<Rightarrow> ptr \<Rightarrow> bool \<Rightarrow> allocs \<Rightarrow> int \<times> operation_info \<times> allocs" where
  "operation_info_add_post oi post ext as =
     (let (result, a, as) = parray_add_elem (o_post_handlers oi) post as
      in if result \<noteq> 0 then (result, oi, as)
         else let oi = oi\<lparr>o_post_handlers := a, is_intercepted := True\<rparr>
              in if ext
                 then let (result, a, as) = parray_add_elem (default_post_handlers oi) post as
                      in if result \<noteq> 0 then (result, oi, as)
                         else (0, oi\<lparr>default_post_handlers := a, default_is_intercepted := True\<rparr>, as)
                 else (0, oi, as))"


subsection \<open>The object with the payloads\<close>

record payload_elem =
  payload :: ptr
  is_fixed :: bool

record operation_payloads =
  payload_elems :: "payload_elem list"
  operations :: "operation_info list"
  is_used :: bool
  payload_elems_used :: "ptr list"
  p_replacements :: "kedr_coi_replacement list option"

text \<open>The environment: outcomes of allocations, reference counts of modules.\<close>

record kernel_env =
  env_allocs :: allocs
  module_refs :: "ptr \<Rightarrow> int"

definition operation_payloads_find_operation :: "operation_info list \<Rightarrow> size_t \<Rightarrow> nat option" where
  "operation_payloads_find_operation ops off =
     (case filter (\<lambda>k. o_offset (ops ! k) = off) [0 ..< length ops] of [] \<Rightarrow> None | k # _ \<Rightarrow> Some k)"

fun operations_fill ::
  "kedr_coi_intermediate list \<Rightarrow> operation_info list \<Rightarrow> allocs \<Rightarrow> int \<times> operation_info list \<times> allocs" where
  "operations_fill [] ops as = (0, ops, as)"
| "operations_fill (i # is) ops as =
     (case kmalloc as of
        (None, as) \<Rightarrow> (- ENOMEM, ops, as)
      | (Some _, as) \<Rightarrow> operations_fill is (ops @ [operation_info_init i]) as)"

definition operation_payloads_init ::
  "kedr_coi_intermediate list option \<Rightarrow> allocs \<Rightarrow> (int + operation_payloads) \<times> allocs" where
  "operation_payloads_init intermediate_operations as =
     (let (result, ops, as) =
            (case intermediate_operations of
               None \<Rightarrow> (0, [], as)
             | Some is \<Rightarrow> operations_fill (for_each_intermediate is) [] as)
      in (if result \<noteq> 0 then (Inl result, as)
          else (Inr \<lparr>payload_elems = [], operations = ops, is_used = False,
                     payload_elems_used = [], p_replacements = None\<rparr>, as)))"

definition try_module_get :: "(ptr \<Rightarrow> bool) \<Rightarrow> ptr \<Rightarrow> kernel_env \<Rightarrow> bool \<times> kernel_env" where
  "try_module_get live m env =
     (if live m then (True, env\<lparr>module_refs := (module_refs env)(m := module_refs env m + 1)\<rparr>)
      else (False, env))"

definition module_put :: "ptr \<Rightarrow> kernel_env \<Rightarrow> kernel_env" where
  "module_put m env = env\<lparr>module_refs := (module_refs env)(m := module_refs env m - 1)\<rparr>"

definition operation_payloads_fix_elem ::
  "(ptr \<Rightarrow> kedr_coi_payload) \<Rightarrow> (ptr \<Rightarrow> bool) \<Rightarrow> payload_elem \<Rightarrow> ptr list \<Rightarrow> kernel_env \<Rightarrow>
   int \<times> ptr list \<times> kernel_env" where
  "operation_payloads_fix_elem pm live e used env =
     (if mod_p (pm (payload e)) \<noteq> NULL
      then let (ok, env) = try_module_get live (mod_p (pm (payload e))) env
           in if \<not> ok then (- EBUSY, used, env) else (0, used @ [payload e], env)
      else (0, used @ [payload e], env))"

definition operation_payloads_release_elem ::
  "(ptr \<Rightarrow> kedr_coi_payload) \<Rightarrow> payload_elem \<Rightarrow> ptr list \<Rightarrow> kernel_env \<Rightarrow> ptr list \<times> kernel_env" where
  "operation_payloads_release_elem pm e used env =
     (remove1 (payload e) used,
      if mod_p (pm (payload e)) \<noteq> NULL then module_put (mod_p (pm (payload e))) env else env)"

fun operation_payloads_fix_all ::
  "(ptr \<Rightarrow> kedr_coi_payload) \<Rightarrow> (ptr \<Rightarrow> bool) \<Rightarrow> payload_elem list \<Rightarrow> ptr list \<Rightarrow> kernel_env \<Rightarrow>
   payload_elem list \<times> ptr list \<times> kernel_env" where
  "operation_payloads_fix_all pm live [] used env = ([], used, env)"
| "operation_payloads_fix_all pm live (e # es) used env =
     (let (r, used, env) = operation_payloads_fix_elem pm live e used env;
          e = (if r = 0 then e\<lparr>is_fixed := True\<rparr> else e);
          (es, used, env) = operation_payloads_fix_all pm live es used env
      in (e # es, used, env))"

fun operation_payloads_release_all ::
  "(ptr \<Rightarrow> kedr_coi_payload) \<Rightarrow> payload_elem list \<Rightarrow> ptr list \<Rightarrow> kernel_env \<Rightarrow>
   payload_elem list \<times> ptr list \<times> kernel_env" where
  "operation_payloads_release_all pm [] used env = ([], used, env)"
| "operation_payloads_release_all pm (e # es) used env =
     (if \<not> is_fixed e
      then let (es, used, env) = operation_payloads_release_all pm es used env in (e # es, used, env)
      else let (used, env) = operation_payloads_release_elem pm e used env;
               (es, used, env) = operation_payloads_release_all pm es used env
           in (e\<lparr>is_fixed := False\<rparr> # es, used, env))"

subsection \<open>Registration\<close>

text \<open>The loop over the handlers of one kind.\<close>

fun check_handlers :: "operation_info list \<Rightarrow> kedr_coi_handler list \<Rightarrow> int" where
  "check_handlers ops [] = 0"
| "check_handlers ops (h # hs) =
     (case operation_payloads_find_operation ops (h_offset h) of
        None \<Rightarrow> - EINVAL
      | Some k \<Rightarrow> if external h \<and> internal_only (ops ! k) then - EINVAL else check_handlers ops hs)"

definition operation_payloads_check_payload :: "operation_info list \<Rightarrow> kedr_coi_payload \<Rightarrow> int" where
  "operation_payloads_check_payload ops p =
     (let result = (case pre_handlers p of None \<Rightarrow> 0
                    | Some hs \<Rightarrow> check_handlers ops (for_each_handler hs))
      in if result \<noteq> 0 then result
         else (case post_handlers p of None \<Rightarrow> 0
               | Some hs \<Rightarrow> check_handlers ops (for_each_handler hs)))"

definition operation_payloads_add ::
  "(ptr \<Rightarrow> kedr_coi_payload) \<Rightarrow> int \<Rightarrow> operation_payloads \<Rightarrow> ptr \<Rightarrow> allocs \<Rightarrow>
   int \<times> operation_payloads \<times> allocs" where
  "operation_payloads_add pm lock ps p as =
     (let result = operation_payloads_check_payload (operations ps) (pm p)
      in if result \<noteq> 0 then (result, ps, as)
         else (case kmalloc as of
           (None, as) \<Rightarrow> (- ENOMEM, ps, as)
         | (Some _, as) \<Rightarrow>
             (if lock \<noteq> 0 then (lock, ps, as)
              else if \<exists>e \<in> set (payload_elems ps). payload e = p then (- EEXIST, ps, as)
              else (0, ps\<lparr>payload_elems := payload_elems ps @ [\<lparr>payload = p, is_fixed = False\<rparr>]\<rparr>,
                    as))))"

definition operation_payloads_remove ::
  "int \<Rightarrow> operation_payloads \<Rightarrow> ptr \<Rightarrow> int \<times> operation_payloads" where
  "operation_payloads_remove lock ps p =
     (if lock \<noteq> 0 then (lock, ps)
      else (case find (\<lambda>e. payload e = p) (payload_elems ps) of
              None \<Rightarrow> (- ENOENT, ps)
            | Some e \<Rightarrow>
                if is_fixed e then (- EBUSY, ps)
                else (0, ps\<lparr>payload_elems := remove1 e (payload_elems ps)\<rparr>)))"

subsection \<open>Use\<close>

text \<open>The nested loops: the body of the outer one for the operation with index k.\<close>

definition close_step :: "nat \<Rightarrow> operation_info list \<Rightarrow> operation_info list" where
  "close_step k ops =
     (let oi = ops ! k
      in if group_id oi = 0 then ops
         else if \<not> default_is_intercepted oi then ops
         else map (\<lambda>o1. if group_id o1 \<noteq> group_id oi then o1
                        else o1\<lparr>default_is_intercepted := True\<rparr>) ops)"

definition close_operations :: "operation_info list \<Rightarrow> operation_info list" where
  "close_operations ops = fold close_step [0 ..< length ops] ops"

text \<open>One loop over handlers; a handler for an operation that does not exist is a BUG.\<close>

fun use_handlers ::
  "(operation_info \<Rightarrow> ptr \<Rightarrow> bool \<Rightarrow> allocs \<Rightarrow> int \<times> operation_info \<times> allocs) \<Rightarrow>
   kedr_coi_handler list \<Rightarrow> operation_info list \<Rightarrow> allocs \<Rightarrow> (int \<times> operation_info list \<times> allocs) option" where
  "use_handlers add [] ops as = Some (0, ops, as)"
| "use_handlers add (h # hs) ops as =
     do { k \<leftarrow> operation_payloads_find_operation ops (h_offset h);
          let (result, oi, as) = add (ops ! k) (func h) (external h) as;
          let ops = ops[k := oi];
          if result \<noteq> 0 then Some (result, ops, as) else use_handlers add hs ops as }"

text \<open>
  It is only called for the elements of the list of used payloads, which are fixed; so the BUG_ON
  that the element is fixed is left out.
\<close>

definition operation_payloads_use_elem ::
  "kedr_coi_payload \<Rightarrow> operation_info list \<Rightarrow> allocs \<Rightarrow> (int \<times> operation_info list \<times> allocs) option" where
  "operation_payloads_use_elem p ops as =
     do { (result, ops, as) \<leftarrow>
            (case pre_handlers p of None \<Rightarrow> Some (0, ops, as)
             | Some hs \<Rightarrow> use_handlers operation_info_add_pre (for_each_handler hs) ops as);
          if result \<noteq> 0 then Some (result, ops, as)
          else (case post_handlers p of None \<Rightarrow> Some (0, ops, as)
                | Some hs \<Rightarrow> use_handlers operation_info_add_post (for_each_handler hs) ops as) }"

definition operation_payloads_unuse_all :: "operation_info list \<Rightarrow> operation_info list" where
  "operation_payloads_unuse_all ops = map operation_info_clear_interception ops"

definition operation_replaced :: "operation_info \<Rightarrow> bool" where
  "operation_replaced oi \<longleftrightarrow> is_intercepted oi \<or> default_is_intercepted oi"

definition operation_replacement :: "operation_info \<Rightarrow> kedr_coi_replacement" where
  "operation_replacement oi =
     \<lparr>operation_offset = o_offset oi, repl = o_repl oi,
      mode = (if default_is_intercepted oi
              then (if is_intercepted oi then replace_all else replace_null)
              else replace_not_null)\<rparr>"

definition operation_payloads_create_replacements ::
  "operation_info list \<Rightarrow> allocs \<Rightarrow> (int + kedr_coi_replacement list option) \<times> allocs" where
  "operation_payloads_create_replacements ops as =
     (let n = length (filter operation_replaced ops)
      in if n = 0 then (Inr None, as)
         else (case kmalloc as of
                 (None, as) \<Rightarrow> (Inl (- ENOMEM), as)
               | (Some _, as) \<Rightarrow>
                   (Inr (Some (map operation_replacement (filter operation_replaced ops) @
                               empty_replacements)), as)))"

text \<open>The loop over the fixed payloads, named by their addresses.\<close>

fun use_elems ::
  "(ptr \<Rightarrow> kedr_coi_payload) \<Rightarrow> ptr list \<Rightarrow> operation_info list \<Rightarrow> allocs \<Rightarrow>
   (int \<times> operation_info list \<times> allocs) option" where
  "use_elems pm [] ops as = Some (0, ops, as)"
| "use_elems pm (p # us) ops as =
     do { (result, ops, as) \<leftarrow> operation_payloads_use_elem (pm p) ops as;
          if result \<noteq> 0 then Some (result, ops, as) else use_elems pm us ops as }"

definition intercept_operation :: "operation_info \<Rightarrow> operation_info" where
  "intercept_operation oi =
     (let oi = oi\<lparr>is_intercepted := True\<rparr>
      in if \<not> internal_only oi then oi\<lparr>default_is_intercepted := True\<rparr> else oi)"

text \<open>The exits of operation_payloads_use after a failure.\<close>

definition use_rollback ::
  "(ptr \<Rightarrow> kedr_coi_payload) \<Rightarrow> operation_payloads \<Rightarrow> kernel_env \<Rightarrow> operation_payloads \<times> kernel_env" where
  "use_rollback pm ps env =
     (let ops = operation_payloads_unuse_all (operations ps);
          (es, used, env) = operation_payloads_release_all pm (payload_elems ps) (payload_elems_used ps) env
      in (ps\<lparr>operations := ops, payload_elems := es, payload_elems_used := used\<rparr>, env))"

definition operation_payloads_use ::
  "(ptr \<Rightarrow> kedr_coi_payload) \<Rightarrow> (ptr \<Rightarrow> bool) \<Rightarrow> int \<Rightarrow> operation_payloads \<Rightarrow> bool \<Rightarrow> kernel_env \<Rightarrow>
   (int \<times> operation_payloads \<times> kernel_env) option" where
  "operation_payloads_use pm live lock ps intercept_all env =
     (if lock \<noteq> 0 then Some (lock, ps, env)
      else if is_used ps then Some (- EBUSY, ps, env)
      else
        (let (es, used, env) = operation_payloads_fix_all pm live (payload_elems ps) [] env;
             ops = (if intercept_all then map intercept_operation (operations ps) else operations ps);
             ps = ps\<lparr>payload_elems := es, payload_elems_used := used, operations := ops\<rparr>
         in do { (result, ops, as) \<leftarrow> use_elems pm used ops (env_allocs env);
                 let env = env\<lparr>env_allocs := as\<rparr>;
                 let ps = ps\<lparr>operations := ops\<rparr>;
                 if result \<noteq> 0
                 then (let (ps, env) = use_rollback pm ps env in Some (result, ps, env))
                 else
                   (let ops = close_operations ops;
                        ps = ps\<lparr>operations := ops\<rparr>
                    in case operation_payloads_create_replacements ops (env_allocs env) of
                         (Inl err, as) \<Rightarrow>
                           (let (ps, env) = use_rollback pm ps (env\<lparr>env_allocs := as\<rparr>)
                            in Some (err, ps, env))
                       | (Inr rs, as) \<Rightarrow>
                           (let env = env\<lparr>env_allocs := as\<rparr>
                            in if intercept_all \<and>
                                  (case rs of None \<Rightarrow> True
                                   | Some rs \<Rightarrow> operation_offset (rs ! 0) = - 1 \<or>
                                                operation_offset (rs ! 1) \<noteq> - 1)
                               then None
                               else Some (0, ps\<lparr>p_replacements := rs, is_used := True\<rparr>, env))) }))"

definition operation_payloads_unuse ::
  "(ptr \<Rightarrow> kedr_coi_payload) \<Rightarrow> operation_payloads \<Rightarrow> kernel_env \<Rightarrow> operation_payloads \<times> kernel_env" where
  "operation_payloads_unuse pm ps env =
     use_rollback pm (ps\<lparr>is_used := False, p_replacements := None\<rparr>) env"

definition operation_payloads_destroy :: "operation_payloads \<Rightarrow> operation_payloads option" where
  "operation_payloads_destroy ps =
     (if is_used ps then None else Some (ps\<lparr>payload_elems := [], operations := []\<rparr>))"

definition operation_payloads_get_interception_info ::
  "operation_payloads \<Rightarrow> size_t \<Rightarrow> bool \<Rightarrow> (ptr list option \<times> ptr list option) option" where
  "operation_payloads_get_interception_info ps off is_default =
     (if \<not> is_used ps then None
      else do { k \<leftarrow> operation_payloads_find_operation (operations ps) off;
                let oi = operations ps ! k;
                Some (elems (if is_default then default_pre_handlers oi else o_pre_handlers oi),
                      elems (if is_default then default_post_handlers oi else o_post_handlers oi)) })"

definition operation_payloads_get_replacements ::
  "operation_payloads \<Rightarrow> kedr_coi_replacement list option option" where
  "operation_payloads_get_replacements ps = (if \<not> is_used ps then None else Some (p_replacements ps))"

end
