(* ===== verification/Interceptors.thy ===== *)
theory Interceptors
  imports Foreign_Instrumentor Payloads
begin

text \<open>
  Model of src/sources/core/kedr_coi_interceptors.c and kedr_coi_module.c: the interface of the
  module.  Interceptors and factory interceptors are blocks of the heap, named by their
  addresses; a freed block is not in its map.  The instrumentor of an interceptor is part of
  its record, None standing for a NULL pointer; the foreign instrumentors bound to it are in
  the instrumentor, and a factory interceptor names its own one by address and reaches the
  instrumentor through the interceptor it is bound to.  Operations fields of objects are
  words of memory, at the address of the object plus the offset of the field.  Calls of the
  client's trace callbacks are appended to a log.  The interceptors' names, used in messages
  only, are left out.
\<close>

datatype interceptor_state =
  interceptor_state_uninitialized | interceptor_state_initialized | interceptor_state_started

record kedr_coi_interceptor =
  state :: interceptor_state
  instrumentor :: "kedr_coi_instrumentor option"
  operations_field_offset :: size_t
  payloads :: operation_payloads
  factory_interceptors :: "ptr list"
  i_operations_struct_size :: size_t
  i_replace_at_place :: "ptr \<Rightarrow> bool"
  trace_unforgotten_object :: ptr

record kedr_coi_factory_interceptor =
  fi_state :: interceptor_state
  fi_instrumentor :: ptr
  factory_operations_field_offset :: size_t
  fi_payloads :: operation_payloads
  interceptor_binded :: ptr
  fi_trace_unforgotten_object :: ptr

record coi =
  interceptors :: "ptr \<rightharpoonup> kedr_coi_interceptor"
  factories :: "ptr \<rightharpoonup> kedr_coi_factory_interceptor"
  op_fields :: "ptr \<rightharpoonup> ptr"
  kworld :: world
  modules :: "ptr \<Rightarrow> int"
  traced :: "(ptr \<times> ptr) list"

text \<open>
  What a call depends on outside the sources: hash_ptr, the contents of the client's payloads,
  which modules can be referenced, the outcome of taking the mutex of the payloads of an
  interceptor, the layout of the module that an address belongs to, and whether the kernel
  protects sections of modules.
\<close>

record module_layout =
  module_core :: ptr
  core_size :: ptr
  core_ro_size :: ptr
  module_init :: ptr
  init_ro_size :: ptr

record kernel_params =
  hash_of :: hash_fn
  payload_at :: "ptr \<Rightarrow> kedr_coi_payload"
  module_live :: "ptr \<Rightarrow> bool"
  lock_result :: "ptr \<Rightarrow> int"
  module_address :: "ptr \<Rightarrow> module_layout option"
  set_module_ronx :: bool

definition put_interceptor :: "coi \<Rightarrow> ptr \<Rightarrow> kedr_coi_interceptor \<Rightarrow> coi" where
  "put_interceptor s a ix = s\<lparr>interceptors := (interceptors s)(a \<mapsto> ix)\<rparr>"

definition put_factory :: "coi \<Rightarrow> ptr \<Rightarrow> kedr_coi_factory_interceptor \<Rightarrow> coi" where
  "put_factory s f fx = s\<lparr>factories := (factories s)(f \<mapsto> fx)\<rparr>"

text \<open>The part of the state that the functions on payloads work on.\<close>

definition to_env :: "coi \<Rightarrow> kernel_env" where
  "to_env s = \<lparr>env_allocs = pending (kworld s), module_refs = modules s\<rparr>"

definition from_env :: "coi \<Rightarrow> kernel_env \<Rightarrow> coi" where
  "from_env s e = s\<lparr>kworld := (kworld s)\<lparr>pending := env_allocs e\<rparr>, modules := module_refs e\<rparr>"

text \<open>The address of the operations field of an object.\<close>

definition indirect_operations_p :: "ptr \<Rightarrow> size_t \<Rightarrow> ptr" where
  "indirect_operations_p object off = object + off"

definition indirect_operations :: "coi \<Rightarrow> ptr \<Rightarrow> size_t \<Rightarrow> ptr option" where
  "indirect_operations s object off = op_fields s (object + off)"

definition write_field :: "coi \<Rightarrow> ptr \<Rightarrow> ptr \<Rightarrow> coi" where
  "write_field s field p = s\<lparr>op_fields := (op_fields s)(field \<mapsto> p)\<rparr>"

definition replace_at_place_always :: "ptr \<Rightarrow> bool" where
  "replace_at_place_always ops = True"

definition kedr_coi_default_mechanism_selector :: "kernel_params \<Rightarrow> ptr \<Rightarrow> bool" where
  "kedr_coi_default_mechanism_selector k addr =
     (case module_address k addr of
        None \<Rightarrow> False
      | Some m \<Rightarrow>
          if set_module_ronx k
          then (if addr \<ge> module_core m \<and> addr < module_core m + core_size m
                then addr \<ge> module_core m + core_ro_size m
                else addr \<ge> module_init m + init_ro_size m)
          else True)"

subsection \<open>Starting and stopping factory interceptors\<close>

definition factory_interceptor_start ::
  "kernel_params \<Rightarrow> coi \<Rightarrow> ptr \<Rightarrow> ptr \<Rightarrow> (int \<times> coi) option" where
  "factory_interceptor_start k s f a =
     do { fx \<leftarrow> factories s f;
          ix \<leftarrow> interceptors s a;
          if fi_state fx \<noteq> interceptor_state_initialized then None
          else if state ix \<noteq> interceptor_state_started then None
          else do {
            (r, ps, e) \<leftarrow> operation_payloads_use (payload_at k) (module_live k) (lock_result k f)
                            (fi_payloads fx) True (to_env s);
            let s = put_factory (from_env s e) f (fx\<lparr>fi_payloads := ps\<rparr>);
            if r \<noteq> 0 then Some (r, s)
            else do {
              rs \<leftarrow> operation_payloads_get_replacements ps;
              i \<leftarrow> instrumentor ix;
              (case kedr_coi_foreign_instrumentor_create i rs (kworld s) of
                 (None, i, w) \<Rightarrow>
                   (let s = s\<lparr>kworld := w\<rparr>;
                        (ps, e) = operation_payloads_unuse (payload_at k) ps (to_env s)
                    in Some (- ENOMEM, put_factory (from_env s e) f (fx\<lparr>fi_payloads := ps\<rparr>)))
               | (Some fi, i, w) \<Rightarrow>
                   Some (0, put_factory
                              (put_interceptor (s\<lparr>kworld := w\<rparr>) a (ix\<lparr>instrumentor := Some i\<rparr>))
                              f (fx\<lparr>fi_payloads := ps, fi_instrumentor := fi,
                                    fi_state := interceptor_state_started\<rparr>))) } } }"

text \<open>The callback of the instrumentors calls the one of the client, if there is one.\<close>

definition trace_calls :: "ptr \<Rightarrow> ptr list \<Rightarrow> (ptr \<times> ptr) list" where
  "trace_calls cb objects = (if cb \<noteq> NULL then map (\<lambda>object. (cb, object)) objects else [])"

definition factory_interceptor_stop :: "kernel_params \<Rightarrow> coi \<Rightarrow> ptr \<Rightarrow> coi option" where
  "factory_interceptor_stop k s f =
     do { fx \<leftarrow> factories s f;
          if fi_state fx = interceptor_state_initialized then Some s
          else if fi_state fx \<noteq> interceptor_state_started then None
          else do {
            ix \<leftarrow> interceptors s (interceptor_binded fx);
            i \<leftarrow> instrumentor ix;
            (objects, i, w) \<leftarrow> kedr_coi_foreign_instrumentor_destroy (hash_of k) i (fi_instrumentor fx)
                                True (kworld s);
            let s = (put_interceptor s (interceptor_binded fx) (ix\<lparr>instrumentor := Some i\<rparr>))
                      \<lparr>kworld := w, traced := traced s @ trace_calls (fi_trace_unforgotten_object fx) objects\<rparr>;
            let (ps, e) = operation_payloads_unuse (payload_at k) (fi_payloads fx) (to_env s);
            Some (put_factory (from_env s e) f
                    (fx\<lparr>fi_state := interceptor_state_initialized, fi_instrumentor := NULL,
                        fi_payloads := ps\<rparr>)) } }"

text \<open>
  The loops over the list of factory interceptors.  The first one also returns the ones that
  were started, the last one first, which is the order the rollback stops them in.
\<close>

fun start_factories ::
  "kernel_params \<Rightarrow> ptr \<Rightarrow> ptr list \<Rightarrow> ptr list \<Rightarrow> coi \<Rightarrow> (int \<times> ptr list \<times> coi) option" where
  "start_factories k a [] started s = Some (0, started, s)"
| "start_factories k a (f # fs) started s =
     do { (r, s) \<leftarrow> factory_interceptor_start k s f a;
          if r \<noteq> 0 then Some (r, started, s) else start_factories k a fs (f # started) s }"

fun stop_factories :: "kernel_params \<Rightarrow> ptr list \<Rightarrow> coi \<Rightarrow> coi option" where
  "stop_factories k [] s = Some s"
| "stop_factories k (f # fs) s = do { s \<leftarrow> factory_interceptor_stop k s f; stop_factories k fs s }"

subsection \<open>Creation\<close>

text \<open>The fields that only the callers of the common part set have the values of kzalloc.\<close>

definition kedr_coi_interceptor_create_common ::
  "coi \<Rightarrow> size_t \<Rightarrow> kedr_coi_intermediate list option \<Rightarrow> ptr option \<times> coi" where
  "kedr_coi_interceptor_create_common s sz intermediate_operations =
     (case world_kmalloc (kworld s) of
        (None, w) \<Rightarrow> (None, s\<lparr>kworld := w\<rparr>)
      | (Some a, w) \<Rightarrow>
          (case operation_payloads_init intermediate_operations (pending w) of
             (Inl err, as) \<Rightarrow> (None, s\<lparr>kworld := w\<lparr>pending := as\<rparr>\<rparr>)
           | (Inr ps, as) \<Rightarrow>
               (Some a,
                put_interceptor (s\<lparr>kworld := w\<lparr>pending := as\<rparr>\<rparr>) a
                  \<lparr>state = interceptor_state_initialized, instrumentor = None,
                   operations_field_offset = 0, payloads = ps, factory_interceptors = [],
                   i_operations_struct_size = sz, i_replace_at_place = (\<lambda>ops. False),
                   trace_unforgotten_object = NULL\<rparr>)))"

definition kedr_coi_interceptor_create ::
  "kernel_params \<Rightarrow> coi \<Rightarrow> size_t \<Rightarrow> size_t \<Rightarrow> kedr_coi_intermediate list option \<Rightarrow> ptr option \<times> coi" where
  "kedr_coi_interceptor_create k s off sz intermediate_operations =
     (case kedr_coi_interceptor_create_common s sz intermediate_operations of
        (None, s) \<Rightarrow> (None, s)
      | (Some a, s) \<Rightarrow>
          (Some a, s\<lparr>interceptors := (interceptors s)(a := map_option
             (\<lambda>ix. ix\<lparr>operations_field_offset := off,
                     i_replace_at_place := kedr_coi_default_mechanism_selector k\<rparr>)
             (interceptors s a))\<rparr>))"

definition kedr_coi_interceptor_create_direct ::
  "coi \<Rightarrow> size_t \<Rightarrow> kedr_coi_intermediate list option \<Rightarrow> ptr option \<times> coi" where
  "kedr_coi_interceptor_create_direct s object_size intermediate_operations =
     (case kedr_coi_interceptor_create_common s object_size intermediate_operations of
        (None, s) \<Rightarrow> (None, s)
      | (Some a, s) \<Rightarrow>
          (Some a, s\<lparr>interceptors := (interceptors s)(a := map_option
             (\<lambda>ix. ix\<lparr>operations_field_offset := - 1,
                     i_replace_at_place := replace_at_place_always\<rparr>)
             (interceptors s a))\<rparr>))"


subsection \<open>Starting and stopping\<close>

definition kedr_coi_interceptor_start :: "kernel_params \<Rightarrow> coi \<Rightarrow> ptr \<Rightarrow> (int \<times> coi) option" where
  "kedr_coi_interceptor_start k s a =
     do { ix \<leftarrow> interceptors s a;
          if state ix \<noteq> interceptor_state_initialized then None
          else do {
            (r, ps, e) \<leftarrow> operation_payloads_use (payload_at k) (module_live k) (lock_result k a)
                            (payloads ix) False (to_env s);
            let s = put_interceptor (from_env s e) a (ix\<lparr>payloads := ps\<rparr>);
            if r \<noteq> 0 then Some (r, s)
            else do {
              rs \<leftarrow> operation_payloads_get_replacements ps;
              (case kedr_coi_instrumentor_create (i_operations_struct_size ix) rs
                      (i_replace_at_place ix) (pending (kworld s)) of
                 (None, as) \<Rightarrow>
                   (let s = s\<lparr>kworld := (kworld s)\<lparr>pending := as\<rparr>\<rparr>;
                        (ps, e) = operation_payloads_unuse (payload_at k) ps (to_env s)
                    in Some (- ENOMEM, put_interceptor (from_env s e) a (ix\<lparr>payloads := ps\<rparr>)))
               | (Some i, as) \<Rightarrow>
                   do { let s = put_interceptor (s\<lparr>kworld := (kworld s)\<lparr>pending := as\<rparr>\<rparr>) a
                                  (ix\<lparr>payloads := ps, instrumentor := Some i,
                                     state := interceptor_state_started\<rparr>);
                        (r, started, s) \<leftarrow> start_factories k a (factory_interceptors ix) [] s;
                        if r = 0 then Some (0, s)
                        else do {
                          s \<leftarrow> stop_factories k started s;
                          ix \<leftarrow> interceptors s a;
                          i \<leftarrow> instrumentor ix;
                          (objects, i, w) \<leftarrow> kedr_coi_instrumentor_destroy (hash_of k) i False (kworld s);
                          let s = s\<lparr>kworld := w\<rparr>;
                          let (ps, e) = operation_payloads_unuse (payload_at k) (payloads ix) (to_env s);
                          Some (r, put_interceptor (from_env s e) a
                                     (ix\<lparr>state := interceptor_state_initialized,
                                         instrumentor := None, payloads := ps\<rparr>)) } }) } } }"

definition kedr_coi_interceptor_stop :: "kernel_params \<Rightarrow> coi \<Rightarrow> ptr \<Rightarrow> coi option" where
  "kedr_coi_interceptor_stop k s a =
     do { ix \<leftarrow> interceptors s a;
          if state ix = interceptor_state_uninitialized then None
          else if state ix = interceptor_state_initialized then Some s
          else do {
            s \<leftarrow> stop_factories k (factory_interceptors ix) s;
            ix \<leftarrow> interceptors s a;
            i \<leftarrow> instrumentor ix;
            (objects, i, w) \<leftarrow> kedr_coi_instrumentor_destroy (hash_of k) i True (kworld s);
            let s = s\<lparr>kworld := w,
                      traced := traced s @ trace_calls (trace_unforgotten_object ix) objects\<rparr>;
            let (ps, e) = operation_payloads_unuse (payload_at k) (payloads ix) (to_env s);
            Some (put_interceptor (from_env s e) a
                    (ix\<lparr>state := interceptor_state_initialized, instrumentor := None,
                        payloads := ps\<rparr>)) } }"

subsection \<open>Watching and forgetting\<close>

definition kedr_coi_interceptor_watch :: "kernel_params \<Rightarrow> coi \<Rightarrow> ptr \<Rightarrow> ptr \<Rightarrow> (int \<times> coi) option" where
  "kedr_coi_interceptor_watch k s a object =
     do { ix \<leftarrow> interceptors s a;
          if state ix = interceptor_state_initialized then Some (- EPERM, s)
          else if state ix \<noteq> interceptor_state_started then None
          else do {
            i \<leftarrow> instrumentor ix;
            if operations_field_offset ix \<noteq> - 1
            then do {
              let field = indirect_operations_p object (operations_field_offset ix);
              ops \<leftarrow> op_fields s field;
              (r, p, i, w) \<leftarrow> kedr_coi_instrumentor_watch (hash_of k) i object ops (kworld s);
              Some (r, write_field (put_interceptor (s\<lparr>kworld := w\<rparr>) a (ix\<lparr>instrumentor := Some i\<rparr>))
                         field p) }
            else do {
              (r, i, w) \<leftarrow> kedr_coi_instrumentor_watch_direct (hash_of k) i object (kworld s);
              Some (r, put_interceptor (s\<lparr>kworld := w\<rparr>) a (ix\<lparr>instrumentor := Some i\<rparr>)) } } }"

definition kedr_coi_interceptor_forget :: "kernel_params \<Rightarrow> coi \<Rightarrow> ptr \<Rightarrow> ptr \<Rightarrow> (int \<times> coi) option" where
  "kedr_coi_interceptor_forget k s a object =
     do { ix \<leftarrow> interceptors s a;
          if state ix = interceptor_state_initialized then Some (- EPERM, s)
          else if state ix \<noteq> interceptor_state_started then None
          else do {
            i \<leftarrow> instrumentor ix;
            if operations_field_offset ix \<noteq> - 1
            then do {
              let field = indirect_operations_p object (operations_field_offset ix);
              ops \<leftarrow> op_fields s field;
              (r, p, i, w) \<leftarrow> kedr_coi_instrumentor_forget (hash_of k) i object (Some ops) (kworld s);
              p \<leftarrow> p;
              Some (r, write_field (put_interceptor (s\<lparr>kworld := w\<rparr>) a (ix\<lparr>instrumentor := Some i\<rparr>))
                         field p) }
            else do {
              (r, i, w) \<leftarrow> kedr_coi_instrumentor_forget_direct (hash_of k) i object False (kworld s);
              Some (r, put_interceptor (s\<lparr>kworld := w\<rparr>) a (ix\<lparr>instrumentor := Some i\<rparr>)) } } }"

definition kedr_coi_interceptor_forget_norestore ::
  "kernel_params \<Rightarrow> coi \<Rightarrow> ptr \<Rightarrow> ptr \<Rightarrow> (int \<times> coi) option" where
  "kedr_coi_interceptor_forget_norestore k s a object =
     do { ix \<leftarrow> interceptors s a;
          if state ix = interceptor_state_initialized then Some (- EPERM, s)
          else if state ix \<noteq> interceptor_state_started then None
          else do {
            i \<leftarrow> instrumentor ix;
            if operations_field_offset ix \<noteq> - 1
            then do {
              (r, p, i, w) \<leftarrow> kedr_coi_instrumentor_forget (hash_of k) i object None (kworld s);
              Some (r, put_interceptor (s\<lparr>kworld := w\<rparr>) a (ix\<lparr>instrumentor := Some i\<rparr>)) }
            else do {
              (r, i, w) \<leftarrow> kedr_coi_instrumentor_forget_direct (hash_of k) i object True (kworld s);
              Some (r, put_interceptor (s\<lparr>kworld := w\<rparr>) a (ix\<lparr>instrumentor := Some i\<rparr>)) } } }"

subsection \<open>Payloads\<close>

definition kedr_coi_payload_register :: "kernel_params \<Rightarrow> coi \<Rightarrow> ptr \<Rightarrow> ptr \<Rightarrow> (int \<times> coi) option" where
  "kedr_coi_payload_register k s a p =
     do { ix \<leftarrow> interceptors s a;
          if state ix \<noteq> interceptor_state_initialized \<and> state ix \<noteq> interceptor_state_started then None
          else if state ix = interceptor_state_started then Some (- EBUSY, s)
          else (let (r, ps, as) = operation_payloads_add (payload_at k) (lock_result k a) (payloads ix) p
                                    (pending (kworld s))
                in Some (r, put_interceptor (s\<lparr>kworld := (kworld s)\<lparr>pending := as\<rparr>\<rparr>) a
                              (ix\<lparr>payloads := ps\<rparr>))) }"

definition kedr_coi_payload_unregister :: "kernel_params \<Rightarrow> coi \<Rightarrow> ptr \<Rightarrow> ptr \<Rightarrow> (int \<times> coi) option" where
  "kedr_coi_payload_unregister k s a p =
     do { ix \<leftarrow> interceptors s a;
          if state ix \<noteq> interceptor_state_initialized \<and> state ix \<noteq> interceptor_state_started then None
          else (let (r, ps) = operation_payloads_remove (lock_result k a) (payloads ix) p
                in Some (r, put_interceptor s a (ix\<lparr>payloads := ps\<rparr>))) }"

subsection \<open>What an intermediate operation asks for\<close>

record kedr_coi_intermediate_info =
  op_chained :: "int + ptr"
  op_orig :: "int + ptr"
  pre :: "ptr list option"
  post :: "ptr list option"

definition kedr_coi_interceptor_get_intermediate_info ::
  "kernel_params \<Rightarrow> coi \<Rightarrow> ptr \<Rightarrow> ptr \<Rightarrow> size_t \<Rightarrow> kedr_coi_intermediate_info \<Rightarrow>
   (int \<times> kedr_coi_intermediate_info) option" where
  "kedr_coi_interceptor_get_intermediate_info k s a object off info =
     do { ix \<leftarrow> interceptors s a;
          if state ix \<noteq> interceptor_state_started then None
          else do {
            ops \<leftarrow> (if operations_field_offset ix \<noteq> - 1
                    then indirect_operations s object (operations_field_offset ix) else Some object);
            i \<leftarrow> instrumentor ix;
            (r, op) \<leftarrow> kedr_coi_instrumentor_get_orig_operation (hash_of k) i object ops off (kworld s);
            let info = info\<lparr>op_orig := op\<rparr>;
            if r = 0
            then do {
              (pre_handlers, post_handlers) \<leftarrow>
                operation_payloads_get_interception_info (payloads ix) off (op = Inr NULL);
              Some (0, info\<lparr>pre := pre_handlers, post := post_handlers\<rparr>) }
            else if r = 1 \<or> r < 0 \<and> \<not> isl op
            then Some (0, info\<lparr>pre := None, post := None\<rparr>)
            else Some (r, info) } }"


subsection \<open>Destruction\<close>

text \<open>The body of the loop that disconnects the factory interceptors.\<close>

definition disconnect_factory :: "ptr \<Rightarrow> coi \<Rightarrow> coi option" where
  "disconnect_factory f s =
     do { fx \<leftarrow> factories s f; Some (put_factory s f (fx\<lparr>interceptor_binded := NULL\<rparr>)) }"

definition kedr_coi_interceptor_destroy :: "coi \<Rightarrow> ptr \<Rightarrow> coi option" where
  "kedr_coi_interceptor_destroy s a =
     do { ix \<leftarrow> interceptors s a;
          if state ix \<noteq> interceptor_state_initialized then None
          else do {
            s \<leftarrow> fold_opt disconnect_factory (factory_interceptors ix) s;
            ps \<leftarrow> operation_payloads_destroy (payloads ix);
            Some (s\<lparr>interceptors := (interceptors s)(a := None)\<rparr>) } }"

subsection \<open>Factory interceptors\<close>

text \<open>The array of intermediates ends with the element with offset -1.\<close>

definition kedr_coi_factory_interceptor_create_common ::
  "coi \<Rightarrow> ptr \<Rightarrow> kedr_coi_intermediate list option \<Rightarrow> (ptr option \<times> coi) option" where
  "kedr_coi_factory_interceptor_create_common s a intermediate_operations =
     do { ix \<leftarrow> interceptors s a;
          if operations_field_offset ix = - 1 then Some (None, s)
          else if state ix \<noteq> interceptor_state_initialized then None
          else if (case intermediate_operations of None \<Rightarrow> True | Some is \<Rightarrow> for_each_intermediate is = [])
          then Some (None, s)
          else
            (case world_kmalloc (kworld s) of
               (None, w) \<Rightarrow> Some (None, s\<lparr>kworld := w\<rparr>)
             | (Some f, w) \<Rightarrow>
                 (case operation_payloads_init intermediate_operations (pending w) of
                    (Inl err, as) \<Rightarrow> Some (None, s\<lparr>kworld := w\<lparr>pending := as\<rparr>\<rparr>)
                  | (Inr ps, as) \<Rightarrow>
                      Some (Some f,
                        put_interceptor
                          (put_factory (s\<lparr>kworld := w\<lparr>pending := as\<rparr>\<rparr>) f
                             \<lparr>fi_state = interceptor_state_initialized, fi_instrumentor = NULL,
                              factory_operations_field_offset = 0, fi_payloads = ps,
                              interceptor_binded = a, fi_trace_unforgotten_object = NULL\<rparr>)
                          a (ix\<lparr>factory_interceptors := factory_interceptors ix @ [f]\<rparr>)))) }"

definition kedr_coi_factory_interceptor_create ::
  "coi \<Rightarrow> ptr \<Rightarrow> size_t \<Rightarrow> kedr_coi_intermediate list option \<Rightarrow> (ptr option \<times> coi) option" where
  "kedr_coi_factory_interceptor_create s a off intermediate_operations =
     do { (f, s) \<leftarrow> kedr_coi_factory_interceptor_create_common s a intermediate_operations;
          (case f of
             None \<Rightarrow> Some (None, s)
           | Some f \<Rightarrow>
               do { fx \<leftarrow> factories s f;
                    Some (Some f, put_factory s f (fx\<lparr>factory_operations_field_offset := off\<rparr>)) }) }"

definition kedr_coi_factory_interceptor_create_generic ::
  "coi \<Rightarrow> ptr \<Rightarrow> kedr_coi_intermediate list option \<Rightarrow> (ptr option \<times> coi) option" where
  "kedr_coi_factory_interceptor_create_generic s a intermediate_operations =
     do { (f, s) \<leftarrow> kedr_coi_factory_interceptor_create_common s a intermediate_operations;
          (case f of
             None \<Rightarrow> Some (None, s)
           | Some f \<Rightarrow>
               do { fx \<leftarrow> factories s f;
                    Some (Some f, put_factory s f (fx\<lparr>factory_operations_field_offset := - 1\<rparr>)) }) }"

text \<open>The argument field is the address of the operations field of the factory.\<close>

definition kedr_coi_factory_interceptor_watch_generic ::
  "kernel_params \<Rightarrow> coi \<Rightarrow> ptr \<Rightarrow> ptr \<Rightarrow> ptr \<Rightarrow> ptr \<Rightarrow> (int \<times> coi) option" where
  "kedr_coi_factory_interceptor_watch_generic k s f ident tie field =
     do { fx \<leftarrow> factories s f;
          if fi_state fx = interceptor_state_initialized then Some (- EPERM, s)
          else if fi_state fx \<noteq> interceptor_state_started then None
          else do {
            ix \<leftarrow> interceptors s (interceptor_binded fx);
            i \<leftarrow> instrumentor ix;
            ops \<leftarrow> op_fields s field;
            (r, p, i, w) \<leftarrow> kedr_coi_foreign_instrumentor_watch (hash_of k) i (fi_instrumentor fx)
                             ident tie field ops (kworld s);
            Some (r, write_field (put_interceptor (s\<lparr>kworld := w\<rparr>) (interceptor_binded fx)
                                   (ix\<lparr>instrumentor := Some i\<rparr>)) field p) } }"

definition kedr_coi_factory_interceptor_watch ::
  "kernel_params \<Rightarrow> coi \<Rightarrow> ptr \<Rightarrow> ptr \<Rightarrow> (int \<times> coi) option" where
  "kedr_coi_factory_interceptor_watch k s f factory =
     do { fx \<leftarrow> factories s f;
          if factory_operations_field_offset fx = - 1 then Some (- EINVAL, s)
          else kedr_coi_factory_interceptor_watch_generic k s f factory factory
                 (indirect_operations_p factory (factory_operations_field_offset fx)) }"

text \<open>Here field is None when the caller passes a NULL pointer.\<close>

definition kedr_coi_factory_interceptor_forget_generic ::
  "kernel_params \<Rightarrow> coi \<Rightarrow> ptr \<Rightarrow> ptr \<Rightarrow> ptr option \<Rightarrow> (int \<times> coi) option" where
  "kedr_coi_factory_interceptor_forget_generic k s f ident field =
     do { fx \<leftarrow> factories s f;
          if fi_state fx = interceptor_state_initialized then Some (- EPERM, s)
          else if fi_state fx \<noteq> interceptor_state_started then None
          else do {
            ix \<leftarrow> interceptors s (interceptor_binded fx);
            i \<leftarrow> instrumentor ix;
            ops \<leftarrow> (case field of None \<Rightarrow> Some None | Some fld \<Rightarrow> map_option Some (op_fields s fld));
            (r, p, i, w) \<leftarrow> kedr_coi_foreign_instrumentor_forget (hash_of k) i (fi_instrumentor fx)
                             ident ops (kworld s);
            let s = put_interceptor (s\<lparr>kworld := w\<rparr>) (interceptor_binded fx) (ix\<lparr>instrumentor := Some i\<rparr>);
            Some (r, (case (field, p) of (Some fld, Some p) \<Rightarrow> write_field s fld p | _ \<Rightarrow> s)) } }"

definition kedr_coi_factory_interceptor_forget ::
  "kernel_params \<Rightarrow> coi \<Rightarrow> ptr \<Rightarrow> ptr \<Rightarrow> (int \<times> coi) option" where
  "kedr_coi_factory_interceptor_forget k s f factory =
     do { fx \<leftarrow> factories s f;
          if factory_operations_field_offset fx = - 1 then Some (- EINVAL, s)
          else kedr_coi_factory_interceptor_forget_generic k s f factory
                 (Some (indirect_operations_p factory (factory_operations_field_offset fx))) }"

definition kedr_coi_factory_interceptor_forget_norestore ::
  "kernel_params \<Rightarrow> coi \<Rightarrow> ptr \<Rightarrow> ptr \<Rightarrow> (int \<times> coi) option" where
  "kedr_coi_factory_interceptor_forget_norestore k s f factory =
     kedr_coi_factory_interceptor_forget_generic k s f factory None"

definition kedr_coi_factory_payload_register :: "kernel_params \<Rightarrow> coi \<Rightarrow> ptr \<Rightarrow> ptr \<Rightarrow> (int \<times> coi) option" where
  "kedr_coi_factory_payload_register k s f p =
     do { fx \<leftarrow> factories s f;
          if fi_state fx \<noteq> interceptor_state_initialized \<and> fi_state fx \<noteq> interceptor_state_started then None
          else if fi_state fx = interceptor_state_started then Some (- EBUSY, s)
          else (let (r, ps, as) = operation_payloads_add (payload_at k) (lock_result k f) (fi_payloads fx) p
                                    (pending (kworld s))
                in Some (r, put_factory (s\<lparr>kworld := (kworld s)\<lparr>pending := as\<rparr>\<rparr>) f
                              (fx\<lparr>fi_payloads := ps\<rparr>))) }"

definition kedr_coi_factory_payload_unregister :: "kernel_params \<Rightarrow> coi \<Rightarrow> ptr \<Rightarrow> ptr \<Rightarrow> (int \<times> coi) option" where
  "kedr_coi_factory_payload_unregister k s f p =
     do { fx \<leftarrow> factories s f;
          if fi_state fx \<noteq> interceptor_state_initialized \<and> fi_state fx \<noteq> interceptor_state_started then None
          else (let (r, ps) = operation_payloads_remove (lock_result k f) (fi_payloads fx) p
                in Some (r, put_factory s f (fx\<lparr>fi_payloads := ps\<rparr>))) }"

definition kedr_coi_factory_interceptor_bind_object ::
  "kernel_params \<Rightarrow> coi \<Rightarrow> ptr \<Rightarrow> ptr \<Rightarrow> ptr \<Rightarrow> size_t \<Rightarrow> kedr_coi_intermediate_info \<Rightarrow>
   (int \<times> kedr_coi_intermediate_info \<times> coi) option" where
  "kedr_coi_factory_interceptor_bind_object k s f object factory off info =
     do { fx \<leftarrow> factories s f;
          if fi_state fx \<noteq> interceptor_state_started then None
          else do {
            ix \<leftarrow> interceptors s (interceptor_binded fx);
            i \<leftarrow> instrumentor ix;
            let field = indirect_operations_p object (operations_field_offset ix);
            ops \<leftarrow> op_fields s field;
            (r, p, chained, orig, i, w) \<leftarrow> kedr_coi_foreign_instrumentor_bind (hash_of k) i
                (fi_instrumentor fx) object factory ops off (kworld s);
            let s = write_field (put_interceptor (s\<lparr>kworld := w\<rparr>) (interceptor_binded fx)
                                   (ix\<lparr>instrumentor := Some i\<rparr>)) field p;
            let info = info\<lparr>op_chained := chained, op_orig := orig\<rparr>;
            if r = 0
            then do {
              (pre_handlers, post_handlers) \<leftarrow>
                operation_payloads_get_interception_info (fi_payloads fx) off (orig = Inr NULL);
              Some (0, info\<lparr>pre := pre_handlers, post := post_handlers\<rparr>, s) }
            else if r = 1 then Some (0, info\<lparr>pre := None, post := None\<rparr>, s)
            else Some (r, info\<lparr>pre := None, post := None\<rparr>, s) } }"

text \<open>A factory interceptor that is still bound is in the list of its interceptor.\<close>

definition kedr_coi_factory_interceptor_destroy :: "coi \<Rightarrow> ptr \<Rightarrow> coi option" where
  "kedr_coi_factory_interceptor_destroy s f =
     do { fx \<leftarrow> factories s f;
          if fi_state fx \<noteq> interceptor_state_initialized then None
          else do {
            s \<leftarrow> (if interceptor_binded fx = NULL then Some s
                  else do { ix \<leftarrow> interceptors s (interceptor_binded fx);
                            Some (put_interceptor s (interceptor_binded fx)
                              (ix\<lparr>factory_interceptors := remove1 f (factory_interceptors ix)\<rparr>)) });
            ps \<leftarrow> operation_payloads_destroy (fi_payloads fx);
            Some (s\<lparr>factories := (factories s)(f := None)\<rparr>) } }"

subsection \<open>Settings\<close>

definition kedr_coi_interceptor_trace_unforgotten_object :: "coi \<Rightarrow> ptr \<Rightarrow> ptr \<Rightarrow> coi option" where
  "kedr_coi_interceptor_trace_unforgotten_object s a cb =
     do { ix \<leftarrow> interceptors s a; Some (put_interceptor s a (ix\<lparr>trace_unforgotten_object := cb\<rparr>)) }"

definition kedr_coi_factory_interceptor_trace_unforgotten_object :: "coi \<Rightarrow> ptr \<Rightarrow> ptr \<Rightarrow> coi option" where
  "kedr_coi_factory_interceptor_trace_unforgotten_object s f cb =
     do { fx \<leftarrow> factories s f; Some (put_factory s f (fx\<lparr>fi_trace_unforgotten_object := cb\<rparr>)) }"

definition kedr_coi_interceptor_mechanism_selector :: "coi \<Rightarrow> ptr \<Rightarrow> (ptr \<Rightarrow> bool) option \<Rightarrow> coi option" where
  "kedr_coi_interceptor_mechanism_selector s a at_place =
     (case at_place of
        None \<Rightarrow> Some s
      | Some sel \<Rightarrow>
          do { ix \<leftarrow> interceptors s a;
               if operations_field_offset ix = - 1 then Some s
               else Some (put_interceptor s a (ix\<lparr>i_replace_at_place := sel\<rparr>)) })"

subsection \<open>The module\<close>

definition kedr_coi_instrumentors_destroy :: "world \<Rightarrow> world option" where
  "kedr_coi_instrumentors_destroy w = kedr_coi_hash_table_destroy (ops_table_global w) None w"

definition kedr_coi_module_init :: "world \<Rightarrow> int \<times> world" where
  "kedr_coi_module_init w = kedr_coi_instrumentors_init w"

definition kedr_coi_module_exit :: "world \<Rightarrow> world option" where
  "kedr_coi_module_exit w = kedr_coi_instrumentors_destroy w"

end
