(* ===== verification/Payload_Spec.thy ===== *)
theory Payload_Spec
  imports Payloads
begin

text \<open>
  What using payloads computes: the handler arrays and interception flags of every operation
  and the closure under groups.
\<close>

subsection \<open>Arrays\<close>

definition mk_parray :: "ptr list \<Rightarrow> parray" where
  "mk_parray es = (if es = [] then parray_init else \<lparr>elems = Some (es @ [NULL]), n_elems_p = length es\<rparr>)"

definition plist :: "parray \<Rightarrow> ptr list" where
  "plist a = (case elems a of None \<Rightarrow> [] | Some es \<Rightarrow> butlast es)"

definition parray_wf :: "parray \<Rightarrow> bool" where
  "parray_wf a \<longleftrightarrow> a = mk_parray (plist a)"

lemma plist_mk [simp]: "plist (mk_parray es) = es"
  by (simp add: plist_def mk_parray_def parray_init_def)

lemma parray_wf_mk [simp]: "parray_wf (mk_parray es)"
  by (simp add: parray_wf_def)

lemma parray_init_mk: "parray_init = mk_parray []"
  by (simp add: mk_parray_def)

lemma elems_mk: "elems (mk_parray es) = (if es = [] then None else Some (es @ [NULL]))"
  by (simp add: mk_parray_def parray_init_def)

lemma parray_reset_wf: "parray_wf a \<Longrightarrow> parray_reset a = parray_init"
  unfolding parray_wf_def
  by (metis mk_parray_def parray_init_def parray_reset_def parray.select_convs(2) length_0_conv)

lemma parray_add_wf:
  assumes "parray_wf a"
  shows "parray_add_elem a e as =
     (case kmalloc as of (None, as) \<Rightarrow> (- ENOMEM, a, as)
      | (Some _, as) \<Rightarrow> (0, mk_parray (plist a @ [e]), as))"
proof -
  obtain es where a: "a = mk_parray es" using assms by (auto simp: parray_wf_def)
  show ?thesis by (simp add: a parray_add_elem_def mk_parray_def parray_init_def plist_def split: option.splits prod.splits)
qed

subsection \<open>Operations\<close>

definition operation_wf :: "operation_info \<Rightarrow> bool" where
  "operation_wf oi \<longleftrightarrow>
     parray_wf (o_pre_handlers oi) \<and> parray_wf (o_post_handlers oi) \<and>
     parray_wf (default_pre_handlers oi) \<and> parray_wf (default_post_handlers oi) \<and>
     (\<not> is_intercepted oi \<longrightarrow> plist (o_pre_handlers oi) = [] \<and> plist (o_post_handlers oi) = []) \<and>
     (\<not> default_is_intercepted oi \<longrightarrow>
        plist (default_pre_handlers oi) = [] \<and> plist (default_post_handlers oi) = [])"

text \<open>An operation that is not intercepted, as it is between two uses.\<close>

definition operation_clean :: "operation_info \<Rightarrow> bool" where
  "operation_clean oi \<longleftrightarrow>
     \<not> is_intercepted oi \<and> \<not> default_is_intercepted oi \<and>
     o_pre_handlers oi = parray_init \<and> o_post_handlers oi = parray_init \<and>
     default_pre_handlers oi = parray_init \<and> default_post_handlers oi = parray_init"

definition same_operation :: "operation_info \<Rightarrow> operation_info \<Rightarrow> bool" where
  "same_operation o1 o2 \<longleftrightarrow> o_offset o2 = o_offset o1 \<and> o_repl o2 = o_repl o1 \<and>
     group_id o2 = group_id o1 \<and> internal_only o2 = internal_only o1"

lemma same_operation_refl [simp]: "same_operation x x"
  by (simp add: same_operation_def)

lemma same_operation_trans: "same_operation x y \<Longrightarrow> same_operation y z \<Longrightarrow> same_operation x z"
  by (simp add: same_operation_def)

lemma clean_unique:
  "operation_clean x \<Longrightarrow> operation_clean y \<Longrightarrow> same_operation x y \<Longrightarrow> y = x"
  by (cases x; cases y) (simp add: operation_clean_def same_operation_def)

lemma clean_wf: "operation_clean oi \<Longrightarrow> operation_wf oi"
  by (simp add: operation_clean_def operation_wf_def parray_init_mk)

lemma clear_clean:
  "operation_wf oi \<Longrightarrow> operation_clean (operation_info_clear_interception oi) \<and>
   same_operation oi (operation_info_clear_interception oi)"
proof -
  assume wf: "operation_wf oi"
  have nil: "parray_wf a \<Longrightarrow> plist a = [] \<Longrightarrow> a = parray_init" for a
    by (metis parray_wf_def parray_init_mk)
  show ?thesis
    using wf by (auto simp: operation_wf_def operation_info_clear_interception_def Let_def
        operation_clean_def same_operation_def parray_reset_wf intro: nil)
qed

definition put_pre :: "kedr_coi_handler \<Rightarrow> operation_info \<Rightarrow> operation_info" where
  "put_pre h oi =
     (let oi = oi\<lparr>o_pre_handlers := mk_parray (plist (o_pre_handlers oi) @ [func h]), is_intercepted := True\<rparr>
      in if external h
         then oi\<lparr>default_pre_handlers := mk_parray (plist (default_pre_handlers oi) @ [func h]),
                 default_is_intercepted := True\<rparr>
         else oi)"

definition put_post :: "kedr_coi_handler \<Rightarrow> operation_info \<Rightarrow> operation_info" where
  "put_post h oi =
     (let oi = oi\<lparr>o_post_handlers := mk_parray (plist (o_post_handlers oi) @ [func h]), is_intercepted := True\<rparr>
      in if external h
         then oi\<lparr>default_post_handlers := mk_parray (plist (default_post_handlers oi) @ [func h]),
                 default_is_intercepted := True\<rparr>
         else oi)"

text \<open>The shared contract of the functions that add one handler.\<close>

definition adds_handler ::
  "(operation_info \<Rightarrow> ptr \<Rightarrow> bool \<Rightarrow> allocs \<Rightarrow> int \<times> operation_info \<times> allocs) \<Rightarrow>
   (kedr_coi_handler \<Rightarrow> operation_info \<Rightarrow> operation_info) \<Rightarrow> bool" where
  "adds_handler add put \<longleftrightarrow>
     (\<forall>oi h as. operation_wf oi \<longrightarrow>
        (\<exists>r oi' as'. add oi (func h) (external h) as = (r, oi', as') \<and> operation_wf oi' \<and>
           same_operation oi oi' \<and> (r = 0 \<and> oi' = put h oi \<or> r = - ENOMEM)))"

lemma adds_handler_pre: "adds_handler operation_info_add_pre put_pre"
proof -
  have "\<exists>r oi' as'. operation_info_add_pre oi (func h) (external h) as = (r, oi', as') \<and>
      operation_wf oi' \<and> same_operation oi oi' \<and> (r = 0 \<and> oi' = put_pre h oi \<or> r = - ENOMEM)"
    if wf: "operation_wf oi" for oi h as
  proof -
    have w: "parray_wf (o_pre_handlers oi)" "parray_wf (default_pre_handlers oi)"
      using wf by (simp_all add: operation_wf_def)
    show ?thesis
      using wf by (auto simp: operation_info_add_pre_def parray_add_wf [OF w(1)] parray_add_wf [OF w(2)]
          put_pre_def operation_wf_def same_operation_def Let_def errno_defs split: option.splits prod.splits)
  qed
  then show ?thesis by (simp add: adds_handler_def)
qed

lemma adds_handler_post: "adds_handler operation_info_add_post put_post"
proof -
  have "\<exists>r oi' as'. operation_info_add_post oi (func h) (external h) as = (r, oi', as') \<and>
      operation_wf oi' \<and> same_operation oi oi' \<and> (r = 0 \<and> oi' = put_post h oi \<or> r = - ENOMEM)"
    if wf: "operation_wf oi" for oi h as
  proof -
    have w: "parray_wf (o_post_handlers oi)" "parray_wf (default_post_handlers oi)"
      using wf by (simp_all add: operation_wf_def)
    show ?thesis
      using wf by (auto simp: operation_info_add_post_def parray_add_wf [OF w(1)] parray_add_wf [OF w(2)]
          put_post_def operation_wf_def same_operation_def Let_def errno_defs split: option.splits prod.splits)
  qed
  then show ?thesis by (simp add: adds_handler_def)
qed

subsection \<open>Lists of operations\<close>

definition operations_wf :: "operation_info list \<Rightarrow> bool" where
  "operations_wf ops \<longleftrightarrow> (\<forall>oi \<in> set ops. operation_wf oi) \<and> distinct (map o_offset ops)"

abbreviation same_operations :: "operation_info list \<Rightarrow> operation_info list \<Rightarrow> bool" where
  "same_operations \<equiv> list_all2 same_operation"

lemma same_operations_refl [simp]: "same_operations ops ops"
  by (simp add: list_all2_same)

lemma same_operations_trans:
  "same_operations xs ys \<Longrightarrow> same_operations ys zs \<Longrightarrow> same_operations xs zs"
  by (rule list_all2_trans [of same_operation same_operation same_operation])
    (auto intro: same_operation_trans)

lemma same_operations_offsets: "same_operations xs ys \<Longrightarrow> map o_offset ys = map o_offset xs"
  by (induction rule: list_all2_induct) (simp_all add: same_operation_def)

lemma find_operation_Some:
  "operation_payloads_find_operation ops off = Some k \<Longrightarrow> k < length ops \<and> o_offset (ops ! k) = off"
proof -
  assume f: "operation_payloads_find_operation ops off = Some k"
  then obtain ks where "filter (\<lambda>k. o_offset (ops ! k) = off) [0 ..< length ops] = k # ks"
    by (auto simp: operation_payloads_find_operation_def split: list.splits)
  then have "k \<in> set (filter (\<lambda>k. o_offset (ops ! k) = off) [0 ..< length ops])"
    by (metis list.set_intros(1))
  then show ?thesis by simp
qed

lemma find_operation_None:
  "operation_payloads_find_operation ops off = None \<longleftrightarrow> off \<notin> set (map o_offset ops)"
proof (cases "operation_payloads_find_operation ops off")
  case None
  then have "filter (\<lambda>k. o_offset (ops ! k) = off) [0 ..< length ops] = []"
    by (simp add: operation_payloads_find_operation_def split: list.splits)
  then have "\<forall>k < length ops. o_offset (ops ! k) \<noteq> off" by (simp add: filter_empty_conv)
  then show ?thesis using None by (auto simp: in_set_conv_nth)
next
  case (Some k)
  then show ?thesis using find_operation_Some [OF Some] nth_mem by force
qed

lemma find_operation_cong:
  assumes "same_operations xs ys"
  shows "operation_payloads_find_operation ys off = operation_payloads_find_operation xs off"
proof -
  have l: "length ys = length xs" using assms by (simp add: list_all2_lengthD)
  have "o_offset (ys ! k) = o_offset (xs ! k)" if "k < length xs" for k
    using assms that by (simp add: list_all2_conv_all_nth same_operation_def)
  then have "filter (\<lambda>k. o_offset (ys ! k) = off) [0 ..< length ys] =
      filter (\<lambda>k. o_offset (xs ! k) = off) [0 ..< length xs]"
    by (intro filter_cong) (simp_all add: l)
  then show ?thesis by (simp add: operation_payloads_find_operation_def)
qed

definition handlers_at :: "size_t \<Rightarrow> kedr_coi_handler list \<Rightarrow> kedr_coi_handler list" where
  "handlers_at off hs = filter (\<lambda>h. h_offset h = off) hs"

lemma adds_handler_put:
  assumes "adds_handler add put" and "put = put_pre \<or> put = put_post"
  shows "same_operation oi (put h oi)"
  using assms(2) by (auto simp: put_pre_def put_post_def same_operation_def Let_def split: if_splits)

lemma operations_wf_update:
  assumes "operations_wf ops" and "k < length ops" and "operation_wf oi" and "same_operation (ops ! k) oi"
  shows "operations_wf (ops[k := oi])" and "same_operations ops (ops[k := oi])"
proof -
  show s: "same_operations ops (ops[k := oi])"
    using assms by (auto simp: list_all2_conv_all_nth nth_list_update)
  show "operations_wf (ops[k := oi])"
    using assms same_operations_offsets [OF s] set_update_subset_insert [of ops k oi]
    by (auto simp: operations_wf_def)
qed

lemma map_at_index:
  assumes "distinct (map o_offset ops)" and "k < length ops" and "o_offset (ops ! k) = off"
  shows "ops[k := f (ops ! k)] = map (\<lambda>oi. if o_offset oi = off then f oi else oi) ops"
proof (rule nth_equalityI)
  fix j assume j: "j < length (ops[k := f (ops ! k)])"
  have "o_offset (ops ! j) = off \<longleftrightarrow> j = k"
    using assms j nth_eq_iff_index_eq [OF assms(1), of j k] by auto
  then show "ops[k := f (ops ! k)] ! j = map (\<lambda>oi. if o_offset oi = off then f oi else oi) ops ! j"
    using j assms(2) by (auto simp: nth_list_update)
qed simp

text \<open>
  Adding the handlers of one kind of one payload: it succeeds, and every operation gets its
  own handlers in order, or an allocation fails.
\<close>

lemma use_handlers_ok:
  assumes add: "adds_handler add put" and put: "put = put_pre \<or> put = put_post"
    and wf: "operations_wf ops" and known: "\<And>h. h \<in> set hs \<Longrightarrow> h_offset h \<in> set (map o_offset ops)"
  shows "\<exists>r ops' as'. use_handlers add hs ops as = Some (r, ops', as') \<and> operations_wf ops' \<and>
           same_operations ops ops' \<and>
           (r = 0 \<and> ops' = map (\<lambda>oi. fold put (handlers_at (o_offset oi) hs) oi) ops \<or> r = - ENOMEM)"
  using wf known
proof (induction hs arbitrary: ops as)
  case Nil
  then show ?case by (simp add: handlers_at_def)
next
  case (Cons h hs)
  have "operation_payloads_find_operation ops (h_offset h) \<noteq> None"
    using Cons.prems(2) [of h] find_operation_None [of ops "h_offset h"] by auto
  then obtain k where k: "operation_payloads_find_operation ops (h_offset h) = Some k" by blast
  note K = find_operation_Some [OF k]
  have "operation_wf (ops ! k)" using Cons.prems(1) K by (auto simp: operations_wf_def)
  with add obtain r oi as1 where
    a: "add (ops ! k) (func h) (external h) as = (r, oi, as1)" "operation_wf oi"
       "same_operation (ops ! k) oi" "r = 0 \<and> oi = put h (ops ! k) \<or> r = - ENOMEM"
    unfolding adds_handler_def by blast
  note U = operations_wf_update [OF Cons.prems(1) conjunct1 [OF K] a(2,3)]
  show ?case
  proof (cases "r = 0")
    case False
    with a U K show ?thesis by (auto simp: k errno_defs)
  next
    case True
    with a(4) have oi: "oi = put h (ops ! k)" by (auto simp: errno_defs)
    have d: "distinct (map o_offset ops)" using Cons.prems(1) by (simp add: operations_wf_def)
    have upd: "ops[k := oi] = map (\<lambda>oi. if o_offset oi = h_offset h then put h oi else oi) ops"
      unfolding oi using map_at_index [OF d, of k] K by blast
    have known': "h' \<in> set hs \<Longrightarrow> h_offset h' \<in> set (map o_offset (ops[k := oi]))" for h'
      using Cons.prems(2) [of h'] same_operations_offsets [OF U(2)] by simp
    from Cons.IH [OF U(1) known', of as1] obtain r' ops' as' where
      R: "use_handlers add hs (ops[k := oi]) as1 = Some (r', ops', as')" "operations_wf ops'"
         "same_operations (ops[k := oi]) ops'"
         "r' = 0 \<and> ops' = map (\<lambda>oi. fold put (handlers_at (o_offset oi) hs) oi) (ops[k := oi]) \<or> r' = - ENOMEM"
      by blast
    have off: "o_offset (put h x) = o_offset x" for x
      using adds_handler_put [OF add put, of x h] by (simp add: same_operation_def)
    have "map (\<lambda>oi. fold put (handlers_at (o_offset oi) hs) oi) (ops[k := oi]) =
        map (\<lambda>oi. fold put (handlers_at (o_offset oi) (h # hs)) oi) ops"
      unfolding upd by (auto simp: handlers_at_def off)
    with R same_operations_trans [OF U(2) R(3)] show ?thesis
      using a(1) True by (auto simp: k)
  qed
qed


subsection \<open>Using one payload\<close>

definition handlers_of :: "kedr_coi_handler list option \<Rightarrow> kedr_coi_handler list" where
  "handlers_of hs = (case hs of None \<Rightarrow> [] | Some hs \<Rightarrow> for_each_handler hs)"

abbreviation pre_of :: "kedr_coi_payload \<Rightarrow> kedr_coi_handler list" where
  "pre_of p \<equiv> handlers_of (pre_handlers p)"

abbreviation post_of :: "kedr_coi_payload \<Rightarrow> kedr_coi_handler list" where
  "post_of p \<equiv> handlers_of (post_handlers p)"

definition handler_allowed :: "operation_info list \<Rightarrow> kedr_coi_handler \<Rightarrow> bool" where
  "handler_allowed ops h \<longleftrightarrow>
     (\<exists>oi \<in> set ops. o_offset oi = h_offset h \<and> \<not> (external h \<and> internal_only oi))"

definition payload_allowed :: "operation_info list \<Rightarrow> kedr_coi_payload \<Rightarrow> bool" where
  "payload_allowed ops p \<longleftrightarrow> (\<forall>h \<in> set (pre_of p) \<union> set (post_of p). handler_allowed ops h)"

lemma handler_allowed_known: "handler_allowed ops h \<Longrightarrow> h_offset h \<in> set (map o_offset ops)"
  by (force simp: handler_allowed_def)

lemma handler_allowed_cong:
  assumes "same_operations xs ys"
  shows "handler_allowed ys h = handler_allowed xs h"
proof -
  have e: "handler_allowed ops h \<longleftrightarrow>
      (\<exists>x \<in> set (map (\<lambda>oi. (o_offset oi, internal_only oi)) ops). fst x = h_offset h \<and> \<not> (external h \<and> snd x))"
    for ops by (auto simp: handler_allowed_def)
  have "map (\<lambda>oi. (o_offset oi, internal_only oi)) ys = map (\<lambda>oi. (o_offset oi, internal_only oi)) xs"
    using assms by (induction rule: list_all2_induct) (simp_all add: same_operation_def)
  then show ?thesis by (simp only: e)
qed

lemma payload_allowed_cong:
  "same_operations xs ys \<Longrightarrow> payload_allowed ys p = payload_allowed xs p"
  by (simp add: payload_allowed_def handler_allowed_cong)

lemma handler_allowed_find:
  assumes "distinct (map o_offset ops)" and "operation_payloads_find_operation ops (h_offset h) = Some k"
  shows "handler_allowed ops h \<longleftrightarrow> \<not> (external h \<and> internal_only (ops ! k))"
proof -
  note K = find_operation_Some [OF assms(2)]
  have "x = ops ! k" if "x \<in> set ops" "o_offset x = h_offset h" for x
    using that K assms(1) by (metis distinct_map inj_onD nth_mem)
  then show ?thesis using K by (auto simp: handler_allowed_def) 
qed

lemma check_handlers_iff:
  assumes d: "distinct (map o_offset ops)"
  shows "check_handlers ops hs = (if \<forall>h \<in> set hs. handler_allowed ops h then 0 else - EINVAL)"
proof (induction hs)
  case (Cons h hs)
  show ?case
  proof (cases "operation_payloads_find_operation ops (h_offset h)")
    case None
    then have "\<not> handler_allowed ops h"
      using handler_allowed_known [of ops h] by (auto simp: find_operation_None)
    with None show ?thesis by simp
  next
    case (Some k)
    then show ?thesis using handler_allowed_find [OF d Some] Cons.IH by auto
  qed
qed simp

lemma check_payload_iff:
  "distinct (map o_offset ops) \<Longrightarrow>
   operation_payloads_check_payload ops p = (if payload_allowed ops p then 0 else - EINVAL)"
  by (auto simp: operation_payloads_check_payload_def check_handlers_iff payload_allowed_def
      handlers_of_def errno_defs split: option.splits)

definition use_payload :: "kedr_coi_payload \<Rightarrow> operation_info \<Rightarrow> operation_info" where
  "use_payload p oi = fold put_post (handlers_at (o_offset oi) (post_of p))
                        (fold put_pre (handlers_at (o_offset oi) (pre_of p)) oi)"

lemma same_put [simp]: "o_offset (put_pre h oi) = o_offset oi" "o_offset (put_post h oi) = o_offset oi"
  by (simp_all add: put_pre_def put_post_def Let_def)

lemma fold_put_offset [simp]:
  "o_offset (fold put_pre hs oi) = o_offset oi" "o_offset (fold put_post hs oi) = o_offset oi"
  by (induction hs arbitrary: oi) simp_all

lemma use_kind_ok:
  assumes add: "adds_handler add put" and put: "put = put_pre \<or> put = put_post"
    and wf: "operations_wf ops" and ok: "\<forall>h \<in> set (handlers_of hs). handler_allowed ops h"
  shows "\<exists>r ops' as'. (case hs of None \<Rightarrow> Some (0, ops, as)
              | Some hs \<Rightarrow> use_handlers add (for_each_handler hs) ops as) = Some (r, ops', as') \<and>
           operations_wf ops' \<and> same_operations ops ops' \<and>
           (r = 0 \<and> ops' = map (\<lambda>oi. fold put (handlers_at (o_offset oi) (handlers_of hs)) oi) ops \<or>
            r = - ENOMEM)"
proof (cases hs)
  case None
  then show ?thesis using wf by (simp add: handlers_of_def handlers_at_def)
next
  case (Some xs)
  have k: "h \<in> set (for_each_handler xs) \<Longrightarrow> h_offset h \<in> set (map o_offset ops)" for h
    using ok handler_allowed_known by (simp add: Some handlers_of_def)
  show ?thesis using use_handlers_ok [OF add put wf, of "for_each_handler xs" as] k by (simp add: Some handlers_of_def)
qed

lemma use_elem_ok:
  assumes wf: "operations_wf ops" and ok: "payload_allowed ops p"
  shows "\<exists>r ops' as'. operation_payloads_use_elem p ops as = Some (r, ops', as') \<and> operations_wf ops' \<and>
           same_operations ops ops' \<and> (r = 0 \<and> ops' = map (use_payload p) ops \<or> r = - ENOMEM)"
proof -
  have pre: "\<forall>h \<in> set (pre_of p). handler_allowed ops h" and post: "\<forall>h \<in> set (post_of p). handler_allowed ops h"
    using ok by (simp_all add: payload_allowed_def)
  obtain r ops1 as1 where
    A: "(case pre_handlers p of None \<Rightarrow> Some (0, ops, as)
         | Some hs \<Rightarrow> use_handlers operation_info_add_pre (for_each_handler hs) ops as) = Some (r, ops1, as1)"
       "operations_wf ops1" "same_operations ops ops1"
       "r = 0 \<and> ops1 = map (\<lambda>oi. fold put_pre (handlers_at (o_offset oi) (pre_of p)) oi) ops \<or> r = - ENOMEM"
    using use_kind_ok [OF adds_handler_pre _ wf pre, of as] by auto
  show ?thesis
  proof (cases "r = 0")
    case False
    with A show ?thesis by (auto simp: operation_payloads_use_elem_def)
  next
    case True
    have post1: "\<forall>h \<in> set (post_of p). handler_allowed ops1 h"
      using post by (simp add: handler_allowed_cong [OF A(3)])
    obtain r' ops2 as2 where
      B: "(case post_handlers p of None \<Rightarrow> Some (0, ops1, as1)
           | Some hs \<Rightarrow> use_handlers operation_info_add_post (for_each_handler hs) ops1 as1) = Some (r', ops2, as2)"
         "operations_wf ops2" "same_operations ops1 ops2"
         "r' = 0 \<and> ops2 = map (\<lambda>oi. fold put_post (handlers_at (o_offset oi) (post_of p)) oi) ops1 \<or> r' = - ENOMEM"
      using use_kind_ok [OF adds_handler_post _ A(2) post1, of as1] by auto
    have E: "operation_payloads_use_elem p ops as = Some (r', ops2, as2)"
      using A(1) B(1) by (simp add: operation_payloads_use_elem_def True)
    have "ops2 = map (use_payload p) ops" if "r' = 0"
      using that B(4) A(4) True by (auto simp: use_payload_def errno_defs)
    with E B same_operations_trans [OF A(3) B(3)] show ?thesis by blast
  qed
qed

lemma use_payload_offset [simp]: "o_offset (use_payload p oi) = o_offset oi"
  by (simp add: use_payload_def)

lemma use_elems_ok:
  assumes "operations_wf ops" and "\<And>p. p \<in> set us \<Longrightarrow> payload_allowed ops (pm p)"
  shows "\<exists>r ops' as'. use_elems pm us ops as = Some (r, ops', as') \<and> operations_wf ops' \<and>
           same_operations ops ops' \<and>
           (r = 0 \<and> ops' = map (fold (\<lambda>p. use_payload (pm p)) us) ops \<or> r = - ENOMEM)"
  using assms
proof (induction us arbitrary: ops as)
  case (Cons p us)
  obtain r ops1 as1 where
    A: "operation_payloads_use_elem (pm p) ops as = Some (r, ops1, as1)" "operations_wf ops1"
       "same_operations ops ops1" "r = 0 \<and> ops1 = map (use_payload (pm p)) ops \<or> r = - ENOMEM"
    using use_elem_ok [OF Cons.prems(1), of "pm p" as] Cons.prems(2) [of p] by auto
  show ?case
  proof (cases "r = 0")
    case False
    with A show ?thesis by (auto simp: errno_defs)
  next
    case True
    have ok: "q \<in> set us \<Longrightarrow> payload_allowed ops1 (pm q)" for q
      using Cons.prems(2) [of q] by (simp add: payload_allowed_cong [OF A(3)])
    obtain r' ops2 as2 where
      B: "use_elems pm us ops1 as1 = Some (r', ops2, as2)" "operations_wf ops2" "same_operations ops1 ops2"
         "r' = 0 \<and> ops2 = map (fold (\<lambda>p. use_payload (pm p)) us) ops1 \<or> r' = - ENOMEM"
      using Cons.IH [OF A(2) ok, of as1] by auto
    have "use_elems pm (p # us) ops as = Some (r', ops2, as2)" using A(1) B(1) True by simp
    moreover have "ops2 = map (fold (\<lambda>p. use_payload (pm p)) (p # us)) ops" if "r' = 0"
      using that B(4) A(4) True by (auto simp: errno_defs)
    ultimately show ?thesis using B(2,4) same_operations_trans [OF A(3) B(3)] by blast
  qed
qed simp


subsection \<open>What an operation gets from the used payloads\<close>

definition pre_funcs :: "(ptr \<Rightarrow> kedr_coi_payload) \<Rightarrow> ptr list \<Rightarrow> size_t \<Rightarrow> kedr_coi_handler list" where
  "pre_funcs pm us off = concat (map (\<lambda>p. handlers_at off (pre_of (pm p))) us)"

definition post_funcs :: "(ptr \<Rightarrow> kedr_coi_payload) \<Rightarrow> ptr list \<Rightarrow> size_t \<Rightarrow> kedr_coi_handler list" where
  "post_funcs pm us off = concat (map (\<lambda>p. handlers_at off (post_of (pm p))) us)"

text \<open>The operation after all handlers were added to it, written out field by field.\<close>

definition with_handlers ::
  "kedr_coi_handler list \<Rightarrow> kedr_coi_handler list \<Rightarrow> operation_info \<Rightarrow> operation_info" where
  "with_handlers pre post oi =
     oi\<lparr>is_intercepted := is_intercepted oi \<or> pre \<noteq> [] \<or> post \<noteq> [],
       o_pre_handlers := mk_parray (plist (o_pre_handlers oi) @ map func pre),
       o_post_handlers := mk_parray (plist (o_post_handlers oi) @ map func post),
       default_is_intercepted := default_is_intercepted oi \<or> (\<exists>h \<in> set (pre @ post). external h),
       default_pre_handlers := mk_parray (plist (default_pre_handlers oi) @ map func (filter external pre)),
       default_post_handlers := mk_parray (plist (default_post_handlers oi) @ map func (filter external post))\<rparr>"

lemma with_handlers_nil: "operation_wf oi \<Longrightarrow> with_handlers [] [] oi = oi"
  by (simp add: with_handlers_def operation_wf_def parray_wf_def)

lemma with_handlers_append:
  "with_handlers pre2 post2 (with_handlers pre1 post1 oi) = with_handlers (pre1 @ pre2) (post1 @ post2) oi"
  by (cases oi) (auto simp: with_handlers_def)

lemma put_pre_with: "operation_wf oi \<Longrightarrow> put_pre h oi = with_handlers [h] [] oi"
  by (cases oi) (simp add: put_pre_def with_handlers_def operation_wf_def parray_wf_def)

lemma put_post_with: "operation_wf oi \<Longrightarrow> put_post h oi = with_handlers [] [h] oi"
  by (cases oi) (simp add: put_post_def with_handlers_def operation_wf_def parray_wf_def)

lemma with_handlers_wf: "operation_wf oi \<Longrightarrow> operation_wf (with_handlers pre post oi)"
  by (auto simp: operation_wf_def with_handlers_def filter_empty_conv)

lemma with_handlers_same [simp]:
  "o_offset (with_handlers pre post oi) = o_offset oi" "same_operation oi (with_handlers pre post oi)"
  by (simp_all add: with_handlers_def same_operation_def)

lemma fold_put_pre: "operation_wf oi \<Longrightarrow> fold put_pre hs oi = with_handlers hs [] oi"
  by (induction hs arbitrary: oi)
    (simp_all add: with_handlers_nil put_pre_with with_handlers_wf with_handlers_append)

lemma fold_put_post: "operation_wf oi \<Longrightarrow> fold put_post hs oi = with_handlers [] hs oi"
  by (induction hs arbitrary: oi)
    (simp_all add: with_handlers_nil put_post_with with_handlers_wf with_handlers_append)

lemma fold_use_payload:
  "operation_wf oi \<Longrightarrow>
   fold (\<lambda>p. use_payload (pm p)) us oi =
     with_handlers (pre_funcs pm us (o_offset oi)) (post_funcs pm us (o_offset oi)) oi"
proof (induction us arbitrary: oi)
  case Nil
  then show ?case by (simp add: pre_funcs_def post_funcs_def with_handlers_nil)
next
  case (Cons p us)
  have u: "use_payload (pm p) oi =
      with_handlers (handlers_at (o_offset oi) (pre_of (pm p))) (handlers_at (o_offset oi) (post_of (pm p))) oi"
    by (simp add: use_payload_def fold_put_pre fold_put_post Cons.prems with_handlers_wf with_handlers_append)
  show ?case
    by (simp add: u Cons.IH with_handlers_wf Cons.prems with_handlers_append pre_funcs_def post_funcs_def)
qed

subsection \<open>Closure under groups\<close>

definition group_default :: "operation_info list \<Rightarrow> int \<Rightarrow> bool" where
  "group_default ops g \<longleftrightarrow> g \<noteq> 0 \<and> (\<exists>oi \<in> set ops. group_id oi = g \<and> default_is_intercepted oi)"

definition closed_operation :: "operation_info list \<Rightarrow> operation_info \<Rightarrow> operation_info" where
  "closed_operation ops oi =
     oi\<lparr>default_is_intercepted := default_is_intercepted oi \<or> group_default ops (group_id oi)\<rparr>"

lemma group_default_snoc:
  "group_default (xs @ [y]) g \<longleftrightarrow>
     group_default xs g \<or> group_id y \<noteq> 0 \<and> group_id y = g \<and> default_is_intercepted y"
  by (auto simp: group_default_def)

lemma closed_operation_Nil: "closed_operation [] oi = oi"
  by (simp add: closed_operation_def group_default_def)

lemma close_prefix:
  "n \<le> length ops \<Longrightarrow> fold close_step [0 ..< n] ops = map (closed_operation (take n ops)) ops"
proof (induction n)
  case 0
  then show ?case by (simp add: closed_operation_Nil map_idI)
next
  case (Suc n)
  let ?xs = "map (closed_operation (take n ops)) ops"
  have n: "n < length ops" using Suc.prems by simp
  have "fold close_step [0 ..< Suc n] ops = close_step n ?xs" using Suc by simp
  also have "\<dots> = map (closed_operation (take n ops @ [ops ! n])) ops"
    using n by (cases "group_id (ops ! n) = 0")
      (auto simp: close_step_def closed_operation_def group_default_snoc Let_def group_default_def
         cong: conj_cong)
  finally show ?case using n by (simp add: take_Suc_conv_app_nth)
qed

lemma close_operations_eq: "close_operations ops = map (closed_operation ops) ops"
  using close_prefix [of "length ops" ops] by (simp add: close_operations_def)

lemma closed_operation_same [simp]:
  "same_operation oi (closed_operation ops oi)" "o_offset (closed_operation ops oi) = o_offset oi"
  by (simp_all add: closed_operation_def same_operation_def)

lemma closed_operation_wf: "operation_wf oi \<Longrightarrow> operation_wf (closed_operation ops oi)"
  by (auto simp: operation_wf_def closed_operation_def)

lemma close_operations_wf:
  "operations_wf ops \<Longrightarrow> operations_wf (close_operations ops) \<and> same_operations ops (close_operations ops)"
  by (auto simp: close_operations_eq operations_wf_def closed_operation_wf o_def list_all2_map2
      list_all2_same list.rel_map)

lemma closed_closed: "closed_operation (close_operations ops) (closed_operation ops oi) = closed_operation ops oi"
  by (cases oi) (auto simp: closed_operation_def close_operations_eq group_default_def)

end
