(* ===== verification/Payload_Inv.thy ===== *)
theory Payload_Inv
  imports Payload_Spec
begin

text \<open>
  The invariant of the payloads of an interceptor: the registered payloads only ask for
  allowed interceptions, the used ones are exactly the fixed ones and hold one reference of
  their module each, and the operations are what the used payloads make of clean ones.  Every
  call keeps it; using succeeds or changes nothing, and unusing is its inverse.
\<close>

subsection \<open>Fixing and releasing payloads\<close>

definition mod_count :: "(ptr \<Rightarrow> kedr_coi_payload) \<Rightarrow> payload_elem list \<Rightarrow> ptr \<Rightarrow> int" where
  "mod_count pm es m =
     (if m = NULL then 0
      else int (length (filter (\<lambda>e. is_fixed e \<and> mod_p (pm (payload e)) = m) es)))"

definition fixable :: "(ptr \<Rightarrow> kedr_coi_payload) \<Rightarrow> (ptr \<Rightarrow> bool) \<Rightarrow> ptr \<Rightarrow> bool" where
  "fixable pm live p \<longleftrightarrow> mod_p (pm p) = NULL \<or> live (mod_p (pm p))"

definition fixed_elem :: "(ptr \<Rightarrow> kedr_coi_payload) \<Rightarrow> (ptr \<Rightarrow> bool) \<Rightarrow> payload_elem \<Rightarrow> payload_elem" where
  "fixed_elem pm live e = (if fixable pm live (payload e) then e\<lparr>is_fixed := True\<rparr> else e)"

lemma mod_count_Nil [simp]: "mod_count pm [] = (\<lambda>m. 0)"
  by (simp add: mod_count_def fun_eq_iff)

lemma mod_count_Cons:
  "mod_count pm (e # es) m =
     (if is_fixed e \<and> m \<noteq> NULL \<and> mod_p (pm (payload e)) = m then 1 else 0) + mod_count pm es m"
  by (simp add: mod_count_def)

lemma mod_count_append: "mod_count pm (xs @ ys) m = mod_count pm xs m + mod_count pm ys m"
  by (simp add: mod_count_def)

lemma mod_count_unfixed: "(\<And>e. e \<in> set es \<Longrightarrow> \<not> is_fixed e) \<Longrightarrow> mod_count pm es = (\<lambda>m. 0)"
  by (auto simp: mod_count_def fun_eq_iff filter_empty_conv)

lemma env_refs_eqI: "env_allocs e1 = env_allocs e2 \<Longrightarrow> (\<And>m. module_refs e1 m = module_refs e2 m) \<Longrightarrow> e1 = (e2::kernel_env)"
  by (cases e1; cases e2) auto

lemma fix_all_eq:
  "(\<And>e. e \<in> set es \<Longrightarrow> \<not> is_fixed e) \<Longrightarrow>
   operation_payloads_fix_all pm live es used env =
     (map (fixed_elem pm live) es, used @ map payload (filter (\<lambda>e. fixable pm live (payload e)) es),
      env\<lparr>module_refs := \<lambda>m. module_refs env m + mod_count pm (map (fixed_elem pm live) es) m\<rparr>)"
proof (induction es arbitrary: used env)
  case (Cons e es)
  have u: "\<not> is_fixed e" using Cons.prems by simp
  have IH: "operation_payloads_fix_all pm live es used env =
     (map (fixed_elem pm live) es, used @ map payload (filter (\<lambda>e. fixable pm live (payload e)) es),
      env\<lparr>module_refs := \<lambda>m. module_refs env m + mod_count pm (map (fixed_elem pm live) es) m\<rparr>)"
    for used env using Cons.IH Cons.prems by simp
  show ?case
  proof (cases "mod_p (pm (payload e)) = NULL \<or> \<not> live (mod_p (pm (payload e)))")
    case True
    then show ?thesis using fixed_elem_def [of pm live e]
      by (auto simp: operation_payloads_fix_elem_def try_module_get_def fixable_def
          IH mod_count_Cons errno_defs u)
  next
    case False
    then show ?thesis using fixed_elem_def [of pm live e]
      by (simp add: operation_payloads_fix_elem_def try_module_get_def fixable_def
          IH mod_count_Cons) (rule env_refs_eqI, auto)
  qed
qed (simp add: env_refs_eqI)

lemma release_all_eq:
  "operation_payloads_release_all pm es (map payload (filter is_fixed es) @ rest) env =
     (map (\<lambda>e. e\<lparr>is_fixed := False\<rparr>) es, rest,
      env\<lparr>module_refs := \<lambda>m. module_refs env m - mod_count pm es m\<rparr>)"
proof (induction es arbitrary: env)
  case (Cons e es)
  show ?case
  proof (cases "is_fixed e \<and> mod_p (pm (payload e)) \<noteq> NULL")
    case False
    then show ?thesis
      by (cases "is_fixed e") (auto simp: operation_payloads_release_elem_def Cons.IH mod_count_Cons)
  next
    case True
    then show ?thesis
      by (simp add: operation_payloads_release_elem_def module_put_def Cons.IH mod_count_Cons)
        (rule env_refs_eqI, auto)
  qed
qed (simp add: env_refs_eqI)

lemma fixed_elem_payload [simp]: "payload (fixed_elem pm live e) = payload e"
  by (simp add: fixed_elem_def)

lemma map_unfix: "(\<And>e. e \<in> set es \<Longrightarrow> \<not> is_fixed e) \<Longrightarrow> map (\<lambda>e. (fixed_elem pm live e)\<lparr>is_fixed := False\<rparr>) es = es"
  by (rule map_idI) (simp add: fixed_elem_def)

lemma filter_fixed:
  "(\<And>e. e \<in> set es \<Longrightarrow> \<not> is_fixed e) \<Longrightarrow>
   map payload (filter is_fixed (map (fixed_elem pm live) es)) =
     map payload (filter (\<lambda>e. fixable pm live (payload e)) es)"
  by (induction es) (auto simp: fixed_elem_def)

subsection \<open>The replacements\<close>

definition replacement_table :: "operation_info list \<Rightarrow> kedr_coi_replacement list option" where
  "replacement_table ops =
     (if filter operation_replaced ops = [] then None
      else Some (map operation_replacement (filter operation_replaced ops) @ empty_replacements))"

lemma create_replacements_eq:
  "\<exists>res as'. operation_payloads_create_replacements ops as = (res, as') \<and>
     (res = Inr (replacement_table ops) \<or> res = Inl (- ENOMEM))"
  by (auto simp: operation_payloads_create_replacements_def replacement_table_def Let_def
      split: option.splits prod.splits)

lemma close_replacement:
  "oi \<in> set ops \<Longrightarrow> operation_offset (operation_replacement oi) = o_offset oi"
  by (simp add: operation_replacement_def)


subsection \<open>The invariant\<close>

definition start_operations :: "bool \<Rightarrow> operation_info list \<Rightarrow> operation_info list" where
  "start_operations all ops = (if all then map intercept_operation ops else ops)"

text \<open>The operations while the payloads us are used, starting from clean ones.\<close>

definition used_operations ::
  "(ptr \<Rightarrow> kedr_coi_payload) \<Rightarrow> ptr list \<Rightarrow> bool \<Rightarrow> operation_info list \<Rightarrow> operation_info list" where
  "used_operations pm us all ops =
     close_operations
       (map (\<lambda>oi. with_handlers (pre_funcs pm us (o_offset oi)) (post_funcs pm us (o_offset oi)) oi)
         (start_operations all ops))"

definition operations_used :: "(ptr \<Rightarrow> kedr_coi_payload) \<Rightarrow> ptr list \<Rightarrow> operation_info list \<Rightarrow> bool" where
  "operations_used pm us ops \<longleftrightarrow> (\<exists>all. ops = used_operations pm us all (operation_payloads_unuse_all ops))"

definition payloads_inv ::
  "(ptr \<Rightarrow> kedr_coi_payload) \<Rightarrow> (ptr \<Rightarrow> int) \<Rightarrow> operation_payloads \<Rightarrow> kernel_env \<Rightarrow> bool" where
  "payloads_inv pm base ps env \<longleftrightarrow>
     operations_wf (operations ps) \<and> (\<forall>oi \<in> set (operations ps). o_offset oi \<noteq> - 1) \<and>
     distinct (map payload (payload_elems ps)) \<and>
     (\<forall>e \<in> set (payload_elems ps). payload_allowed (operations ps) (pm (payload e))) \<and>
     payload_elems_used ps = map payload (filter is_fixed (payload_elems ps)) \<and>
     module_refs env = (\<lambda>m. base m + mod_count pm (payload_elems ps) m) \<and>
     (if is_used ps
      then operations_used pm (payload_elems_used ps) (operations ps) \<and>
           p_replacements ps = replacement_table (operations ps)
      else p_replacements ps = None \<and> (\<forall>e \<in> set (payload_elems ps). \<not> is_fixed e) \<and>
           (\<forall>oi \<in> set (operations ps). operation_clean oi))"

lemma intercept_operation_same [simp]:
  "same_operation oi (intercept_operation oi)" "o_offset (intercept_operation oi) = o_offset oi"
  by (simp_all add: intercept_operation_def same_operation_def Let_def)

lemma intercept_operation_wf: "operation_wf oi \<Longrightarrow> operation_wf (intercept_operation oi)"
  by (auto simp: operation_wf_def intercept_operation_def Let_def)

lemma map_operations_wf:
  assumes "operations_wf ops" and "\<And>oi. operation_wf oi \<Longrightarrow> operation_wf (f oi) \<and> same_operation oi (f oi)"
  shows "operations_wf (map f ops) \<and> same_operations ops (map f ops)"
proof -
  have "same_operations ops (map f ops)"
    using assms by (auto simp: operations_wf_def list_all2_map2 list_all2_same)
  moreover have "operations_wf (map f ops)"
    using assms same_operations_offsets [OF calculation]
    by (auto simp: operations_wf_def simp del: map_map)
  ultimately show ?thesis by simp
qed

lemma start_operations_wf:
  "operations_wf ops \<Longrightarrow> operations_wf (start_operations all ops) \<and> same_operations ops (start_operations all ops)"
  by (simp add: start_operations_def map_operations_wf intercept_operation_wf)

lemma used_operations_wf:
  assumes "operations_wf ops"
  shows "operations_wf (used_operations pm us all ops)" "same_operations ops (used_operations pm us all ops)"
proof -
  let ?xs = "start_operations all ops"
  let ?ys = "map (\<lambda>oi. with_handlers (pre_funcs pm us (o_offset oi)) (post_funcs pm us (o_offset oi)) oi) ?xs"
  have 1: "operations_wf ?xs" "same_operations ops ?xs" using start_operations_wf [OF assms] by blast+
  have 2: "operations_wf ?ys \<and> same_operations ?xs ?ys"
    by (rule map_operations_wf [OF 1(1)]) (simp add: with_handlers_wf)
  then have 3: "operations_wf (close_operations ?ys)" "same_operations ?ys (close_operations ?ys)"
    using close_operations_wf [of ?ys] by blast+
  show "operations_wf (used_operations pm us all ops)" using 3 by (simp add: used_operations_def)
  show "same_operations ops (used_operations pm us all ops)"
    using same_operations_trans [OF 1(2) same_operations_trans [OF conjunct2 [OF 2] 3(2)]]
    by (simp add: used_operations_def)
qed

lemma unuse_all_clean:
  "operations_wf ops \<Longrightarrow>
   operations_wf (operation_payloads_unuse_all ops) \<and> same_operations ops (operation_payloads_unuse_all ops) \<and>
   (\<forall>oi \<in> set (operation_payloads_unuse_all ops). operation_clean oi)"
  using map_operations_wf [of ops operation_info_clear_interception]
  by (auto simp: operation_payloads_unuse_all_def clear_clean clean_wf operations_wf_def)

lemma unuse_all_restores:
  assumes clean: "\<forall>oi \<in> set ops. operation_clean oi" and wf: "operations_wf ops'" and same: "same_operations ops ops'"
  shows "operation_payloads_unuse_all ops' = ops"
proof (rule nth_equalityI)
  show "length (operation_payloads_unuse_all ops') = length ops"
    using same by (simp add: operation_payloads_unuse_all_def list_all2_lengthD)
  fix k assume k: "k < length (operation_payloads_unuse_all ops')"
  then have k': "k < length ops'" "k < length ops"
    using same by (simp_all add: operation_payloads_unuse_all_def list_all2_lengthD)
  have "same_operation (ops ! k) (ops' ! k)" using same k' by (simp add: list_all2_nthD)
  moreover have "operation_wf (ops' ! k)" using wf k' by (simp add: operations_wf_def)
  ultimately have "operation_clean (operation_info_clear_interception (ops' ! k))"
      "same_operation (ops ! k) (operation_info_clear_interception (ops' ! k))"
    using clear_clean same_operation_trans by blast+
  then show "operation_payloads_unuse_all ops' ! k = ops ! k"
    using clean k' clean_unique [of "ops ! k"] by (simp add: operation_payloads_unuse_all_def)
qed

lemma used_unuse:
  assumes "operations_wf ops" and "\<forall>oi \<in> set ops. operation_clean oi"
  shows "operation_payloads_unuse_all (used_operations pm us all ops) = ops"
  using unuse_all_restores [OF assms(2) used_operations_wf [OF assms(1)]] .


subsection \<open>Using and unusing\<close>

lemma replaced_start: "operation_replaced (intercept_operation oi)"
  by (simp add: operation_replaced_def intercept_operation_def Let_def)

lemma replaced_with: "operation_replaced oi \<Longrightarrow> operation_replaced (with_handlers pre post oi)"
  by (auto simp: operation_replaced_def with_handlers_def)

lemma replaced_closed: "operation_replaced oi \<Longrightarrow> operation_replaced (closed_operation ops oi)"
  by (auto simp: operation_replaced_def closed_operation_def)

lemma used_operations_all: "oi \<in> set (used_operations pm us True ops) \<Longrightarrow> operation_replaced oi"
  by (auto simp: used_operations_def start_operations_def close_operations_eq
      replaced_start replaced_with replaced_closed)

lemma use_elems_used:
  assumes "operations_wf ops" and "\<And>p. p \<in> set us \<Longrightarrow> payload_allowed ops (pm p)"
  shows "\<exists>r ops' as'. use_elems pm us (start_operations all ops) as = Some (r, ops', as') \<and>
           operations_wf ops' \<and> same_operations ops ops' \<and>
           (r = 0 \<and> close_operations ops' = used_operations pm us all ops \<or> r = - ENOMEM)"
proof -
  let ?xs = "start_operations all ops"
  have xs: "operations_wf ?xs" "same_operations ops ?xs" using start_operations_wf [OF assms(1)] by blast+
  have al: "payload_allowed ?xs (pm p)" if "p \<in> set us" for p
    using assms(2) [OF that] payload_allowed_cong [OF xs(2)] by simp
  from use_elems_ok [where us = us and pm = pm and as = as, OF xs(1) al] obtain r ops' as' where
    R: "use_elems pm us ?xs as = Some (r, ops', as')" "operations_wf ops'" "same_operations ?xs ops'"
       "r = 0 \<and> ops' = map (fold (\<lambda>p. use_payload (pm p)) us) ?xs \<or> r = - ENOMEM" by auto
  have "map (fold (\<lambda>p. use_payload (pm p)) us) ?xs =
      map (\<lambda>oi. with_handlers (pre_funcs pm us (o_offset oi)) (post_funcs pm us (o_offset oi)) oi) ?xs"
    using xs(1) by (simp add: operations_wf_def fold_use_payload)
  with R(4) have "r = 0 \<and> close_operations ops' = used_operations pm us all ops \<or> r = - ENOMEM"
    by (auto simp: used_operations_def)
  with R(1,2) same_operations_trans [OF xs(2) R(3)] show ?thesis by blast
qed

text \<open>What is on the list while nothing is used, and how much of it the invariant fixes.\<close>

lemma payloads_inv_unused:
  assumes "payloads_inv pm base ps env" and "\<not> is_used ps"
  shows "\<And>e. e \<in> set (payload_elems ps) \<Longrightarrow> \<not> is_fixed e" "payload_elems_used ps = []"
    "p_replacements ps = None" "\<And>oi. oi \<in> set (operations ps) \<Longrightarrow> operation_clean oi"
    "operations_wf (operations ps)" "module_refs env = base"
    "\<And>e. e \<in> set (payload_elems ps) \<Longrightarrow> payload_allowed (operations ps) (pm (payload e))"
proof -
  show u: "\<And>e. e \<in> set (payload_elems ps) \<Longrightarrow> \<not> is_fixed e"
    using assms by (simp add: payloads_inv_def)
  show "payload_elems_used ps = []" using assms u by (simp add: payloads_inv_def filter_empty_conv)
  show "module_refs env = base" using assms mod_count_unfixed [OF u] by (simp add: payloads_inv_def)
  show "p_replacements ps = None" "\<And>oi. oi \<in> set (operations ps) \<Longrightarrow> operation_clean oi"
    "operations_wf (operations ps)"
    "\<And>e. e \<in> set (payload_elems ps) \<Longrightarrow> payload_allowed (operations ps) (pm (payload e))"
    using assms by (simp_all add: payloads_inv_def)
qed

definition fixed_payloads ::
  "(ptr \<Rightarrow> kedr_coi_payload) \<Rightarrow> (ptr \<Rightarrow> bool) \<Rightarrow> operation_payloads \<Rightarrow> ptr list" where
  "fixed_payloads pm live ps = filter (fixable pm live) (map payload (payload_elems ps))"

lemma fixed_payloads_eq:
  "map payload (filter (\<lambda>e. fixable pm live (payload e)) (payload_elems ps)) = fixed_payloads pm live ps"
  by (simp add: fixed_payloads_def filter_map o_def)

lemma unfixed_map:
  "(\<And>e. e \<in> set es \<Longrightarrow> \<not> is_fixed e) \<Longrightarrow>
   map ((\<lambda>e. e\<lparr>is_fixed := False\<rparr>) \<circ> fixed_elem pm live) es = es"
  using map_unfix [of es pm live] by (simp add: o_def)

text \<open>The state after the payloads were used, and the rollback out of any state on the way to it.\<close>

definition used_payloads ::
  "(ptr \<Rightarrow> kedr_coi_payload) \<Rightarrow> (ptr \<Rightarrow> bool) \<Rightarrow> bool \<Rightarrow> operation_payloads \<Rightarrow> operation_payloads" where
  "used_payloads pm live all ps =
     (let us = fixed_payloads pm live ps; ops = used_operations pm us all (operations ps)
      in ps\<lparr>payload_elems := map (fixed_elem pm live) (payload_elems ps), payload_elems_used := us,
            operations := ops, p_replacements := replacement_table ops, is_used := True\<rparr>)"

lemma rollback_eq:
  assumes inv: "payloads_inv pm base ps env" and un: "\<not> is_used ps"
    and "operations_wf ops'" and "same_operations (operations ps) ops'"
    and q: "payload_elems q = map (fixed_elem pm live) (payload_elems ps)"
           "payload_elems_used q = fixed_payloads pm live ps" "operations q = ops'"
           "is_used q = False" "p_replacements q = None"
    and "module_refs env' = (\<lambda>m. base m + mod_count pm (map (fixed_elem pm live) (payload_elems ps)) m)"
  shows "use_rollback pm q env' = (ps, env'\<lparr>module_refs := base\<rparr>)"
proof -
  note I = payloads_inv_unused [OF inv un]
  let ?es = "map (fixed_elem pm live) (payload_elems ps)"
  have "operation_payloads_release_all pm ?es (fixed_payloads pm live ps) env' =
      (map (\<lambda>e. e\<lparr>is_fixed := False\<rparr>) ?es, [],
       env'\<lparr>module_refs := \<lambda>m. module_refs env' m - mod_count pm ?es m\<rparr>)"
    using release_all_eq [of pm ?es "[]" env'] filter_fixed [OF I(1), of "payload_elems ps" pm live]
    by (simp add: fixed_payloads_eq)
  also have "\<dots> = (payload_elems ps, [], env'\<lparr>module_refs := base\<rparr>)"
    using I(1) by (simp add: assms(10) unfixed_map)
  finally have rel: "operation_payloads_release_all pm ?es (fixed_payloads pm live ps) env' =
      (payload_elems ps, [], env'\<lparr>module_refs := base\<rparr>)" .
  have ops: "operation_payloads_unuse_all ops' = operations ps"
    using unuse_all_restores [of "operations ps" ops'] assms(3,4) I(4) by blast
  have "q\<lparr>operations := operations ps, payload_elems := payload_elems ps, payload_elems_used := []\<rparr> = ps"
    using q(4,5) I(2,3) un by (cases ps; cases q) simp
  then show ?thesis by (simp add: use_rollback_def q(1-3) rel ops)
qed


text \<open>The final check of operation_payloads_use, for operations that are all intercepted.\<close>

lemma intercept_all_check:
  assumes wf: "operations_wf ops" and off: "\<And>oi. oi \<in> set ops \<Longrightarrow> o_offset oi \<noteq> - 1"
  shows "(case replacement_table (used_operations pm us True ops) of None \<Rightarrow> True
          | Some rs \<Rightarrow> operation_offset (rs ! 0) = - 1 \<or> operation_offset (rs ! 1) \<noteq> - 1) \<longleftrightarrow> length ops \<noteq> 1"
proof -
  let ?xs = "used_operations pm us True ops"
  have all: "filter operation_replaced ?xs = ?xs" by (simp add: used_operations_all)
  note same = used_operations_wf(2) [OF wf, of pm us True]
  have len: "length ?xs = length ops" using list_all2_lengthD [OF same] by simp
  have "o_offset x \<noteq> - 1" if "x \<in> set ?xs" for x
  proof -
    have "o_offset x \<in> set (map o_offset ?xs)" using that by simp
    then obtain y where "y \<in> set ops" "o_offset y = o_offset x"
      by (auto simp only: same_operations_offsets [OF same] set_map)
    with off [of y] show ?thesis by simp
  qed
  moreover have "replacement_table ?xs =
      (if ?xs = [] then None else Some (map operation_replacement ?xs @ empty_replacements))"
    by (simp add: replacement_table_def all)
  ultimately show ?thesis
    by (cases ?xs rule: remdups_adj.cases)
      (auto simp: len [symmetric] operation_replacement_def empty_replacements_def)
qed

lemma use_ok:
  assumes inv: "payloads_inv pm base ps env" and un: "\<not> is_used ps"
  shows "(\<exists>as'. operation_payloads_use pm live 0 ps all env =
            Some (- ENOMEM, ps, env\<lparr>env_allocs := as'\<rparr>)) \<or>
         (if all \<and> length (operations ps) \<noteq> 1 then operation_payloads_use pm live 0 ps all env = None
          else \<exists>env'. operation_payloads_use pm live 0 ps all env = Some (0, used_payloads pm live all ps, env') \<and>
                 module_refs env' =
                   (\<lambda>m. base m + mod_count pm (payload_elems (used_payloads pm live all ps)) m))"
proof -
  note I = payloads_inv_unused [OF inv un]
  let ?es = "map (fixed_elem pm live) (payload_elems ps)"
  let ?us = "fixed_payloads pm live ps"
  let ?env = "env\<lparr>module_refs := \<lambda>m. base m + mod_count pm ?es m\<rparr>"
  let ?U = "used_operations pm ?us all (operations ps)"
  have fix_eq: "operation_payloads_fix_all pm live (payload_elems ps) [] env = (?es, ?us, ?env)"
    using fix_all_eq [OF I(1)] by (simp add: fixed_payloads_eq I(6))
  have al: "payload_allowed (operations ps) (pm p)" if "p \<in> set ?us" for p
    using that I(7) by (auto simp: fixed_payloads_def)
  from use_elems_used [where us = ?us and pm = pm and as = "env_allocs env" and all = all, OF I(5) al]
  obtain r ops' as' where
    R: "use_elems pm ?us (start_operations all (operations ps)) (env_allocs env) = Some (r, ops', as')"
       "operations_wf ops'" "same_operations (operations ps) ops'"
       "r = 0 \<and> close_operations ops' = ?U \<or> r = - ENOMEM" by auto
  have st: "(if all then map intercept_operation (operations ps) else operations ps) =
      start_operations all (operations ps)" by (simp add: start_operations_def)
  have roll: "use_rollback pm (ps\<lparr>payload_elems := ?es, payload_elems_used := ?us, operations := ops\<rparr>)
      (?env\<lparr>env_allocs := as\<rparr>) = (ps, env\<lparr>env_allocs := as\<rparr>)"
    if "operations_wf ops" "same_operations (operations ps) ops" for ops as
    using rollback_eq [OF inv un that, of "ps\<lparr>payload_elems := ?es, payload_elems_used := ?us, operations := ops\<rparr>"
        live "?env\<lparr>env_allocs := as\<rparr>"] un I(3,6)
    by (cases env) simp
  show ?thesis
  proof (cases "r = 0")
    case False
    then have "operation_payloads_use pm live 0 ps all env = Some (- ENOMEM, ps, env\<lparr>env_allocs := as'\<rparr>)"
      using R(4) roll [OF R(2,3), of as'] un
      by (simp add: operation_payloads_use_def fix_eq st R(1))
    then show ?thesis by blast
  next
    case True
    obtain U where U_eq: "U = ?U" by blast
    then have U: "close_operations ops' = U" using True R(4) by (auto simp: errno_defs)
    note W = used_operations_wf [OF I(5), of pm ?us all, folded U_eq]
    from create_replacements_eq [of U as'] obtain res as2 where
      C: "operation_payloads_create_replacements U as' = (res, as2)"
         "res = Inr (replacement_table U) \<or> res = Inl (- ENOMEM)" by blast
    from C(2) show ?thesis
    proof
      assume "res = Inl (- ENOMEM)"
      then have "operation_payloads_use pm live 0 ps all env = Some (- ENOMEM, ps, env\<lparr>env_allocs := as2\<rparr>)"
        using roll [OF W, of as2] un
        by (simp add: operation_payloads_use_def fix_eq st R(1) True U C(1) Let_def)
      then show ?thesis by blast
    next
      assume res: "res = Inr (replacement_table U)"
      have off: "o_offset oi \<noteq> - 1" if "oi \<in> set (operations ps)" for oi
        using inv that by (simp add: payloads_inv_def)
      note chk = intercept_all_check [OF I(5) off, of pm ?us]
      let ?bad = "case replacement_table U of None \<Rightarrow> True
          | Some rs \<Rightarrow> operation_offset (rs ! 0) = - 1 \<or> operation_offset (rs ! 1) \<noteq> - 1"
      let ?done = "Some (0, used_payloads pm live all ps, ?env\<lparr>env_allocs := as2\<rparr>)"
      have "operation_payloads_use pm live 0 ps all env = (if all \<and> ?bad then None else ?done)"
        using un by (simp add: operation_payloads_use_def fix_eq st R(1) True U C(1) res
            used_payloads_def Let_def U_eq [symmetric])
      moreover have "all \<and> ?bad \<longleftrightarrow> all \<and> length (operations ps) \<noteq> 1"
        using chk unfolding U_eq by (cases all) simp_all
      ultimately have "operation_payloads_use pm live 0 ps all env =
          (if all \<and> length (operations ps) \<noteq> 1 then None else ?done)" by (simp only:)
      then show ?thesis
        by (cases "all \<and> length (operations ps) \<noteq> 1") (simp_all add: used_payloads_def Let_def del: de_Morgan_conj)
    qed
  qed
qed


subsection \<open>Every operation keeps the invariant\<close>

lemma fixed_used:
  assumes "payloads_inv pm base ps env" and "\<not> is_used ps"
  shows "map payload (filter is_fixed (map (fixed_elem pm live) (payload_elems ps))) = fixed_payloads pm live ps"
  using filter_fixed [OF payloads_inv_unused(1) [OF assms], of "payload_elems ps" pm live]
  by (simp add: fixed_payloads_eq)

lemma used_inv:
  assumes inv: "payloads_inv pm base ps env" and un: "\<not> is_used ps"
    and refs: "module_refs env' = (\<lambda>m. base m + mod_count pm (payload_elems (used_payloads pm live all ps)) m)"
  shows "payloads_inv pm base (used_payloads pm live all ps) env'"
proof -
  note I = payloads_inv_unused [OF inv un]
  let ?us = "fixed_payloads pm live ps"
  let ?U = "used_operations pm ?us all (operations ps)"
  note W = used_operations_wf [OF I(5), of pm ?us all]
  have undo: "operation_payloads_unuse_all ?U = operations ps"
    by (rule used_unuse [OF I(5)]) (simp add: I(4))
  have "o_offset oi \<noteq> - 1" if "oi \<in> set ?U" for oi
  proof -
    have "o_offset oi \<in> set (map o_offset ?U)" using that by simp
    then obtain y where "y \<in> set (operations ps)" "o_offset y = o_offset oi"
      by (auto simp only: same_operations_offsets [OF W(2)] set_map)
    with inv show ?thesis by (force simp: payloads_inv_def)
  qed
  moreover have "payload_allowed ?U (pm (payload e))" if "e \<in> set (payload_elems ps)" for e
    using I(7) [OF that] by (simp add: payload_allowed_cong [OF W(2)])
  moreover have "distinct (map payload (payload_elems ps))" using inv by (simp add: payloads_inv_def)
  moreover have "operations_used pm ?us ?U" unfolding operations_used_def undo by blast
  ultimately show ?thesis
    using W(1) refs fixed_used [OF inv un, of live]
    by (auto simp: payloads_inv_def used_payloads_def Let_def o_def)
qed

text \<open>The end of a use puts everything back.\<close>

lemma unuse_used:
  assumes inv: "payloads_inv pm base ps env" and un: "\<not> is_used ps"
    and refs: "module_refs env' = (\<lambda>m. base m + mod_count pm (payload_elems (used_payloads pm live all ps)) m)"
  shows "operation_payloads_unuse pm (used_payloads pm live all ps) env' = (ps, env'\<lparr>module_refs := base\<rparr>)"
proof -
  note I = payloads_inv_unused [OF inv un]
  show ?thesis
    unfolding operation_payloads_unuse_def
    by (rule rollback_eq [OF inv un used_operations_wf [OF I(5)], where live = live])
      (simp_all add: used_payloads_def Let_def refs)
qed

lemma unuse_inv:
  assumes inv: "payloads_inv pm base ps env" and u: "is_used ps"
  shows "\<exists>ps' env'. operation_payloads_unuse pm ps env = (ps', env') \<and> payloads_inv pm base ps' env' \<and>
           \<not> is_used ps' \<and> module_refs env' = base"
proof -
  let ?es = "payload_elems ps"
  have used: "payload_elems_used ps = map payload (filter is_fixed ?es)" using inv by (simp add: payloads_inv_def)
  have rel: "operation_payloads_release_all pm ?es (payload_elems_used ps) env =
      (map (\<lambda>e. e\<lparr>is_fixed := False\<rparr>) ?es, [], env\<lparr>module_refs := base\<rparr>)"
    using release_all_eq [of pm ?es "[]" env] inv by (simp add: payloads_inv_def)
  let ?ops = "operation_payloads_unuse_all (operations ps)"
  have wf: "operations_wf (operations ps)" using inv by (simp add: payloads_inv_def)
  note W = unuse_all_clean [OF wf]
  have same: "same_operations (operations ps) ?ops" using W by blast
  have off: "o_offset oi \<noteq> - 1" if "oi \<in> set ?ops" for oi
  proof -
    have "o_offset oi \<in> set (map o_offset ?ops)" using that by simp
    then obtain y where "y \<in> set (operations ps)" "o_offset y = o_offset oi"
      by (auto simp only: same_operations_offsets [OF same] set_map)
    with inv show ?thesis by (force simp: payloads_inv_def)
  qed
  have un: "\<forall>e \<in> set (map (\<lambda>e. e\<lparr>is_fixed := False\<rparr>) ?es). \<not> is_fixed e" by auto
  have zero: "mod_count pm (map (\<lambda>e. e\<lparr>is_fixed := False\<rparr>) ?es) = (\<lambda>m. 0)"
    by (rule mod_count_unfixed) auto
  have "payloads_inv pm base
      (ps\<lparr>is_used := False, p_replacements := None, operations := ?ops,
         payload_elems := map (\<lambda>e. e\<lparr>is_fixed := False\<rparr>) ?es, payload_elems_used := []\<rparr>)
      (env\<lparr>module_refs := base\<rparr>)"
    using inv W off un
    by (auto simp: payloads_inv_def payload_allowed_cong [OF same] o_def filter_empty_conv zero)
  then show ?thesis
    by (simp add: operation_payloads_unuse_def use_rollback_def rel)
qed

lemma add_inv:
  assumes inv: "payloads_inv pm base ps env"
  shows "\<exists>r ps' as'. operation_payloads_add pm lock ps p as = (r, ps', as') \<and> payloads_inv pm base ps' env \<and>
           (if \<not> payload_allowed (operations ps) (pm p) then r = - EINVAL \<and> ps' = ps
            else r = - ENOMEM \<and> ps' = ps \<or> r = lock \<and> lock \<noteq> 0 \<and> ps' = ps \<or>
                 lock = 0 \<and> (if p \<in> payload ` set (payload_elems ps) then r = - EEXIST \<and> ps' = ps
                  else r = 0 \<and> ps' = ps\<lparr>payload_elems := payload_elems ps @ [\<lparr>payload = p, is_fixed = False\<rparr>]\<rparr>))"
proof -
  have d: "distinct (map o_offset (operations ps))" using inv by (simp add: payloads_inv_def operations_wf_def)
  have m: "mod_count pm (payload_elems ps @ [\<lparr>payload = p, is_fixed = False\<rparr>]) = mod_count pm (payload_elems ps)"
    by (simp add: fun_eq_iff mod_count_append mod_count_Cons)
  have ins: "payloads_inv pm base (ps\<lparr>payload_elems := payload_elems ps @ [\<lparr>payload = p, is_fixed = False\<rparr>]\<rparr>) env"
    if "payload_allowed (operations ps) (pm p)" "p \<notin> payload ` set (payload_elems ps)"
    using inv that by (auto simp: payloads_inv_def m)
  have ex: "(\<exists>e \<in> set (payload_elems ps). payload e = p) \<longleftrightarrow> p \<in> payload ` set (payload_elems ps)" by auto
  show ?thesis
    using inv ins
    by (auto simp: operation_payloads_add_def check_payload_iff [OF d] ex errno_defs split: option.splits prod.splits)
qed

lemma remove1_distinct: "distinct xs \<Longrightarrow> remove1 e xs = filter (\<lambda>x. x \<noteq> e) xs"
proof (induction xs)
  case (Cons x xs)
  then have "x = e \<Longrightarrow> filter (\<lambda>y. y \<noteq> e) xs = xs" by (intro filter_True) auto
  with Cons show ?case by simp
qed simp

lemma remove_inv:
  assumes inv: "payloads_inv pm base ps env"
  shows "\<exists>r ps'. operation_payloads_remove lock ps p = (r, ps') \<and> payloads_inv pm base ps' env \<and>
           (if lock \<noteq> 0 then r = lock \<and> ps' = ps
            else if p \<notin> payload ` set (payload_elems ps) then r = - ENOENT \<and> ps' = ps
            else if p \<in> set (payload_elems_used ps) then r = - EBUSY \<and> ps' = ps
            else r = 0 \<and> ps' = ps\<lparr>payload_elems := filter (\<lambda>e. payload e \<noteq> p) (payload_elems ps)\<rparr>)"
proof (cases "find (\<lambda>e. payload e = p) (payload_elems ps)")
  case None
  then have "p \<notin> payload ` set (payload_elems ps)" by (auto simp: find_None_iff)
  with None inv show ?thesis by (simp add: operation_payloads_remove_def)
next
  case (Some e)
  then have e: "e \<in> set (payload_elems ps)" "payload e = p" by (auto simp: find_Some_iff)
  have d: "distinct (map payload (payload_elems ps))" using inv by (simp add: payloads_inv_def)
  have uniq: "x = e" if "x \<in> set (payload_elems ps)" "payload x = p" for x
    using that e d by (metis distinct_map inj_onD)
  have used: "payload_elems_used ps = map payload (filter is_fixed (payload_elems ps))"
    using inv by (simp add: payloads_inv_def)
  have fixed: "p \<in> set (payload_elems_used ps) \<longleftrightarrow> is_fixed e"
  proof
    assume "p \<in> set (payload_elems_used ps)"
    then obtain x where "x \<in> set (payload_elems ps)" "payload x = p" "is_fixed x" by (auto simp: used)
    with uniq [of x] show "is_fixed e" by simp
  next
    assume "is_fixed e"
    with e have "e \<in> set (filter is_fixed (payload_elems ps))" by simp
    with e(2) show "p \<in> set (payload_elems_used ps)" by (force simp: used)
  qed
  have rm: "remove1 e (payload_elems ps) = filter (\<lambda>x. payload x \<noteq> p) (payload_elems ps)"
  proof -
    have "distinct (payload_elems ps)" using d by (simp add: distinct_map)
    then have "remove1 e (payload_elems ps) = filter (\<lambda>x. x \<noteq> e) (payload_elems ps)"
      by (rule remove1_distinct)
    also have "\<dots> = filter (\<lambda>x. payload x \<noteq> p) (payload_elems ps)"
      by (rule filter_cong [OF refl]) (use e uniq in blast)
    finally show ?thesis .
  qed
  let ?es = "filter (\<lambda>x. payload x \<noteq> p) (payload_elems ps)"
  have other: "payload x \<noteq> p" if "\<not> is_fixed e" "is_fixed x" "x \<in> set (payload_elems ps)" for x
    using that uniq [of x] by blast
  have keep: "filter is_fixed ?es = filter is_fixed (payload_elems ps)" if "\<not> is_fixed e"
    unfolding filter_filter by (rule filter_cong [OF refl]) (use other [OF that] in blast)
  have "mod_count pm ?es = mod_count pm (payload_elems ps)" if "\<not> is_fixed e"
  proof -
    have "filter (\<lambda>x. payload x \<noteq> p \<and> is_fixed x \<and> Q x) (payload_elems ps) =
        filter (\<lambda>x. is_fixed x \<and> Q x) (payload_elems ps)" for Q
      by (rule filter_cong [OF refl]) (use other [OF that] in blast)
    then show ?thesis by (simp add: mod_count_def fun_eq_iff)
  qed
  then have "payloads_inv pm base (ps\<lparr>payload_elems := ?es\<rparr>) env" if "\<not> is_fixed e"
    using inv that keep by (auto simp: payloads_inv_def distinct_map_filter)
  then have new: "payloads_inv pm base (ps\<lparr>payload_elems := remove1 e (payload_elems ps)\<rparr>) env"
    if "\<not> is_fixed e" using that by (simp add: rm)
  have "p \<in> payload ` set (payload_elems ps)" using e by blast
  then show ?thesis
    using inv new by (simp add: operation_payloads_remove_def Some fixed flip: rm)
qed


subsection \<open>Reachable states\<close>

lemma operations_fill_ok:
  "\<exists>r ops' as'. operations_fill is ops as = (r, ops', as') \<and>
     (r = 0 \<and> ops' = ops @ map operation_info_init is \<or> r = - ENOMEM)"
proof (induction "is" arbitrary: ops as)
  case (Cons i "is")
  obtain m as1 where "kmalloc as = (m, as1)" by (cases "kmalloc as")
  with Cons.IH [of "ops @ [operation_info_init i]" as1] show ?case by (cases m) auto
qed simp

lemma operation_info_init_clean: "operation_clean (operation_info_init i)"
  by (simp add: operation_clean_def operation_info_init_def)

lemma payloads_init_ok:
  assumes run: "operation_payloads_init ints as = (Inr ps, as')"
    and d: "distinct (map i_operation_offset (for_each_intermediate (case ints of None \<Rightarrow> [] | Some is \<Rightarrow> is)))"
    and "module_refs env = base"
  shows "payloads_inv pm base ps env" and "\<not> is_used ps"
    and "operations ps = map operation_info_init (for_each_intermediate (case ints of None \<Rightarrow> [] | Some is \<Rightarrow> is))"
proof -
  let ?is = "for_each_intermediate (case ints of None \<Rightarrow> [] | Some is \<Rightarrow> is)"
  have nil: "for_each_intermediate [] = []" by (simp add: for_each_intermediate_def)
  have ps: "ps = \<lparr>payload_elems = [], operations = map operation_info_init ?is, is_used = False,
      payload_elems_used = [], p_replacements = None\<rparr>"
  proof (cases ints)
    case None
    then show ?thesis using run by (simp add: operation_payloads_init_def nil)
  next
    case (Some xs)
    obtain r ops as1 where "operations_fill (for_each_intermediate xs) [] as = (r, ops, as1)"
      "r = 0 \<and> ops = [] @ map operation_info_init (for_each_intermediate xs) \<or> r = - ENOMEM"
      using operations_fill_ok [of "for_each_intermediate xs" "[]" as] by blast
    then show ?thesis using run by (auto simp: operation_payloads_init_def Some errno_defs split: if_splits)
  qed
  have off: "o_offset (operation_info_init i) = i_operation_offset i" for i by (simp add: operation_info_init_def)
  have "i \<in> set ?is \<Longrightarrow> i_operation_offset i \<noteq> - 1" for i
    by (auto simp: for_each_intermediate_def dest: set_takeWhileD)
  moreover have "o_offset \<circ> operation_info_init = i_operation_offset"
    by (simp add: off fun_eq_iff)
  ultimately show "payloads_inv pm base ps env"
    using d assms(3)
    by (simp add: payloads_inv_def ps operations_wf_def off operation_info_init_clean clean_wf)
  show "\<not> is_used ps" "operations ps = map operation_info_init ?is" by (simp_all add: ps)
qed

lemma use_busy: "is_used ps \<Longrightarrow> lock = 0 \<Longrightarrow> operation_payloads_use pm live lock ps all env = Some (- EBUSY, ps, env)"
  by (simp add: operation_payloads_use_def)

lemma use_lock: "lock \<noteq> 0 \<Longrightarrow> operation_payloads_use pm live lock ps all env = Some (lock, ps, env)"
  by (simp add: operation_payloads_use_def)

lemma inv_refs_cong: "module_refs env' = module_refs env \<Longrightarrow> payloads_inv pm base ps env' = payloads_inv pm base ps env"
  by (simp add: payloads_inv_def)

lemma use_inv:
  assumes inv: "payloads_inv pm base ps env" and run: "operation_payloads_use pm live lock ps all env = Some (r, ps', env')"
  shows "payloads_inv pm base ps' env'"
proof (cases "lock = 0 \<and> \<not> is_used ps")
  case True
  then have un: "\<not> is_used ps" by simp
  from use_ok [OF inv un, of live all] show ?thesis
  proof
    assume "\<exists>as'. operation_payloads_use pm live 0 ps all env = Some (- ENOMEM, ps, env\<lparr>env_allocs := as'\<rparr>)"
    with run True inv show ?thesis by (auto simp: inv_refs_cong [of "env\<lparr>env_allocs := _\<rparr>" env])
  next
    assume A: "if all \<and> length (operations ps) \<noteq> 1 then operation_payloads_use pm live 0 ps all env = None
          else \<exists>env'. operation_payloads_use pm live 0 ps all env = Some (0, used_payloads pm live all ps, env') \<and>
                 module_refs env' = (\<lambda>m. base m + mod_count pm (payload_elems (used_payloads pm live all ps)) m)"
    then obtain env1 where "operation_payloads_use pm live 0 ps all env = Some (0, used_payloads pm live all ps, env1)"
      "module_refs env1 = (\<lambda>m. base m + mod_count pm (payload_elems (used_payloads pm live all ps)) m)"
      using run True by (cases "all \<and> length (operations ps) \<noteq> 1") (simp, metis)
    with used_inv [OF inv un, of env1 live all] run True show ?thesis by simp
  qed
next
  case False
  then show ?thesis using run inv use_busy use_lock by (cases "lock = 0") auto
qed

text \<open>
  One call on the payloads of an interceptor; the outcome of taking the mutex, of allocations
  and of try_module_get is arbitrary.
\<close>

inductive payloads_step ::
  "(ptr \<Rightarrow> kedr_coi_payload) \<Rightarrow> operation_payloads \<times> kernel_env \<Rightarrow> operation_payloads \<times> kernel_env \<Rightarrow> bool"
  for pm where
  step_add: "operation_payloads_add pm lock ps p (env_allocs env) = (r, ps', as') \<Longrightarrow>
     payloads_step pm (ps, env) (ps', env\<lparr>env_allocs := as'\<rparr>)"
| step_remove: "operation_payloads_remove lock ps p = (r, ps') \<Longrightarrow> payloads_step pm (ps, env) (ps', env)"
| step_use: "operation_payloads_use pm live lock ps all env = Some (r, ps', env') \<Longrightarrow>
     payloads_step pm (ps, env) (ps', env')"
| step_unuse: "is_used ps \<Longrightarrow> operation_payloads_unuse pm ps env = (ps', env') \<Longrightarrow>
     payloads_step pm (ps, env) (ps', env')"

inductive payloads_reach ::
  "(ptr \<Rightarrow> kedr_coi_payload) \<Rightarrow> operation_payloads \<times> kernel_env \<Rightarrow> operation_payloads \<times> kernel_env \<Rightarrow> bool"
  for pm and s0 where
  payloads_start: "payloads_reach pm s0 s0"
| payloads_next: "payloads_reach pm s0 s \<Longrightarrow> payloads_step pm s s' \<Longrightarrow> payloads_reach pm s0 s'"

inductive_cases payloads_stepE: "payloads_step pm (ps, env) s'"

lemma payloads_step_inv:
  assumes "payloads_step pm (ps, env) (ps', env')" and inv: "payloads_inv pm base ps env"
  shows "payloads_inv pm base ps' env'"
  using assms(1)
proof (cases rule: payloads_step.cases)
  case (step_add lock p r as')
  with add_inv [OF inv, of lock p "env_allocs env"] show ?thesis
    by (auto simp: inv_refs_cong [of "env\<lparr>env_allocs := as'\<rparr>" env])
next
  case (step_remove lock p r)
  with remove_inv [OF inv, of lock p] show ?thesis by auto
next
  case (step_use live lock all r)
  then show ?thesis using use_inv [OF inv] by blast
next
  case step_unuse
  with unuse_inv [OF inv] show ?thesis by auto
qed

lemma payloads_reach_inv:
  assumes "payloads_reach pm s0 s" and "payloads_inv pm base (fst s0) (snd s0)"
  shows "payloads_inv pm base (fst s) (snd s)"
  using assms by induction (metis payloads_step_inv prod.collapse)+

end
