(* ===== verification/Interceptor_Spec.thy ===== *)
theory Interceptor_Spec
  imports Interceptors Payload_Inv Foreign_Spec Instr_Reach "HOL-Library.Sublist"
begin

text \<open>
  What the interface promises: starting an interceptor with registered payloads and watching
  an object makes the intermediate operations be called in place of the intercepted ones, and
  gives them the original operation and the handlers; a start that fails leaves everything as
  it was.
\<close>

subsection \<open>Allocations are only consumed\<close>

lemma kmalloc_suffix: "kmalloc as = (m, as') \<Longrightarrow> suffix as' as"
  by (auto simp: kmalloc_def suffix_ConsI split: list.splits)

lemma parray_add_suffix: "parray_add_elem a e as = (r, a', as') \<Longrightarrow> suffix as' as"
  by (auto simp: parray_add_elem_def dest: kmalloc_suffix split: prod.splits option.splits)

lemma add_pre_suffix: "operation_info_add_pre oi p ext as = (r, oi', as') \<Longrightarrow> suffix as' as"
  by (auto simp: operation_info_add_pre_def Let_def split: prod.splits if_splits
      dest!: parray_add_suffix intro: suffix_order.trans)

lemma add_post_suffix: "operation_info_add_post oi p ext as = (r, oi', as') \<Longrightarrow> suffix as' as"
  by (auto simp: operation_info_add_post_def Let_def split: prod.splits if_splits
      dest!: parray_add_suffix intro: suffix_order.trans)

lemma use_handlers_suffix:
  assumes "\<And>oi p ext as r oi' as'. add oi p ext as = (r, oi', as') \<Longrightarrow> suffix as' as"
    and "use_handlers add hs ops as = Some (r, ops', as')"
  shows "suffix as' as"
  using assms(2)
proof (induction hs arbitrary: ops as)
  case (Cons h hs)
  then obtain j where j: "operation_payloads_find_operation ops (h_offset h) = Some j"
    by (auto simp: bind_eq_Some_conv)
  obtain r1 oi as1 where a: "add (ops ! j) (func h) (external h) as = (r1, oi, as1)"
    by (metis prod.exhaust)
  show ?case
    using Cons.prems Cons.IH [of "ops[j := oi]" as1] assms(1) [OF a]
    by (auto simp: j a Let_def split: if_splits intro: suffix_order.trans)
qed simp

lemma use_elem_suffix:
  assumes "operation_payloads_use_elem p ops as = Some (r, ops', as')"
  shows "suffix as' as"
proof -
  have A: "suffix as2 as1" if "(case hs of None \<Rightarrow> Some (0, ops, as1)
        | Some hs \<Rightarrow> use_handlers operation_info_add_pre (for_each_handler hs) ops as1) = Some (r, ops2, as2)"
    for hs ops as1 r ops2 as2
    using that use_handlers_suffix [of operation_info_add_pre, OF add_pre_suffix] by (cases hs) auto
  have B: "suffix as2 as1" if "(case hs of None \<Rightarrow> Some (0, ops, as1)
        | Some hs \<Rightarrow> use_handlers operation_info_add_post (for_each_handler hs) ops as1) = Some (r, ops2, as2)"
    for hs ops as1 r ops2 as2
    using that use_handlers_suffix [of operation_info_add_post, OF add_post_suffix] by (cases hs) auto
  from assms obtain r1 ops1 as1 where
    C: "(case pre_handlers p of None \<Rightarrow> Some (0, ops, as)
        | Some hs \<Rightarrow> use_handlers operation_info_add_pre (for_each_handler hs) ops as) = Some (r1, ops1, as1)"
       "if r1 \<noteq> 0 then (r1, ops1, as1) = (r, ops', as')
        else (case post_handlers p of None \<Rightarrow> Some (0, ops1, as1)
        | Some hs \<Rightarrow> use_handlers operation_info_add_post (for_each_handler hs) ops1 as1) = Some (r, ops', as')"
    unfolding operation_payloads_use_elem_def by (auto simp: bind_eq_Some_conv split: if_splits)
  show ?thesis
  proof (cases "r1 = 0")
    case True
    with C(2) have "(case post_handlers p of None \<Rightarrow> Some (0, ops1, as1)
        | Some hs \<Rightarrow> use_handlers operation_info_add_post (for_each_handler hs) ops1 as1) = Some (r, ops', as')"
      by simp
    from B [OF this] A [OF C(1)] show ?thesis by (rule suffix_order.trans)
  qed (use A [OF C(1)] C(2) in auto)
qed

lemma use_elems_suffix: "use_elems pm us ops as = Some (r, ops', as') \<Longrightarrow> suffix as' as"
proof (induction us arbitrary: ops as)
  case (Cons p us)
  then obtain r1 ops1 as1 where
    a: "operation_payloads_use_elem (pm p) ops as = Some (r1, ops1, as1)"
       "if r1 \<noteq> 0 then (r1, ops1, as1) = (r, ops', as') else use_elems pm us ops1 as1 = Some (r, ops', as')"
    by (auto simp: bind_eq_Some_conv split: if_splits)
  with use_elem_suffix [OF a(1)] Cons.IH show ?case by (auto split: if_splits intro: suffix_order.trans)
qed simp

lemma create_replacements_suffix:
  "operation_payloads_create_replacements ops as = (res, as') \<Longrightarrow> suffix as' as"
  by (auto simp: operation_payloads_create_replacements_def Let_def dest: kmalloc_suffix
      split: if_splits prod.splits option.splits)

lemma release_all_allocs:
  "operation_payloads_release_all pm es used env = (es', used', env') \<Longrightarrow> env_allocs env' = env_allocs env"
  by (induction es arbitrary: es' used env)
    (auto simp: operation_payloads_release_elem_def module_put_def Let_def split: if_splits prod.splits)

lemma fix_all_allocs:
  "operation_payloads_fix_all pm live es used env = (es', used', env') \<Longrightarrow> env_allocs env' = env_allocs env"
  by (induction es arbitrary: es' used env)
    (auto simp: operation_payloads_fix_elem_def try_module_get_def Let_def split: if_splits prod.splits)

lemma rollback_allocs: "use_rollback pm ps env = (ps', env') \<Longrightarrow> env_allocs env' = env_allocs env"
  by (auto simp: use_rollback_def dest: release_all_allocs split: prod.splits)

lemma unuse_allocs: "operation_payloads_unuse pm ps env = (ps', env') \<Longrightarrow> env_allocs env' = env_allocs env"
  by (auto simp: operation_payloads_unuse_def dest: rollback_allocs)

lemma use_suffix:
  assumes "operation_payloads_use pm live lock ps all env = Some (r, ps', env')"
  shows "suffix (env_allocs env') (env_allocs env)"
proof (cases "lock \<noteq> 0 \<or> is_used ps")
  case True
  then show ?thesis using assms by (auto simp: operation_payloads_use_def split: if_splits)
next
  case False
  obtain es used env1 where F: "operation_payloads_fix_all pm live (payload_elems ps) [] env = (es, used, env1)"
    by (metis prod.exhaust)
  let ?start = "if all then map intercept_operation (operations ps) else operations ps"
  from assms False F obtain r1 ops1 as1 where
    U: "use_elems pm used ?start (env_allocs env1) = Some (r1, ops1, as1)"
    by (auto simp: operation_payloads_use_def bind_eq_Some_conv)
  have s1: "suffix as1 (env_allocs env)" using use_elems_suffix [OF U] fix_all_allocs [OF F] by simp
  obtain res as2 where C: "operation_payloads_create_replacements (close_operations ops1) as1 = (res, as2)"
    by (metis prod.exhaust)
  have s2: "suffix as2 (env_allocs env)"
    using create_replacements_suffix [OF C] s1 by (rule suffix_order.trans)
  show ?thesis
    using assms False s1 s2
    by (auto simp: operation_payloads_use_def F U C Let_def dest!: rollback_allocs
        split: prod.splits if_splits sum.splits)
qed

lemma world_ok_suffix:
  assumes "world_ok hp w" and "suffix as (pending w)"
  shows "world_ok hp (w\<lparr>pending := as\<rparr>)"
proof -
  have "distinct (filter (\<lambda>a. a \<noteq> None) as)"
    using assms by (auto simp: world_ok_def suffix_def)
  then show ?thesis using assms set_mono_suffix [OF assms(2)] by (auto simp: world_ok_def)
qed


subsection \<open>Payloads that are ready to be used\<close>

definition payloads_ready :: "(ptr \<Rightarrow> kedr_coi_payload) \<Rightarrow> operation_payloads \<Rightarrow> bool" where
  "payloads_ready pm ps \<longleftrightarrow> \<not> is_used ps \<and> (\<exists>base env. payloads_inv pm base ps env)"

lemma payloads_readyD:
  assumes "payloads_ready pm ps"
  shows "\<not> is_used ps" "payloads_inv pm (module_refs env) ps env"
proof -
  from assms obtain base env0 where inv: "payloads_inv pm base ps env0" and un: "\<not> is_used ps"
    by (auto simp: payloads_ready_def)
  show "\<not> is_used ps" by (rule un)
  show "payloads_inv pm (module_refs env) ps env"
    using inv un mod_count_unfixed [OF payloads_inv_unused(1) [OF inv un]] by (simp add: payloads_inv_def)
qed

text \<open>The references of modules that the used payloads hold.\<close>

definition used_refs :: "(ptr \<Rightarrow> kedr_coi_payload) \<Rightarrow> (ptr \<Rightarrow> bool) \<Rightarrow> operation_payloads \<Rightarrow> ptr \<Rightarrow> int" where
  "used_refs pm live ps = mod_count pm (map (fixed_elem pm live) (payload_elems ps))"

lemma use_ready:
  assumes "payloads_ready pm ps"
  shows "(lock \<noteq> 0 \<and> operation_payloads_use pm live lock ps all env = Some (lock, ps, env)) \<or>
         (\<exists>as'. operation_payloads_use pm live lock ps all env = Some (- ENOMEM, ps, env\<lparr>env_allocs := as'\<rparr>)) \<or>
         (all \<and> length (operations ps) \<noteq> 1 \<and> operation_payloads_use pm live lock ps all env = None) \<or>
         (lock = 0 \<and> (all \<longrightarrow> length (operations ps) = 1) \<and>
          (\<exists>as'. operation_payloads_use pm live lock ps all env =
             Some (0, used_payloads pm live all ps,
               \<lparr>env_allocs = as', module_refs = \<lambda>m. module_refs env m + used_refs pm live ps m\<rparr>)))"
proof (cases "lock = 0")
  case False
  then show ?thesis by (simp add: use_lock)
next
  case True
  note R = payloads_readyD [OF assms]
  have rec: "env' = \<lparr>env_allocs = env_allocs env', module_refs = f\<rparr>" if "module_refs env' = f" for f and env' :: kernel_env
    using that by (cases env') simp
  from use_ok [OF R(2) R(1), of live all env] show ?thesis
  proof
    assume A: "if all \<and> length (operations ps) \<noteq> 1 then operation_payloads_use pm live 0 ps all env = None
          else \<exists>env'. operation_payloads_use pm live 0 ps all env = Some (0, used_payloads pm live all ps, env') \<and>
                 module_refs env' =
                   (\<lambda>m. module_refs env m + mod_count pm (payload_elems (used_payloads pm live all ps)) m)"
    show ?thesis
    proof (cases "all \<and> length (operations ps) \<noteq> 1")
      case False
      with A obtain env' where
        E: "operation_payloads_use pm live 0 ps all env = Some (0, used_payloads pm live all ps, env')"
           "module_refs env' = (\<lambda>m. module_refs env m + used_refs pm live ps m)"
        by (auto simp: used_payloads_def Let_def used_refs_def)
      then have "operation_payloads_use pm live 0 ps all env = Some (0, used_payloads pm live all ps,
          \<lparr>env_allocs = env_allocs env', module_refs = \<lambda>m. module_refs env m + used_refs pm live ps m\<rparr>)"
        using rec [OF E(2)] by metis
      with False True show ?thesis by auto
    qed (use A True in simp)
  qed (use True in blast)
qed

lemma unuse_ready:
  assumes "payloads_ready pm ps"
  shows "operation_payloads_unuse pm (used_payloads pm live all ps) env =
           (ps, env\<lparr>module_refs := \<lambda>m. module_refs env m - used_refs pm live ps m\<rparr>)"
proof -
  let ?base = "\<lambda>m. module_refs env m - used_refs pm live ps m"
  have "payloads_inv pm ?base ps (env\<lparr>module_refs := ?base\<rparr>)"
    using payloads_readyD(2) [OF assms, of "env\<lparr>module_refs := ?base\<rparr>"] by simp
  from unuse_used [OF this payloads_readyD(1) [OF assms], of env live all] show ?thesis
    by (simp add: used_payloads_def Let_def used_refs_def)
qed

lemma used_payloads_sel:
  "is_used (used_payloads pm live all ps)" "p_replacements (used_payloads pm live all ps) =
     replacement_table (operations (used_payloads pm live all ps))"
  "operations (used_payloads pm live all ps) = used_operations pm (fixed_payloads pm live ps) all (operations ps)"
  by (simp_all add: used_payloads_def Let_def)

subsection \<open>The replacements an instrumentor is created with\<close>

abbreviation table_of :: "operation_info list \<Rightarrow> kedr_coi_replacement list" where
  "table_of ops \<equiv> (case replacement_table ops of None \<Rightarrow> empty_replacements | Some rs \<Rightarrow> rs)"

text \<open>Whether a call of an operation with the original op is intercepted.\<close>

definition intercepts :: "operation_info \<Rightarrow> ptr \<Rightarrow> bool" where
  "intercepts oi op \<longleftrightarrow> (if op = NULL then default_is_intercepted oi else is_intercepted oi)"

lemma table_of_for_each:
  assumes "\<And>oi. oi \<in> set ops \<Longrightarrow> o_offset oi \<noteq> - 1"
  shows "for_each_replacement (table_of ops) = map operation_replacement (filter operation_replaced ops)"
proof -
  let ?xs = "map operation_replacement (filter operation_replaced ops)"
  have "for_each_replacement (xs @ empty_replacements) = xs"
    if "\<And>x. x \<in> set xs \<Longrightarrow> operation_offset x \<noteq> - 1" for xs
    using that by (induction xs) (simp_all add: for_each_replacement_def empty_replacements_def)
  moreover have "operation_offset x \<noteq> - 1" if "x \<in> set ?xs" for x
    using that assms by (auto simp: operation_replacement_def)
  ultimately have "for_each_replacement (?xs @ empty_replacements) = ?xs" by blast
  then show ?thesis
    by (cases "filter operation_replaced ops")
      (simp_all add: replacement_table_def for_each_replacement_def empty_replacements_def)
qed

lemma table_of_distinct:
  assumes "operations_wf ops" and "\<And>oi. oi \<in> set ops \<Longrightarrow> o_offset oi \<noteq> - 1"
  shows "distinct (map operation_offset (for_each_replacement (table_of ops)))"
proof -
  have "operation_offset \<circ> operation_replacement = o_offset"
    by (simp add: fun_eq_iff operation_replacement_def)
  moreover have "distinct (map o_offset (filter operation_replaced ops))"
    using assms(1) by (simp add: operations_wf_def distinct_map_filter)
  ultimately show ?thesis by (simp add: table_of_for_each [OF assms(2)])
qed

lemma table_of_replace:
  assumes wf: "operations_wf ops" and off: "\<And>oi. oi \<in> set ops \<Longrightarrow> o_offset oi \<noteq> - 1" and oi: "oi \<in> set ops"
  shows "(case find (\<lambda>r. operation_offset r = o_offset oi) (for_each_replacement (table_of ops)) of
            None \<Rightarrow> op | Some r \<Rightarrow> replace_operation op r) = (if intercepts oi op then o_repl oi else op)"
proof -
  have uniq: "x = oi" if "x \<in> set ops" "o_offset x = o_offset oi" for x
    using that oi wf by (metis operations_wf_def distinct_map inj_onD)
  have f: "find (\<lambda>r. operation_offset r = o_offset oi) (map operation_replacement xs) =
      map_option operation_replacement (find (\<lambda>x. o_offset x = o_offset oi) xs)" for xs
    by (induction xs) (simp_all add: operation_replacement_def)
  have "find (\<lambda>x. o_offset x = o_offset oi) (filter operation_replaced ops) =
      (if operation_replaced oi then Some oi else None)"
  proof (cases "find (\<lambda>x. o_offset x = o_offset oi) (filter operation_replaced ops)")
    case None
    then show ?thesis using oi by (auto simp: find_None_iff)
  next
    case (Some x)
    then have "x \<in> set (filter operation_replaced ops)" "o_offset x = o_offset oi"
      by (auto simp only: find_Some_iff nth_mem)
    with Some uniq [of x] show ?thesis by simp
  qed
  then show ?thesis
    by (simp add: table_of_for_each [OF off] f operation_replaced_def intercepts_def
        operation_replacement_def replace_operation_def replace_operation_generic_def)
qed


subsection \<open>Starting and stopping one factory interceptor\<close>

definition with_pending :: "allocs \<Rightarrow> coi \<Rightarrow> coi" where
  "with_pending as s = s\<lparr>kworld := (kworld s)\<lparr>pending := as\<rparr>\<rparr>"

text \<open>A factory interceptor bound to a that can be started: it has exactly one operation.\<close>

definition factory_ready :: "kernel_params \<Rightarrow> ptr \<Rightarrow> kedr_coi_factory_interceptor \<Rightarrow> bool" where
  "factory_ready k a fx \<longleftrightarrow>
     fi_state fx = interceptor_state_initialized \<and> fi_instrumentor fx = NULL \<and> interceptor_binded fx = a \<and>
     payloads_ready (payload_at k) (fi_payloads fx) \<and> length (operations (fi_payloads fx)) = 1"

definition factory_on :: "kernel_params \<Rightarrow> ptr \<Rightarrow> kedr_coi_factory_interceptor \<Rightarrow> kedr_coi_factory_interceptor" where
  "factory_on k fi fx =
     fx\<lparr>fi_payloads := used_payloads (payload_at k) (module_live k) True (fi_payloads fx),
        fi_instrumentor := fi, fi_state := interceptor_state_started\<rparr>"

abbreviation factory_refs :: "kernel_params \<Rightarrow> kedr_coi_factory_interceptor \<Rightarrow> ptr \<Rightarrow> int" where
  "factory_refs k fx \<equiv> used_refs (payload_at k) (module_live k) (fi_payloads fx)"

definition empty_foreign :: "kedr_coi_foreign_instrumentor \<Rightarrow> bool" where
  "empty_foreign fr \<longleftrightarrow> ids_table fr = empty_table \<and> ties_table fr = empty_table"

lemma foreign_create_ok:
  "(\<exists>as'. suffix as' (pending w) \<and>
      kedr_coi_foreign_instrumentor_create i rs w = (None, i, w\<lparr>pending := as'\<rparr>)) \<or>
   (\<exists>fi fr as'. kedr_coi_foreign_instrumentor_create i rs w =
      (Some fi, i\<lparr>foreign_instrumentors := (foreign_instrumentors i)(fi \<mapsto> fr)\<rparr>, w\<lparr>pending := as'\<rparr>) \<and>
      empty_foreign fr \<and> suffix as' (tl (pending w)) \<and> hd (pending w) = Some fi \<and> pending w \<noteq> [])"
proof -
  obtain m1 as1 where k1: "kmalloc (pending w) = (m1, as1)" by (metis prod.exhaust)
  obtain m2 as2 where k2: "kmalloc as1 = (m2, as2)" by (metis prod.exhaust)
  obtain m3 as3 where k3: "kmalloc as2 = (m3, as3)" by (metis prod.exhaust)
  have s1: "suffix as1 (pending w)" and s2: "suffix as2 as1" and s3: "suffix as3 as2"
    using k1 k2 k3 by (auto intro: kmalloc_suffix)
  have s12: "suffix as2 (pending w)" by (rule suffix_order.trans [OF s2 s1])
  have s13: "suffix as3 (pending w)" by (rule suffix_order.trans [OF s3 s12])
  have none: "kedr_coi_foreign_instrumentor_create i rs w = (None, i, w\<lparr>pending := as'\<rparr>) \<Longrightarrow>
      suffix as' (pending w) \<Longrightarrow> ?thesis" for as' by blast
  note D = kedr_coi_foreign_instrumentor_create_def world_kmalloc_def kedr_coi_hash_table_init_def
  show ?thesis
  proof (cases m1)
    case None
    show ?thesis by (rule none [OF _ s1]) (simp add: D k1 None)
  next
    case m1: (Some fi)
    show ?thesis
    proof (cases m2)
      case None
      show ?thesis by (rule none [OF _ s12]) (simp add: D k1 k2 m1 None)
    next
      case m2: (Some x2)
      show ?thesis
      proof (cases m3)
        case None
        show ?thesis by (rule none [OF _ s13]) (simp add: D k1 k2 k3 m1 m2 None)
      next
        case m3: (Some x3)
        let ?fr = "\<lparr>ids_table = empty_table, ties_table = empty_table,
          f_replacements = (case rs of None \<Rightarrow> empty_replacements | Some rs \<Rightarrow> rs), f_watch_datas = Map.empty\<rparr>"
        have "kedr_coi_foreign_instrumentor_create i rs w =
            (Some fi, i\<lparr>foreign_instrumentors := (foreign_instrumentors i)(fi \<mapsto> ?fr)\<rparr>, w\<lparr>pending := as3\<rparr>)"
          by (simp add: D k1 k2 k3 m1 m2 m3 set_foreign_instrumentor_def empty_table_def)
        moreover have "empty_foreign ?fr" by (simp add: empty_foreign_def)
        moreover have h: "pending w \<noteq> []" "hd (pending w) = Some fi" "as1 = tl (pending w)"
          using k1 by (auto simp: kmalloc_def m1 split: list.splits)
        moreover have "suffix as3 (tl (pending w))" using suffix_order.trans [OF s3 s2] h(3) by simp
        ultimately show ?thesis by blast
      qed
    qed
  qed
qed

lemma put_factory_triv: "factories s f = Some fx \<Longrightarrow> put_factory s f fx = s"
  by (cases s) (simp add: put_factory_def map_upd_triv)

lemma put_interceptor_triv: "interceptors s a = Some ix \<Longrightarrow> put_interceptor s a ix = s"
  by (cases s) (simp add: put_interceptor_def map_upd_triv)

lemma env_simps [simp]:
  "from_env s ((to_env s)\<lparr>env_allocs := as\<rparr>) = with_pending as s"
  "from_env s (to_env s) = s" "factories (from_env s e) = factories s"
  "interceptors (from_env s e) = interceptors s"
  "kworld (from_env s e) = (kworld s)\<lparr>pending := env_allocs e\<rparr>"
  "modules (from_env s e) = module_refs e" "op_fields (from_env s e) = op_fields s"
  "traced (from_env s e) = traced s"
  "env_allocs (to_env s) = pending (kworld s)" "module_refs (to_env s) = modules s"
  by (simp_all add: from_env_def to_env_def with_pending_def)

lemma with_pending_simps [simp]:
  "factories (with_pending as s) = factories s" "interceptors (with_pending as s) = interceptors s"
  "modules (with_pending as s) = modules s" "op_fields (with_pending as s) = op_fields s"
  "traced (with_pending as s) = traced s" "kworld (with_pending as s) = (kworld s)\<lparr>pending := as\<rparr>"
  by (simp_all add: with_pending_def)

lemma put_simps [simp]:
  "factories (put_factory s f fx) = (factories s)(f \<mapsto> fx)"
  "interceptors (put_factory s f fx) = interceptors s" "kworld (put_factory s f fx) = kworld s"
  "modules (put_factory s f fx) = modules s" "traced (put_factory s f fx) = traced s"
  "op_fields (put_factory s f fx) = op_fields s"
  "factories (put_interceptor s a ix) = factories s"
  "interceptors (put_interceptor s a ix) = (interceptors s)(a \<mapsto> ix)"
  "kworld (put_interceptor s a ix) = kworld s" "modules (put_interceptor s a ix) = modules s"
  "traced (put_interceptor s a ix) = traced s" "op_fields (put_interceptor s a ix) = op_fields s"
  by (simp_all add: put_factory_def put_interceptor_def)

lemma coi_eqI:
  "interceptors s = interceptors t \<Longrightarrow> factories s = factories t \<Longrightarrow> op_fields s = op_fields t \<Longrightarrow>
   kworld s = kworld t \<Longrightarrow> modules s = modules t \<Longrightarrow> traced s = traced t \<Longrightarrow> s = (t::coi)"
  by simp

lemma factory_start_ok:
  assumes ix: "interceptors s a = Some ix" "state ix = interceptor_state_started" "instrumentor ix = Some i"
    and fx: "factories s f = Some fx" "factory_ready k a fx"
  shows "\<exists>r s'. factory_interceptor_start k s f a = Some (r, s') \<and>
           suffix (pending (kworld s')) (pending (kworld s)) \<and>
           (r \<noteq> 0 \<and> s' = with_pending (pending (kworld s')) s \<or>
            r = 0 \<and> (\<exists>fi fr. empty_foreign fr \<and> Some fi \<in> set (pending (kworld s)) \<and>
              (distinct (filter (\<lambda>a. a \<noteq> None) (pending (kworld s))) \<longrightarrow> Some fi \<notin> set (pending (kworld s'))) \<and>
              s' = (put_factory (put_interceptor (with_pending (pending (kworld s')) s) a
                       (ix\<lparr>instrumentor := Some (i\<lparr>foreign_instrumentors := (foreign_instrumentors i)(fi \<mapsto> fr)\<rparr>)\<rparr>))
                     f (factory_on k fi fx))
                   \<lparr>modules := \<lambda>m. modules s m + factory_refs k fx m\<rparr>))"
proof -
  have st: "fi_state fx = interceptor_state_initialized" "payloads_ready (payload_at k) (fi_payloads fx)"
    "length (operations (fi_payloads fx)) = 1" using fx(2) by (simp_all add: factory_ready_def)
  let ?use = "operation_payloads_use (payload_at k) (module_live k) (lock_result k f) (fi_payloads fx) True (to_env s)"
  let ?U = "used_payloads (payload_at k) (module_live k) True (fi_payloads fx)"
  have fail: ?thesis if u: "?use = Some (r, fi_payloads fx, (to_env s)\<lparr>env_allocs := as\<rparr>)" and r: "r \<noteq> 0" for r as
  proof -
    have "factory_interceptor_start k s f a = Some (r, with_pending as s)"
      by (simp add: factory_interceptor_start_def ix fx(1) st(1) u r put_factory_triv)
    moreover have "suffix as (pending (kworld s))" using use_suffix [OF u] by simp
    ultimately show ?thesis using r by auto
  qed
  from use_ready [OF st(2), where lock = "lock_result k f" and all = True and live = "module_live k" and env = "to_env s"]
  consider (lock) "lock_result k f \<noteq> 0" "?use = Some (lock_result k f, fi_payloads fx, to_env s)"
    | (mem) as where "?use = Some (- ENOMEM, fi_payloads fx, (to_env s)\<lparr>env_allocs := as\<rparr>)"
    | (ok) as where "?use = Some (0, ?U, \<lparr>env_allocs = as, module_refs = \<lambda>m. modules s m + factory_refs k fx m\<rparr>)"
    using st(3) by auto
  then show ?thesis
  proof cases
    case lock
    then show ?thesis using fail [of "lock_result k f" "pending (kworld s)"] by (simp add: to_env_def)
  next
    case mem
    then show ?thesis by (rule fail) (simp add: errno_defs)
  next
    case ok
    let ?m = "\<lambda>m. modules s m + factory_refs k fx m"
    let ?w = "(kworld s)\<lparr>pending := as\<rparr>"
    let ?rs = "p_replacements ?U"
    have suf: "suffix as (pending (kworld s))" using use_suffix [OF ok] by simp
    have gr: "operation_payloads_get_replacements ?U = Some ?rs"
      by (simp add: operation_payloads_get_replacements_def used_payloads_sel(1))
    from foreign_create_ok [of ?w i ?rs] show ?thesis
    proof
      assume "\<exists>as'. suffix as' (pending ?w) \<and>
        kedr_coi_foreign_instrumentor_create i ?rs ?w = (None, i, ?w\<lparr>pending := as'\<rparr>)"
      then obtain as' where C: "suffix as' as" "kedr_coi_foreign_instrumentor_create i ?rs ?w = (None, i, ?w\<lparr>pending := as'\<rparr>)"
        by auto
      have "factory_interceptor_start k s f a = Some (- ENOMEM, with_pending as' s)"
        using C(2)
        by (simp add: factory_interceptor_start_def ix fx(1) st(1) ok gr unuse_ready [OF st(2)])
          (simp add: Let_def, rule coi_eqI, simp_all add: fx(1) map_upd_triv)
      moreover have "suffix as' (pending (kworld s))" by (rule suffix_order.trans [OF C(1) suf])
      ultimately show ?thesis by (auto simp: errno_defs)
    next
      assume "\<exists>fi fr as'. kedr_coi_foreign_instrumentor_create i ?rs ?w =
          (Some fi, i\<lparr>foreign_instrumentors := (foreign_instrumentors i)(fi \<mapsto> fr)\<rparr>, ?w\<lparr>pending := as'\<rparr>) \<and>
          empty_foreign fr \<and> suffix as' (tl (pending ?w)) \<and> hd (pending ?w) = Some fi \<and> pending ?w \<noteq> []"
      then obtain fi fr as' where C: "kedr_coi_foreign_instrumentor_create i ?rs ?w =
          (Some fi, i\<lparr>foreign_instrumentors := (foreign_instrumentors i)(fi \<mapsto> fr)\<rparr>, ?w\<lparr>pending := as'\<rparr>)"
          "empty_foreign fr" "suffix as' (tl as)" "hd as = Some fi" "as \<noteq> []"
        by auto
      have as: "as = Some fi # tl as" using C(4,5) by (cases as) auto
      have "suffix as' as" by (subst as) (simp add: suffix_ConsI C(3))
      then have s': "suffix as' (pending (kworld s))" using suf by (rule suffix_order.trans)
      have fiin: "Some fi \<in> set (pending (kworld s))"
        using set_mono_suffix [OF suf] as by (metis list.set_intros(1) subsetD)
      have new: "Some fi \<notin> set as'" if "distinct (filter (\<lambda>a. a \<noteq> None) (pending (kworld s)))"
      proof -
        from suf obtain zs where "pending (kworld s) = zs @ as" by (auto simp: suffix_def)
        with that have "distinct (filter (\<lambda>a. a \<noteq> None) as)" by simp
        then have "Some fi \<notin> set (tl as)" by (subst (asm) as) simp
        then show ?thesis using set_mono_suffix [OF C(3)] by blast
      qed
      let ?i = "i\<lparr>foreign_instrumentors := (foreign_instrumentors i)(fi \<mapsto> fr)\<rparr>"
      let ?s = "(put_factory (put_interceptor (with_pending as' s) a (ix\<lparr>instrumentor := Some ?i\<rparr>))
                     f (factory_on k fi fx))\<lparr>modules := ?m\<rparr>"
      have "factory_interceptor_start k s f a = Some (0, ?s)"
        using C(1)
        by (simp add: factory_interceptor_start_def ix fx(1) st(1) ok gr)
          (rule coi_eqI, simp_all add: factory_on_def)
      then show ?thesis using s' C(2) fiin new
        by (intro exI [of _ 0] exI [of _ ?s]) auto
    qed
  qed
qed


lemma empty_table_elems [simp]: "table_elems empty_table = []"
  by (simp add: table_elems_def empty_table_def)

lemma factory_stop_ok:
  assumes ix: "interceptors s a = Some ix" "instrumentor ix = Some i"
    and f: "factories s f = Some (factory_on k fi fx)" and fx: "factory_ready k a fx"
    and fr: "foreign_instrumentors i fi = Some fr" "empty_foreign fr"
  shows "factory_interceptor_stop k s f = Some
           ((put_factory (put_interceptor s a
                (ix\<lparr>instrumentor := Some (i\<lparr>foreign_instrumentors := (foreign_instrumentors i)(fi := None)\<rparr>)\<rparr>)) f fx)
              \<lparr>modules := \<lambda>m. modules s m - factory_refs k fx m\<rparr>)"
proof -
  have st: "fi_state fx = interceptor_state_initialized" "fi_instrumentor fx = NULL" "interceptor_binded fx = a"
    "payloads_ready (payload_at k) (fi_payloads fx)" using fx by (simp_all add: factory_ready_def)
  have d: "kedr_coi_foreign_instrumentor_destroy (hash_of k) i fi True (kworld s) =
      Some ([], i\<lparr>foreign_instrumentors := (foreign_instrumentors i)(fi := None)\<rparr>, kworld s)"
    using fr by (simp add: kedr_coi_foreign_instrumentor_destroy_def empty_foreign_def destroy_eq destroy_None)
  have calls: "trace_calls cb [] = []" for cb by (simp add: trace_calls_def)
  show ?thesis
    by (simp add: factory_interceptor_stop_def f factory_on_def st ix d unuse_ready [OF st(4)] calls Let_def)
      (rule coi_eqI, simp_all add: st(1,2) [symmetric])
qed

subsection \<open>The loops over factory interceptors\<close>

text \<open>
  The state s after the factory interceptors of the list st (with the addresses of their foreign
  instrumentors) were started, from the state s0.
\<close>

definition started_refs :: "kernel_params \<Rightarrow> coi \<Rightarrow> (ptr \<times> ptr) list \<Rightarrow> ptr \<Rightarrow> int" where
  "started_refs k s0 st m =
     (\<Sum>f\<leftarrow>map fst st. case factories s0 f of None \<Rightarrow> 0 | Some fx \<Rightarrow> factory_refs k fx m)"

definition loop_ok ::
  "kernel_params \<Rightarrow> ptr \<Rightarrow> kedr_coi_interceptor \<Rightarrow> kedr_coi_instrumentor \<Rightarrow> coi \<Rightarrow>
   (ptr \<times> ptr) list \<Rightarrow> coi \<Rightarrow> bool" where
  "loop_ok k a ix i0 s0 st s \<longleftrightarrow>
     (\<exists>fm. interceptors s = (interceptors s0)(a \<mapsto> ix\<lparr>instrumentor := Some (i0\<lparr>foreign_instrumentors := fm\<rparr>)\<rparr>) \<and>
           (\<forall>(f, fi) \<in> set st. \<exists>fr. fm fi = Some fr \<and> empty_foreign fr)) \<and>
     (\<forall>f. factories s f = (case map_of st f of None \<Rightarrow> factories s0 f
                           | Some fi \<Rightarrow> map_option (factory_on k fi) (factories s0 f))) \<and>
     (\<forall>(f, fi) \<in> set st. \<exists>fx. factories s0 f = Some fx \<and> factory_ready k a fx) \<and>
     distinct (map fst st) \<and> distinct (map snd st) \<and>
     (\<forall>(f, fi) \<in> set st. Some fi \<notin> set (pending (kworld s))) \<and>
     modules s = (\<lambda>m. modules s0 m + started_refs k s0 st m) \<and>
     kworld s = (kworld s0)\<lparr>pending := pending (kworld s)\<rparr> \<and>
     suffix (pending (kworld s)) (pending (kworld s0)) \<and>
     op_fields s = op_fields s0 \<and> traced s = traced s0"

lemma loop_okD:
  assumes "loop_ok k a ix i0 s0 st s"
  obtains fm where
    "interceptors s = (interceptors s0)(a \<mapsto> ix\<lparr>instrumentor := Some (i0\<lparr>foreign_instrumentors := fm\<rparr>)\<rparr>)"
    "\<forall>f fi. (f, fi) \<in> set st \<longrightarrow> (\<exists>fr. fm fi = Some fr \<and> empty_foreign fr)"
    "\<forall>f. factories s f = (case map_of st f of None \<Rightarrow> factories s0 f
                           | Some fi \<Rightarrow> map_option (factory_on k fi) (factories s0 f))"
    "\<forall>f fi. (f, fi) \<in> set st \<longrightarrow> (\<exists>fx. factories s0 f = Some fx \<and> factory_ready k a fx)"
    "distinct (map fst st)" "distinct (map snd st)"
    "\<forall>f fi. (f, fi) \<in> set st \<longrightarrow> Some fi \<notin> set (pending (kworld s))"
    "modules s = (\<lambda>m. modules s0 m + started_refs k s0 st m)"
    "kworld s = (kworld s0)\<lparr>pending := pending (kworld s)\<rparr>"
    "suffix (pending (kworld s)) (pending (kworld s0))"
    "op_fields s = op_fields s0" "traced s = traced s0"
proof -
  from assms obtain fm where
    fm: "interceptors s = (interceptors s0)(a \<mapsto> ix\<lparr>instrumentor := Some (i0\<lparr>foreign_instrumentors := fm\<rparr>)\<rparr>)"
        "\<forall>(f, fi) \<in> set st. \<exists>fr. fm fi = Some fr \<and> empty_foreign fr"
    unfolding loop_ok_def by blast
  show thesis by (rule that [OF fm(1)]) (use assms fm(2) in \<open>simp_all add: loop_ok_def split_beta, (fastforce)+\<close>)
qed


lemma loop_ok_start:
  assumes "interceptors s0 a = Some (ix\<lparr>instrumentor := Some i0\<rparr>)"
  shows "loop_ok k a ix i0 s0 [] s0"
proof -
  have "interceptors s0 = (interceptors s0)
      (a \<mapsto> ix\<lparr>instrumentor := Some (i0\<lparr>foreign_instrumentors := foreign_instrumentors i0\<rparr>)\<rparr>)"
    using assms by (auto simp: fun_eq_iff)
  then have "\<exists>fm. interceptors s0 = (interceptors s0)
      (a \<mapsto> ix\<lparr>instrumentor := Some (i0\<lparr>foreign_instrumentors := fm\<rparr>)\<rparr>)" by blast
  then show ?thesis unfolding loop_ok_def by (simp add: started_refs_def)
qed

lemma stop_factories_ok:
  "loop_ok k a ix i0 s0 st s \<Longrightarrow>
   \<exists>s'. stop_factories k (map fst st) s = Some s' \<and> loop_ok k a ix i0 s0 [] s'"
proof (induction st arbitrary: s)
  case Nil
  then show ?case by simp
next
  case (Cons x st)
  obtain f fi where x: "x = (f, fi)" by (cases x)
  from Cons.prems obtain fm where L:
    "interceptors s = (interceptors s0)(a \<mapsto> ix\<lparr>instrumentor := Some (i0\<lparr>foreign_instrumentors := fm\<rparr>)\<rparr>)"
    "\<forall>f fi. (f, fi) \<in> set (x # st) \<longrightarrow> (\<exists>fr. fm fi = Some fr \<and> empty_foreign fr)"
    "\<forall>f. factories s f = (case map_of (x # st) f of None \<Rightarrow> factories s0 f
                           | Some fi \<Rightarrow> map_option (factory_on k fi) (factories s0 f))"
    "\<forall>f fi. (f, fi) \<in> set (x # st) \<longrightarrow> (\<exists>fx. factories s0 f = Some fx \<and> factory_ready k a fx)"
    "distinct (map fst (x # st))" "distinct (map snd (x # st))"
    "\<forall>f fi. (f, fi) \<in> set (x # st) \<longrightarrow> Some fi \<notin> set (pending (kworld s))"
    "modules s = (\<lambda>m. modules s0 m + started_refs k s0 (x # st) m)"
    "kworld s = (kworld s0)\<lparr>pending := pending (kworld s)\<rparr>"
    "suffix (pending (kworld s)) (pending (kworld s0))"
    "op_fields s = op_fields s0" "traced s = traced s0"
    by (rule loop_okD)
  obtain fx where fx: "factories s0 f = Some fx" "factory_ready k a fx" using L(4) x by auto
  obtain fr where fr: "fm fi = Some fr" "empty_foreign fr" using L(2) x by auto
  let ?i = "i0\<lparr>foreign_instrumentors := fm(fi := None)\<rparr>"
  let ?s = "(put_factory (put_interceptor s a (ix\<lparr>instrumentor := Some ?i\<rparr>)) f fx)
      \<lparr>modules := \<lambda>m. modules s m - factory_refs k fx m\<rparr>"
  have on: "factories s f = Some (factory_on k fi fx)" using L(3) fx by (simp add: x)
  have ia: "interceptors s a = Some (ix\<lparr>instrumentor := Some (i0\<lparr>foreign_instrumentors := fm\<rparr>)\<rparr>)"
    by (simp add: L(1))
  have stop: "factory_interceptor_stop k s f = Some ?s"
    using factory_stop_ok [OF ia _ on fx(2) _ fr(2)] fr(1) by simp
  have fst_notin: "f \<notin> fst ` set st" and snd_notin: "fi \<notin> snd ` set st"
    using L(5,6) by (simp_all add: x)
  have "loop_ok k a ix i0 s0 st ?s"
    unfolding loop_ok_def
  proof (intro conjI)
    have fms: "\<forall>(f', fi') \<in> set st. \<exists>fr. (fm(fi := None)) fi' = Some fr \<and> empty_foreign fr"
      using L(2) snd_notin by force
    show "\<exists>fm. interceptors ?s = (interceptors s0)(a \<mapsto> ix\<lparr>instrumentor := Some (i0\<lparr>foreign_instrumentors := fm\<rparr>)\<rparr>) \<and>
           (\<forall>(f, fi) \<in> set st. \<exists>fr. fm fi = Some fr \<and> empty_foreign fr)"
      by (rule exI [of _ "fm(fi := None)"], rule conjI [OF _ fms]) (simp add: L(1))
    show "\<forall>f. factories ?s f = (case map_of st f of None \<Rightarrow> factories s0 f
                           | Some fi \<Rightarrow> map_option (factory_on k fi) (factories s0 f))"
      using L(3) fst_notin fx(1) by (auto simp: x map_of_eq_None_iff [symmetric])
    show "\<forall>(f, fi) \<in> set st. \<exists>fx. factories s0 f = Some fx \<and> factory_ready k a fx" using L(4) by auto
    show "distinct (map fst st)" "distinct (map snd st)" using L(5,6) by simp_all
    show "\<forall>(f, fi) \<in> set st. Some fi \<notin> set (pending (kworld ?s))" using L(7) by auto
    show "modules ?s = (\<lambda>m. modules s0 m + started_refs k s0 st m)"
      by (simp add: L(8) started_refs_def x fx(1))
  qed (use L(9-12) in simp_all)
  from Cons.IH [OF this] show ?case by (simp add: x stop)
qed

lemma start_factories_ok:
  assumes "state ix = interceptor_state_started"
    and "distinct (filter (\<lambda>a. a \<noteq> None) (pending (kworld s0)))"
  shows "loop_ok k a ix i0 s0 st s \<Longrightarrow> distinct (fs @ map fst st) \<Longrightarrow>
   (\<And>f. f \<in> set fs \<Longrightarrow> \<exists>fx. factories s0 f = Some fx \<and> factory_ready k a fx) \<Longrightarrow>
   \<exists>r st' s'. start_factories k a fs (map fst st) s = Some (r, map fst st', s') \<and>
     loop_ok k a ix i0 s0 st' s' \<and> (r = 0 \<longrightarrow> set (map fst st') = set fs \<union> set (map fst st))"
proof (induction fs arbitrary: st s)
  case Nil
  then show ?case by auto
next
  case (Cons f fs)
  from Cons.prems(1) obtain fm where L:
    "interceptors s = (interceptors s0)(a \<mapsto> ix\<lparr>instrumentor := Some (i0\<lparr>foreign_instrumentors := fm\<rparr>)\<rparr>)"
    "\<forall>f fi. (f, fi) \<in> set st \<longrightarrow> (\<exists>fr. fm fi = Some fr \<and> empty_foreign fr)"
    "\<forall>f. factories s f = (case map_of st f of None \<Rightarrow> factories s0 f
                           | Some fi \<Rightarrow> map_option (factory_on k fi) (factories s0 f))"
    "\<forall>f fi. (f, fi) \<in> set st \<longrightarrow> (\<exists>fx. factories s0 f = Some fx \<and> factory_ready k a fx)"
    "distinct (map fst st)" "distinct (map snd st)"
    "\<forall>f fi. (f, fi) \<in> set st \<longrightarrow> Some fi \<notin> set (pending (kworld s))"
    "modules s = (\<lambda>m. modules s0 m + started_refs k s0 st m)"
    "kworld s = (kworld s0)\<lparr>pending := pending (kworld s)\<rparr>"
    "suffix (pending (kworld s)) (pending (kworld s0))"
    "op_fields s = op_fields s0" "traced s = traced s0"
    by (rule loop_okD)
  obtain fx where fx: "factories s0 f = Some fx" "factory_ready k a fx" using Cons.prems(3) [of f] by auto
  have new: "f \<notin> fst ` set st" using Cons.prems(2) by auto
  then have fs: "factories s f = Some fx" using L(3) fx new by (simp add: map_of_eq_None_iff [symmetric])
  let ?i = "i0\<lparr>foreign_instrumentors := fm\<rparr>"
  have ia: "interceptors s a = Some (ix\<lparr>instrumentor := Some ?i\<rparr>)" by (simp add: L(1))
  have dist: "distinct (filter (\<lambda>a. a \<noteq> None) (pending (kworld s)))"
    using assms(2) L(10) by (auto simp: suffix_def)
  from factory_start_ok [OF ia _ _ fs fx(2)] assms(1) obtain r s1 where
    S: "factory_interceptor_start k s f a = Some (r, s1)"
       "suffix (pending (kworld s1)) (pending (kworld s))"
       "r \<noteq> 0 \<and> s1 = with_pending (pending (kworld s1)) s \<or>
        r = 0 \<and> (\<exists>fi fr. empty_foreign fr \<and> Some fi \<in> set (pending (kworld s)) \<and>
              (distinct (filter (\<lambda>a. a \<noteq> None) (pending (kworld s))) \<longrightarrow> Some fi \<notin> set (pending (kworld s1))) \<and>
              s1 = (put_factory (put_interceptor (with_pending (pending (kworld s1)) s) a
                       (ix\<lparr>instrumentor := Some (?i\<lparr>foreign_instrumentors := fm(fi \<mapsto> fr)\<rparr>)\<rparr>))
                     f (factory_on k fi fx))
                   \<lparr>modules := \<lambda>m. modules s m + factory_refs k fx m\<rparr>)"
    by auto
  have pend: "suffix (pending (kworld s1)) (pending (kworld s0))" by (rule suffix_order.trans [OF S(2) L(10)])
  have keep: "Some fi \<notin> set (pending (kworld s1))" if "(f', fi) \<in> set st" for f' fi
    using L(7) that set_mono_suffix [OF S(2)] by blast
  show ?case
  proof (cases "r = 0")
    case False
    with S(3) have s1: "s1 = with_pending (pending (kworld s1)) s" by blast
    have eqs: "interceptors s1 = interceptors s" "factories s1 = factories s" "modules s1 = modules s"
      "op_fields s1 = op_fields s" "traced s1 = traced s" "kworld s1 = (kworld s)\<lparr>pending := pending (kworld s1)\<rparr>"
      by (subst s1, simp)+
    have "kworld s1 = (kworld s0)\<lparr>pending := pending (kworld s1)\<rparr>" using eqs(6) L(9) by (metis world.surjective world.update_convs(3))
    moreover have "\<forall>x \<in> set st. Some (snd x) \<notin> set (pending (kworld s1))" using keep by (metis prod.collapse)
    ultimately have "loop_ok k a ix i0 s0 st s1"
      using Cons.prems(1) pend unfolding loop_ok_def eqs(1-5) by (simp add: split_beta)
    then show ?thesis using False by (auto simp: S(1) intro!: exI [of _ st])
  next
    case True
    with S(3) obtain fi fr where F: "empty_foreign fr" "Some fi \<in> set (pending (kworld s))"
        "Some fi \<notin> set (pending (kworld s1))"
        "s1 = (put_factory (put_interceptor (with_pending (pending (kworld s1)) s) a
                       (ix\<lparr>instrumentor := Some (?i\<lparr>foreign_instrumentors := fm(fi \<mapsto> fr)\<rparr>)\<rparr>))
                     f (factory_on k fi fx))
                   \<lparr>modules := \<lambda>m. modules s m + factory_refs k fx m\<rparr>"
      using dist by auto
    have eqs: "interceptors s1 = (interceptors s)(a \<mapsto> ix\<lparr>instrumentor := Some (i0\<lparr>foreign_instrumentors := fm(fi \<mapsto> fr)\<rparr>)\<rparr>)"
      "factories s1 = (factories s)(f \<mapsto> factory_on k fi fx)"
      "modules s1 = (\<lambda>m. modules s m + factory_refs k fx m)"
      "op_fields s1 = op_fields s" "traced s1 = traced s" "kworld s1 = (kworld s)\<lparr>pending := pending (kworld s1)\<rparr>"
      by (subst F(4), simp)+
    have nofi: "fi \<notin> snd ` set st" using L(7) F(2) by force
    have "loop_ok k a ix i0 s0 ((f, fi) # st) s1"
      unfolding loop_ok_def
    proof (intro conjI)
      have fms: "\<forall>(f', fi') \<in> set ((f, fi) # st). \<exists>fr'. (fm(fi \<mapsto> fr)) fi' = Some fr' \<and> empty_foreign fr'"
        using L(2) F(1) by auto
      show "\<exists>fm. interceptors s1 = (interceptors s0)(a \<mapsto> ix\<lparr>instrumentor := Some (i0\<lparr>foreign_instrumentors := fm\<rparr>)\<rparr>) \<and>
             (\<forall>(f, fi) \<in> set ((f, fi) # st). \<exists>fr. fm fi = Some fr \<and> empty_foreign fr)"
        by (rule exI [of _ "fm(fi \<mapsto> fr)"], rule conjI [OF _ fms]) (simp add: L(1) eqs(1))
      show "\<forall>g. factories s1 g = (case map_of ((f, fi) # st) g of None \<Rightarrow> factories s0 g
                             | Some fi \<Rightarrow> map_option (factory_on k fi) (factories s0 g))"
        using L(3) fx(1) by (auto simp: eqs(2))
      show "\<forall>(f, fi) \<in> set ((f, fi) # st). \<exists>fx. factories s0 f = Some fx \<and> factory_ready k a fx"
        using L(4) fx by auto
      show "distinct (map fst ((f, fi) # st))" "distinct (map snd ((f, fi) # st))"
        using L(5,6) new nofi by simp_all
      show "\<forall>(f, fi) \<in> set ((f, fi) # st). Some fi \<notin> set (pending (kworld s1))" using keep F(3) by auto
      show "modules s1 = (\<lambda>m. modules s0 m + started_refs k s0 ((f, fi) # st) m)"
        by (simp add: eqs(3) L(8) started_refs_def fx(1) fun_eq_iff)
      show "kworld s1 = (kworld s0)\<lparr>pending := pending (kworld s1)\<rparr>"
        using eqs(6) L(9) by (metis world.surjective world.update_convs(3))
      show "suffix (pending (kworld s1)) (pending (kworld s0))" by (rule pend)
      show "op_fields s1 = op_fields s0" "traced s1 = traced s0" by (simp_all add: eqs L(11,12))
    qed
    from Cons.IH [OF this] Cons.prems(2,3) show ?thesis by (auto simp: S(1) True)
  qed
qed


subsection \<open>Starting an interceptor\<close>

lemma inv_foreign_suffix:
  assumes "instr_inv hp R H i w" and "suffix as (pending w)"
  shows "instr_inv hp R H (i\<lparr>foreign_instrumentors := fm\<rparr>) (w\<lparr>pending := as\<rparr>)"
proof -
  note I = instr_invD [OF assms(1)]
  have "distinct (filter (\<lambda>a. a \<noteq> None) as)"
    using I(5) assms(2) by (auto simp: allocs_ok_def suffix_def)
  then have "allocs_ok (i\<lparr>foreign_instrumentors := fm\<rparr>) (w\<lparr>pending := as\<rparr>)"
    using I(5) set_mono_suffix [OF assms(2)] by (auto simp: allocs_ok_def fresh_ptr_def)
  moreover have "impl_ok R (w\<lparr>pending := as\<rparr>) y = impl_ok R w y" for y
    by (cases y) (simp_all add: valid_ops_def)
  then have "mem_ok R (i\<lparr>foreign_instrumentors := fm\<rparr>) (w\<lparr>pending := as\<rparr>)"
    using I(4) by (simp add: mem_ok_def)
  moreover have "refs_ok H (i\<lparr>foreign_instrumentors := fm\<rparr>)"
  proof -
    have "count_ok H (i\<lparr>foreign_instrumentors := fm\<rparr>) d x = count_ok H i d x" for d x
      by (simp add: count_ok_def watch_count_def)
    then show ?thesis using I(3) by (simp add: refs_ok_def)
  qed
  moreover have "tables_ok hp (i\<lparr>foreign_instrumentors := fm\<rparr>) (w\<lparr>pending := as\<rparr>)"
    using I(2) by (simp add: tables_ok_def objects_ok_def)
  moreover have "geometry_ok R (i\<lparr>foreign_instrumentors := fm\<rparr>)" using I(1) by (simp add: geometry_ok_def)
  ultimately show ?thesis by (simp add: instr_inv_def)
qed

lemma instrumentor_destroy_empty:
  assumes "objects_table i = empty_table"
  shows "kedr_coi_instrumentor_destroy hp i trace w = Some ([], i, w)"
  by (simp add: kedr_coi_instrumentor_destroy_def assms destroy_eq destroy_None)

text \<open>An interceptor that can be started, with its factory interceptors.\<close>

definition interceptor_ready ::
  "kernel_params \<Rightarrow> size_t set \<Rightarrow> coi \<Rightarrow> ptr \<Rightarrow> kedr_coi_interceptor \<Rightarrow> bool" where
  "interceptor_ready k R s a ix \<longleftrightarrow>
     interceptors s a = Some ix \<and> state ix = interceptor_state_initialized \<and> instrumentor ix = None \<and>
     payloads_ready (payload_at k) (payloads ix) \<and>
     (\<forall>oi \<in> set (operations (payloads ix)). o_offset oi \<in> R) \<and>
     (\<forall>off \<in> R. off < i_operations_struct_size ix) \<and>
     distinct (factory_interceptors ix) \<and>
     (\<forall>f \<in> set (factory_interceptors ix). \<exists>fx. factories s f = Some fx \<and> factory_ready k a fx) \<and>
     world_ok (hash_of k) (kworld s)"

text \<open>An interceptor that is started, with its instrumentor.\<close>

definition interceptor_ok ::
  "kernel_params \<Rightarrow> size_t set \<Rightarrow> coi \<Rightarrow> ptr \<Rightarrow> kedr_coi_interceptor \<Rightarrow> kedr_coi_instrumentor \<Rightarrow> bool" where
  "interceptor_ok k R s a ix i \<longleftrightarrow>
     interceptors s a = Some ix \<and> state ix = interceptor_state_started \<and> instrumentor ix = Some i \<and>
     is_used (payloads ix) \<and> (\<exists>base env. payloads_inv (payload_at k) base (payloads ix) env) \<and>
     replacements i = table_of (operations (payloads ix)) \<and>
     replace_at_place i = i_replace_at_place ix \<and>
     instr_inv (hash_of k) R {#} i (kworld s)"

abbreviation started_payloads :: "kernel_params \<Rightarrow> kedr_coi_interceptor \<Rightarrow> operation_payloads" where
  "started_payloads k ix \<equiv> used_payloads (payload_at k) (module_live k) False (payloads ix)"

lemma create_suffix:
  "kedr_coi_instrumentor_create sz rs place as = (res, as') \<Longrightarrow> suffix as' as"
  unfolding kedr_coi_instrumentor_create_def kedr_coi_hash_table_init_def
  by (auto dest!: kmalloc_suffix split: prod.splits option.splits sum.splits intro: suffix_order.trans)

lemma used_payloads_inv:
  assumes "payloads_ready pm ps"
  shows "\<exists>base env. payloads_inv pm base (used_payloads pm live all ps) env"
    and "operations_wf (operations (used_payloads pm live all ps))"
    and "\<And>oi. oi \<in> set (operations (used_payloads pm live all ps)) \<Longrightarrow> o_offset oi \<noteq> - 1"
    and "same_operations (operations ps) (operations (used_payloads pm live all ps))"
proof -
  from assms obtain base env where inv: "payloads_inv pm base ps env" and un: "\<not> is_used ps"
    by (auto simp: payloads_ready_def)
  let ?env = "env\<lparr>module_refs := \<lambda>m. base m + mod_count pm (payload_elems (used_payloads pm live all ps)) m\<rparr>"
  have inv': "payloads_inv pm base (used_payloads pm live all ps) ?env"
    by (rule used_inv [OF inv un]) simp
  then show "\<exists>base env. payloads_inv pm base (used_payloads pm live all ps) env" by blast
  show "operations_wf (operations (used_payloads pm live all ps))"
    "\<And>oi. oi \<in> set (operations (used_payloads pm live all ps)) \<Longrightarrow> o_offset oi \<noteq> - 1"
    using inv' by (simp_all add: payloads_inv_def)
  show "same_operations (operations ps) (operations (used_payloads pm live all ps))"
    using used_operations_wf(2) [OF payloads_inv_unused(5) [OF inv un]] by (simp add: used_payloads_sel)
qed

lemma table_of_offsets:
  assumes "\<And>oi. oi \<in> set ops \<Longrightarrow> o_offset oi \<noteq> - 1"
  shows "repl_offsets (table_of ops) \<subseteq> o_offset ` set ops"
  by (auto simp: repl_offsets_def table_of_for_each [OF assms] operation_replacement_def)


lemma swap_fields:
  "ix\<lparr>payloads := p, state := t, instrumentor := j\<rparr> = ix\<lparr>payloads := p, instrumentor := j, state := t\<rparr>"
  for ix :: kedr_coi_interceptor by simp

lemma interceptor_start_ok:
  assumes ready: "interceptor_ready k R s a ix"
  shows "\<exists>r s'. kedr_coi_interceptor_start k s a = Some (r, s') \<and>
           (r \<noteq> 0 \<and> s' = with_pending (pending (kworld s')) s \<or>
            r = 0 \<and> (\<exists>i st. interceptors s' = (interceptors s)(a \<mapsto> ix\<lparr>payloads := started_payloads k ix,
                         instrumentor := Some i, state := interceptor_state_started\<rparr>) \<and>
               interceptor_ok k R s' a (ix\<lparr>payloads := started_payloads k ix,
                         instrumentor := Some i, state := interceptor_state_started\<rparr>) i \<and>
               watch_datas i = Map.empty \<and> idatas i = Map.empty \<and>
               set (map fst st) = set (factory_interceptors ix) \<and>
               (\<forall>f. factories s' f = (case map_of st f of None \<Rightarrow> factories s f
                           | Some fi \<Rightarrow> map_option (factory_on k fi) (factories s f))) \<and>
               op_fields s' = op_fields s \<and> traced s' = traced s \<and>
               kworld s' = (kworld s)\<lparr>pending := pending (kworld s')\<rparr>))"
proof -
  have ix: "interceptors s a = Some ix" "state ix = interceptor_state_initialized" "instrumentor ix = None"
    and pr: "payloads_ready (payload_at k) (payloads ix)"
    and geo: "\<And>oi. oi \<in> set (operations (payloads ix)) \<Longrightarrow> o_offset oi \<in> R"
      "\<And>off. off \<in> R \<Longrightarrow> off < i_operations_struct_size ix"
    and fs: "distinct (factory_interceptors ix)"
      "\<And>f. f \<in> set (factory_interceptors ix) \<Longrightarrow> \<exists>fx. factories s f = Some fx \<and> factory_ready k a fx"
    and w: "world_ok (hash_of k) (kworld s)"
    using ready by (auto simp: interceptor_ready_def)
  let ?use = "operation_payloads_use (payload_at k) (module_live k) (lock_result k a) (payloads ix) False (to_env s)"
  let ?U = "started_payloads k ix"
  let ?q = "used_refs (payload_at k) (module_live k) (payloads ix)"
  have fail: ?thesis if u: "?use = Some (r, payloads ix, (to_env s)\<lparr>env_allocs := as\<rparr>)" and r: "r \<noteq> 0" for r as
  proof -
    have "kedr_coi_interceptor_start k s a = Some (r, with_pending as s)"
      by (simp add: kedr_coi_interceptor_start_def ix u r put_interceptor_triv)
    then show ?thesis using r by auto
  qed
  from use_ready [OF pr, where lock = "lock_result k a" and all = False and live = "module_live k" and env = "to_env s"]
  consider (lock) "lock_result k a \<noteq> 0" "?use = Some (lock_result k a, payloads ix, to_env s)"
    | (mem) as where "?use = Some (- ENOMEM, payloads ix, (to_env s)\<lparr>env_allocs := as\<rparr>)"
    | (ok) as where "?use = Some (0, ?U, \<lparr>env_allocs = as, module_refs = \<lambda>m. modules s m + ?q m\<rparr>)"
    by auto
  then show ?thesis
  proof cases
    case lock
    then show ?thesis using fail [of "lock_result k a" "pending (kworld s)"] by (simp add: to_env_def)
  next
    case mem
    then show ?thesis by (rule fail) (simp add: errno_defs)
  next
    case ok
    let ?ops = "operations ?U"
    let ?rs = "p_replacements ?U"
    note UI = used_payloads_inv [where live = "module_live k" and all = False, OF pr]
    have suf: "suffix as (pending (kworld s))" using use_suffix [OF ok] by simp
    have gr: "operation_payloads_get_replacements ?U = Some ?rs"
      by (simp add: operation_payloads_get_replacements_def used_payloads_sel(1))
    obtain res as1 where C: "kedr_coi_instrumentor_create (i_operations_struct_size ix) ?rs
        (i_replace_at_place ix) as = (res, as1)" by (metis prod.exhaust)
    have suf1: "suffix as1 (pending (kworld s))" using create_suffix [OF C] suf by (rule suffix_order.trans)
    show ?thesis
    proof (cases res)
      case None
      have "kedr_coi_interceptor_start k s a = Some (- ENOMEM, with_pending as1 s)"
        using C None
        by (simp add: kedr_coi_interceptor_start_def ix ok gr unuse_ready [OF pr])
          (simp add: Let_def, rule coi_eqI, simp_all add: ix map_upd_triv)
      then show ?thesis by (auto simp: errno_defs)
    next
      case (Some i0)
      note S = create_shape [OF C [unfolded Some]]
      let ?ix = "ix\<lparr>payloads := ?U, instrumentor := Some i0, state := interceptor_state_started\<rparr>"
      let ?s0 = "(put_interceptor (with_pending as1 s) a ?ix)\<lparr>modules := \<lambda>m. modules s m + ?q m\<rparr>"
      have fac0: "factories ?s0 = factories s" by simp
      have repl: "replacements i0 = table_of ?ops" using S(6) by (simp add: used_payloads_sel)
      have offs: "o_offset oi \<in> R" if "oi \<in> set ?ops" for oi
      proof -
        have "o_offset oi \<in> set (map o_offset ?ops)" using that by simp
        then show ?thesis using geo(1) by (auto simp only: same_operations_offsets [OF UI(4)] set_map)
      qed
      have "repl_offsets (table_of ?ops) \<subseteq> R" using table_of_offsets [OF UI(3)] offs by blast
      then have geo1: "repl_offsets (case ?rs of None \<Rightarrow> empty_replacements | Some rs \<Rightarrow> rs) \<subseteq> R"
        by (simp add: used_payloads_sel)
      have w1: "world_ok (hash_of k) ((kworld s)\<lparr>pending := as\<rparr>)" by (rule world_ok_suffix [OF w suf])
      have inv0: "instr_inv (hash_of k) R {#} i0 ((kworld s)\<lparr>pending := as1\<rparr>)"
        using create_ok [of _ _ _ "(kworld s)\<lparr>pending := as\<rparr>" i0 as1, OF _ w1 geo1 geo(2)] C Some by simp
      have dist: "distinct (filter (\<lambda>a. a \<noteq> None) (pending (kworld ?s0)))"
        using world_ok_suffix [OF w suf1] by (simp add: world_ok_def)
      have l0: "loop_ok k a ?ix i0 ?s0 [] ?s0" by (rule loop_ok_start) simp
      have fs': "\<exists>fx. factories ?s0 f = Some fx \<and> factory_ready k a fx" if "f \<in> set (factory_interceptors ix)" for f
        using fs(2) [OF that] by simp
      have "\<exists>r st' s'. start_factories k a (factory_interceptors ix) (map fst ([] :: (ptr \<times> ptr) list)) ?s0 = Some (r, map fst st', s') \<and>
          loop_ok k a ?ix i0 ?s0 st' s' \<and> (r = 0 \<longrightarrow> set (map fst st') = set (factory_interceptors ix) \<union> set (map fst ([] :: (ptr \<times> ptr) list)))"
        by (rule start_factories_ok [OF _ dist l0 _ fs']) (simp_all add: fs(1))
      then obtain r st s1 where F: "start_factories k a (factory_interceptors ix) [] ?s0 = Some (r, map fst st, s1)"
        "loop_ok k a ?ix i0 ?s0 st s1" "r = 0 \<longrightarrow> set (map fst st) = set (factory_interceptors ix)"
        by auto
      have s0eq: "put_interceptor ((put_interceptor (from_env s \<lparr>env_allocs = as, module_refs = \<lambda>m. modules s m + ?q m\<rparr>) a
            (ix\<lparr>payloads := ?U\<rparr>))\<lparr>kworld := (kworld s)\<lparr>pending := as1\<rparr>\<rparr>) a
            (ix\<lparr>payloads := ?U, instrumentor := Some i0, state := interceptor_state_started\<rparr>) = ?s0"
        by (rule coi_eqI) simp_all
      from F(2) obtain fm where L:
        "interceptors s1 = (interceptors ?s0)(a \<mapsto> ?ix\<lparr>instrumentor := Some (i0\<lparr>foreign_instrumentors := fm\<rparr>)\<rparr>)"
        "\<forall>f. factories s1 f = (case map_of st f of None \<Rightarrow> factories ?s0 f
                           | Some fi \<Rightarrow> map_option (factory_on k fi) (factories ?s0 f))"
        "kworld s1 = (kworld ?s0)\<lparr>pending := pending (kworld s1)\<rparr>"
        "suffix (pending (kworld s1)) (pending (kworld ?s0))"
        "op_fields s1 = op_fields ?s0" "traced s1 = traced ?s0"
        by (rule loop_okD)
      show ?thesis
      proof (cases "r = 0")
        case True
        have run: "kedr_coi_interceptor_start k s a = Some (0, s1)"
          using C Some F(1) True by (simp add: kedr_coi_interceptor_start_def ix ok gr s0eq)
        let ?i = "i0\<lparr>foreign_instrumentors := fm\<rparr>"
        have kw: "kworld s1 = (kworld s)\<lparr>pending := pending (kworld s1)\<rparr>" using L(3) by simp
        have "instr_inv (hash_of k) R {#} ?i (((kworld s)\<lparr>pending := as1\<rparr>)\<lparr>pending := pending (kworld s1)\<rparr>)"
          by (rule inv_foreign_suffix [OF inv0]) (use L(4) in simp)
        then have "instr_inv (hash_of k) R {#} ?i (kworld s1)" using kw by (metis world.update_convs(3) world.surjective)
        then have "interceptor_ok k R s1 a (ix\<lparr>payloads := ?U, instrumentor := Some ?i, state := interceptor_state_started\<rparr>) ?i"
          using UI(1) by (simp add: interceptor_ok_def L(1) used_payloads_sel(1) repl S(7))
        moreover have "interceptors s1 = (interceptors s)
            (a \<mapsto> ix\<lparr>payloads := ?U, instrumentor := Some ?i, state := interceptor_state_started\<rparr>)"
          by (simp add: L(1) swap_fields)
        moreover have "watch_datas ?i = Map.empty" "idatas ?i = Map.empty" by (simp_all add: S)
        moreover have "\<forall>f. factories s1 f = (case map_of st f of None \<Rightarrow> factories s f
                           | Some fi \<Rightarrow> map_option (factory_on k fi) (factories s f))"
          using L(2) unfolding fac0 .
        moreover have "op_fields s1 = op_fields s" "traced s1 = traced s" using L(5,6) by simp_all
        ultimately show ?thesis using run F(3) True kw by blast
      next
        case False
        from stop_factories_ok [OF F(2)] obtain s2 where
          T: "stop_factories k (map fst st) s1 = Some s2" "loop_ok k a ?ix i0 ?s0 [] s2" by blast
        from T(2) obtain fm2 where M:
          "interceptors s2 = (interceptors ?s0)(a \<mapsto> ?ix\<lparr>instrumentor := Some (i0\<lparr>foreign_instrumentors := fm2\<rparr>)\<rparr>)"
          "\<forall>f. factories s2 f = (case map_of [] f of None \<Rightarrow> factories ?s0 f
                           | Some fi \<Rightarrow> map_option (factory_on k fi) (factories ?s0 f))"
          "modules s2 = (\<lambda>m. modules ?s0 m + started_refs k ?s0 [] m)"
          "kworld s2 = (kworld ?s0)\<lparr>pending := pending (kworld s2)\<rparr>"
          "op_fields s2 = op_fields ?s0" "traced s2 = traced ?s0"
          by (rule loop_okD)
        have kw: "kworld s2 = (kworld s)\<lparr>pending := pending (kworld s2)\<rparr>" using M(4) by simp
        have fac: "factories s2 = factories s" using M(2) by (simp add: fun_eq_iff)
        have same: "ix\<lparr>state := interceptor_state_initialized, instrumentor := None\<rparr> = ix"
          using ix(2,3) by (cases ix) simp
        let ?m = "\<lambda>m. modules s2 m - ?q m"
        have eq: "put_interceptor (from_env s2 ((to_env s2)\<lparr>module_refs := ?m\<rparr>)) a ix =
            with_pending (pending (kworld s2)) s"
          by (rule coi_eqI) (use kw fac M(1,3,5,6) ix(1) in \<open>simp_all add: map_upd_triv started_refs_def\<close>)
        have "kedr_coi_interceptor_start k s a = Some (r, with_pending (pending (kworld s2)) s)"
          using C Some F(1) False T(1)
          by (simp add: kedr_coi_interceptor_start_def ix ok gr s0eq M(1) instrumentor_destroy_empty S(3)
              unuse_ready [OF pr] same eq)
        then show ?thesis using False by auto
      qed
    qed
  qed
qed

end
