(* ===== verification/Interceptor_Watch.thy ===== *)
theory Interceptor_Watch
  imports Interceptor_Spec
begin

text \<open>
  Watching objects with a started interceptor, what its intermediate operations are told, and
  stopping it.
\<close>

subsection \<open>Operations in use, field by field\<close>

text \<open>The default flags before the closure: some external handler is registered.\<close>

definition external_at :: "(ptr \<Rightarrow> kedr_coi_payload) \<Rightarrow> ptr list \<Rightarrow> operation_info \<Rightarrow> bool" where
  "external_at pm us oi \<longleftrightarrow>
     (\<exists>h \<in> set (pre_funcs pm us (o_offset oi) @ post_funcs pm us (o_offset oi)). external h)"

definition handler_array :: "kedr_coi_handler list \<Rightarrow> ptr list option" where
  "handler_array hs = (if hs = [] then None else Some (map func hs @ [NULL]))"

lemma elems_handlers: "elems (mk_parray (map func hs)) = handler_array hs"
  by (simp add: elems_mk handler_array_def)

lemma used_operation_fields:
  fixes pm :: "ptr \<Rightarrow> kedr_coi_payload" and us :: "ptr list"
  assumes clean: "\<And>x. x \<in> set ops \<Longrightarrow> operation_clean x" and n: "n < length ops"
  defines "oi \<equiv> used_operations pm us False ops ! n"
    and "hpre \<equiv> pre_funcs pm us (o_offset (ops ! n))" and "hpost \<equiv> post_funcs pm us (o_offset (ops ! n))"
  shows "o_offset oi = o_offset (ops ! n)" "o_repl oi = o_repl (ops ! n)"
    "elems (o_pre_handlers oi) = handler_array hpre" "elems (o_post_handlers oi) = handler_array hpost"
    "elems (default_pre_handlers oi) = handler_array (filter external hpre)"
    "elems (default_post_handlers oi) = handler_array (filter external hpost)"
    "is_intercepted oi \<longleftrightarrow> hpre \<noteq> [] \<or> hpost \<noteq> []"
    "default_is_intercepted oi \<longleftrightarrow> external_at pm us (ops ! n) \<or>
       group_id (ops ! n) \<noteq> 0 \<and> (\<exists>x \<in> set ops. group_id x = group_id (ops ! n) \<and> external_at pm us x)"
proof -
  let ?w = "\<lambda>oi. with_handlers (pre_funcs pm us (o_offset oi)) (post_funcs pm us (o_offset oi)) oi"
  have oi: "oi = closed_operation (map ?w ops) (?w (ops ! n))"
    using n by (simp add: oi_def used_operations_def start_operations_def close_operations_eq)
  have c: "operation_clean (ops ! n)" using clean n by simp
  then have e: "plist (o_pre_handlers (ops ! n)) = []" "plist (o_post_handlers (ops ! n)) = []"
    "plist (default_pre_handlers (ops ! n)) = []" "plist (default_post_handlers (ops ! n)) = []"
    by (simp_all add: operation_clean_def parray_init_mk)
  show "o_offset oi = o_offset (ops ! n)" "o_repl oi = o_repl (ops ! n)"
    "elems (o_pre_handlers oi) = handler_array hpre" "elems (o_post_handlers oi) = handler_array hpost"
    "elems (default_pre_handlers oi) = handler_array (filter external hpre)"
    "elems (default_post_handlers oi) = handler_array (filter external hpost)"
    by (simp_all add: oi closed_operation_def with_handlers_def e elems_handlers hpre_def hpost_def)
  show "is_intercepted oi \<longleftrightarrow> hpre \<noteq> [] \<or> hpost \<noteq> []"
    using c by (simp add: oi closed_operation_def with_handlers_def hpre_def hpost_def operation_clean_def)
  have d: "default_is_intercepted (?w x) = external_at pm us x" if "x \<in> set ops" for x
    using clean [OF that] by (simp add: with_handlers_def external_at_def operation_clean_def)
  have g: "group_id (?w x) = group_id x" for x by (simp add: with_handlers_def)
  have "group_default (map ?w ops) (group_id (ops ! n)) \<longleftrightarrow>
      group_id (ops ! n) \<noteq> 0 \<and> (\<exists>x \<in> set ops. group_id x = group_id (ops ! n) \<and> external_at pm us x)"
    using d by (auto simp: group_default_def g)
  moreover have "default_is_intercepted oi \<longleftrightarrow>
      default_is_intercepted (?w (ops ! n)) \<or> group_default (map ?w ops) (group_id (ops ! n))"
    by (simp add: oi closed_operation_def g)
  ultimately show "default_is_intercepted oi \<longleftrightarrow> external_at pm us (ops ! n) \<or>
       group_id (ops ! n) \<noteq> 0 \<and> (\<exists>x \<in> set ops. group_id x = group_id (ops ! n) \<and> external_at pm us x)"
    using d [OF nth_mem [OF n]] by simp
qed

subsection \<open>Watching\<close>

lemma interceptor_okD:
  assumes "interceptor_ok k R s a ix i"
  shows "interceptors s a = Some ix" "state ix = interceptor_state_started" "instrumentor ix = Some i"
    "is_used (payloads ix)" "\<exists>base env. payloads_inv (payload_at k) base (payloads ix) env"
    "replacements i = table_of (operations (payloads ix))" "replace_at_place i = i_replace_at_place ix"
    "instr_inv (hash_of k) R {#} i (kworld s)"
    "operations_wf (operations (payloads ix))"
    "\<And>oi. oi \<in> set (operations (payloads ix)) \<Longrightarrow> o_offset oi \<noteq> - 1"
  using assms by (auto simp: interceptor_ok_def payloads_inv_def)


lemma interceptor_ok_step:
  assumes ok: "interceptor_ok k R s a ix i" and c: "same_config i i'"
    and inv: "instr_inv (hash_of k) R {#} i' (kworld s')"
    and s': "interceptors s' a = Some (ix\<lparr>instrumentor := Some i'\<rparr>)"
  shows "interceptor_ok k R s' a (ix\<lparr>instrumentor := Some i'\<rparr>) i'"
  using assms by (simp add: interceptor_ok_def same_config_def)

lemma interceptor_watch_inv:
  assumes ok: "interceptor_ok k R s a ix i" and off: "operations_field_offset ix \<noteq> - 1"
    and field: "op_fields s (object + operations_field_offset ix) = Some ops_p"
    and v: "ops_p \<noteq> NULL \<Longrightarrow> valid_ops R (kworld s) ops_p"
  shows "\<exists>r s' i' p. kedr_coi_interceptor_watch k s a object = Some (r, s') \<and>
           kedr_coi_instrumentor_watch (hash_of k) i object ops_p (kworld s) = Some (r, p, i', kworld s') \<and>
           r \<in> {0, 1, - ENOMEM, - EBUSY} \<and>
           op_fields s' = (op_fields s)(object + operations_field_offset ix \<mapsto> p) \<and>
           interceptor_ok k R s' a (ix\<lparr>instrumentor := Some i'\<rparr>) i'"
proof -
  note O = interceptor_okD [OF ok]
  from watch_inv [OF O(8) v, of object] obtain r p i' w' where
    W: "kedr_coi_instrumentor_watch (hash_of k) i object ops_p (kworld s) = Some (r, p, i', w')"
       "instr_inv (hash_of k) R {#} i' w'" "r \<in> {0, 1, - ENOMEM, - EBUSY}" by blast
  let ?s = "write_field (put_interceptor (s\<lparr>kworld := w'\<rparr>) a (ix\<lparr>instrumentor := Some i'\<rparr>))
              (object + operations_field_offset ix) p"
  have "kedr_coi_interceptor_watch k s a object = Some (r, ?s)"
    by (simp add: kedr_coi_interceptor_watch_def O(1-3) off field W(1) indirect_operations_p_def)
  moreover have "kworld ?s = w'" "interceptors ?s a = Some (ix\<lparr>instrumentor := Some i'\<rparr>)"
    "op_fields ?s = (op_fields s)(object + operations_field_offset ix \<mapsto> p)"
    by (simp_all add: write_field_def)
  moreover have "interceptor_ok k R ?s a (ix\<lparr>instrumentor := Some i'\<rparr>) i'"
    by (rule interceptor_ok_step [OF ok watch_config [OF W(1)]]) (simp_all add: write_field_def W(2))
  ultimately show ?thesis using W by metis
qed

text \<open>
  After an object was watched, every operation of its structure goes to the intermediate
  operation exactly when it is intercepted, and the intermediate operation gets the original
  operation and the arrays of handlers.
\<close>

lemma interceptor_watch_effect:
  assumes ok: "interceptor_ok k R s a ix i" and off: "operations_field_offset ix \<noteq> - 1"
    and field: "op_fields s (object + operations_field_offset ix) = Some ops_p"
    and v: "ops_p \<noteq> NULL \<Longrightarrow> valid_ops R (kworld s) ops_p"
    and new: "\<not> watched (hash_of k) i object" and fresh: "instrumentor_find_data (hash_of k) i ops_p = None"
    and watch: "kedr_coi_interceptor_watch k s a object = Some (0, s')"
    and oi: "oi \<in> set (operations (payloads ix))" "o_offset oi \<in> R"
    and op: "(if ops_p = NULL then Some NULL else read_op (kworld s) ops_p (o_offset oi)) = Some op"
  shows "\<exists>p. op_fields s' (object + operations_field_offset ix) = Some p \<and>
           read_op (kworld s') p (o_offset oi) = Some (if intercepts oi op then o_repl oi else op) \<and>
           kedr_coi_interceptor_get_intermediate_info k s' a object (o_offset oi) info =
             Some (0, info\<lparr>op_orig := Inr op,
               pre := elems (if op = NULL then default_pre_handlers oi else o_pre_handlers oi),
               post := elems (if op = NULL then default_post_handlers oi else o_post_handlers oi)\<rparr>)"
proof -
  note O = interceptor_okD [OF ok]
  from interceptor_watch_inv [OF ok off field v] watch obtain i' p where
    W: "kedr_coi_instrumentor_watch (hash_of k) i object ops_p (kworld s) = Some (0, p, i', kworld s')"
       "op_fields s' = (op_fields s)(object + operations_field_offset ix \<mapsto> p)"
       "interceptor_ok k R s' a (ix\<lparr>instrumentor := Some i'\<rparr>) i'" by auto
  note O' = interceptor_okD [OF W(3)]
  note E = watch_intercepts_ok [OF O(8) v new fresh W(1) oi(2) op, of p]
  have "read_op (kworld s') p (o_offset oi) = Some (if intercepts oi op then o_repl oi else op)"
    using E table_of_replace [OF O(9,10) oi(1)] replace_at_distinct [OF table_of_distinct [OF O(9,10)]]
    by (simp add: O(6))
  moreover have "kedr_coi_instrumentor_get_orig_operation (hash_of k) i' object p (o_offset oi) (kworld s') =
      Some (0, Inr op)" using E by simp
  moreover obtain n where n: "operation_payloads_find_operation (operations (payloads ix)) (o_offset oi) = Some n"
    using find_operation_None [of "operations (payloads ix)" "o_offset oi"] oi(1)
    by (cases "operation_payloads_find_operation (operations (payloads ix)) (o_offset oi)") auto
  moreover have "operations (payloads ix) ! n = oi"
    using find_operation_Some [OF n] oi(1) O(9)
    by (metis operations_wf_def distinct_map inj_onD nth_mem)
  ultimately show ?thesis
    by (simp add: W(2) kedr_coi_interceptor_get_intermediate_info_def O'(1-3) O(2,4) off indirect_operations_def
        operation_payloads_get_interception_info_def)
qed


subsection \<open>Forgetting\<close>

lemma interceptor_forget_inv:
  assumes ok: "interceptor_ok k R s a ix i" and off: "operations_field_offset ix \<noteq> - 1"
    and field: "op_fields s (object + operations_field_offset ix) = Some q"
  shows "\<exists>r s' i' p. kedr_coi_interceptor_forget k s a object = Some (r, s') \<and>
           kedr_coi_instrumentor_forget (hash_of k) i object (Some q) (kworld s) = Some (r, Some p, i', kworld s') \<and>
           op_fields s' = (op_fields s)(object + operations_field_offset ix \<mapsto> p) \<and> r \<in> {0, 1} \<and>
           interceptor_ok k R s' a (ix\<lparr>instrumentor := Some i'\<rparr>) i'"
proof -
  note O = interceptor_okD [OF ok]
  from forget_inv(1) [OF O(8), of object "Some q"] obtain r p i' w' where
    W: "kedr_coi_instrumentor_forget (hash_of k) i object (Some q) (kworld s) = Some (r, p, i', w')"
       "instr_inv (hash_of k) R {#} i' w'" "r \<in> {0, 1}" by blast
  then obtain p' where p: "p = Some p'"
    by (auto simp: kedr_coi_instrumentor_forget_def bind_eq_Some_conv Let_def split: option.splits)
  let ?s = "write_field (put_interceptor (s\<lparr>kworld := w'\<rparr>) a (ix\<lparr>instrumentor := Some i'\<rparr>))
              (object + operations_field_offset ix) p'"
  have "kedr_coi_interceptor_forget k s a object = Some (r, ?s)"
    by (simp add: kedr_coi_interceptor_forget_def O(1-3) off field W(1) p indirect_operations_p_def)
  moreover have "kworld ?s = w'" "op_fields ?s = (op_fields s)(object + operations_field_offset ix \<mapsto> p')"
    by (simp_all add: write_field_def)
  moreover have "interceptor_ok k R ?s a (ix\<lparr>instrumentor := Some i'\<rparr>) i'"
    by (rule interceptor_ok_step [OF ok forget_config(1) [OF W(1)]]) (simp_all add: write_field_def W(2))
  ultimately show ?thesis using W p by metis
qed

subsection \<open>A new instrumentor watches nothing\<close>

lemma empty_instrumentor:
  assumes inv: "instr_inv hp R {#} i w" and "watch_datas i = Map.empty" and "idatas i = Map.empty"
  shows "\<not> watched hp i object" "instrumentor_find_data hp i ops = None"
proof -
  have "entries (objects_table i) = {}" using objects_okD [OF inv_objects [OF inv]] assms(2) by simp
  then show "\<not> watched hp i object"
    by (simp add: watched_iff [OF inv_objects [OF inv]] watched_objects_def)
  show "instrumentor_find_data hp i ops = None"
    using find_data_iff [OF instr_invD(2) [OF inv], of ops] assms(3)
    by (cases "instrumentor_find_data hp i ops") auto
qed

subsection \<open>Stopping\<close>

lemma unuse_inv_ready:
  assumes "payloads_inv pm base ps env" and "is_used ps"
  shows "\<exists>ps' m. operation_payloads_unuse pm ps env' = (ps', env'\<lparr>module_refs := m\<rparr>) \<and> payloads_ready pm ps' \<and>
           m = (\<lambda>x. module_refs env' x - mod_count pm (payload_elems ps) x)"
proof -
  let ?env = "env'\<lparr>module_refs := \<lambda>m. base m + mod_count pm (payload_elems ps) m\<rparr>"
  have inv: "payloads_inv pm base ps ?env" using assms unfolding payloads_inv_def by (metis kernel_env.select_convs(2) kernel_env.surjective kernel_env.update_convs(2))
  from unuse_inv [OF inv assms(2)] obtain ps1 env1 where
    A: "operation_payloads_unuse pm ps ?env = (ps1, env1)" "payloads_inv pm base ps1 env1" "\<not> is_used ps1" by blast
  let ?es = "payload_elems ps"
  have rel: "operation_payloads_release_all pm ?es (payload_elems_used ps) env =
      (map (\<lambda>e. e\<lparr>is_fixed := False\<rparr>) ?es, [], env\<lparr>module_refs := \<lambda>m. module_refs env m - mod_count pm ?es m\<rparr>)"
    for env using release_all_eq [of pm ?es "[]" env] assms(1) by (simp add: payloads_inv_def)
  have "fst (operation_payloads_unuse pm ps env') = fst (operation_payloads_unuse pm ps ?env)"
    by (simp add: operation_payloads_unuse_def use_rollback_def rel)
  moreover have "snd (operation_payloads_unuse pm ps env') =
      env'\<lparr>module_refs := \<lambda>m. module_refs env' m - mod_count pm ?es m\<rparr>"
    by (simp add: operation_payloads_unuse_def use_rollback_def rel)
  moreover have "payloads_ready pm ps1" using A by (auto simp: payloads_ready_def)
  ultimately show ?thesis using A(1) by (metis fst_conv prod.collapse)
qed

lemma interceptor_stop_ok:
  assumes ok: "interceptor_ok k R s a ix i" and nf: "no_foreign i" and fs: "factory_interceptors ix = []"
  shows "\<exists>s' ps'. kedr_coi_interceptor_stop k s a = Some s' \<and>
           interceptors s' = (interceptors s)(a \<mapsto> ix\<lparr>state := interceptor_state_initialized,
              instrumentor := None, payloads := ps'\<rparr>) \<and> payloads_ready (payload_at k) ps' \<and>
           traced s' = traced s @ trace_calls (trace_unforgotten_object ix) (map snd (table_elems (objects_table i))) \<and>
           modules s' = (\<lambda>m. modules s m - mod_count (payload_at k) (payload_elems (payloads ix)) m) \<and>
           op_fields s' = op_fields s \<and> entries (ops_table_global (kworld s')) = others i (kworld s)"
proof -
  note O = interceptor_okD [OF ok]
  from instrumentor_destroy_ok [OF O(8) nf, of True] obtain i' w' where
    D: "kedr_coi_instrumentor_destroy (hash_of k) i True (kworld s) =
          Some (map snd (table_elems (objects_table i)), i', w')"
       "entries (ops_table_global w') = others i (kworld s)" by auto
  from O(5) obtain base env where pinv: "payloads_inv (payload_at k) base (payloads ix) env" by blast
  let ?s = "s\<lparr>kworld := w', traced := traced s @ trace_calls (trace_unforgotten_object ix)
              (map snd (table_elems (objects_table i)))\<rparr>"
  from unuse_inv_ready [OF pinv O(4), of "to_env ?s"] obtain ps' where
    U: "operation_payloads_unuse (payload_at k) (payloads ix) (to_env ?s) =
          (ps', (to_env ?s)\<lparr>module_refs := \<lambda>m. modules s m - mod_count (payload_at k) (payload_elems (payloads ix)) m\<rparr>)"
       "payloads_ready (payload_at k) ps'" by auto
  have "kedr_coi_interceptor_stop k s a = Some (put_interceptor
      (from_env ?s ((to_env ?s)\<lparr>module_refs := \<lambda>m. modules s m - mod_count (payload_at k) (payload_elems (payloads ix)) m\<rparr>))
      a (ix\<lparr>state := interceptor_state_initialized, instrumentor := None, payloads := ps'\<rparr>))"
    by (simp add: kedr_coi_interceptor_stop_def O(1-3) fs D(1) U(1) Let_def)
  then show ?thesis using U(2) D(2)
    by (auto simp: from_env_def put_interceptor_def)
qed

end
