(* ===== verification/Interceptor_Examples.thy ===== *)
theory Interceptor_Examples
  imports Interceptor_Watch Examples
begin

text \<open>
  A concrete interceptor with three operations, two of them in a group, three registered
  payloads (one from a module that cannot be referenced any more) and an object to watch.
\<close>

definition ex_intermediates :: "kedr_coi_intermediate list" where
  "ex_intermediates =
     [\<lparr>i_operation_offset = 0, i_repl = 0x900, i_group_id = 1, i_internal_only = False\<rparr>,
      \<lparr>i_operation_offset = 8, i_repl = 0x908, i_group_id = 1, i_internal_only = False\<rparr>,
      \<lparr>i_operation_offset = 16, i_repl = 0x910, i_group_id = 0, i_internal_only = True\<rparr>,
      \<lparr>i_operation_offset = - 1, i_repl = NULL, i_group_id = 0, i_internal_only = False\<rparr>]"

definition ex_end :: kedr_coi_handler where
  "ex_end = \<lparr>h_offset = - 1, func = NULL, external = False\<rparr>"

definition ex_pm :: "ptr \<Rightarrow> kedr_coi_payload" where
  "ex_pm p =
     (if p = 0x31
      then \<lparr>mod_p = NULL, pre_handlers = Some [\<lparr>h_offset = 0, func = 0x701, external = True\<rparr>, ex_end],
            post_handlers = None\<rparr>
      else if p = 0x32
      then \<lparr>mod_p = 0x5, pre_handlers = None,
            post_handlers = Some [\<lparr>h_offset = 0, func = 0x702, external = False\<rparr>,
                                  \<lparr>h_offset = 16, func = 0x703, external = False\<rparr>, ex_end]\<rparr>
      else if p = 0x33
      then \<lparr>mod_p = 0x6, pre_handlers = Some [\<lparr>h_offset = 8, func = 0x704, external = False\<rparr>, ex_end],
            post_handlers = None\<rparr>
      else \<lparr>mod_p = NULL, pre_handlers = Some [\<lparr>h_offset = 16, func = 0x705, external = True\<rparr>, ex_end],
            post_handlers = None\<rparr>)"

definition ex_live :: "ptr \<Rightarrow> bool" where
  "ex_live m = (m = 0x5)"

definition ex_payloads :: operation_payloads where
  "ex_payloads =
     \<lparr>payload_elems = map (\<lambda>p. \<lparr>payload = p, is_fixed = False\<rparr>) [0x31, 0x32, 0x33],
      operations = map operation_info_init (for_each_intermediate ex_intermediates),
      is_used = False, payload_elems_used = [], p_replacements = None\<rparr>"

definition ex_env :: kernel_env where
  "ex_env = \<lparr>env_allocs = map Some [0x10, 0x20, 0x30, 0x40, 0x50, 0x60, 0x70, 0x80, 0x90, 0xa0],
             module_refs = (\<lambda>m. 0)\<rparr>"

lemma ex_for_each_intermediate:
  "for_each_intermediate ex_intermediates =
     [\<lparr>i_operation_offset = 0, i_repl = 0x900, i_group_id = 1, i_internal_only = False\<rparr>,
      \<lparr>i_operation_offset = 8, i_repl = 0x908, i_group_id = 1, i_internal_only = False\<rparr>,
      \<lparr>i_operation_offset = 16, i_repl = 0x910, i_group_id = 0, i_internal_only = True\<rparr>]"
  by (simp add: for_each_intermediate_def ex_intermediates_def)

lemmas ex_payload_eval = ex_payloads_def ex_for_each_intermediate ex_pm_def ex_end_def
  payload_allowed_def handlers_of_def for_each_handler_def handler_allowed_def operation_info_init_def

lemma ex_allowed:
  "p \<in> {0x31, 0x32, 0x33} \<Longrightarrow> payload_allowed (operations ex_payloads) (ex_pm p)"
  "\<not> payload_allowed (operations ex_payloads) (ex_pm 0x34)"
  by (auto simp: ex_payload_eval)

lemma ex_operations_wf: "operations_wf (operations ex_payloads)"
  by (auto simp: operations_wf_def ex_payloads_def clean_wf operation_info_init_clean)
    (simp add: ex_for_each_intermediate operation_info_init_def)

lemma ex_payloads_inv: "payloads_inv ex_pm (\<lambda>m. 0) ex_payloads ex_env"
proof -
  have e: "payload_elems ex_payloads = map (\<lambda>p. \<lparr>payload = p, is_fixed = False\<rparr>) [0x31, 0x32, 0x33]"
    "payload_elems_used ex_payloads = []" "\<not> is_used ex_payloads" "p_replacements ex_payloads = None"
    by (simp_all add: ex_payloads_def)
  have "\<forall>oi \<in> set (operations ex_payloads). o_offset oi \<noteq> - 1 \<and> operation_clean oi"
    by (auto simp: ex_payloads_def operation_info_init_clean ex_for_each_intermediate)
      (simp_all add: operation_info_init_def)
  moreover have "mod_count ex_pm (payload_elems ex_payloads) = (\<lambda>m. 0)"
    by (rule mod_count_unfixed) (auto simp: e)
  moreover have "\<forall>e \<in> set (payload_elems ex_payloads). payload_allowed (operations ex_payloads) (ex_pm (payload e))"
    using ex_allowed by (simp add: e)
  ultimately show ?thesis
    using ex_operations_wf e by (simp add: payloads_inv_def ex_env_def)
qed

lemma ex_payloads_ready: "payloads_ready ex_pm ex_payloads"
  using ex_payloads_inv by (auto simp: payloads_ready_def ex_payloads_def)

text \<open>The result of using these payloads.\<close>

lemma ex_use_code:
  "(case operation_payloads_use ex_pm ex_live 0 ex_payloads False ex_env of
      None \<Rightarrow> False | Some (r, ps, env) \<Rightarrow> r = 0)"
  by code_simp

lemma ex_use_obtain:
  obtains ps env where "operation_payloads_use ex_pm ex_live 0 ex_payloads False ex_env = Some (0, ps, env)"
  using ex_use_code by (auto split: option.splits prod.splits)

subsection \<open>An interceptor\<close>

definition ex_params :: kernel_params where
  "ex_params = \<lparr>hash_of = low_bits_hash, payload_at = ex_pm, module_live = ex_live,
                lock_result = (\<lambda>p. 0), module_address = (\<lambda>p. None), set_module_ronx = False\<rparr>"

definition ex_ops3 :: ops_struct where
  "ex_ops3 = (\<lambda>off. if off = 0 then Some 0x100 else if off = 8 then Some NULL
                    else if off = 16 then Some 0x116 else None)"

definition ex_interceptor :: "ptr list \<Rightarrow> kedr_coi_interceptor" where
  "ex_interceptor fs =
     \<lparr>state = interceptor_state_initialized, instrumentor = None, operations_field_offset = 16,
      payloads = ex_payloads, factory_interceptors = fs, i_operations_struct_size = 24,
      i_replace_at_place = (\<lambda>ops. False), trace_unforgotten_object = 0x555\<rparr>"

definition ex_factory :: kedr_coi_factory_interceptor where
  "ex_factory =
     \<lparr>fi_state = interceptor_state_initialized, fi_instrumentor = NULL,
      factory_operations_field_offset = 32,
      fi_payloads = \<lparr>payload_elems = [],
        operations = [operation_info_init \<lparr>i_operation_offset = 8, i_repl = 0x988, i_group_id = 0,
                                           i_internal_only = False\<rparr>],
        is_used = False, payload_elems_used = [], p_replacements = None\<rparr>,
      interceptor_binded = 0x77, fi_trace_unforgotten_object = NULL\<rparr>"

definition ex_coi :: "ptr list \<Rightarrow> coi" where
  "ex_coi fs =
     \<lparr>interceptors = (\<lambda>a. if a = 0x77 then Some (ex_interceptor fs) else None),
      factories = (\<lambda>f. if f = 0x78 then Some ex_factory else None),
      op_fields = (\<lambda>p. if p = 0x2010 then Some 0x1000 else None),
      kworld = \<lparr>ops_mem = (\<lambda>p. if p = 0x1000 then Some ex_ops3 else None),
                ops_table_global = empty_table,
                pending = map Some [0x10, 0x18, 0x20, 0x28, 0x30, 0x38, 0x40, 0x48, 0x50, 0x58, 0x60,
                  0x68, 0x70, 0x78, 0x80, 0x88, 0x90, 0x98, 0xa0, 0xa8, 0xb0, 0xb8, 0xc0, 0xc8]\<rparr>,
      modules = (\<lambda>m. 0), traced = []\<rparr>"

lemma ex_factory_ready: "factory_ready ex_params 0x77 ex_factory"
proof -
  let ?ps = "fi_payloads ex_factory"
  have "payloads_inv ex_pm (\<lambda>m. 0) ?ps ex_env"
    by (simp add: payloads_inv_def ex_factory_def operations_wf_def clean_wf operation_info_init_clean ex_env_def)
      (simp add: operation_info_init_def)
  then have "payloads_ready ex_pm ?ps" by (auto simp: payloads_ready_def ex_factory_def)
  then show ?thesis by (simp add: factory_ready_def ex_params_def) (simp add: ex_factory_def)
qed

lemma ex_ready:
  assumes "fs = [] \<or> fs = [0x78]"
  shows "interceptor_ready ex_params {0, 8, 16} (ex_coi fs) 0x77 (ex_interceptor fs)"
proof -
  have "\<forall>oi \<in> set (operations ex_payloads). o_offset oi \<in> {0, 8, 16}"
    by (simp add: ex_payloads_def ex_for_each_intermediate) (simp add: operation_info_init_def)
  moreover have "world_ok low_bits_hash (kworld (ex_coi fs))"
    by (auto simp: world_ok_def ex_coi_def)
  ultimately show ?thesis
    using ex_payloads_ready ex_factory_ready assms
    by (auto simp: interceptor_ready_def ex_coi_def ex_interceptor_def ex_params_def)
qed

text \<open>Starting it, evaluated.\<close>

abbreviation ex_used :: operation_payloads where
  "ex_used \<equiv> used_payloads ex_pm ex_live False ex_payloads"

definition ex_left :: allocs where
  "ex_left = map Some [0x58, 0x60, 0x68, 0x70, 0x78, 0x80, 0x88, 0x90, 0x98, 0xa0, 0xa8, 0xb0, 0xb8, 0xc0, 0xc8]"

lemma ex_use_allocs:
  "(case operation_payloads_use ex_pm ex_live 0 ex_payloads False (to_env (ex_coi [])) of
      None \<Rightarrow> False | Some (r, ps, env) \<Rightarrow> r = 0 \<and>
        env_allocs env = map Some [0x38, 0x40, 0x48, 0x50] @ ex_left)"
  by code_simp

lemma ex_table_code:
  "for_each_replacement (table_of (operations ex_used)) =
     [\<lparr>operation_offset = 0, repl = 0x900, mode = replace_all\<rparr>,
      \<lparr>operation_offset = 8, repl = 0x908, mode = replace_null\<rparr>,
      \<lparr>operation_offset = 16, repl = 0x910, mode = replace_not_null\<rparr>]"
  by code_simp

lemma ex_use_eq:
  "operation_payloads_use ex_pm ex_live 0 ex_payloads False (to_env (ex_coi [])) =
     Some (0, ex_used, \<lparr>env_allocs = map Some [0x38, 0x40, 0x48, 0x50] @ ex_left,
                        module_refs = \<lambda>m. used_refs ex_pm ex_live ex_payloads m\<rparr>)"
  using use_ready [OF ex_payloads_ready, of 0 ex_live False "to_env (ex_coi [])"] ex_use_allocs
  by (auto simp: errno_defs) (simp_all add: ex_coi_def)

definition ex_i :: kedr_coi_instrumentor where
  "ex_i = the (fst (kedr_coi_instrumentor_create 24 (p_replacements ex_used) (\<lambda>ops. False)
                      (map Some [0x38, 0x40, 0x48, 0x50] @ ex_left)))"

lemma ex_i_create:
  "kedr_coi_instrumentor_create 24 (p_replacements ex_used) (\<lambda>ops. False)
     (map Some [0x38, 0x40, 0x48, 0x50] @ ex_left) = (Some ex_i, ex_left)"
  by (simp add: ex_i_def kedr_coi_instrumentor_create_def kmalloc_def kedr_coi_hash_table_init_def)

lemmas ex_i_shape = create_shape [OF ex_i_create]

definition ex_ix :: kedr_coi_interceptor where
  "ex_ix = (ex_interceptor [])\<lparr>payloads := ex_used, instrumentor := Some ex_i, state := interceptor_state_started\<rparr>"

definition ex_started :: coi where
  "ex_started = (put_interceptor (with_pending ex_left (ex_coi [])) 0x77 ex_ix)
     \<lparr>modules := used_refs ex_pm ex_live ex_payloads\<rparr>"

lemma ex_start_eq: "kedr_coi_interceptor_start ex_params (ex_coi []) 0x77 = Some (0, ex_started)"
proof -
  have i: "interceptors (ex_coi []) 0x77 = Some (ex_interceptor [])" by (simp add: ex_coi_def)
  have gr: "operation_payloads_get_replacements ex_used = Some (p_replacements ex_used)"
    by (simp add: operation_payloads_get_replacements_def used_payloads_sel(1))
  have f: "state (ex_interceptor []) = interceptor_state_initialized" "payloads (ex_interceptor []) = ex_payloads"
    "i_operations_struct_size (ex_interceptor []) = 24" "i_replace_at_place (ex_interceptor []) = (\<lambda>ops. False)"
    "factory_interceptors (ex_interceptor []) = []" by (simp_all add: ex_interceptor_def)
  show ?thesis
    using ex_use_eq ex_i_create
    by (simp add: kedr_coi_interceptor_start_def i f ex_params_def gr)
      (rule coi_eqI, simp_all add: ex_started_def ex_ix_def)
qed

text \<open>Watching the object 0x2000 with it.\<close>

lemma ex_watch3_eq:
  "\<exists>p i w. kedr_coi_instrumentor_watch low_bits_hash ex_i 0x2000 0x1000 (kworld ex_started) = Some (0, p, i, w)"
proof -
  have k: "ops_mem (kworld ex_started) = (\<lambda>p. if p = 0x1000 then Some ex_ops3 else None)"
    "ops_table_global (kworld ex_started) = empty_table" "pending (kworld ex_started) = ex_left"
    by (simp_all add: ex_started_def ex_coi_def)
  have t: "for_each_replacement (replacements ex_i) =
     [\<lparr>operation_offset = 0, repl = 0x900, mode = replace_all\<rparr>,
      \<lparr>operation_offset = 8, repl = 0x908, mode = replace_null\<rparr>,
      \<lparr>operation_offset = 16, repl = 0x910, mode = replace_not_null\<rparr>]"
    using ex_table_code by (simp add: ex_i_shape(6) used_payloads_sel(2))
  show ?thesis
    by (simp add: kedr_coi_instrumentor_watch_def instrumentor_watch_internal_def
      instrumentor_find_watch_data_def instrumentor_get_data_def instrumentor_find_data_def uc_idata_create_def
      ex_i_shape(2-5,7-11) world_kmalloc_def kmalloc_def kedr_coi_hash_table_find_elem_def k ex_left_def
      empty_table_def init_hlist_heads_def hash_function_def BITS_DEFAULT_def add_search_eq
      ops_content_def t replace_step_def read_op_def write_op_def memcpy_ops_def ex_ops3_def
      replace_operation_def replace_operation_generic_def Let_def table_add_def hlist_add_head_def
      apf_instrument_data_init_def uc_idata_ops_get_repl_operations_def)
qed


definition ex_seen :: coi where
  "ex_seen = snd (the (kedr_coi_interceptor_watch ex_params ex_started 0x77 0x2000))"

lemma ex_started_sel:
  "interceptors ex_started 0x77 = Some ex_ix" "state ex_ix = interceptor_state_started"
  "instrumentor ex_ix = Some ex_i" "operations_field_offset ex_ix = 16" "payloads ex_ix = ex_used"
  "op_fields ex_started 0x2010 = Some 0x1000" "factory_interceptors ex_ix = []"
  "trace_unforgotten_object ex_ix = 0x555"
  by (simp_all add: ex_started_def ex_ix_def ex_interceptor_def ex_coi_def)

lemma ex_see_eq: "kedr_coi_interceptor_watch ex_params ex_started 0x77 0x2000 = Some (0, ex_seen)"
proof -
  obtain p i w where "kedr_coi_instrumentor_watch low_bits_hash ex_i 0x2000 0x1000 (kworld ex_started) = Some (0, p, i, w)"
    using ex_watch3_eq by blast
  then have "\<exists>s. kedr_coi_interceptor_watch ex_params ex_started 0x77 0x2000 = Some (0, s)"
    by (simp add: kedr_coi_interceptor_watch_def ex_started_sel ex_params_def indirect_operations_p_def)
  then show ?thesis by (auto simp: ex_seen_def)
qed

lemma ex_started_ok: "interceptor_ok ex_params {0, 8, 16} ex_started 0x77 ex_ix ex_i"
proof -
  obtain i where "interceptors ex_started = (interceptors (ex_coi []))(0x77 \<mapsto> (ex_interceptor [])
      \<lparr>payloads := started_payloads ex_params (ex_interceptor []), instrumentor := Some i, state := interceptor_state_started\<rparr>)"
    "interceptor_ok ex_params {0, 8, 16} ex_started 0x77 ((ex_interceptor [])
      \<lparr>payloads := started_payloads ex_params (ex_interceptor []), instrumentor := Some i, state := interceptor_state_started\<rparr>) i"
    using interceptor_start_ok [OF ex_ready [of "[]"]] by (auto simp: ex_start_eq)
  then have ok: "\<exists>X. interceptor_ok ex_params {0, 8, 16} ex_started 0x77 X i" by blast
  then obtain X where X: "interceptor_ok ex_params {0, 8, 16} ex_started 0x77 X i" by blast
  then have "interceptors ex_started 0x77 = Some X" "instrumentor X = Some i"
    unfolding interceptor_ok_def by blast+
  with ex_started_sel(1,3) have "X = ex_ix" "i = ex_i" by simp_all
  with X show ?thesis by simp
qed

lemma ex_valid3: "valid_ops {0, 8, 16} (kworld ex_started) 0x1000"
  by (auto simp: valid_ops_def ex_started_def ex_coi_def ex_ops3_def)

lemma ex_no_foreign3: "no_foreign ex_i"
  by (simp add: no_foreign_def ex_i_shape)

end
