(* ===== verification/Payload_Properties.thy ===== *)
theory Payload_Properties
  imports Interceptor_Examples
begin

text \<open>The properties of the payloads of an interceptor (src/sources/core/payloads.c).\<close>

text \<open>C10: From initialisation on, in any order of registering, unregistering, using and unusing
  payloads, whatever allocations, locks and module references fail, the invariant holds: the
  registered payloads are distinct and ask only for allowed interceptions, a payload is fixed
  exactly while it is used, every module has one reference for each of its used payloads on top
  of the ones it had, and the operations are clean, or exactly what the used payloads make of
  clean ones.\<close>

theorem payloads_reachable_inv:
  assumes "operation_payloads_init ints as = (Inr ps0, as')"
    and "distinct (map i_operation_offset (for_each_intermediate (case ints of None \<Rightarrow> [] | Some is \<Rightarrow> is)))"
    and "module_refs env0 = base" and "payloads_reach pm (ps0, env0) (ps, env)"
  shows "payloads_inv pm base ps env"
  using payloads_reach_inv [OF assms(4)] payloads_init_ok(1) [OF assms(1-3)] by simp

theorem payloads_reachable_inv_witness:
  "\<exists>ps env. payloads_reach ex_pm (ex_payloads\<lparr>payload_elems := []\<rparr>, ex_env) (ps, env) \<and> payloads_inv ex_pm (\<lambda>m. 0) ps env"
proof -
  let ?ps = "ex_payloads\<lparr>payload_elems := []\<rparr>"
  have i: "operation_payloads_init (Some ex_intermediates) [Some 0x1, Some 0x2, Some 0x3] = (Inr ?ps, [])"
    by (simp add: operation_payloads_init_def ex_for_each_intermediate kmalloc_def ex_payloads_def)
  have d: "distinct (map i_operation_offset (for_each_intermediate
      (case Some ex_intermediates of None \<Rightarrow> [] | Some is \<Rightarrow> is)))" by (simp add: ex_for_each_intermediate)
  obtain r ps as where "operation_payloads_add ex_pm 0 ?ps 0x31 (env_allocs ex_env) = (r, ps, as)"
    by (metis prod.exhaust)
  then have "payloads_reach ex_pm (?ps, ex_env) (ps, ex_env\<lparr>env_allocs := as\<rparr>)"
    by (rule payloads_next [OF payloads_start step_add])
  moreover from this have "payloads_inv ex_pm (\<lambda>m. 0) ps (ex_env\<lparr>env_allocs := as\<rparr>)"
    by (rule payloads_reachable_inv [OF i d, rotated]) (simp add: ex_env_def)
  ultimately show ?thesis by blast
qed

text \<open>C8: Using registered payloads never hits a BUG and is atomic: it returns 0 and the
  payloads are used, or it returns the error of the lock or -ENOMEM and the object is exactly
  as it was, with the reference counts of all modules, whichever allocation failed.\<close>

theorem payloads_use_atomic:
  assumes "payloads_inv pm base ps env" and "\<not> is_used ps"
  shows "\<exists>r ps' env'. operation_payloads_use pm live lock ps False env = Some (r, ps', env') \<and>
           (if r = 0 then lock = 0 \<and> is_used ps' \<and> payloads_inv pm base ps' env'
            else r \<in> {lock, - ENOMEM} \<and> ps' = ps \<and> module_refs env' = module_refs env)"
proof (cases "lock = 0")
  case False
  then show ?thesis by (simp add: use_lock)
next
  case True
  from use_ok [OF assms, of live False] True show ?thesis
  proof (elim disjE exE, goal_cases)
    case (1 as')
    then show ?case by (auto simp: errno_defs)
  next
    case 2
    then obtain env' where "operation_payloads_use pm live 0 ps False env =
        Some (0, used_payloads pm live False ps, env')" by auto
    with use_inv [OF assms(1) this] True show ?case by (auto simp: used_payloads_sel)
  qed
qed

theorem payloads_use_atomic_witness:
  "\<exists>r ps' env'. operation_payloads_use ex_pm ex_live (- 4) ex_payloads False ex_env = Some (r, ps', env') \<and>
     (r \<noteq> 0 \<longrightarrow> ps' = ex_payloads)"
  using payloads_use_atomic [OF ex_payloads_inv, of ex_live "- 4"] by (fastforce simp: ex_payloads_def)

text \<open>C7: What using computes.  The used payloads are the registered ones whose module can be
  referenced.  Every operation gets the pre handlers and post handlers of these payloads for its
  offset, in order of registration, and as default handlers the external ones among them.  It is
  intercepted iff it has a handler, and its default is iff an external handler is registered for
  it or for an operation of its (nonzero) group.\<close>

theorem payloads_use_result:
  assumes "payloads_inv pm base ps env" and "\<not> is_used ps"
    and "operation_payloads_use pm live lock ps False env = Some (0, ps', env')"
    and "n < length (operations ps)"
  shows "let us = filter (fixable pm live) (map payload (payload_elems ps));
             oi0 = operations ps ! n; oi = operations ps' ! n;
             hpre = pre_funcs pm us (o_offset oi0); hpost = post_funcs pm us (o_offset oi0)
         in payload_elems_used ps' = us \<and>
            o_offset oi = o_offset oi0 \<and> o_repl oi = o_repl oi0 \<and>
            elems (o_pre_handlers oi) = handler_array hpre \<and>
            elems (o_post_handlers oi) = handler_array hpost \<and>
            elems (default_pre_handlers oi) = handler_array (filter external hpre) \<and>
            elems (default_post_handlers oi) = handler_array (filter external hpost) \<and>
            (is_intercepted oi \<longleftrightarrow> hpre \<noteq> [] \<or> hpost \<noteq> []) \<and>
            (default_is_intercepted oi \<longleftrightarrow> external_at pm us oi0 \<or>
               group_id oi0 \<noteq> 0 \<and> (\<exists>x \<in> set (operations ps). group_id x = group_id oi0 \<and> external_at pm us x))"
proof -
  have "lock = 0" using assms(3) by (auto simp: operation_payloads_use_def split: if_splits)
  with use_ok [OF assms(1,2), of live False] assms(3) have ps': "ps' = used_payloads pm live False ps"
    by (auto simp: errno_defs)
  have us: "payload_elems_used ps' = filter (fixable pm live) (map payload (payload_elems ps))"
    by (simp add: ps' used_payloads_def Let_def fixed_payloads_def)
  have "operations ps' ! n =
      used_operations pm (filter (fixable pm live) (map payload (payload_elems ps))) False (operations ps) ! n"
    by (simp add: ps' used_payloads_sel fixed_payloads_def)
  with us used_operation_fields [OF payloads_inv_unused(4) [OF assms(1,2)] assms(4)]
  show ?thesis by (simp add: Let_def)
qed

theorem payloads_use_result_witness:
  "\<exists>ps' env'. operation_payloads_use ex_pm ex_live 0 ex_payloads False ex_env = Some (0, ps', env') \<and>
     payload_elems_used ps' = [0x31, 0x32] \<and> elems (o_pre_handlers (operations ps' ! 0)) = Some [0x701, NULL] \<and>
     \<not> is_intercepted (operations ps' ! 1)"
proof -
  obtain ps' env' where u: "operation_payloads_use ex_pm ex_live 0 ex_payloads False ex_env = Some (0, ps', env')"
    by (rule ex_use_obtain)
  have un: "\<not> is_used ex_payloads" by (simp add: ex_payloads_def)
  have l: "length (operations ex_payloads) = 3" by (simp add: ex_payloads_def ex_for_each_intermediate)
  have us: "filter (fixable ex_pm ex_live) (map payload (payload_elems ex_payloads)) = [0x31, 0x32]"
    by (simp add: ex_payloads_def fixable_def ex_pm_def ex_live_def)
  have o: "o_offset (operations ex_payloads ! 0) = 0" "o_offset (operations ex_payloads ! Suc 0) = 8"
    by (simp_all add: ex_payloads_def ex_for_each_intermediate operation_info_init_def)
  have h: "map func (pre_funcs ex_pm [0x31, 0x32] 0) = [0x701]" "pre_funcs ex_pm [0x31, 0x32] 8 = []"
    "post_funcs ex_pm [0x31, 0x32] 8 = []"
    by (simp_all add: pre_funcs_def post_funcs_def handlers_at_def handlers_of_def for_each_handler_def
        ex_pm_def ex_end_def)
  have "payload_elems_used ps' = [0x31, 0x32] \<and>
      elems (o_pre_handlers (operations ps' ! 0)) = handler_array (pre_funcs ex_pm [0x31, 0x32] 0)"
    using payloads_use_result [OF ex_payloads_inv un u, of 0] by (simp add: Let_def us o l)
  moreover have "\<not> is_intercepted (operations ps' ! 1)"
    using payloads_use_result [OF ex_payloads_inv un u, of 1] by (simp add: Let_def us o l h)
  moreover have "handler_array (pre_funcs ex_pm [0x31, 0x32] 0) = Some [0x701, NULL]"
    using h(1) by (auto simp: handler_array_def)
  ultimately show ?thesis using u by auto
qed

text \<open>C16: Using and unusing is the identity: the payloads, their elements, the operations and the
  replacements are exactly what they were, and the modules have exactly their old references.\<close>

theorem payloads_use_unuse_roundtrip:
  assumes "payloads_inv pm base ps env" and "\<not> is_used ps"
    and "operation_payloads_use pm live lock ps False env = Some (0, ps', env')"
  shows "operation_payloads_unuse pm ps' env' = (ps, env'\<lparr>module_refs := module_refs env\<rparr>)"
proof -
  have "lock = 0" using assms(3) by (auto simp: operation_payloads_use_def split: if_splits)
  with use_ok [OF assms(1,2), of live False] assms(3)
  have "ps' = used_payloads pm live False ps \<and>
      module_refs env' = (\<lambda>m. base m + mod_count pm (payload_elems (used_payloads pm live False ps)) m)"
    by (auto simp: errno_defs)
  with unuse_used [OF assms(1,2)] payloads_inv_unused [OF assms(1,2)] show ?thesis by simp
qed

theorem payloads_use_unuse_roundtrip_witness:
  "\<exists>ps' env'. operation_payloads_use ex_pm ex_live 0 ex_payloads False ex_env = Some (0, ps', env') \<and>
     operation_payloads_unuse ex_pm ps' env' = (ex_payloads, env'\<lparr>module_refs := \<lambda>m. 0\<rparr>)"
proof -
  obtain ps' env' where u: "operation_payloads_use ex_pm ex_live 0 ex_payloads False ex_env = Some (0, ps', env')"
    by (rule ex_use_obtain)
  have "\<not> is_used ex_payloads" by (simp add: ex_payloads_def)
  from payloads_use_unuse_roundtrip [OF ex_payloads_inv this u] u show ?thesis by (auto simp: ex_env_def)
qed

text \<open>C28: Using with intercept_all, the way factory interceptors use their payloads, hits a BUG
  whenever no allocation fails and there is not exactly one intermediate operation; with
  exactly one it never does.\<close>

theorem payloads_intercept_all_single:
  assumes "payloads_inv pm base ps env" and "\<not> is_used ps"
  shows "if length (operations ps) = 1
         then operation_payloads_use pm live lock ps True env \<noteq> None
         else operation_payloads_use pm live 0 ps True env = None \<or>
              (\<exists>as. operation_payloads_use pm live 0 ps True env = Some (- ENOMEM, ps, env\<lparr>env_allocs := as\<rparr>))"
  using use_ok [OF assms, of live True] use_lock [of lock pm live ps True env]
  by (cases "lock = 0") (auto split: if_splits)

theorem payloads_intercept_all_single_witness:
  "operation_payloads_use ex_pm ex_live 0 ex_payloads True ex_env = None"
proof -
  have un: "\<not> is_used ex_payloads" and l: "length (operations ex_payloads) = 3"
    by (simp_all add: ex_payloads_def ex_for_each_intermediate)
  have "(case operation_payloads_use ex_pm ex_live 0 ex_payloads True ex_env of
      None \<Rightarrow> True | Some (r, ps, env) \<Rightarrow> r \<noteq> - ENOMEM)" by code_simp
  with payloads_intercept_all_single [OF ex_payloads_inv un, of ex_live 0] show ?thesis by (auto simp: l)
qed

text \<open>C27: Registering a payload returns -EINVAL exactly when one of its handlers is for an unknown
  operation or is an external handler for an internal operation, -EEXIST when it is registered
  already, and otherwise appends it; every failure leaves the payloads as they are.\<close>

theorem payloads_add_result:
  assumes "payloads_inv pm base ps env"
  shows "\<exists>r ps' as'. operation_payloads_add pm lock ps p as = (r, ps', as') \<and> payloads_inv pm base ps' env \<and>
           (if \<not> payload_allowed (operations ps) (pm p) then r = - EINVAL \<and> ps' = ps
            else r = - ENOMEM \<and> ps' = ps \<or> r = lock \<and> lock \<noteq> 0 \<and> ps' = ps \<or>
                 lock = 0 \<and> (if p \<in> payload ` set (payload_elems ps) then r = - EEXIST \<and> ps' = ps
                  else r = 0 \<and> ps' = ps\<lparr>payload_elems := payload_elems ps @ [\<lparr>payload = p, is_fixed = False\<rparr>]\<rparr>))"
  by (rule add_inv [OF assms])

theorem payloads_add_result_witness:
  "\<exists>as'. operation_payloads_add ex_pm 0 ex_payloads 0x34 [Some 0x10] = (- EINVAL, ex_payloads, as')"
  using payloads_add_result [OF ex_payloads_inv, of 0 "0x34" "[Some 0x10]"] ex_allowed(2) by auto

text \<open>Unregistering a payload returns -ENOENT for a payload that is not registered, -EBUSY for
  one that is used, and otherwise takes exactly this payload out.\<close>

theorem payloads_remove_result:
  assumes "payloads_inv pm base ps env"
  shows "\<exists>r ps'. operation_payloads_remove lock ps p = (r, ps') \<and> payloads_inv pm base ps' env \<and>
           (if lock \<noteq> 0 then r = lock \<and> ps' = ps
            else if p \<notin> payload ` set (payload_elems ps) then r = - ENOENT \<and> ps' = ps
            else if p \<in> set (payload_elems_used ps) then r = - EBUSY \<and> ps' = ps
            else r = 0 \<and> ps' = ps\<lparr>payload_elems := filter (\<lambda>e. payload e \<noteq> p) (payload_elems ps)\<rparr>)"
  by (rule remove_inv [OF assms])

text \<open>C18: The nested loops that close the default interceptions under groups compute, in one
  pass, what they are meant to: an operation's default is intercepted afterwards iff it was, or
  it was for some operation of the same nonzero group.  Nothing else changes, and a second pass
  changes nothing.\<close>

theorem close_operations_groups:
  "close_operations ops =
     map (\<lambda>oi. oi\<lparr>default_is_intercepted := default_is_intercepted oi \<or>
            group_id oi \<noteq> 0 \<and> list_ex (\<lambda>x. group_id x = group_id oi \<and> default_is_intercepted x) ops\<rparr>) ops \<and>
   close_operations (close_operations ops) = close_operations ops"
proof -
  have "closed_operation ops oi = oi\<lparr>default_is_intercepted := default_is_intercepted oi \<or>
      group_id oi \<noteq> 0 \<and> list_ex (\<lambda>x. group_id x = group_id oi \<and> default_is_intercepted x) ops\<rparr>" for oi
    by (cases "group_id oi = 0") (auto simp: closed_operation_def group_default_def list_ex_iff)
  moreover have "close_operations (close_operations ops) =
      map (\<lambda>oi. closed_operation (close_operations ops) (closed_operation ops oi)) ops"
    by (simp add: close_operations_eq [of "close_operations ops"]) (simp add: close_operations_eq [of ops])
  then have "close_operations (close_operations ops) = map (closed_operation ops) ops" by (simp only: closed_closed)
  then have "close_operations (close_operations ops) = close_operations ops"
    by (simp only: closed_closed close_operations_eq [of ops, symmetric])
  ultimately show ?thesis by (simp add: close_operations_eq [of ops])
qed

text \<open>C17: The table of replacements of payloads in use does what the operations say: looking an
  operation up by its offset and applying the entry found gives the intermediate operation
  exactly when the operation, or for a NULL operation its default, is intercepted.\<close>

theorem payloads_replacements_refine:
  assumes "payloads_inv pm base ps env" and "is_used ps" and "oi \<in> set (operations ps)"
    and "operation_payloads_get_replacements ps = Some rs"
  shows "(case find (\<lambda>r. operation_offset r = o_offset oi)
                 (for_each_replacement (case rs of None \<Rightarrow> empty_replacements | Some rs \<Rightarrow> rs)) of
            None \<Rightarrow> op | Some r \<Rightarrow> replace_operation op r) =
         (if (if op = NULL then default_is_intercepted oi else is_intercepted oi) then o_repl oi else op)"
proof -
  have "rs = replacement_table (operations ps)" using assms(1,2,4)
    by (auto simp: payloads_inv_def operation_payloads_get_replacements_def)
  moreover have "operations_wf (operations ps)" "\<And>x. x \<in> set (operations ps) \<Longrightarrow> o_offset x \<noteq> - 1"
    using assms(1) by (auto simp: payloads_inv_def)
  ultimately show ?thesis using table_of_replace [OF _ _ assms(3), of op] by (simp add: intercepts_def)
qed

theorem payloads_replacements_refine_witness:
  "\<exists>ps rs oi. operation_payloads_get_replacements ps = Some rs \<and> oi \<in> set (operations ps) \<and>
     (case find (\<lambda>r. operation_offset r = o_offset oi)
         (for_each_replacement (case rs of None \<Rightarrow> empty_replacements | Some rs \<Rightarrow> rs)) of
        None \<Rightarrow> 0x100 | Some r \<Rightarrow> replace_operation 0x100 r) =
     (if is_intercepted oi then o_repl oi else 0x100)"
proof -
  obtain ps env where u: "operation_payloads_use ex_pm ex_live 0 ex_payloads False ex_env = Some (0, ps, env)"
    by (rule ex_use_obtain)
  have un: "\<not> is_used ex_payloads" by (simp add: ex_payloads_def)
  from use_ok [OF ex_payloads_inv un, of ex_live False] u have ps: "ps = used_payloads ex_pm ex_live False ex_payloads"
    by (auto simp: errno_defs)
  have us: "is_used ps" and "operations ps \<noteq> []"
    by (simp_all add: ps used_payloads_sel used_operations_def close_operations_eq start_operations_def
        ex_payloads_def ex_for_each_intermediate)
  then obtain oi where oi: "oi \<in> set (operations ps)" by (cases "operations ps") auto
  have g: "operation_payloads_get_replacements ps = Some (p_replacements ps)"
    using us by (simp add: operation_payloads_get_replacements_def)
  have "(0x100 :: ptr) \<noteq> NULL" by simp
  then show ?thesis
    using payloads_replacements_refine [OF use_inv [OF ex_payloads_inv u] us oi g, of "0x100"] oi g
    by (metis (mono_tags, lifting))
qed

end
