(* ===== verification/Interceptor_Properties.thy ===== *)
theory Interceptor_Properties
  imports Interceptor_Examples
begin

text \<open>
  The properties of interceptors (src/sources/core/kedr_coi_interceptors.c): starting, watching
  through the operations field of an object, what intermediate operations are told, stopping.
\<close>

text \<open>C2: Starting an initialized interceptor never crashes and is atomic, with all its factory
  interceptors.  When it fails - in the lock, an allocation, or in the middle of starting the
  factory interceptors - the whole state is as it was, but for the allocations made: every
  interceptor and factory interceptor, the references of all modules, the operations structures
  and fields.  When it returns 0 the interceptor and every factory interceptor in its list are
  started, no operations field or structure has changed, and the new instrumentor satisfies its
  invariant and has the replacements of the payloads.\<close>

theorem interceptor_start_atomic:
  assumes "interceptor_ready k R s a ix"
  shows "\<exists>r s'. kedr_coi_interceptor_start k s a = Some (r, s') \<and>
           (if r \<noteq> 0 then s' = s\<lparr>kworld := (kworld s)\<lparr>pending := pending (kworld s')\<rparr>\<rparr>
            else op_fields s' = op_fields s \<and> kworld s' = (kworld s)\<lparr>pending := pending (kworld s')\<rparr> \<and>
                 (\<exists>ix' i. interceptor_ok k R s' a ix' i \<and>
                    payloads ix' = used_payloads (payload_at k) (module_live k) False (payloads ix)) \<and>
                 (\<forall>f \<in> set (factory_interceptors ix). \<exists>fx. factories s' f = Some fx \<and>
                    fi_state fx = interceptor_state_started))"
proof -
  from interceptor_start_ok [OF assms] obtain r s' where
    S: "kedr_coi_interceptor_start k s a = Some (r, s')" and
    out: "r \<noteq> 0 \<and> s' = with_pending (pending (kworld s')) s \<or>
          r = 0 \<and> (\<exists>i st. interceptor_ok k R s' a (ix\<lparr>payloads := started_payloads k ix,
                       instrumentor := Some i, state := interceptor_state_started\<rparr>) i \<and>
             set (map fst st) = set (factory_interceptors ix) \<and>
             (\<forall>f. factories s' f = (case map_of st f of None \<Rightarrow> factories s f
                         | Some fi \<Rightarrow> map_option (factory_on k fi) (factories s f))) \<and>
             op_fields s' = op_fields s \<and> kworld s' = (kworld s)\<lparr>pending := pending (kworld s')\<rparr>)" by blast
  show ?thesis
  proof (cases "r = 0")
    case False
    with S out show ?thesis by (simp add: with_pending_def)
  next
    case True
    with out obtain i st where
      ok: "interceptor_ok k R s' a (ix\<lparr>payloads := started_payloads k ix,
                       instrumentor := Some i, state := interceptor_state_started\<rparr>) i" and
      st: "set (map fst st) = set (factory_interceptors ix)"
          "\<And>f. factories s' f = (case map_of st f of None \<Rightarrow> factories s f
                         | Some fi \<Rightarrow> map_option (factory_on k fi) (factories s f))" and
      rest: "op_fields s' = op_fields s" "kworld s' = (kworld s)\<lparr>pending := pending (kworld s')\<rparr>" by blast
    have "\<exists>fx. factories s' f = Some fx \<and> fi_state fx = interceptor_state_started"
      if f: "f \<in> set (factory_interceptors ix)" for f
    proof -
      obtain fx where "factories s f = Some fx" using assms f by (auto simp: interceptor_ready_def)
      moreover obtain fi where "map_of st f = Some fi"
        using f st(1) by (metis list.set_map map_of_eq_None_iff option.exhaust)
      ultimately show ?thesis by (simp add: st(2) factory_on_def)
    qed
    moreover have "\<exists>ix' i. interceptor_ok k R s' a ix' i \<and> payloads ix' = started_payloads k ix"
      using ok by (intro exI conjI) (assumption, simp)
    ultimately show ?thesis using S True rest by auto
  qed
qed

theorem interceptor_start_atomic_witness:
  "\<exists>r s'. kedr_coi_interceptor_start ex_params (ex_coi [0x78]) 0x77 = Some (r, s') \<and>
     (r = 0 \<or> interceptors s' = interceptors (ex_coi [0x78]) \<and> modules s' = modules (ex_coi [0x78]))"
  using interceptor_start_atomic [OF ex_ready [of "[0x78]"]]
  by (metis (no_types, lifting) coi.select_convs(1,5) coi.surjective coi.update_convs(4))

text \<open>C1: Interception works end to end.  After an interceptor is started and an object is watched
  (not watched before, its operations not instrumented yet), take an operation the interceptor
  knows, which held op in the object's structure.  It is now the intermediate operation exactly
  when some used payload has a handler for it - for a NULL operation, when an external handler
  is registered for it or its group - and otherwise still op.  The intermediate operation is
  told op as the original operation, and the pre and post handlers of the used payloads for it
  in order of registration, only the external ones when op is NULL; the field op_chained of the
  information is not written, although the header says that it is always the same as op_orig
  (the generated intermediate operations of normal interceptors read op_orig only).\<close>

theorem interceptor_end_to_end:
  assumes "interceptor_ready k R s a ix" and "operations_field_offset ix \<noteq> - 1"
    and "kedr_coi_interceptor_start k s a = Some (0, s1)"
    and "op_fields s (object + operations_field_offset ix) = Some ops_p"
    and "ops_p \<noteq> NULL \<Longrightarrow> valid_ops R (kworld s) ops_p"
    and "kedr_coi_interceptor_watch k s1 a object = Some (0, s2)"
    and "oi0 \<in> set (operations (payloads ix))"
    and "(if ops_p = NULL then Some NULL else read_op (kworld s) ops_p (o_offset oi0)) = Some op"
  shows "let us = filter (fixable (payload_at k) (module_live k)) (map payload (payload_elems (payloads ix)));
             hpre = pre_funcs (payload_at k) us (o_offset oi0); hpost = post_funcs (payload_at k) us (o_offset oi0);
             told = (\<lambda>hs. handler_array (if op = NULL then filter external hs else hs));
             inter = (if op = NULL
                      then external_at (payload_at k) us oi0 \<or> group_id oi0 \<noteq> 0 \<and>
                        (\<exists>x \<in> set (operations (payloads ix)). group_id x = group_id oi0 \<and>
                           external_at (payload_at k) us x)
                      else hpre \<noteq> [] \<or> hpost \<noteq> [])
         in \<exists>p. op_fields s2 (object + operations_field_offset ix) = Some p \<and>
              read_op (kworld s2) p (o_offset oi0) = Some (if inter then o_repl oi0 else op) \<and>
              kedr_coi_interceptor_get_intermediate_info k s2 a object (o_offset oi0) info =
                Some (0, info\<lparr>op_orig := Inr op, pre := told hpre, post := told hpost\<rparr>)"
proof -
  let ?us = "fixed_payloads (payload_at k) (module_live k) (payloads ix)"
  let ?ops = "operations (payloads ix)"
  from interceptor_start_ok [OF assms(1)] assms(3) obtain i where
    ok: "interceptor_ok k R s1 a (ix\<lparr>payloads := started_payloads k ix, instrumentor := Some i,
           state := interceptor_state_started\<rparr>) i" and
    empty: "watch_datas i = Map.empty" "idatas i = Map.empty" and
    s1: "op_fields s1 = op_fields s" "kworld s1 = (kworld s)\<lparr>pending := pending (kworld s1)\<rparr>" by auto
  have mem: "ops_mem (kworld s1) = ops_mem (kworld s)" by (subst s1(2)) simp
  have rd: "read_op (kworld s1) ops = read_op (kworld s) ops" for ops
    by (simp add: fun_eq_iff read_op_def ops_content_def mem)
  have v: "ops_p \<noteq> NULL \<Longrightarrow> valid_ops R (kworld s1) ops_p" using assms(5) by (simp add: valid_ops_def mem)
  note E = empty_instrumentor [OF interceptor_okD(8) [OF ok] empty]
  obtain n where n: "n < length ?ops" "?ops ! n = oi0" using assms(7) by (auto simp: in_set_conv_nth)
  let ?oi = "used_operations (payload_at k) ?us False ?ops ! n"
  have clean: "\<And>x. x \<in> set ?ops \<Longrightarrow> operation_clean x"
    using payloads_readyD [of "payload_at k" "payloads ix"] payloads_inv_unused(4) assms(1)
    by (metis interceptor_ready_def)
  note F = used_operation_fields [OF clean n(1), where pm = "payload_at k" and us = ?us, unfolded n(2)]
  let ?ix = "ix\<lparr>payloads := started_payloads k ix, instrumentor := Some i, state := interceptor_state_started\<rparr>"
  have off: "operations_field_offset ?ix \<noteq> - 1"
    and fld: "op_fields s1 (object + operations_field_offset ?ix) = Some ops_p"
    using assms(2,4) by (simp_all add: s1(1))
  have oi: "?oi \<in> set (operations (payloads ?ix))"
    using n(1) by (simp add: used_payloads_sel used_operations_def close_operations_eq start_operations_def)
  have R: "o_offset ?oi \<in> R" using assms(1,7) by (simp add: F interceptor_ready_def)
  have op: "(if ops_p = NULL then Some NULL else read_op (kworld s1) ops_p (o_offset ?oi)) = Some op"
    using assms(8) by (simp only: F(1) rd)
  from interceptor_watch_effect [OF ok off fld v E(1) E(2) assms(6) oi R op, of info]
  show ?thesis
    by (cases "op = NULL") (simp_all add: F intercepts_def Let_def fixed_payloads_def [symmetric]
        cong: if_cong split del: if_split)
qed

theorem interceptor_end_to_end_witness:
  "\<exists>p. op_fields ex_seen 0x2010 = Some p \<and> read_op (kworld ex_seen) p 0 = Some 0x900 \<and>
     read_op (kworld ex_seen) p 8 = Some 0x908"
proof -
  have i: "operations_field_offset (ex_interceptor []) \<noteq> - 1" "operations_field_offset (ex_interceptor []) = 16"
    "payloads (ex_interceptor []) = ex_payloads" by (simp_all add: ex_interceptor_def)
  have v: "valid_ops {0, 8, 16} (kworld (ex_coi [])) 0x1000" by (auto simp: valid_ops_def ex_coi_def ex_ops3_def)
  have f: "op_fields (ex_coi []) (0x2000 + operations_field_offset (ex_interceptor [])) = Some 0x1000"
    by (simp add: i ex_coi_def)
  let ?o0 = "operations ex_payloads ! 0" and ?o1 = "operations ex_payloads ! Suc 0"
  have o: "?o0 \<in> set (operations (payloads (ex_interceptor [])))" "?o1 \<in> set (operations (payloads (ex_interceptor [])))"
    "o_offset ?o0 = 0" "o_offset ?o1 = 8" "o_repl ?o0 = 0x900" "o_repl ?o1 = 0x908"
    "group_id ?o0 = 1" "group_id ?o1 = 1"
    by (simp_all add: i ex_payloads_def ex_for_each_intermediate operation_info_init_def)
  have r: "(if (0x1000 :: ptr) = NULL then Some NULL else read_op (kworld (ex_coi [])) 0x1000 (o_offset ?o0)) = Some 0x100"
    "(if (0x1000 :: ptr) = NULL then Some NULL else read_op (kworld (ex_coi [])) 0x1000 (o_offset ?o1)) = Some NULL"
    by (simp_all add: o read_op_def ops_content_def ex_coi_def ex_ops3_def)
  have us: "filter (fixable (payload_at ex_params) (module_live ex_params)) (map payload (payload_elems ex_payloads)) = [0x31, 0x32]"
    by (simp add: ex_payloads_def ex_params_def fixable_def ex_pm_def ex_live_def)
  have h: "pre_funcs (payload_at ex_params) [0x31, 0x32] 0 \<noteq> []" "external_at (payload_at ex_params) [0x31, 0x32] ?o0"
    by (simp_all add: external_at_def o ex_params_def pre_funcs_def post_funcs_def handlers_at_def handlers_of_def
        for_each_handler_def ex_pm_def ex_end_def)
  note W = interceptor_end_to_end [OF ex_ready [of "[]"] i(1) ex_start_eq f v ex_see_eq, unfolded i]
  obtain p where p: "op_fields ex_seen 0x2010 = Some p" "read_op (kworld ex_seen) p 0 = Some 0x900"
    using W [OF _ o(1) [unfolded i] r(1)] h(1) by (auto simp: Let_def us o)
  moreover have "\<exists>x \<in> set (operations ex_payloads). group_id x = 1 \<and> external_at (payload_at ex_params) [0x31, 0x32] x"
    using o(1,7) h(2) i by auto
  then have "read_op (kworld ex_seen) p 8 = Some 0x908"
    using W [OF _ o(2) [unfolded i] r(2)] p(1) by (auto simp: Let_def us o)
  ultimately show ?thesis by blast
qed

text \<open>C12: No call of the watching interface of a started interceptor crashes, for objects with an
  operations field and for objects that are operations structures themselves; the codes are
  0, 1, -ENOMEM or -EBUSY for watching and 0 or 1 for forgetting, and the interceptor stays in
  good order, so that any sequence of such calls goes through.\<close>

theorem interceptor_calls_safe:
  assumes "interceptor_ok k R s a ix i"
    and "operations_field_offset ix \<noteq> - 1 \<Longrightarrow> op_fields s (object + operations_field_offset ix) = Some ops_p"
    and "ops_p \<noteq> NULL \<Longrightarrow> valid_ops R (kworld s) ops_p"
    and "operations_field_offset ix = - 1 \<Longrightarrow> object = ops_p"
  shows "(\<exists>r s' ix' i'. kedr_coi_interceptor_watch k s a object = Some (r, s') \<and>
            r \<in> {0, 1, - ENOMEM, - EBUSY} \<and> interceptor_ok k R s' a ix' i') \<and>
         (\<exists>r s' ix' i'. kedr_coi_interceptor_forget k s a object = Some (r, s') \<and>
            r \<in> {0, 1} \<and> interceptor_ok k R s' a ix' i') \<and>
         (\<exists>r s' ix' i'. kedr_coi_interceptor_forget_norestore k s a object = Some (r, s') \<and>
            r \<in> {0, 1} \<and> op_fields s' = op_fields s \<and> interceptor_ok k R s' a ix' i')"
proof -
  note O = interceptor_okD [OF assms(1)]
  let ?put = "\<lambda>w i'. put_interceptor (s\<lparr>kworld := w\<rparr>) a (ix\<lparr>instrumentor := Some i'\<rparr>)"
  have put: "interceptor_ok k R (?put w i') a (ix\<lparr>instrumentor := Some i'\<rparr>) i'"
    if "same_config i i'" "instr_inv (hash_of k) R {#} i' w" for w i'
    by (rule interceptor_ok_step [OF assms(1) that(1)]) (simp_all add: that(2))
  have fields: "op_fields (?put w i') = op_fields s" for w i' by simp
  show ?thesis
  proof (cases "operations_field_offset ix = - 1")
    case False
    from forget_inv(1) [OF O(8), of object None] obtain r p i' w' where
      N: "kedr_coi_instrumentor_forget (hash_of k) i object None (kworld s) = Some (r, p, i', w')"
         "instr_inv (hash_of k) R {#} i' w'" "r \<in> {0, 1}" by blast
    have "kedr_coi_interceptor_forget_norestore k s a object = Some (r, ?put w' i')"
      by (simp add: kedr_coi_interceptor_forget_norestore_def O(1-3) False N(1))
    with put [OF forget_config(1) [OF N(1)] N(2)] N(3) fields
    have "\<exists>r s' ix' i'. kedr_coi_interceptor_forget_norestore k s a object = Some (r, s') \<and>
            r \<in> {0, 1} \<and> op_fields s' = op_fields s \<and> interceptor_ok k R s' a ix' i'" by blast
    moreover note interceptor_watch_inv [OF assms(1) False assms(2) [OF False] assms(3)]
      interceptor_forget_inv [OF assms(1) False assms(2) [OF False]]
    ultimately show ?thesis by blast
  next
    case True
    then have v: "object \<noteq> NULL \<Longrightarrow> valid_ops R (kworld s) object" using assms(3,4) by simp
    from watch_inv [OF O(8) v, of object] obtain r p i' w' where
      W: "kedr_coi_instrumentor_watch (hash_of k) i object object (kworld s) = Some (r, p, i', w')"
         "instr_inv (hash_of k) R {#} i' w'" "r \<in> {0, 1, - ENOMEM, - EBUSY}" by blast
    have "kedr_coi_interceptor_watch k s a object = Some (r, ?put w' i')"
      by (simp add: kedr_coi_interceptor_watch_def O(1-3) True kedr_coi_instrumentor_watch_direct_def W(1))
    with put [OF watch_config [OF W(1)] W(2)] W(3)
    have 1: "\<exists>r s' ix' i'. kedr_coi_interceptor_watch k s a object = Some (r, s') \<and>
            r \<in> {0, 1, - ENOMEM, - EBUSY} \<and> interceptor_ok k R s' a ix' i'" by blast
    have F: "\<exists>r w' i'. kedr_coi_instrumentor_forget_direct (hash_of k) i object nr (kworld s) = Some (r, i', w') \<and>
         r \<in> {0, 1} \<and> interceptor_ok k R (?put w' i') a (ix\<lparr>instrumentor := Some i'\<rparr>) i'" for nr
      using forget_inv(2) [OF O(8), of object nr] put [OF forget_config(2)] by blast
    from F [of False] F [of True] obtain r0 w0 i0 r1 w1 i1 where
      F0: "kedr_coi_instrumentor_forget_direct (hash_of k) i object False (kworld s) = Some (r0, i0, w0)"
        "r0 \<in> {0, 1}" "interceptor_ok k R (?put w0 i0) a (ix\<lparr>instrumentor := Some i0\<rparr>) i0" and
      F1: "kedr_coi_instrumentor_forget_direct (hash_of k) i object True (kworld s) = Some (r1, i1, w1)"
        "r1 \<in> {0, 1}" "interceptor_ok k R (?put w1 i1) a (ix\<lparr>instrumentor := Some i1\<rparr>) i1" by blast
    have "kedr_coi_interceptor_forget k s a object = Some (r0, ?put w0 i0)"
      by (simp add: kedr_coi_interceptor_forget_def O(1-3) True F0(1))
    moreover have "kedr_coi_interceptor_forget_norestore k s a object = Some (r1, ?put w1 i1)"
      by (simp add: kedr_coi_interceptor_forget_norestore_def O(1-3) True F1(1))
    ultimately show ?thesis using 1 F0(2,3) F1(2,3) fields by blast
  qed
qed

theorem interceptor_calls_safe_witness:
  "\<exists>r s'. kedr_coi_interceptor_forget_norestore ex_params ex_started 0x77 0x2000 = Some (r, s') \<and> r \<in> {0, 1}"
proof -
  have "op_fields ex_started (0x2000 + operations_field_offset ex_ix) = Some 0x1000" by (simp add: ex_started_sel)
  moreover have "operations_field_offset ex_ix = - 1 \<Longrightarrow> (0x2000 :: ptr) = 0x1000" by (simp add: ex_started_sel)
  ultimately show ?thesis
    using interceptor_calls_safe [OF ex_started_ok _ ex_valid3, of "0x2000"] by blast
qed

text \<open>C13: Watching an object and forgetting it again through the interceptor gives every operations
  field in memory and every operations structure its old value back.\<close>

theorem interceptor_watch_forget_roundtrip:
  assumes "interceptor_ok k R s a ix i" and "operations_field_offset ix \<noteq> - 1"
    and "op_fields s (object + operations_field_offset ix) = Some ops_p"
    and "ops_p \<noteq> NULL \<Longrightarrow> valid_ops R (kworld s) ops_p"
    and "\<not> watched (hash_of k) i object" and "instrumentor_find_data (hash_of k) i ops_p = None"
    and "kedr_coi_interceptor_watch k s a object = Some (0, s1)"
  shows "\<exists>s2. kedr_coi_interceptor_forget k s1 a object = Some (0, s2) \<and> op_fields s2 = op_fields s \<and>
           ops_mem (kworld s2) = ops_mem (kworld s)"
proof -
  note O = interceptor_okD [OF assms(1)]
  from interceptor_watch_inv [OF assms(1-4)] assms(7) obtain i' p where
    W: "kedr_coi_instrumentor_watch (hash_of k) i object ops_p (kworld s) = Some (0, p, i', kworld s1)"
       "op_fields s1 = (op_fields s)(object + operations_field_offset ix \<mapsto> p)"
       "interceptor_ok k R s1 a (ix\<lparr>instrumentor := Some i'\<rparr>) i'" by auto
  have fresh: "\<And>d y. idatas i d = Some y \<Longrightarrow> \<not> instrument_data_my_operations (impl y) ops_p"
    by (rule find_data_None_my [OF O(8) assms(6)])
  obtain i2 w2 where
    F: "kedr_coi_instrumentor_forget (hash_of k) i' object (Some p) (kworld s1) = Some (0, Some ops_p, i2, w2)"
       "ops_mem w2 = ops_mem (kworld s)"
    using watch_forget_restores [OF O(8) _ assms(5) _ W(1)] assms(4) fresh by blast
  have field: "op_fields s1 (object + operations_field_offset (ix\<lparr>instrumentor := Some i'\<rparr>)) = Some p"
    by (simp add: W(2))
  have off: "operations_field_offset (ix\<lparr>instrumentor := Some i'\<rparr>) \<noteq> - 1" using assms(2) by simp
  from interceptor_forget_inv [OF W(3) off field] F(1) obtain s2 where
    "kedr_coi_interceptor_forget k s1 a object = Some (0, s2)" "kworld s2 = w2"
    "op_fields s2 = (op_fields s1)(object + operations_field_offset ix \<mapsto> ops_p)" by auto
  then show ?thesis using F(2) assms(3) by (auto simp: W(2) fun_upd_idem)
qed

theorem interceptor_watch_forget_roundtrip_witness:
  "\<exists>s2. kedr_coi_interceptor_forget ex_params ex_seen 0x77 0x2000 = Some (0, s2) \<and>
     op_fields s2 0x2010 = Some 0x1000"
proof -
  have off: "operations_field_offset ex_ix \<noteq> - 1" by (simp add: ex_started_sel)
  have f: "op_fields ex_started (0x2000 + operations_field_offset ex_ix) = Some 0x1000" by (simp add: ex_started_sel)
  note O = interceptor_okD [OF ex_started_ok]
  note E = empty_instrumentor [OF O(8) ex_i_shape(9,8)]
  show ?thesis
    using interceptor_watch_forget_roundtrip [OF ex_started_ok off f ex_valid3 E(1) E(2) ex_see_eq]
    by (auto simp: ex_started_sel)
qed

text \<open>C14: An intermediate operation of an operation that the interceptor knows always gets an answer
  for an object with live operations.  For a watched object: 0, the original operation of the
  object's data, and the arrays of handlers for it.  For an object that is not watched, but whose
  structure is instrumented: 0, the original operation of the structure and no handlers.  For any
  other object: 0, the operation in its structure and no handlers; but -EINVAL when that operation
  is a replacement of this interceptor, which would call itself for ever.  The field op_chained is
  never written, whatever the header says of it.\<close>

theorem interceptor_info_total:
  assumes "interceptor_ok k R s a ix i" and "operations_field_offset ix \<noteq> - 1"
    and "op_fields s (object + operations_field_offset ix) = Some ops" and "valid_ops R (kworld s) ops"
    and "oi \<in> set (operations (payloads ix))" and "o_offset oi \<in> R"
  shows "\<exists>r info'. kedr_coi_interceptor_get_intermediate_info k s a object (o_offset oi) info = Some (r, info') \<and>
           (case object_idata (hash_of k) i object of
              Some x \<Rightarrow> r = 0 \<and> (\<exists>op. instrument_data_get_orig_operation (kworld s) (impl x) (o_offset oi) = Some op \<and>
                 info' = info\<lparr>op_orig := Inr op,
                    pre := elems (if op = NULL then default_pre_handlers oi else o_pre_handlers oi),
                    post := elems (if op = NULL then default_post_handlers oi else o_post_handlers oi)\<rparr>)
            | None \<Rightarrow> (case instrumentor_find_data (hash_of k) i ops of
                Some d \<Rightarrow> r = 0 \<and> (\<exists>x op. idatas i d = Some x \<and>
                   instrument_data_get_orig_operation (kworld s) (impl x) (o_offset oi) = Some op \<and>
                   info' = info\<lparr>op_orig := Inr op, pre := None, post := None\<rparr>)
              | None \<Rightarrow> \<exists>op. read_op (kworld s) ops (o_offset oi) = Some op \<and>
                   (if op \<in> repl ` set (for_each_replacement (replacements i))
                    then r = - EINVAL \<and> info' = info\<lparr>op_orig := Inl (- EINVAL)\<rparr>
                    else r = 0 \<and> info' = info\<lparr>op_orig := Inr op, pre := None, post := None\<rparr>)))"
proof -
  note O = interceptor_okD [OF assms(1)]
  from get_orig_total [OF O(8) assms(4,6), of object] obtain r res where
    G: "kedr_coi_instrumentor_get_orig_operation (hash_of k) i object ops (o_offset oi) (kworld s) = Some (r, res)" and
    out: "case object_idata (hash_of k) i object of
              Some x \<Rightarrow> r = 0 \<and> (\<exists>op. res = Inr op \<and>
                 instrument_data_get_orig_operation (kworld s) (impl x) (o_offset oi) = Some op)
            | None \<Rightarrow> (case instrumentor_find_data (hash_of k) i ops of
                Some d \<Rightarrow> r = 1 \<and> (\<exists>x op. idatas i d = Some x \<and> res = Inr op \<and>
                           instrument_data_get_orig_operation (kworld s) (impl x) (o_offset oi) = Some op)
              | None \<Rightarrow> (\<exists>op. read_op (kworld s) ops (o_offset oi) = Some op \<and>
                           (r, res) = (if op \<in> repl ` set (for_each_replacement (replacements i))
                                       then (- EINVAL, Inl (- EINVAL)) else (1, Inr op))))" by blast
  obtain n where n: "operation_payloads_find_operation (operations (payloads ix)) (o_offset oi) = Some n"
    using find_operation_None [of "operations (payloads ix)" "o_offset oi"] assms(5)
    by (cases "operation_payloads_find_operation (operations (payloads ix)) (o_offset oi)") auto
  have oi: "operations (payloads ix) ! n = oi"
    using find_operation_Some [OF n] assms(5) O(9)
    by (metis operations_wf_def distinct_map inj_onD nth_mem)
  note eval = kedr_coi_interceptor_get_intermediate_info_def O(1-3) assms(2,3) indirect_operations_def G
  show ?thesis
  proof (cases "object_idata (hash_of k) i object")
    case (Some x)
    with out obtain op where "r = 0" "res = Inr op"
      "instrument_data_get_orig_operation (kworld s) (impl x) (o_offset oi) = Some op" by auto
    then show ?thesis using Some O(4) n oi
      by (auto simp: eval operation_payloads_get_interception_info_def)
  next
    case none: None
    show ?thesis
    proof (cases "instrumentor_find_data (hash_of k) i ops")
      case (Some d)
      with out none obtain x op where "r = 1" "idatas i d = Some x" "res = Inr op"
        "instrument_data_get_orig_operation (kworld s) (impl x) (o_offset oi) = Some op" by auto
      then show ?thesis using none Some by (auto simp: eval)
    next
      case None
      with out none obtain op where "read_op (kworld s) ops (o_offset oi) = Some op"
        "(r, res) = (if op \<in> repl ` set (for_each_replacement (replacements i))
                     then (- EINVAL, Inl (- EINVAL)) else (1, Inr op))" by auto
      then show ?thesis using none None by (auto simp: eval errno_defs split: if_splits)
    qed
  qed
qed

theorem interceptor_info_total_witness:
  "\<exists>r info'. kedr_coi_interceptor_get_intermediate_info ex_params ex_started 0x77 0x2000 0
     \<lparr>op_chained = Inr NULL, op_orig = Inr NULL, pre = None, post = None\<rparr> = Some (r, info')"
proof -
  let ?info = "\<lparr>op_chained = Inr NULL, op_orig = Inr NULL, pre = None, post = None\<rparr>"
  have off: "operations_field_offset ex_ix \<noteq> - 1" by (simp add: ex_started_sel)
  have f: "op_fields ex_started (0x2000 + operations_field_offset ex_ix) = Some 0x1000" by (simp add: ex_started_sel)
  let ?oi = "operations ex_used ! 0"
  have l: "0 < length (operations ex_payloads)" "o_offset (operations ex_payloads ! 0) = 0"
    by (simp_all add: ex_payloads_def ex_for_each_intermediate operation_info_init_def)
  note u = used_payloads_sel used_operations_def close_operations_eq start_operations_def
  have oi: "?oi \<in> set (operations (payloads ex_ix))"
    unfolding ex_started_sel(5) by (rule nth_mem) (use l in \<open>simp add: u\<close>)
  have oi0: "o_offset ?oi = 0" using l by (simp add: u)
  have "o_offset ?oi \<in> {0, 8, 16}" by (simp add: oi0)
  from interceptor_info_total [OF ex_started_ok off f ex_valid3 oi this, of ?info] oi0 show ?thesis by auto
qed

text \<open>C15: Stopping a started interceptor (one without factory interceptors) never crashes.  Its
  callback is called once for every object that is still watched and for no other; the
  interceptor has no instrumentor any more and its payloads can be changed and used again; the
  references of modules that the used payloads held are given back; operations fields are left
  alone, and only the marks of other instrumentors are left.  Stopping again does nothing.\<close>

theorem interceptor_stop_complete:
  assumes "interceptor_ok k R s a ix i" and "no_foreign i" and "factory_interceptors ix = []"
  shows "\<exists>s' ps objects. kedr_coi_interceptor_stop k s a = Some s' \<and>
           interceptors s' a = Some (ix\<lparr>state := interceptor_state_initialized, instrumentor := None, payloads := ps\<rparr>) \<and>
           payloads_ready (payload_at k) ps \<and>
           distinct objects \<and> set objects = {obj. watched (hash_of k) i obj} \<and>
           traced s' = traced s @ (if trace_unforgotten_object ix \<noteq> NULL
                                   then map (\<lambda>object. (trace_unforgotten_object ix, object)) objects else []) \<and>
           modules s' = (\<lambda>m. modules s m - mod_count (payload_at k) (payload_elems (payloads ix)) m) \<and>
           op_fields s' = op_fields s \<and> entries (ops_table_global (kworld s')) = others i (kworld s) \<and>
           kedr_coi_interceptor_stop k s' a = Some s'"
proof -
  let ?xs = "table_elems (objects_table i)"
  note ob = inv_objects [OF interceptor_okD(8) [OF assms(1)]]
  from interceptor_stop_ok [OF assms] obtain s' ps where
    S: "kedr_coi_interceptor_stop k s a = Some s'"
       "interceptors s' = (interceptors s)(a \<mapsto> ix\<lparr>state := interceptor_state_initialized,
              instrumentor := None, payloads := ps\<rparr>)" "payloads_ready (payload_at k) ps"
       "traced s' = traced s @ trace_calls (trace_unforgotten_object ix) (map snd ?xs)"
       "modules s' = (\<lambda>m. modules s m - mod_count (payload_at k) (payload_elems (payloads ix)) m)"
       "op_fields s' = op_fields s" "entries (ops_table_global (kworld s')) = others i (kworld s)" by blast
  have "set (map snd ?xs) = {obj. watched (hash_of k) i obj}"
    using watched_iff [OF ob] by (auto simp: watched_objects_def)
  moreover have "distinct (map snd ?xs)" using objects_okD(1,2) [OF ob] by (rule distinct_keys)
  moreover have "kedr_coi_interceptor_stop k s' a = Some s'"
    by (simp add: kedr_coi_interceptor_stop_def S(2))
  ultimately show ?thesis using S by (intro exI [of _ s'] exI [of _ ps] exI [of _ "map snd ?xs"]) (simp add: trace_calls_def)
qed

theorem interceptor_stop_complete_witness:
  "\<exists>s'. kedr_coi_interceptor_stop ex_params ex_started 0x77 = Some s' \<and>
     kedr_coi_interceptor_stop ex_params s' 0x77 = Some s'"
  using interceptor_stop_complete [OF ex_started_ok ex_no_foreign3 ex_started_sel(7)] by blast

text \<open>The state of an interceptor guards its calls.  Before it is started, watching and both ways
  of forgetting return -EPERM and change nothing, and stopping does nothing.  While it is
  started, registering a payload returns -EBUSY and changes nothing, and starting or destroying
  it hits a BUG.\<close>

theorem interceptor_state_guards:
  assumes "interceptors s a = Some ix"
  shows "(if state ix = interceptor_state_initialized
          then kedr_coi_interceptor_watch k s a object = Some (- EPERM, s) \<and>
               kedr_coi_interceptor_forget k s a object = Some (- EPERM, s) \<and>
               kedr_coi_interceptor_forget_norestore k s a object = Some (- EPERM, s) \<and>
               kedr_coi_interceptor_stop k s a = Some s \<and>
               kedr_coi_interceptor_get_intermediate_info k s a object off info = None
          else kedr_coi_interceptor_start k s a = None \<and> kedr_coi_interceptor_destroy s a = None \<and>
               (if state ix = interceptor_state_started
                then kedr_coi_payload_register k s a p = Some (- EBUSY, s)
                else kedr_coi_interceptor_stop k s a = None \<and> kedr_coi_interceptor_watch k s a object = None \<and>
                     kedr_coi_payload_register k s a p = None))"
  using assms
  by (cases "state ix")
    (simp_all add: kedr_coi_interceptor_watch_def kedr_coi_interceptor_forget_def
      kedr_coi_interceptor_forget_norestore_def kedr_coi_interceptor_stop_def kedr_coi_interceptor_start_def
      kedr_coi_interceptor_destroy_def kedr_coi_payload_register_def
      kedr_coi_interceptor_get_intermediate_info_def)

end
