(* ===== verification/C_String.thy ===== *)
theory C_String
  imports Main "HOL-Library.Word" "HOL-Library.Monad_Syntax"
begin

unbundle bit_operations_syntax

text \<open>
  What the mist template engine (src/sources/tools/kedr_gen/src/mist_engine) uses of C and its
  library: blocks of characters, the functions of string.h on them, and malloc.

  A block is a list of cells; a cell that was never written is None, and reading it is as
  undefined as an access outside the block: the result is None.  An argument of type const
  char* that is only read is the list of the characters before its terminator.
\<close>

abbreviation NUL :: char where
  "NUL \<equiv> CHR 0x00"

type_synonym cells = "char option list"

text \<open>
  The heap: the outcomes of the allocations to come (none left means failure), and the number
  of blocks that are allocated.
\<close>

record mheap =
  outcomes :: "bool list"
  live :: int

definition next_outcome :: "mheap \<Rightarrow> bool \<times> mheap" where
  "next_outcome h = (case outcomes h of [] \<Rightarrow> (False, h) | ok # oks \<Rightarrow> (ok, h\<lparr>outcomes := oks\<rparr>))"

definition malloc :: "mheap \<Rightarrow> bool \<times> mheap" where
  "malloc h = (let (ok, h) = next_outcome h in (ok, if ok then h\<lparr>live := live h + 1\<rparr> else h))"

definition realloc :: "mheap \<Rightarrow> bool \<times> mheap" where
  "realloc h = next_outcome h"

definition mfree :: "mheap \<Rightarrow> mheap" where
  "mfree h = h\<lparr>live := live h - 1\<rparr>"

text \<open>Arithmetic in size_t.\<close>

definition size_wrap :: "nat \<Rightarrow> nat" where
  "size_wrap n = n mod 2 ^ 64"

subsection \<open>Strings in a block\<close>

fun cstr :: "cells \<Rightarrow> char list option" where
  "cstr [] = None"
| "cstr (None # cs) = None"
| "cstr (Some c # cs) = (if c = NUL then Some [] else map_option ((#) c) (cstr cs))"

definition store :: "cells \<Rightarrow> nat \<Rightarrow> char list \<Rightarrow> cells option" where
  "store b off s =
     (if off + length s \<le> length b
      then Some (take off b @ map Some s @ drop (off + length s) b) else None)"

definition strcpy :: "cells \<Rightarrow> nat \<Rightarrow> char list \<Rightarrow> cells option" where
  "strcpy b off s = store b off (s @ [NUL])"

text \<open>At most n characters of the source, fewer when it has a terminator before.\<close>

definition first_chars :: "nat \<Rightarrow> char list \<Rightarrow> char list" where
  "first_chars n s = takeWhile (\<lambda>c. c \<noteq> NUL) (take n s)"

definition strncpy :: "cells \<Rightarrow> nat \<Rightarrow> char list \<Rightarrow> nat \<Rightarrow> cells option" where
  "strncpy b off s n =
     store b off (first_chars n s @ replicate (n - length (first_chars n s)) NUL)"

definition strcat :: "cells \<Rightarrow> nat \<Rightarrow> char list \<Rightarrow> cells option" where
  "strcat b off s = do { t \<leftarrow> cstr (drop off b); store b (off + length t) (s @ [NUL]) }"

definition strncat :: "cells \<Rightarrow> nat \<Rightarrow> char list \<Rightarrow> nat \<Rightarrow> cells option" where
  "strncat b off s n = strcat b off (first_chars n s)"

fun strstr :: "char list \<Rightarrow> char list \<Rightarrow> nat option" where
  "strstr [] what = (if what = [] then Some 0 else None)"
| "strstr (c # cs) what =
     (if take (length what) (c # cs) = what then Some 0 else map_option Suc (strstr cs what))"

text \<open>strcmp compares characters as unsigned ones; only the sign of the result counts.\<close>

fun strcmp :: "char list \<Rightarrow> char list \<Rightarrow> int" where
  "strcmp [] [] = 0"
| "strcmp [] (d # ds) = - 1"
| "strcmp (c # cs) [] = 1"
| "strcmp (c # cs) (d # ds) =
     (if c = d then strcmp cs ds else if (of_char c :: nat) < of_char d then - 1 else 1)"

subsection \<open>Lemmas\<close>

lemma size_wrap_small [simp]: "n < 2 ^ 64 \<Longrightarrow> size_wrap n = n"
  by (simp add: size_wrap_def)

lemma store_ok: "off + length s \<le> length b \<Longrightarrow>
    store b off s = Some (take off b @ map Some s @ drop (off + length s) b)"
  by (simp add: store_def)

lemma store_length: "store b off s = Some b' \<Longrightarrow> length b' = length b"
  by (auto simp: store_def split: if_splits)

lemma cstr_no_NUL: "cstr b = Some s \<Longrightarrow> NUL \<notin> set s"
  by (induction b arbitrary: s rule: cstr.induct) (auto split: if_splits)

lemma cstr_less: "cstr b = Some s \<Longrightarrow> length s < length b"
  by (induction b arbitrary: s rule: cstr.induct) (auto split: if_splits)

lemma cstr_map_Some:
  "NUL \<notin> set s \<Longrightarrow> cstr (map Some s @ b) = map_option ((@) s) (cstr b)"
  by (induction s; cases "cstr b") auto

lemma cstr_written [simp]: "NUL \<notin> set s \<Longrightarrow> cstr (map Some s @ Some NUL # b) = Some s"
  by (simp add: cstr_map_Some)

text \<open>A block that holds the string s at off.\<close>

lemma cstr_shape:
  "cstr b = Some s \<Longrightarrow> \<exists>rest. b = map Some s @ Some NUL # rest"
  by (induction b arbitrary: s rule: cstr.induct) (auto split: if_splits)

lemma cstr_drop_shape:
  assumes "cstr (drop off b) = Some s"
  obtains rest where "b = take off b @ map Some s @ Some NUL # rest" "off + length s < length b"
proof -
  obtain rest where r: "drop off b = map Some s @ Some NUL # rest" using cstr_shape [OF assms] by blast
  then have "off < length b" using drop_all [of b off] by (cases "off < length b") auto
  moreover have "length (drop off b) = length s + 1 + length rest" by (simp add: r)
  then have "off + length s < length b" using \<open>off < length b\<close> by simp
  ultimately show thesis using that [of rest] append_take_drop_id [of off b] r by simp
qed

lemma first_chars_all: "NUL \<notin> set s \<Longrightarrow> first_chars n s = take n s"
  unfolding first_chars_def by (rule takeWhile_eq_all_conv [THEN iffD2]) (auto dest: in_set_takeD)

lemma strncpy_chars: "NUL \<notin> set s \<Longrightarrow> n \<le> length s \<Longrightarrow> strncpy b off s n = store b off (take n s)"
  by (simp add: strncpy_def first_chars_all)

lemma strstr_Some:
  "strstr v what = Some p \<Longrightarrow> p + length what \<le> length v \<and> take (length what) (drop p v) = what"
proof (induction v what arbitrary: p rule: strstr.induct)
  case (2 c cs what)
  show ?case
  proof (cases "take (length what) (c # cs) = what")
    case True
    then have "length what \<le> length (c # cs)" by (metis length_take min.cobounded1)
    then show ?thesis using True 2 by auto
  next
    case False
    with 2 show ?thesis by auto
  qed
qed (auto split: if_splits)

end
