(* ===== verification/Mist_String.thy ===== *)
theory Mist_String
  imports C_String
begin

text \<open>
  Model of src/sources/tools/kedr_gen/src/mist_engine/src/mist_string_utils.c: strings in
  growing buffers.  The pointer str into the buffer is an offset.  The assertions on it are
  the first check of every function; a failed one is None.  The assertions that pointers are
  not NULL and that ranges are not reversed hold by the types here: a range is the list of its
  characters.  A function that cannot crash is not of type option.
\<close>

datatype EMistErrorCode =
  MIST_OK | MIST_OUT_OF_MEMORY | MIST_OPEN_FILE_FAILED | MIST_READ_FILE_FAILED
| MIST_WRITE_FILE_FAILED | MIST_READ_DIR_FAILED | MIST_SYNTAX_ERROR | MIST_BAD_NAME
| MIST_DUP_PARAM | MIST_MISSING_PARAM | MIST_NO_TPL_FILES | MIST_FAILED_TO_LOAD_TEMPLATE
| MIST_MAIN_TPL_MULTIVALUED | MIST_CREATE_DIR_FAILED | MIST_UNSPECIFIED_ERROR
| MIST_VERSION_NOT_SUPPORTED | MIST_LIBRARY_NOT_INITIALIZED

record mist_string =
  str :: nat
  buf :: cells
  bsize :: nat

definition in_buffer :: "mist_string \<Rightarrow> bool" where
  "in_buffer ms \<longleftrightarrow> str ms < bsize ms"

text \<open>What the pointer str reads as.\<close>

definition mist_value :: "mist_string \<Rightarrow> char list option" where
  "mist_value ms = cstr (drop (str ms) (buf ms))"

definition MIST_INIT_BUFFER_SIZE :: nat where
  "MIST_INIT_BUFFER_SIZE = 16"

subsection \<open>Creating and setting\<close>

definition round_up_size :: "nat \<Rightarrow> nat" where
  "round_up_size len =
     unat ((of_nat len + of_nat MIST_INIT_BUFFER_SIZE :: 64 word) AND
           NOT (of_nat MIST_INIT_BUFFER_SIZE - 1))"

definition mist_string_create_from_range ::
  "char list \<Rightarrow> mheap \<Rightarrow> (mist_string option \<times> mheap) option" where
  "mist_string_create_from_range rng h =
     (case malloc h of
        (False, h) \<Rightarrow> Some (None, h)
      | (True, h) \<Rightarrow>
          (let len = length rng; sz = round_up_size len
           in case malloc h of
                (False, h) \<Rightarrow> Some (None, mfree h)
              | (True, h) \<Rightarrow>
                  do { let b = replicate sz None;
                       b \<leftarrow> (if len > 0 then strncpy b 0 rng len else Some b);
                       b \<leftarrow> store b len [NUL];
                       Some (Some \<lparr>str = 0, buf = b, bsize = sz\<rparr>, h) }))"

definition mist_string_create ::
  "char list option \<Rightarrow> mheap \<Rightarrow> (mist_string option \<times> mheap) option" where
  "mist_string_create init h =
     mist_string_create_from_range (case init of None \<Rightarrow> [] | Some s \<Rightarrow> s) h"

definition mist_string_destroy :: "mist_string \<Rightarrow> mheap \<Rightarrow> mheap" where
  "mist_string_destroy ms h = mfree (mfree h)"

definition mist_string_reserve ::
  "mist_string \<Rightarrow> nat \<Rightarrow> mheap \<Rightarrow> (EMistErrorCode \<times> mist_string \<times> mheap) option" where
  "mist_string_reserve ms sz h =
     (if \<not> in_buffer ms then None
      else (let new_size = size_wrap (sz + 1)
            in if new_size > bsize ms
               then (case realloc h of
                       (False, h) \<Rightarrow> Some (MIST_OUT_OF_MEMORY, ms, h)
                     | (True, h) \<Rightarrow>
                         Some (MIST_OK,
                           ms\<lparr>bsize := new_size,
                              buf := buf ms @ replicate (new_size - length (buf ms)) None\<rparr>, h))
               else Some (MIST_OK, ms, h)))"

definition mist_string_reset :: "mist_string \<Rightarrow> mist_string option" where
  "mist_string_reset ms =
     (if \<not> in_buffer ms then None
      else do { b \<leftarrow> store (buf ms) 0 [NUL]; Some (ms\<lparr>str := 0, buf := b\<rparr>) })"

definition mist_string_set ::
  "mist_string \<Rightarrow> char list \<Rightarrow> mheap \<Rightarrow> (EMistErrorCode \<times> mist_string \<times> mheap) option" where
  "mist_string_set ms src h =
     (if \<not> in_buffer ms then None
      else do { (ec, ms, h) \<leftarrow> mist_string_reserve ms (size_wrap (length src + 1)) h;
                if ec \<noteq> MIST_OK then Some (ec, ms, h)
                else do { b \<leftarrow> strcpy (buf ms) 0 src;
                          Some (MIST_OK, ms\<lparr>str := 0, buf := b\<rparr>, h) } })"

subsection \<open>Appending\<close>

definition mist_string_append ::
  "mist_string \<Rightarrow> mist_string \<Rightarrow> mheap \<Rightarrow> (EMistErrorCode \<times> mist_string \<times> mheap) option" where
  "mist_string_append ms_to ms_what h =
     (if \<not> in_buffer ms_to \<or> \<not> in_buffer ms_what then None
      else do { t \<leftarrow> mist_value ms_to;
                s \<leftarrow> mist_value ms_what;
                (ec, ms_to, h) \<leftarrow>
                  mist_string_reserve ms_to (size_wrap (str ms_to + length t + length s + 1)) h;
                if ec \<noteq> MIST_OK then Some (ec, ms_to, h)
                else do { b \<leftarrow> strcat (buf ms_to) (str ms_to) s;
                          Some (MIST_OK, ms_to\<lparr>buf := b\<rparr>, h) } })"

definition mist_string_append_range ::
  "mist_string \<Rightarrow> char list \<Rightarrow> mheap \<Rightarrow> (EMistErrorCode \<times> mist_string \<times> mheap) option" where
  "mist_string_append_range ms_to rng h =
     (if \<not> in_buffer ms_to then None
      else do { t \<leftarrow> mist_value ms_to;
                let len = length rng;
                (ec, ms_to, h) \<leftarrow>
                  mist_string_reserve ms_to (size_wrap (str ms_to + length t + len + 1)) h;
                if ec \<noteq> MIST_OK then Some (ec, ms_to, h)
                else do { b \<leftarrow> (if len > 0 then strncat (buf ms_to) (str ms_to) rng len
                                else Some (buf ms_to));
                          Some (MIST_OK, ms_to\<lparr>buf := b\<rparr>, h) } })"

definition mist_string_sum ::
  "mist_string \<Rightarrow> mist_string \<Rightarrow> mheap \<Rightarrow> (mist_string option \<times> mheap) option" where
  "mist_string_sum ms_left ms_right h =
     (if \<not> in_buffer ms_left \<or> \<not> in_buffer ms_right then None
      else do { (result, h) \<leftarrow> mist_string_create None h;
                (case result of
                   None \<Rightarrow> Some (None, h)
                 | Some result \<Rightarrow>
                     do { l \<leftarrow> mist_value ms_left;
                          r \<leftarrow> mist_value ms_right;
                          (ec, result, h) \<leftarrow> mist_string_reserve result (size_wrap (length l + length r + 1)) h;
                          if ec \<noteq> MIST_OK then Some (None, mist_string_destroy result h)
                          else do {
                            (ec, result, h) \<leftarrow> mist_string_set result l h;
                            if ec \<noteq> MIST_OK then Some (None, mist_string_destroy result h)
                            else do {
                              (ec, result, h) \<leftarrow> mist_string_append result ms_right h;
                              if ec \<noteq> MIST_OK then Some (None, mist_string_destroy result h)
                              else Some (Some result, h) } } }) })"

subsection \<open>Finding characters in a range\<close>

text \<open>
  The results are offsets from the beginning of the range; the length of the range stands for
  its end.  The inner loop runs over the characters looked for.
\<close>

definition is_sym :: "char list \<Rightarrow> char \<Rightarrow> bool" where
  "is_sym syms c = list_ex (\<lambda>s. c = s) syms"

fun mist_find_in_range_first_of :: "char list \<Rightarrow> char list \<Rightarrow> nat" where
  "mist_find_in_range_first_of [] syms = 0"
| "mist_find_in_range_first_of (c # cs) syms =
     (if is_sym syms c then 0 else Suc (mist_find_in_range_first_of cs syms))"

fun mist_find_in_range_first_not_of :: "char list \<Rightarrow> char list \<Rightarrow> nat" where
  "mist_find_in_range_first_not_of [] syms = 0"
| "mist_find_in_range_first_not_of (c # cs) syms =
     (if \<not> is_sym syms c then 0 else Suc (mist_find_in_range_first_not_of cs syms))"

text \<open>The loop runs downwards; n is the number of characters left to look at.\<close>

fun last_not_of_loop :: "char list \<Rightarrow> char list \<Rightarrow> nat \<Rightarrow> nat option" where
  "last_not_of_loop rng syms 0 = None"
| "last_not_of_loop rng syms (Suc n) =
     (if \<not> is_sym syms (rng ! n) then Some n else last_not_of_loop rng syms n)"

definition mist_find_in_range_last_not_of :: "char list \<Rightarrow> char list \<Rightarrow> nat" where
  "mist_find_in_range_last_not_of rng syms =
     (case last_not_of_loop rng syms (length rng) of None \<Rightarrow> length rng | Some n \<Rightarrow> n)"

definition mist_find_first_of :: "char list \<Rightarrow> char list \<Rightarrow> nat option" where
  "mist_find_first_of s syms =
     (let pos = mist_find_in_range_first_of s syms in if pos \<noteq> length s then Some pos else None)"

definition mist_find_first_not_of :: "char list \<Rightarrow> char list \<Rightarrow> nat option" where
  "mist_find_first_not_of s syms =
     (let pos = mist_find_in_range_first_not_of s syms in if pos \<noteq> length s then Some pos else None)"

definition mist_find_last_not_of :: "char list \<Rightarrow> char list \<Rightarrow> nat option" where
  "mist_find_last_not_of s syms =
     (let pos = mist_find_in_range_last_not_of s syms in if pos \<noteq> length s then Some pos else None)"

subsection \<open>Trimming\<close>

definition seps :: "char list" where
  "seps = [CHR 0x20, CHR 0x09, CHR 0x0A, CHR 0x0D]"

definition mist_string_trim :: "mist_string \<Rightarrow> mist_string option" where
  "mist_string_trim ms =
     (if \<not> in_buffer ms then None
      else do {
        s \<leftarrow> mist_value ms;
        let len = length s;
        if len = 0 then Some ms
        else (let beg_new = mist_find_in_range_first_not_of s seps
              in if beg_new = len
                 then do { b \<leftarrow> store (buf ms) (str ms) [NUL]; Some (ms\<lparr>buf := b\<rparr>) }
                 else do {
                   let end_new = mist_find_in_range_last_not_of s seps;
                   ms \<leftarrow> (if end_new \<noteq> len
                          then (let end_new = end_new + 1
                                in if \<not> str ms + end_new < bsize ms \<or> \<not> end_new > beg_new then None
                                   else do { b \<leftarrow> store (buf ms) (str ms + end_new) [NUL];
                                             Some (ms\<lparr>buf := b\<rparr>) })
                          else Some ms);
                   Some (ms\<lparr>str := str ms + beg_new\<rparr>) }) })"

definition mist_string_swap :: "mist_string \<Rightarrow> mist_string \<Rightarrow> (mist_string \<times> mist_string) option" where
  "mist_string_swap lhs rhs =
     (if \<not> in_buffer lhs \<or> \<not> in_buffer rhs then None else Some (rhs, lhs))"

subsection \<open>Replacing\<close>

text \<open>
  The loop that counts and the one that copies.  The caller asserts that what is not empty; the
  guards make the functions total.  In the second loop s is what the pointer ms->str reads as,
  b and off the buffer and the pointer of the temporary string.  The place to which the loop moves
  ms->str is not kept: the string is swapped into the temporary one and destroyed with its buffer.
\<close>

function count_occurrences :: "char list \<Rightarrow> char list \<Rightarrow> nat" where
  "count_occurrences s what =
     (if what = [] then 0
      else case strstr s what of
             None \<Rightarrow> 0
           | Some pos \<Rightarrow> Suc (count_occurrences (drop (pos + length what) s) what))"
  by pat_completeness auto
termination
  by (relation "measure (\<lambda>(s, what). length s)") (auto dest!: strstr_Some simp flip: length_greater_0_conv)

function replace_loop ::
  "char list \<Rightarrow> char list \<Rightarrow> char list \<Rightarrow> cells \<Rightarrow> nat \<Rightarrow> (char list \<times> cells \<times> nat) option" where
  "replace_loop s what subst b off =
     (if what = [] then None
      else case strstr s what of
             None \<Rightarrow> Some (s, b, off)
           | Some offs \<Rightarrow>
               do { b \<leftarrow> (if offs \<noteq> 0 then strncpy b off s offs else Some b);
                    let off = off + offs;
                    b \<leftarrow> (if length subst \<noteq> 0 then strncpy b off subst (length subst) else Some b);
                    replace_loop (drop (offs + length what) s) what subst b (off + length subst) })"
  by pat_completeness auto
termination
  by (relation "measure (\<lambda>(s, what, subst, b, off). length s)")
    (auto dest!: strstr_Some simp flip: length_greater_0_conv)

definition mist_string_replace ::
  "mist_string \<Rightarrow> char list \<Rightarrow> char list \<Rightarrow> mheap \<Rightarrow> (EMistErrorCode \<times> mist_string \<times> mheap) option" where
  "mist_string_replace ms what subst h =
     (if \<not> in_buffer ms \<or> what = [] then None
      else do {
        s \<leftarrow> mist_value ms;
        let c = count_occurrences s what;
        if c = 0 then Some (MIST_OK, ms, h)
        else do {
          (ts, h) \<leftarrow> mist_string_create None h;
          (case ts of
             None \<Rightarrow> Some (MIST_OUT_OF_MEMORY, ms, h)
           | Some ts \<Rightarrow>
               do { (ec, ts, h) \<leftarrow> mist_string_reserve ts
                      (size_wrap (length s - c * length what + c * length subst)) h;
                    if ec \<noteq> MIST_OK then Some (ec, ms, mist_string_destroy ts h)
                    else do {
                      (s, b, off) \<leftarrow> replace_loop s what subst (buf ts) (str ts);
                      b \<leftarrow> (if length s \<noteq> 0 then strncpy b off s (length s) else Some b);
                      let off = off + length s;
                      if \<not> off < bsize ts then None
                      else do { b \<leftarrow> store b off [NUL];
                                (ms, ts) \<leftarrow> mist_string_swap ms (ts\<lparr>buf := b, str := 0\<rparr>);
                                Some (MIST_OK, ms, mist_string_destroy ts h) } } }) } })"

subsection \<open>Unescaping\<close>

text \<open>The size of the arrays counts their terminators.\<close>

definition ch_what :: "char list" where
  "ch_what = [CHR ''t'', CHR ''n'', CHR ''r'', NUL]"

definition ch_to :: "char list" where
  "ch_to = [CHR 0x09, CHR 0x0A, CHR 0x0D, NUL]"

definition special_char :: "char \<Rightarrow> char option" where
  "special_char c = map_of (zip ch_what ch_to) c"

text \<open>The loop: seg is what lies between beg and pos, rest what lies between pos and end.\<close>

fun unescape_loop :: "char list \<Rightarrow> char list \<Rightarrow> cells \<Rightarrow> nat \<Rightarrow> (char list \<times> cells \<times> nat) option" where
  "unescape_loop seg [] b off = Some (seg, b, off)"
| "unescape_loop seg (c # cs) b off =
     (if c = CHR 0x5C
      then do {
        b \<leftarrow> (if length seg > 0 then strncpy b off seg (length seg) else Some b);
        let off = off + length seg;
        (case cs of
           [] \<Rightarrow> do { b \<leftarrow> store b off [CHR 0x5C]; Some ([], b, off + 1) }
         | d # ds \<Rightarrow>
             (if d = CHR 0x5C
              then do { b \<leftarrow> store b off [CHR 0x5C]; unescape_loop [] ds b (off + 1) }
              else (case special_char d of
                      Some e \<Rightarrow> do { b \<leftarrow> store b off [e]; unescape_loop [] ds b (off + 1) }
                    | None \<Rightarrow> do { b \<leftarrow> store b off [CHR 0x5C];
                                   unescape_loop [] (d # ds) b (off + 1) }))) }
      else unescape_loop (seg @ [c]) cs b off)"

text \<open>When the reservation fails the temporary string is not destroyed.\<close>

definition mist_string_unescape ::
  "mist_string \<Rightarrow> mheap \<Rightarrow> (EMistErrorCode \<times> mist_string \<times> mheap) option" where
  "mist_string_unescape ms h =
     (if \<not> in_buffer ms then None
      else do {
        s \<leftarrow> mist_value ms;
        if length s < 2 then Some (MIST_OK, ms, h)
        else do {
          (res, h) \<leftarrow> mist_string_create (Some []) h;
          (case res of
             None \<Rightarrow> Some (MIST_OUT_OF_MEMORY, ms, h)
           | Some res \<Rightarrow>
               do { (ec, res, h) \<leftarrow> mist_string_reserve res (length s) h;
                    if ec \<noteq> MIST_OK then Some (ec, ms, h)
                    else do {
                      (seg, b, off) \<leftarrow> unescape_loop [] s (buf res) (str res);
                      b \<leftarrow> (if length seg > 0 then strncpy b off seg (length seg) else Some b);
                      b \<leftarrow> store b (off + length seg) [NUL];
                      (ms, res) \<leftarrow> mist_string_swap ms (res\<lparr>buf := b, str := 0\<rparr>);
                      Some (ec, ms, mist_string_destroy res h) } }) } })"

subsection \<open>Other functions\<close>

text \<open>The block is handed to the caller; only the structure is freed.\<close>

definition mist_string_detach :: "mist_string \<Rightarrow> mheap \<Rightarrow> (cells \<times> mheap) option" where
  "mist_string_detach ms h =
     (if \<not> in_buffer ms then None
      else Some (if str ms > 0
                 then drop (str ms) (buf ms) @ drop (bsize ms - str ms) (buf ms) else buf ms,
                 mfree h))"

definition ch_allowed :: "nat list" where
  "ch_allowed =
     [0, 0, 0, 0, 0, 0, 0, 0, 0, 0, 0, 0, 0, 0, 0, 0,
      0, 0, 0, 0, 0, 0, 0, 0, 0, 0, 0, 0, 0, 0, 0, 0,
      1, 0, 0, 0, 0, 0, 0, 0, 0, 0, 0, 0, 0, 1, 1, 0,
      1, 1, 1, 1, 1, 1, 1, 1, 1, 1, 0, 0, 0, 0, 0, 0,
      0, 1, 1, 1, 1, 1, 1, 1, 1, 1, 1, 1, 1, 1, 1, 1,
      1, 1, 1, 1, 1, 1, 1, 1, 1, 1, 1, 0, 0, 0, 0, 1,
      0, 1, 1, 1, 1, 1, 1, 1, 1, 1, 1, 1, 1, 1, 1, 1,
      1, 1, 1, 1, 1, 1, 1, 1, 1, 1, 1, 0, 0, 0, 0, 0]"

definition mist_name_is_bad :: "char list \<Rightarrow> int" where
  "mist_name_is_bad name =
     (case name of
        [] \<Rightarrow> 1
      | c # cs \<Rightarrow>
          if c = CHR ''.'' \<or> c = CHR 0x20 then 1
          else if list_ex (\<lambda>c. (of_char c :: nat) \<le> 0x1F \<or> (of_char c :: nat) \<ge> 0x7F \<or>
                               ch_allowed ! of_char c = 0) name
          then 1 else 0)"

text \<open>Here front is the part of the source before the pointer.\<close>

fun count_lines :: "nat \<Rightarrow> char list \<Rightarrow> nat" where
  "count_lines cnt [] = cnt"
| "count_lines cnt (c # cs) =
     count_lines (if c = CHR 0x0A then (cnt + 1) mod 2 ^ 32 else cnt) cs"

definition mist_line_num_for_ptr :: "char list \<Rightarrow> nat" where
  "mist_line_num_for_ptr front = count_lines 1 front"

definition mist_get_substring :: "char list \<Rightarrow> mheap \<Rightarrow> (cells option \<times> mheap) option" where
  "mist_get_substring rng h =
     (let len = length rng
      in case malloc h of
           (False, h) \<Rightarrow> Some (None, h)
         | (True, h) \<Rightarrow> do { b \<leftarrow> strncpy (replicate (len + 1) None) 0 rng len;
                             b \<leftarrow> store b len [NUL];
                             Some (Some b, h) })"

text \<open>The loop goes backwards over the characters before the pointer.\<close>

fun count_slashes :: "nat \<Rightarrow> char list \<Rightarrow> nat" where
  "count_slashes cnt [] = cnt"
| "count_slashes cnt (c # cs) = (if c = CHR 0x5C then count_slashes (cnt + 1) cs else cnt)"

definition mist_is_char_escaped :: "char list \<Rightarrow> nat" where
  "mist_is_char_escaped front =
     (if front = [] then 0 else count_slashes 0 (rev front) AND 1)"

text \<open>The range is changed in place; done is the part of it before pos.\<close>

function spaces_loop :: "char list \<Rightarrow> char list \<Rightarrow> char list \<Rightarrow> char list" where
  "spaces_loop front rest syms =
     (let n = mist_find_in_range_first_of rest syms
      in if n < length rest
         then spaces_loop (front @ take n rest @ [CHR 0x20]) (drop (n + 1) rest) syms
         else front @ rest)"
  by pat_completeness auto
termination
  by (relation "measure (\<lambda>(front, rest, syms). length rest)") auto

definition mist_chars_to_spaces :: "char list \<Rightarrow> char list \<Rightarrow> char list" where
  "mist_chars_to_spaces rng syms = (if rng = [] then rng else spaces_loop [] rng syms)"

declare count_occurrences.simps [simp del] replace_loop.simps [simp del] spaces_loop.simps [simp del]

end
