(* ===== verification/Mist_String_Spec.thy ===== *)
theory Mist_String_Spec
  imports Mist_String
begin

text \<open>
  Specification of the string utilities: a CMistString holds a string (mist_holds), and every
  function of the interface is total on such strings and computes a function on lists.
\<close>

subsection \<open>Size of the buffer\<close>

lemma and_not_mask: "unat (w AND NOT (mask 4) :: 64 word) = 16 * (unat w div 16)"
proof -
  have "w AND NOT (mask 4) = push_bit 4 (drop_bit 4 w)"
    by (rule bit_eqI) (auto simp: bit_simps)
  then have "unat (w AND NOT (mask 4)) = take_bit 64 (push_bit 4 (unat w div 16))"
    by (simp only: unsigned_push_bit_eq unat_drop_bit_eq drop_bit_eq_div [where 'a = nat]) simp
  moreover have "push_bit 4 (unat w div 16) = 16 * (unat w div 16)" by (simp add: push_bit_eq_mult)
  moreover have "unat w < 2 ^ LENGTH(64)" by (rule unsigned_less)
  then have "16 * (unat w div 16) < 2 ^ 64" by simp
  ultimately show ?thesis by (simp add: take_bit_nat_eq_self)
qed

lemma round_up_size_eq: "len + 16 < 2 ^ 64 \<Longrightarrow> round_up_size len = 16 * ((len + 16) div 16)"
proof -
  assume l: "len + 16 < 2 ^ 64"
  have "(of_nat MIST_INIT_BUFFER_SIZE - 1 :: 64 word) = mask 4"
    by (simp add: MIST_INIT_BUFFER_SIZE_def mask_eq_exp_minus_1)
  moreover have "(of_nat len + of_nat MIST_INIT_BUFFER_SIZE :: 64 word) = of_nat (len + 16)"
    by (simp add: MIST_INIT_BUFFER_SIZE_def)
  moreover have "unat (of_nat (len + 16) :: 64 word) = len + 16"
    using l by (simp only: unat_of_nat) simp
  ultimately show ?thesis by (simp only: round_up_size_def and_not_mask)
qed

subsection \<open>Blocks that begin with given characters\<close>

definition written :: "cells \<Rightarrow> char list \<Rightarrow> bool" where
  "written b t \<longleftrightarrow> take (length t) b = map Some t"

lemma written_Nil [simp]: "written b []"
  by (simp add: written_def)

lemma written_le: "written b t \<Longrightarrow> length t \<le> length b"
  unfolding written_def by (metis length_map length_take min.absorb_iff2)

lemma store_written:
  assumes "written b t" and "length t + length s \<le> length b"
  shows "\<exists>b'. store b (length t) s = Some b' \<and> written b' (t @ s) \<and> length b' = length b"
  using assms by (auto simp: store_def written_def)

lemma store_end:
  assumes "written b t" and "length t < length b" and "NUL \<notin> set t"
  shows "\<exists>b'. store b (length t) [NUL] = Some b' \<and> cstr b' = Some t \<and> length b' = length b"
  using assms by (auto simp: store_def written_def)

text \<open>Writing a string after some characters that are already there.\<close>

lemma store_string:
  assumes b: "take (length t) (drop off b) = map Some t" and t: "NUL \<notin> set t" and s: "NUL \<notin> set s"
    and l: "off + length t + length s < length b"
  shows "\<exists>b'. store b (off + length t) (s @ [NUL]) = Some b' \<and> cstr (drop off b') = Some (t @ s) \<and>
           length b' = length b"
proof -
  have "drop off (take (off + length t) b) = map Some t" using b by (simp add: drop_take)
  moreover have "off \<le> length (take (off + length t) b)" using l by simp
  ultimately show ?thesis using l s t by (simp add: store_def cstr_map_Some)
qed

lemma strcat_ok:
  assumes "cstr (drop off b) = Some t" and "NUL \<notin> set s" and "off + length t + length s < length b"
  shows "\<exists>b'. strcat b off s = Some b' \<and> cstr (drop off b') = Some (t @ s) \<and> length b' = length b"
proof -
  obtain rest where "drop off b = map Some t @ Some NUL # rest" using cstr_shape [OF assms(1)] by blast
  then have "take (length t) (drop off b) = map Some t" by simp
  from store_string [OF this cstr_no_NUL [OF assms(1)] assms(2,3)] show ?thesis
    by (simp add: strcat_def assms(1))
qed

lemma strcpy_ok:
  assumes "NUL \<notin> set s" and "length s < length b"
  shows "\<exists>b'. strcpy b 0 s = Some b' \<and> cstr b' = Some s \<and> length b' = length b"
  using store_string [of "[]" 0 b s] assms by (simp add: strcpy_def)

lemma cstr_append: "cstr b = Some s \<Longrightarrow> cstr (b @ x) = Some s"
  by (induction b arbitrary: s rule: cstr.induct) (auto split: if_splits)

subsection \<open>Strings\<close>

definition mist_holds :: "mist_string \<Rightarrow> char list \<Rightarrow> bool" where
  "mist_holds ms s \<longleftrightarrow>
     bsize ms = length (buf ms) \<and> length (buf ms) < 2 ^ 64 \<and> cstr (drop (str ms) (buf ms)) = Some s"

lemma mist_holdsD:
  assumes "mist_holds ms s"
  shows "in_buffer ms" "mist_value ms = Some s" "NUL \<notin> set s" "str ms + length s < bsize ms"
    "bsize ms = length (buf ms)" "bsize ms < 2 ^ 64"
proof -
  have v: "cstr (drop (str ms) (buf ms)) = Some s" and l: "bsize ms = length (buf ms)" "bsize ms < 2 ^ 64"
    using assms by (auto simp: mist_holds_def)
  obtain rest where "str ms + length s < length (buf ms)" using cstr_drop_shape [OF v] by blast
  then show "str ms + length s < bsize ms" "in_buffer ms" by (simp_all add: l in_buffer_def)
  show "mist_value ms = Some s" "NUL \<notin> set s" using v cstr_no_NUL [OF v] by (simp_all add: mist_value_def)
  show "bsize ms = length (buf ms)" "bsize ms < 2 ^ 64" using l by simp_all
qed

lemma create_range_ok:
  assumes "NUL \<notin> set r" and "length r + 16 < 2 ^ 64"
  shows "\<exists>res h'. mist_string_create_from_range r h = Some (res, h') \<and>
           (case res of
              None \<Rightarrow> live h' = live h
            | Some ms \<Rightarrow> mist_holds ms r \<and> str ms = 0 \<and> bsize ms = 16 * ((length r + 16) div 16) \<and>
                live h' = live h + 2)"
proof -
  let ?sz = "16 * ((length r + 16) div 16)"
  note sz = round_up_size_eq [OF assms(2)]
  have l: "length r < ?sz" "?sz < 2 ^ 64" using assms(2) by auto
  let ?b0 = "replicate ?sz (None :: char option)"
  have "\<exists>b. (if length r > 0 then strncpy ?b0 0 r (length r) else Some ?b0) = Some b \<and> written b r \<and> length b = ?sz"
    using store_written [of ?b0 "[]" r] l(1) assms(1) by (cases r) (auto simp: strncpy_chars)
  then obtain b where b: "(if length r > 0 then strncpy ?b0 0 r (length r) else Some ?b0) = Some b"
    "written b r" "length b = ?sz" by blast
  obtain b' where b': "store b (length r) [NUL] = Some b'" "cstr b' = Some r" "length b' = ?sz"
    using store_end [OF b(2) _ assms(1)] b(3) l(1) by auto
  obtain ok1 h1 where m1: "malloc h = (ok1, h1)" by fastforce
  obtain ok2 h2 where m2: "malloc h1 = (ok2, h2)" by fastforce
  have lv: "live h1 = live h + of_bool ok1" "live h2 = live h1 + of_bool ok2"
    using m1 m2 by (auto simp: malloc_def next_outcome_def Let_def split: list.splits)
  show ?thesis
    using b(1) b' l(2) lv
    by (cases ok1; cases ok2)
      (simp_all add: mist_string_create_from_range_def m1 m2 sz Let_def mfree_def mist_holds_def)
qed

lemma string_create_ok:
  "\<exists>res h'. mist_string_create None h = Some (res, h') \<and>
     (case res of
        None \<Rightarrow> live h' = live h
      | Some ms \<Rightarrow> mist_holds ms [] \<and> str ms = 0 \<and> bsize ms = 16 \<and> live h' = live h + 2)"
  "mist_string_create (Some []) h = mist_string_create None h"
proof -
  from create_range_ok [of "[]" h] show "\<exists>res h'. mist_string_create None h = Some (res, h') \<and>
     (case res of
        None \<Rightarrow> live h' = live h
      | Some ms \<Rightarrow> mist_holds ms [] \<and> str ms = 0 \<and> bsize ms = 16 \<and> live h' = live h + 2)"
    by (auto simp: mist_string_create_def split: option.splits)
qed (simp add: mist_string_create_def)

lemma reserve_ok:
  assumes "mist_holds ms s" and "sz + 1 < 2 ^ 64"
  shows "\<exists>ec ms' h'. mist_string_reserve ms sz h = Some (ec, ms', h') \<and> live h' = live h \<and>
           mist_holds ms' s \<and> str ms' = str ms \<and> bsize ms \<le> bsize ms' \<and> (\<exists>x. buf ms' = buf ms @ x) \<and>
           (ec = MIST_OK \<and> sz < bsize ms' \<or> ec = MIST_OUT_OF_MEMORY \<and> ms' = ms)"
proof -
  note M = mist_holdsD [OF assms(1)]
  show ?thesis
  proof (cases "sz + 1 > bsize ms")
    case True
    obtain ok h1 where r: "realloc h = (ok, h1)" by fastforce
    have lv: "live h1 = live h" using r by (auto simp: realloc_def next_outcome_def split: list.splits)
    have "str ms \<le> length (buf ms)" using M(4,5) by simp
    moreover have "cstr (drop (str ms) (buf ms) @ x) = Some s" for x
      using assms(1) cstr_append by (simp add: mist_holds_def)
    ultimately show ?thesis using True assms M(1) r lv M(5)
      by (cases ok) (auto simp: mist_string_reserve_def Let_def mist_holds_def)
  next
    case False
    then show ?thesis using assms M(1) by (auto simp: mist_string_reserve_def Let_def)
  qed
qed

lemma set_ok:
  assumes "mist_holds ms s" and "NUL \<notin> set src" and "length src + 2 < 2 ^ 64"
  shows "\<exists>ec ms' h'. mist_string_set ms src h = Some (ec, ms', h') \<and> live h' = live h \<and>
           (ec = MIST_OK \<and> mist_holds ms' src \<and> str ms' = 0 \<or> ec = MIST_OUT_OF_MEMORY \<and> ms' = ms)"
proof -
  note M = mist_holdsD [OF assms(1)]
  obtain ec ms1 h1 where r: "mist_string_reserve ms (Suc (length src)) h = Some (ec, ms1, h1)" "live h1 = live h"
    "mist_holds ms1 s" "ec = MIST_OK \<and> Suc (length src) < bsize ms1 \<or> ec = MIST_OUT_OF_MEMORY \<and> ms1 = ms"
    using reserve_ok [OF assms(1), of "Suc (length src)" h] assms(3) by auto
  note M1 = mist_holdsD [OF r(3)]
  have w: "size_wrap (Suc (length src)) = Suc (length src)" using assms(3) by simp
  show ?thesis
  proof (cases "ec = MIST_OK")
    case True
    then have "length src < length (buf ms1)" using r(4) M1(5) by auto
    from strcpy_ok [OF assms(2) this] show ?thesis
      using True r M(1) M1(5,6) by (auto simp: mist_string_set_def w mist_holds_def)
  next
    case False
    then show ?thesis using r M(1) by (auto simp: mist_string_set_def w)
  qed
qed

lemma append_chars_ok:
  assumes "mist_holds ms t" and "NUL \<notin> set s" and "str ms + length t + length s + 2 < 2 ^ 64"
    and r: "mist_string_reserve ms (Suc (str ms + length t + length s)) h = Some (MIST_OK, ms1, h1)"
  shows "\<exists>b. strcat (buf ms1) (str ms1) s = Some b \<and> mist_holds (ms1\<lparr>buf := b\<rparr>) (t @ s) \<and>
           str ms1 = str ms \<and> live h1 = live h"
proof -
  from reserve_ok [OF assms(1), of "Suc (str ms + length t + length s)" h] assms(3) r
  have R: "mist_holds ms1 t" "str ms1 = str ms" "Suc (str ms + length t + length s) < bsize ms1" "live h1 = live h"
    by auto
  note M = mist_holdsD [OF R(1)]
  have "\<exists>b. strcat (buf ms1) (str ms1) s = Some b \<and> cstr (drop (str ms1) b) = Some (t @ s) \<and>
      length b = length (buf ms1)"
    by (rule strcat_ok) (use R M assms(2) in \<open>simp_all add: mist_holds_def\<close>)
  then show ?thesis using R M by (auto simp: mist_holds_def)
qed

lemma append_ok:
  assumes "mist_holds ms t" and "mist_holds ms2 s" and "str ms + length t + length s + 2 < 2 ^ 64"
  shows "\<exists>ec ms' h'. mist_string_append ms ms2 h = Some (ec, ms', h') \<and> live h' = live h \<and>
           (ec = MIST_OK \<and> mist_holds ms' (t @ s) \<and> str ms' = str ms \<or> ec = MIST_OUT_OF_MEMORY \<and> ms' = ms)"
proof -
  note M = mist_holdsD [OF assms(1)] and M2 = mist_holdsD [OF assms(2)]
  let ?n = "Suc (str ms + length t + length s)"
  have w: "size_wrap ?n = ?n" using assms(3) by simp
  obtain ec ms1 h1 where r: "mist_string_reserve ms ?n h = Some (ec, ms1, h1)" "live h1 = live h"
    "ec = MIST_OK \<or> ec = MIST_OUT_OF_MEMORY \<and> ms1 = ms"
    using reserve_ok [OF assms(1), of ?n h] assms(3) by auto
  show ?thesis
  proof (cases "ec = MIST_OK")
    case True
    with append_chars_ok [OF assms(1) M2(3) assms(3), of h ms1 h1] r show ?thesis
      by (auto simp: mist_string_append_def M(1,2) M2(1,2) w)
  next
    case False
    with r show ?thesis by (auto simp: mist_string_append_def M(1,2) M2(1,2) w)
  qed
qed

lemma append_range_ok:
  assumes "mist_holds ms t" and "NUL \<notin> set r" and "str ms + length t + length r + 2 < 2 ^ 64"
  shows "\<exists>ec ms' h'. mist_string_append_range ms r h = Some (ec, ms', h') \<and> live h' = live h \<and>
           (ec = MIST_OK \<and> mist_holds ms' (t @ r) \<and> str ms' = str ms \<or> ec = MIST_OUT_OF_MEMORY \<and> ms' = ms)"
proof -
  note M = mist_holdsD [OF assms(1)]
  let ?n = "Suc (str ms + length t + length r)"
  have w: "size_wrap ?n = ?n" using assms(3) by simp
  obtain ec ms1 h1 where R: "mist_string_reserve ms ?n h = Some (ec, ms1, h1)" "live h1 = live h"
    "mist_holds ms1 t" "str ms1 = str ms" "ec = MIST_OK \<or> ec = MIST_OUT_OF_MEMORY \<and> ms1 = ms"
    using reserve_ok [OF assms(1), of ?n h] assms(3) by auto
  have f: "first_chars (length r) r = r" by (simp add: first_chars_all [OF assms(2)])
  show ?thesis
  proof (cases "ec = MIST_OK")
    case True
    with append_chars_ok [OF assms, of h ms1 h1] R obtain b where
      b: "strcat (buf ms1) (str ms1) r = Some b" "mist_holds (ms1\<lparr>buf := b\<rparr>) (t @ r)" by auto
    have "\<exists>b. (if length r > 0 then strncat (buf ms1) (str ms1) r (length r) else Some (buf ms1)) = Some b \<and>
        mist_holds (ms1\<lparr>buf := b\<rparr>) (t @ r)"
    proof (cases "r = []")
      case True
      then show ?thesis using R(3) by simp
    next
      case False
      then show ?thesis using b f by (simp add: strncat_def)
    qed
    then obtain b' where "(if length r > 0 then strncat (buf ms1) (str ms1) r (length r) else Some (buf ms1)) = Some b'"
      "mist_holds (ms1\<lparr>buf := b'\<rparr>) (t @ r)" by blast
    then show ?thesis using True R(1,2,4) by (simp add: mist_string_append_range_def M(1,2) w Let_def)
  next
    case False
    with R show ?thesis by (auto simp: mist_string_append_range_def M(1,2) w)
  qed
qed

lemma sum_ok:
  assumes "mist_holds ms1 s1" and "mist_holds ms2 s2" and "length s1 + length s2 + 2 < 2 ^ 64"
  shows "\<exists>res h'. mist_string_sum ms1 ms2 h = Some (res, h') \<and>
           (case res of None \<Rightarrow> live h' = live h
            | Some ms \<Rightarrow> mist_holds ms (s1 @ s2) \<and> live h' = live h + 2)"
proof -
  note M1 = mist_holdsD [OF assms(1)] and M2 = mist_holdsD [OF assms(2)]
  let ?n = "Suc (length s1 + length s2)"
  have w: "size_wrap ?n = ?n" using assms(3) by simp
  note defs = mist_string_sum_def M1(1,2) M2(1,2) w mist_string_destroy_def mfree_def
  obtain c h1 where c: "mist_string_create None h = Some (c, h1)"
    "case c of None \<Rightarrow> live h1 = live h
     | Some ms \<Rightarrow> mist_holds ms [] \<and> str ms = 0 \<and> bsize ms = 16 \<and> live h1 = live h + 2"
    using string_create_ok(1) [of h] by blast
  show ?thesis
  proof (cases c)
    case None
    with c show ?thesis by (simp add: defs)
  next
    case (Some m0)
    with c have m0: "mist_holds m0 []" "live h1 = live h + 2" by simp_all
    obtain e1 m1 h2 where r: "mist_string_reserve m0 ?n h1 = Some (e1, m1, h2)" "live h2 = live h1" "mist_holds m1 []"
      using reserve_ok [OF m0(1), of ?n h1] assms(3) by auto
    obtain e2 m2 h3 where t: "mist_string_set m1 s1 h2 = Some (e2, m2, h3)" "live h3 = live h2"
      "e2 = MIST_OK \<Longrightarrow> mist_holds m2 s1 \<and> str m2 = 0"
      using set_ok [OF r(3) M1(3), of h2] assms(3) by auto
    show ?thesis
    proof (cases "e1 = MIST_OK \<and> e2 = MIST_OK")
      case True
      with t have m2: "mist_holds m2 s1" "str m2 = 0" by simp_all
      from append_ok [OF m2(1) assms(2), of h3] assms(3) m2(2) show ?thesis
        using True c(1) Some r(1,2) t(1,2) m0(2) by (auto simp: defs)
    next
      case False
      then show ?thesis using c(1) Some r(1,2) t(1,2) m0(2) by (auto simp: defs)
    qed
  qed
qed

end
