(* ===== verification/Mist_String_Edit.thy ===== *)
theory Mist_String_Edit
  imports Mist_String_Spec
begin

text \<open>
  Reference definitions of replacing, unescaping and trimming on lists, and that the functions
  on buffers compute them without leaving the buffers.
\<close>

subsection \<open>Replacing\<close>

function replace_all :: "char list \<Rightarrow> char list \<Rightarrow> char list \<Rightarrow> char list" where
  "replace_all what subst s =
     (if s = [] \<or> what = [] then s
      else if take (length what) s = what then subst @ replace_all what subst (drop (length what) s)
      else hd s # replace_all what subst (tl s))"
  by pat_completeness auto
termination
  by (relation "measure (\<lambda>(what, subst, s). length s)") (auto simp flip: length_greater_0_conv)

declare replace_all.simps [simp del]

lemma replace_all_None:
  "strstr s what = None \<Longrightarrow> replace_all what subst s = s"
proof (induction s what rule: strstr.induct)
  case (2 c cs what)
  then show ?case by (subst replace_all.simps) (auto split: if_splits)
qed (simp add: replace_all.simps)

lemma replace_all_Some:
  "what \<noteq> [] \<Longrightarrow> strstr s what = Some p \<Longrightarrow>
   replace_all what subst s = take p s @ subst @ replace_all what subst (drop (p + length what) s)"
proof (induction s what arbitrary: p rule: strstr.induct)
  case (2 c cs what)
  show ?case
  proof (cases "take (length what) (c # cs) = what")
    case True
    with 2 show ?thesis by (subst replace_all.simps) simp
  next
    case False
    with 2 obtain q where "strstr cs what = Some q" "p = Suc q" by auto
    with 2 False show ?thesis by (subst replace_all.simps) simp
  qed
qed simp

lemma count_None: "strstr s what = None \<Longrightarrow> count_occurrences s what = 0"
  by (subst count_occurrences.simps) simp

lemma count_Some:
  "what \<noteq> [] \<Longrightarrow> strstr s what = Some p \<Longrightarrow>
   count_occurrences s what = Suc (count_occurrences (drop (p + length what) s) what)"
  by (subst count_occurrences.simps) simp

lemma replace_loop_None: "what \<noteq> [] \<Longrightarrow> strstr s what = None \<Longrightarrow> replace_loop s what subst b off = Some (s, b, off)"
  by (subst replace_loop.simps) simp

text \<open>The size computed for the buffer is the length of the result.\<close>

lemma replace_length:
  assumes "what \<noteq> []"
  shows "count_occurrences s what * length what \<le> length s \<and>
         length (replace_all what subst s) =
           length s - count_occurrences s what * length what + count_occurrences s what * length subst"
  using assms
proof (induction s what rule: count_occurrences.induct)
  case (1 s what)
  show ?case
  proof (cases "strstr s what")
    case None
    then show ?thesis by (simp add: count_None replace_all_None)
  next
    case (Some p)
    let ?s = "drop (p + length what) s" and ?c = "count_occurrences (drop (p + length what) s) what"
    note P = strstr_Some [OF Some]
    from 1 Some have IH: "?c * length what \<le> length ?s"
      "length (replace_all what subst ?s) = length ?s - ?c * length what + ?c * length subst" by simp_all
    have "length ?s = length s - p - length what" by simp
    moreover have "min (length s) p = p" using P by simp
    ultimately have "length (replace_all what subst s) = p + length subst + (length ?s - ?c * length what + ?c * length subst)"
      using IH by (simp add: replace_all_Some [OF 1(2) Some])
    moreover have "length ?s + p + length what = length s" using P by simp
    moreover have "count_occurrences s what * length what = length what + ?c * length what"
      "count_occurrences s what * length subst = length subst + ?c * length subst"
      by (simp_all add: count_Some [OF 1(2) Some])
    ultimately show ?thesis using IH(1) by linarith
  qed
qed

lemma strncpy_written:
  assumes "written b t" and "NUL \<notin> set s" and "n \<le> length s" and "length t + n \<le> length b"
  shows "\<exists>b'. (if n \<noteq> 0 then strncpy b (length t) s n else Some b) = Some b' \<and>
           written b' (t @ take n s) \<and> length b' = length b"
  using assms store_written [OF assms(1), of "take n s"] by (cases n) (simp_all add: strncpy_chars)

lemma replace_loop_ok:
  assumes "what \<noteq> []" and "NUL \<notin> set s" and "NUL \<notin> set subst" and "written b t"
    and "length t + length (replace_all what subst s) \<le> length b"
  shows "\<exists>s' b' t'. replace_loop s what subst b (length t) = Some (s', b', length t') \<and> written b' t' \<and>
           t' @ s' = t @ replace_all what subst s \<and> length b' = length b \<and> NUL \<notin> set s'"
  using assms
proof (induction s what arbitrary: b t rule: count_occurrences.induct)
  case (1 s what)
  show ?case
  proof (cases "strstr s what")
    case None
    with 1 show ?thesis by (intro exI [of _ s] exI [of _ b] exI [of _ t])
      (simp add: replace_loop_None replace_all_None)
  next
    case (Some p)
    let ?s = "drop (p + length what) s"
    note P = strstr_Some [OF Some] and R = replace_all_Some [OF 1(2) Some, of subst]
    have len: "length t + p + length subst + length (replace_all what subst ?s) \<le> length b"
      using 1(6) min_absorb2 [of p "length s"] P [THEN conjunct1] by (simp add: R)
    obtain b1 where b1: "(if p \<noteq> 0 then strncpy b (length t) s p else Some b) = Some b1"
      "written b1 (t @ take p s)" "length b1 = length b"
      using strncpy_written [OF 1(5,3), of p] P len by auto
    have l1: "length (t @ take p s) = length t + p" using P by simp
    obtain b2 where b2: "(if length subst \<noteq> 0 then strncpy b1 (length t + p) subst (length subst) else Some b1) = Some b2"
      "written b2 (t @ take p s @ subst)" "length b2 = length b"
      using strncpy_written [OF b1(2) 1(4), of "length subst", unfolded l1] len b1(3) by auto
    have l2: "length (t @ take p s @ subst) = length t + p + length subst" using P by simp
    have "NUL \<notin> set ?s" using 1(3) by (auto dest: in_set_dropD)
    from 1(1) [OF 1(2) Some 1(2) this 1(4) b2(2)] len b2(3) l2 obtain s' b' t' where
      L: "replace_loop ?s what subst b2 (length t + p + length subst) = Some (s', b', length t')"
        "written b' t'" "t' @ s' = (t @ take p s @ subst) @ replace_all what subst ?s" "length b' = length b"
        "NUL \<notin> set s'" by (auto simp only: l2)
    have "replace_loop s what subst b (length t) = Some (s', b', length t')"
      using 1(2) by (subst replace_loop.simps) (simp only: Some b1(1) b2(1) L(1) if_False option.case Let_def bind.bind_lunit)
    with L show ?thesis by (auto simp: R)
  qed
qed

lemma NUL_replace_all:
  "NUL \<notin> set s \<Longrightarrow> NUL \<notin> set subst \<Longrightarrow> NUL \<notin> set (replace_all what subst s)"
proof (induction what subst s rule: replace_all.induct)
  case (1 what subst s)
  have "NUL \<notin> set (drop (length what) s)" "NUL \<notin> set (tl s)" "s \<noteq> [] \<Longrightarrow> NUL \<noteq> hd s"
    using 1(3) by (cases s; auto dest: in_set_dropD)+
  with 1 show ?case by (subst replace_all.simps) auto
qed

lemma swap_ok: "in_buffer ms \<Longrightarrow> in_buffer ts \<Longrightarrow> mist_string_swap ms ts = Some (ts, ms)"
  by (simp add: mist_string_swap_def)

lemma replace_ok:
  assumes m: "mist_holds ms s" and w: "what \<noteq> []" "NUL \<notin> set subst"
    and l: "length (replace_all what subst s) + 1 < 2 ^ 64"
  shows "\<exists>ec ms' h'. mist_string_replace ms what subst h = Some (ec, ms', h') \<and> live h' = live h \<and>
           (ec = MIST_OK \<and> mist_holds ms' (replace_all what subst s) \<or> ec = MIST_OUT_OF_MEMORY \<and> ms' = ms)"
proof -
  note M = mist_holdsD [OF m]
  let ?c = "count_occurrences s what" and ?r = "replace_all what subst s"
  note L = replace_length [OF w(1), of s subst]
  have size: "size_wrap (length s - ?c * length what + ?c * length subst) = length ?r" using L l by simp
  note defs = mist_string_replace_def M(1,2) w(1) size mist_string_destroy_def mfree_def
  obtain c h1 where c: "mist_string_create None h = Some (c, h1)"
    "case c of None \<Rightarrow> live h1 = live h
     | Some ms \<Rightarrow> mist_holds ms [] \<and> str ms = 0 \<and> bsize ms = 16 \<and> live h1 = live h + 2"
    using string_create_ok(1) [of h] by blast
  show ?thesis
  proof (cases "strstr s what")
    case None
    then show ?thesis using m by (simp add: defs count_None replace_all_None)
  next
    case (Some p)
    then have nz: "?c \<noteq> 0" by (simp add: count_Some w(1))
    show ?thesis
    proof (cases c)
      case None
      with c nz show ?thesis by (simp add: defs)
    next
      case (Some t0)
      with c have t0: "mist_holds t0 []" "str t0 = 0" "live h1 = live h + 2" by simp_all
      obtain ec t1 h2 where r: "mist_string_reserve t0 (length ?r) h1 = Some (ec, t1, h2)" "live h2 = live h1"
        "mist_holds t1 []" "str t1 = 0" "ec = MIST_OK \<and> length ?r < bsize t1 \<or> ec = MIST_OUT_OF_MEMORY"
        using reserve_ok [OF t0(1), of "length ?r" h1] l t0(2) by auto
      note T = mist_holdsD [OF r(3)]
      show ?thesis
      proof (cases "ec = MIST_OK")
        case False
        with r c Some nz t0(3) show ?thesis by (simp add: defs)
      next
        case True
        with r(5) T(5) have len: "length ?r < length (buf t1)" by auto
        then have "length [] + length ?r \<le> length (buf t1)" by simp
        from replace_loop_ok [OF w(1) M(3) w(2) written_Nil this] obtain s' b' t' where
          R: "replace_loop s what subst (buf t1) 0 = Some (s', b', length t')" "written b' t'"
            "t' @ s' = ?r" "length b' = length (buf t1)" "NUL \<notin> set s'" by auto
        have "length t' + length s' = length ?r" using R(3) by (metis length_append)
        then obtain b1 where b1: "(if length s' \<noteq> 0 then strncpy b' (length t') s' (length s') else Some b') = Some b1"
          "written b1 ?r" "length b1 = length (buf t1)" "length t' + length s' = length ?r"
          using strncpy_written [OF R(2,5), of "length s'"] len R(3,4) by auto
        obtain b2 where b2: "store b1 (length ?r) [NUL] = Some b2" "cstr b2 = Some ?r" "length b2 = length (buf t1)"
          using store_end [OF b1(2)] len b1(3) NUL_replace_all [OF M(3) w(2)] by auto
        let ?t = "t1\<lparr>buf := b2, str := 0\<rparr>"
        have holds: "mist_holds ?t ?r" using b2 T(5,6) by (simp add: mist_holds_def)
        have sw: "mist_string_swap ms ?t = Some (?t, ms)" by (rule swap_ok [OF M(1) mist_holdsD(1) [OF holds]])
        have "length ?r < bsize t1" using len T(5) by simp
        then have "mist_string_replace ms what subst h = Some (MIST_OK, ?t, mist_string_destroy ms h2)"
          using nz True Some c(1) r(1) R(1) b1(1,4) b2(1) sw
          by (simp add: mist_string_replace_def M(1,2) w(1) size r(4) Let_def)
        then show ?thesis using holds r(2) t0(3) by (simp add: mist_string_destroy_def mfree_def)
      qed
    qed
  qed
qed

subsection \<open>Unescaping\<close>

fun unescaped :: "char list \<Rightarrow> char list" where
  "unescaped [] = []"
| "unescaped [c] = [c]"
| "unescaped (c # d # cs) =
     (if c \<noteq> CHR 0x5C then c # unescaped (d # cs)
      else if d = CHR 0x5C then CHR 0x5C # unescaped cs
      else if d = CHR ''t'' then CHR 0x09 # unescaped cs
      else if d = CHR ''n'' then CHR 0x0A # unescaped cs
      else if d = CHR ''r'' then CHR 0x0D # unescaped cs
      else CHR 0x5C # unescaped (d # cs))"

lemma special_char_eq:
  "special_char d = (if d = CHR ''t'' then Some (CHR 0x09) else if d = CHR ''n'' then Some (CHR 0x0A)
     else if d = CHR ''r'' then Some (CHR 0x0D) else if d = NUL then Some NUL else None)"
  by (simp add: special_char_def ch_what_def ch_to_def)

lemma unescaped_plain: "c \<noteq> CHR 0x5C \<Longrightarrow> unescaped (c # cs) = c # unescaped cs"
  by (cases cs) auto

lemma length_unescaped: "length (unescaped s) \<le> length s"
  by (induction s rule: unescaped.induct) auto

lemma NUL_unescaped: "NUL \<notin> set s \<Longrightarrow> NUL \<notin> set (unescaped s)"
  by (induction s rule: unescaped.induct) auto

lemma unescape_loop_ok:
  assumes "NUL \<notin> set seg" and "NUL \<notin> set rest" and "written b t"
    and "length t + length seg + length rest \<le> length b"
  shows "\<exists>seg' b' t'. unescape_loop seg rest b (length t) = Some (seg', b', length t') \<and> written b' t' \<and>
           t' @ seg' = t @ seg @ unescaped rest \<and> length b' = length b \<and> NUL \<notin> set seg'"
  using assms
proof (induction seg rest b "length t" arbitrary: t rule: unescape_loop.induct)
  case (1 seg b)
  then show ?case by auto
next
  case (2 seg c cs b)
  show ?case
  proof (cases "c = CHR 0x5C")
    case False
    then have nn: "NUL \<notin> set (seg @ [c])" "NUL \<notin> set cs" using 2 by auto
    have "length t + length (seg @ [c]) + length cs \<le> length b" using 2 by simp
    from 2(4) [OF False refl nn 2(7) this] show ?thesis using False by (auto simp: unescaped_plain)
  next
    case True
    obtain b1 where b1: "(if length seg > 0 then strncpy b (length t) seg (length seg) else Some b) = Some b1"
      "written b1 (t @ seg)" "length b1 = length b"
      using strncpy_written [OF 2(7,5), of "length seg"] 2(8) by auto
    have st: "\<exists>b2. store b1 (length t + length seg) [x] = Some b2 \<and> written b2 ((t @ seg) @ [x]) \<and> length b2 = length b" for x
      using store_written [OF b1(2), of "[x]"] b1(3) 2(8) by simp
    show ?thesis
    proof (cases cs)
      case Nil
      obtain b2 where "store b1 (length t + length seg) [CHR 0x5C] = Some b2" "written b2 ((t @ seg) @ [CHR 0x5C])"
        "length b2 = length b" using st by blast
      then show ?thesis using Nil True b1(1)
        by (intro exI [of _ "[]"] exI [of _ b2] exI [of _ "(t @ seg) @ [CHR 0x5C]"]) simp
    next
      case (Cons d ds)
      have nd: "NUL \<notin> set ds" "d \<noteq> NUL" using 2(6) Cons by auto
      let ?step = "\<lambda>x rest. \<exists>b2. store b1 (length t + length seg) [x] = Some b2 \<and>
          (\<exists>seg' b' t'. unescape_loop [] rest b2 (length t + length seg + 1) = Some (seg', b', length t') \<and> written b' t' \<and>
             t' @ seg' = t @ seg @ x # unescaped rest \<and> length b' = length b \<and> NUL \<notin> set seg')"
      have size: "length ((t @ seg) @ [x]) + length [] + length ds \<le> length b2" if "length b2 = length b" for x b2
        using 2(8) Cons that by simp
      have len: "length t + length seg + 1 = length ((t @ seg) @ [x])" for x by simp
      show ?thesis
      proof (cases "d = CHR 0x5C")
        case dd: True
        obtain b2 where b2: "store b1 (length t + length seg) [CHR 0x5C] = Some b2"
          "written b2 ((t @ seg) @ [CHR 0x5C])" "length b2 = length b" using st by blast
        from 2(1) [OF True b1(1) refl Cons dd b2(1) len, of "CHR 0x5C"] nd(1) b2(2) size [OF b2(3)]
        show ?thesis using True Cons dd b1(1) b2(1,3) by auto
      next
        case nb: False
        show ?thesis
        proof (cases "special_char d")
          case (Some e)
          have u: "unescaped (CHR 0x5C # d # ds) = e # unescaped ds" using Some nb True Cons nd(2)
            by (auto simp: special_char_eq split: if_splits)
          obtain b2 where b2: "store b1 (length t + length seg) [e] = Some b2"
            "written b2 ((t @ seg) @ [e])" "length b2 = length b" using st by blast
          from 2(3) [OF True b1(1) refl Cons nb Some b2(1) len, of e] nd(1) b2(2) size [OF b2(3)]
          show ?thesis using True Cons nb b1(1) b2(1,3) Some by (auto simp: u simp del: unescaped.simps)
        next
          case None
          have u: "unescaped (CHR 0x5C # d # ds) = CHR 0x5C # unescaped (d # ds)" using None nb True Cons
            by (auto simp: special_char_eq split: if_splits)
          obtain b2 where b2: "store b1 (length t + length seg) [CHR 0x5C] = Some b2"
            "written b2 ((t @ seg) @ [CHR 0x5C])" "length b2 = length b" using st by blast
          have "length ((t @ seg) @ [CHR 0x5C]) + length [] + length (d # ds) \<le> length b2"
            using 2(8) Cons b2(3) by simp
          with 2(2) [OF True b1(1) refl Cons nb None b2(1) len, of "CHR 0x5C"] nd b2(2)
          show ?thesis using True Cons nb b1(1) b2(1,3) None by (auto simp: u simp del: unescaped.simps)
        qed
      qed
    qed
  qed
qed

end
