(* ===== verification/Mist_String_More.thy ===== *)
theory Mist_String_More
  imports Mist_String_Edit
begin

text \<open>
  The remaining functions on strings: unescaping as a whole, trimming, resetting and detaching,
  the searches, and the functions on names and pointers of the other files.
\<close>

subsection \<open>Unescaping\<close>

lemma unescape_ok:
  assumes m: "mist_holds ms s"
  shows "\<exists>ec ms' h'. mist_string_unescape ms h = Some (ec, ms', h') \<and>
           (ec = MIST_OK \<and> mist_holds ms' (unescaped s) \<and> live h' = live h \<or>
            ec = MIST_OUT_OF_MEMORY \<and> ms' = ms \<and> (live h' = live h \<or> live h' = live h + 2))"
proof -
  note M = mist_holdsD [OF m]
  have sl: "length s + 1 < 2 ^ 64" using M(4,6) by simp
  note defs = mist_string_unescape_def M(1,2) mist_string_destroy_def mfree_def string_create_ok(2)
  show ?thesis
  proof (cases "length s < 2")
    case True
    then have "unescaped s = s" by (cases s rule: unescaped.cases) auto
    then show ?thesis using m True by (simp add: defs)
  next
    case False
    obtain c h1 where c: "mist_string_create None h = Some (c, h1)"
      "case c of None \<Rightarrow> live h1 = live h
       | Some ms \<Rightarrow> mist_holds ms [] \<and> str ms = 0 \<and> bsize ms = 16 \<and> live h1 = live h + 2"
      using string_create_ok(1) [of h] by blast
    show ?thesis
    proof (cases c)
      case None
      with c False show ?thesis by (simp add: defs)
    next
      case (Some t0)
      with c have t0: "mist_holds t0 []" "str t0 = 0" "live h1 = live h + 2" by simp_all
      obtain ec t1 h2 where r: "mist_string_reserve t0 (length s) h1 = Some (ec, t1, h2)" "live h2 = live h1"
        "mist_holds t1 []" "str t1 = 0" "ec = MIST_OK \<and> length s < bsize t1 \<or> ec = MIST_OUT_OF_MEMORY"
        using reserve_ok [OF t0(1) sl, of h1] t0(2) by auto
      note T = mist_holdsD [OF r(3)]
      show ?thesis
      proof (cases "ec = MIST_OK")
        case noec: False
        with r c(1) Some False t0(3) show ?thesis by (simp add: defs)
      next
        case True
        with r(5) T(5) have len: "length s < length (buf t1)" by auto
        then have "length [] + length [] + length s \<le> length (buf t1)" by simp
        from unescape_loop_ok [OF _ M(3) written_Nil this] obtain g b' t' where
          R: "unescape_loop [] s (buf t1) 0 = Some (g, b', length t')" "written b' t'"
            "t' @ g = unescaped s" "length b' = length (buf t1)" "NUL \<notin> set g" by auto
        have lt: "length t' + length g = length (unescaped s)" using R(3) by (metis length_append)
        note lu = length_unescaped [of s]
        obtain b1 where b1: "(if length g \<noteq> 0 then strncpy b' (length t') g (length g) else Some b') = Some b1"
          "written b1 (unescaped s)" "length b1 = length (buf t1)"
          using strncpy_written [OF R(2,5), of "length g"] len lt lu R(3,4) by auto
        obtain b2 where b2: "store b1 (length (unescaped s)) [NUL] = Some b2" "cstr b2 = Some (unescaped s)"
          "length b2 = length (buf t1)"
          using store_end [OF b1(2)] len lu b1(3) NUL_unescaped [OF M(3)] by auto
        let ?t = "t1\<lparr>buf := b2, str := 0\<rparr>"
        have holds: "mist_holds ?t (unescaped s)" using b2 T(5,6) by (simp add: mist_holds_def)
        have sw: "mist_string_swap ms ?t = Some (?t, ms)" by (rule swap_ok [OF M(1) mist_holdsD(1) [OF holds]])
        have "mist_string_unescape ms h = Some (MIST_OK, ?t, mist_string_destroy ms h2)"
          using False True Some c(1) r(1) R(1) b1(1) b2(1) sw
          by (simp add: mist_string_unescape_def M(1,2) string_create_ok(2) r(4) lt Let_def)
        then show ?thesis using holds r(2) t0(3) by (simp add: mist_string_destroy_def mfree_def)
      qed
    qed
  qed
qed

subsection \<open>Searching\<close>

lemma is_sym_set [simp]: "is_sym syms c \<longleftrightarrow> c \<in> set syms"
  by (auto simp: is_sym_def list_ex_iff)

lemma first_of_eq: "mist_find_in_range_first_of rng syms = length (takeWhile (\<lambda>c. c \<notin> set syms) rng)"
  by (induction rng) auto

lemma first_not_of_eq: "mist_find_in_range_first_not_of rng syms = length (takeWhile (\<lambda>c. c \<in> set syms) rng)"
  by (induction rng) auto

lemma takeWhile_all: "length (takeWhile P xs) = length xs \<longleftrightarrow> (\<forall>x\<in>set xs. P x)"
  by (induction xs) auto

lemma last_not_of_loop_app:
  "n \<le> length r \<Longrightarrow> last_not_of_loop (r @ q) syms n = last_not_of_loop r syms n"
  by (induction n) (auto simp: nth_append)

lemma last_not_of_loop_eq:
  "case last_not_of_loop rng syms (length rng) of
     None \<Rightarrow> \<forall>c\<in>set rng. c \<in> set syms
   | Some n \<Rightarrow> n < length rng \<and> rng ! n \<notin> set syms \<and> (\<forall>c\<in>set (drop (n + 1) rng). c \<in> set syms)"
proof (induction rng rule: rev_induct)
  case (snoc c cs)
  then show ?case by (auto simp: last_not_of_loop_app nth_append split: option.splits)
qed simp

subsection \<open>Trimming\<close>

definition trimmed :: "char list \<Rightarrow> char list" where
  "trimmed s = rev (dropWhile (\<lambda>c. c \<in> set seps) (rev (dropWhile (\<lambda>c. c \<in> set seps) s)))"

lemma trimmed_split:
  assumes "s = ls @ t @ rs" and "set ls \<subseteq> set seps" and "set rs \<subseteq> set seps"
    and "t = [] \<or> hd t \<notin> set seps \<and> last t \<notin> set seps"
  shows "trimmed s = t"
proof -
  have d: "dropWhile P (xs @ ys) = dropWhile P ys" if "\<forall>x\<in>set xs. P x" for P :: "char \<Rightarrow> bool" and xs ys
    using that by (induction xs) auto
  show ?thesis
  proof (cases "t = []")
    case True
    with assms d [of "ls @ rs" "\<lambda>c. c \<in> set seps" "[]"] show ?thesis
      by (auto simp: trimmed_def dest!: set_dropWhileD)
  next
    case False
    then have "dropWhile (\<lambda>c. c \<in> set seps) (t @ rs) = t @ rs" using assms(4) by (cases t) auto
    then have "dropWhile (\<lambda>c. c \<in> set seps) s = t @ rs" using assms(1,2) d by (metis subsetD)
    moreover have "dropWhile (\<lambda>c. c \<in> set seps) (rev rs @ rev t) = dropWhile (\<lambda>c. c \<in> set seps) (rev t)"
      by (rule d) (use assms(3) in auto)
    moreover have "dropWhile (\<lambda>c. c \<in> set seps) (rev t) = rev t"
      using assms(4) False by (cases t rule: rev_cases) simp_all
    ultimately show ?thesis by (simp add: trimmed_def)
  qed
qed

lemma cut_ok:
  assumes "mist_holds ms s" and "b \<le> e" and "e \<le> length s"
  shows "\<exists>b'. store (buf ms) (str ms + e) [NUL] = Some b' \<and> length b' = length (buf ms) \<and>
           cstr (drop (str ms + b) b') = Some (take (e - b) (drop b s))"
proof -
  note M = mist_holdsD [OF assms(1)]
  obtain rest where r: "drop (str ms) (buf ms) = map Some s @ Some NUL # rest"
    using assms(1) cstr_shape unfolding mist_holds_def by blast
  have d: "drop (str ms + b) (take (str ms + e) (buf ms)) = take (e - b) (drop b (drop (str ms) (buf ms)))"
    by (simp add: drop_take add.commute)
  have t: "drop (str ms + b) (take (str ms + e) (buf ms)) = map Some (take (e - b) (drop b s))"
    unfolding d r using assms(2,3) by (simp add: take_map drop_map)
  have "NUL \<notin> set (take (e - b) (drop b s))" using M(3) by (auto dest: in_set_takeD in_set_dropD)
  moreover have "str ms + b \<le> length (take (str ms + e) (buf ms))" using M(4,5) assms(2,3) by simp
  ultimately show ?thesis using M(4,5) assms(3) t by (simp add: store_def)
qed

lemma trim_range:
  assumes "\<not> (\<forall>c\<in>set s. c \<in> set seps)"
  defines "b \<equiv> mist_find_in_range_first_not_of s seps" and "e \<equiv> mist_find_in_range_last_not_of s seps + 1"
  shows "b < e" and "e \<le> length s" and "take (e - b) (drop b s) = trimmed s"
proof -
  let ?sep = "\<lambda>c. c \<in> set seps"
  from last_not_of_loop_eq [of s seps] assms(1) obtain n where
    n: "last_not_of_loop s seps (length s) = Some n" "n < length s" "\<not> ?sep (s ! n)" "\<forall>c\<in>set (drop (n + 1) s). ?sep c"
    by (auto split: option.splits)
  then have e: "e = n + 1" by (simp add: e_def mist_find_in_range_last_not_of_def)
  have b: "b = length (takeWhile ?sep s)" by (simp add: b_def first_not_of_eq)
  then have bl: "b < length s" using assms(1) takeWhile_all [of ?sep s] length_takeWhile_le [of ?sep s] by linarith
  then have hb: "\<not> ?sep (s ! b)" unfolding b by (rule nth_length_takeWhile)
  have "n < b \<Longrightarrow> s ! n \<in> set (takeWhile ?sep s)" unfolding b by (metis nth_mem takeWhile_nth)
  then have bn: "b \<le> n" using n(3) by (metis not_le set_takeWhileD)
  show "b < e" "e \<le> length s" using bn e n(2) by simp_all
  let ?t = "take (e - b) (drop b s)"
  have "drop b s = ?t @ drop (e - b) (drop b s)" by (simp only: append_take_drop_id)
  also have "drop (e - b) (drop b s) = drop e s" using \<open>b < e\<close> by simp
  finally have "s = take b s @ ?t @ drop e s" using append_take_drop_id [of b s] by simp
  moreover have "take b s = takeWhile ?sep s" unfolding b by (rule takeWhile_eq_take [symmetric])
  then have "set (take b s) \<subseteq> set seps" by (auto dest: set_takeWhileD)
  moreover have "set (drop e s) \<subseteq> set seps" using n(4) e by auto
  moreover have "hd ?t = s ! b" using \<open>b < e\<close> bl by (simp add: hd_drop_conv_nth)
  moreover have "length ?t = e - b" using \<open>e \<le> length s\<close> by simp
  then have "last ?t = s ! n" using \<open>b < e\<close> e bn n(2) by (subst last_conv_nth) auto
  ultimately show "?t = trimmed s" using trimmed_split [of s "take b s" ?t "drop e s"] hb n(3) by simp
qed

lemma trim_ok:
  assumes m: "mist_holds ms s"
  shows "\<exists>ms'. mist_string_trim ms = Some ms' \<and> mist_holds ms' (trimmed s) \<and> bsize ms' = bsize ms"
proof -
  note M = mist_holdsD [OF m]
  let ?b = "mist_find_in_range_first_not_of s seps" and ?l = "mist_find_in_range_last_not_of s seps"
  show ?thesis
  proof (cases "\<forall>c\<in>set s. c \<in> set seps")
    case True
    then have t: "trimmed s = []" using trimmed_split [of s s "[]" "[]"] by auto
    have "?b = length s" using True takeWhile_all [of "\<lambda>c. c \<in> set seps" s] by (simp add: first_not_of_eq)
    then show ?thesis using cut_ok [OF m, of 0 0] m t M(5,6)
      by (cases s) (auto simp: mist_string_trim_def M(1,2) mist_holds_def)
  next
    case False
    note R = trim_range [OF False]
    then have s: "s \<noteq> []" "?b \<noteq> length s" "?l \<noteq> length s" by auto
    obtain b' where b': "store (buf ms) (str ms + (?l + 1)) [NUL] = Some b'" "length b' = length (buf ms)"
      "cstr (drop (str ms + ?b) b') = Some (trimmed s)"
      using cut_ok [OF m less_imp_le [OF R(1)] R(2)] R(3) by auto
    have a: "str ms + (?l + 1) < bsize ms" using R(2) M(4) by linarith
    show ?thesis using s b' a R(1) M(5,6)
      by (simp add: mist_string_trim_def M(1,2) Let_def mist_holds_def)
  qed
qed

subsection \<open>Resetting and detaching\<close>

lemma reset_ok:
  assumes "mist_holds ms s"
  shows "\<exists>ms'. mist_string_reset ms = Some ms' \<and> mist_holds ms' [] \<and> str ms' = 0 \<and> bsize ms' = bsize ms"
  using mist_holdsD [OF assms] by (auto simp: mist_string_reset_def store_def mist_holds_def)

lemma detach_ok:
  assumes m: "mist_holds ms s"
  shows "\<exists>b. mist_string_detach ms h = Some (b, mfree h) \<and> cstr b = Some s \<and> length b = length (buf ms)"
proof -
  note M = mist_holdsD [OF m]
  have v: "cstr (drop (str ms) (buf ms)) = Some s" using m by (simp add: mist_holds_def)
  show ?thesis using v M(1,4,5) cstr_append [OF v] by (auto simp: mist_string_detach_def)
qed

subsection \<open>Names\<close>

definition name_code :: "nat \<Rightarrow> bool" where
  "name_code n \<longleftrightarrow> 0x41 \<le> n \<and> n \<le> 0x5A \<or> 0x61 \<le> n \<and> n \<le> 0x7A \<or> 0x30 \<le> n \<and> n \<le> 0x39 \<or>
     n = 0x20 \<or> n = 0x2D \<or> n = 0x2E \<or> n = 0x5F"

definition name_char :: "char \<Rightarrow> bool" where
  "name_char c = name_code (of_char c)"
text \<open>The table against the codes, entry by entry.\<close>

fun ch_table :: "nat \<Rightarrow> nat list \<Rightarrow> bool" where
  "ch_table n [] = True"
| "ch_table n (a # as) = ((a \<noteq> 0) = name_code n \<and> ch_table (n + 1) as)"

lemma ch_table_nth: "ch_table n as \<Longrightarrow> i < length as \<Longrightarrow> (as ! i = 0) = (\<not> name_code (n + i))"
  by (induction n as arbitrary: i rule: ch_table.induct) (auto simp: nth_Cons split: nat.splits)

lemma allowed_table: "ch_table 0 ch_allowed"
  by (simp add: ch_allowed_def name_code_def)

lemma allowed_eq:
  "((of_char c :: nat) \<le> 0x1F \<or> (of_char c :: nat) \<ge> 0x7F \<or> ch_allowed ! of_char c = 0) = (\<not> name_char c)"
proof -
  have "name_code (of_char c) \<Longrightarrow> 0x1F < (of_char c :: nat) \<and> (of_char c :: nat) < 0x7F"
    by (auto simp: name_code_def)
  moreover have "length ch_allowed = 128" by (simp add: ch_allowed_def)
  ultimately show ?thesis using ch_table_nth [OF allowed_table, of "of_char c"]
    by (cases "(of_char c :: nat) < 0x7F") (auto simp: name_char_def)
qed

lemma name_is_bad_eq:
  "mist_name_is_bad name =
     (if name \<noteq> [] \<and> hd name \<noteq> CHR ''.'' \<and> hd name \<noteq> CHR 0x20 \<and> list_all name_char name then 0 else 1)"
proof -
  have "list_ex (\<lambda>c. (of_char c :: nat) \<le> 0x1F \<or> (of_char c :: nat) \<ge> 0x7F \<or> ch_allowed ! of_char c = 0) name =
      (\<not> list_all name_char name)"
    by (simp only: allowed_eq list_all_iff list_ex_iff) blast
  then show ?thesis by (simp add: mist_name_is_bad_def split: list.split)
qed

subsection \<open>Pointers into a text\<close>

lemma count_lines_eq: "count_lines n s mod 2 ^ 32 = (n + count_list s (CHR 0x0A)) mod 2 ^ 32"
proof (induction n s rule: count_lines.induct)
  case (2 n c cs)
  then show ?case by (simp add: mod_simps)
qed simp

text \<open>A character is escaped when it follows a backslash that is not escaped.\<close>

fun escaped :: "char list \<Rightarrow> bool" where
  "escaped [] = False"
| "escaped (c # cs) = (c = CHR 0x5C \<and> \<not> escaped cs)"

lemma count_slashes_odd: "odd (count_slashes n s) \<longleftrightarrow> (odd n \<noteq> escaped s)"
  by (induction n s rule: count_slashes.induct) auto

lemma is_char_escaped_eq: "mist_is_char_escaped front = of_bool (escaped (rev front))"
proof -
  have "count_slashes 0 (rev front) AND 1 = of_bool (escaped (rev front))"
    using count_slashes_odd [of 0 "rev front"] by (simp add: and_one_eq mod_2_eq_odd)
  then show ?thesis by (auto simp: mist_is_char_escaped_def)
qed

lemma spaces_loop_eq:
  "spaces_loop front rest syms = front @ map (\<lambda>c. if c \<in> set syms then CHR 0x20 else c) rest"
proof (induction front rest syms rule: spaces_loop.induct)
  case (1 front rest syms)
  let ?f = "\<lambda>c. if c \<in> set syms then CHR 0x20 else c"
  let ?n = "mist_find_in_range_first_of rest syms"
  have n: "?n = length (takeWhile (\<lambda>c. c \<notin> set syms) rest)" by (rule first_of_eq)
  have t: "map ?f (take ?n rest) = take ?n rest"
    unfolding n takeWhile_eq_take [symmetric] by (rule map_idI) (auto dest: set_takeWhileD)
  show ?case
  proof (cases "?n < length rest")
    case True
    then have "rest ! ?n \<in> set syms" unfolding n using nth_length_takeWhile by blast
    moreover have "rest = take ?n rest @ rest ! ?n # drop (?n + 1) rest" using True id_take_nth_drop by simp
    ultimately have "map ?f rest = take ?n rest @ CHR 0x20 # map ?f (drop (?n + 1) rest)"
      using t by (metis (mono_tags, lifting) list.map(2) map_append)
    then show ?thesis using 1 [OF refl True] True by (subst spaces_loop.simps) (simp add: Let_def)
  next
    case False
    then show ?thesis using t by (subst spaces_loop.simps) (simp add: Let_def)
  qed
qed

lemma chars_to_spaces_eq: "mist_chars_to_spaces rng syms = map (\<lambda>c. if c \<in> set syms then CHR 0x20 else c) rng"
  by (simp add: mist_chars_to_spaces_def spaces_loop_eq)

lemma get_substring_ok:
  assumes "NUL \<notin> set rng"
  shows "\<exists>r h'. mist_get_substring rng h = Some (r, h') \<and>
           (case r of None \<Rightarrow> live h' = live h
            | Some b \<Rightarrow> cstr b = Some rng \<and> length b = length rng + 1 \<and> live h' = live h + 1)"
proof -
  let ?b = "replicate (length rng + 1) (None :: char option)"
  obtain b where b: "store ?b 0 rng = Some b" "written b rng" "length b = length rng + 1"
    using store_written [of ?b "[]" rng] by auto
  obtain b' where b': "store b (length rng) [NUL] = Some b'" "cstr b' = Some rng" "length b' = length rng + 1"
    using store_end [OF b(2) _ assms] b(3) by auto
  obtain ok h1 where m: "malloc h = (ok, h1)" by fastforce
  then have "live h1 = live h + of_bool ok"
    by (auto simp: malloc_def next_outcome_def Let_def split: list.splits)
  then show ?thesis using m b(1) b' assms
    by (cases ok) (simp_all add: mist_get_substring_def strncpy_chars)
qed

end
