(* ===== verification/Mist_Properties.thy ===== *)
theory Mist_Properties
  imports Mist_String_More
begin

text \<open>
  The properties of the strings of the mist template engine.  Each holds whichever allocations
  fail.
\<close>

subsection \<open>A string\<close>

text \<open>The string of seven characters, from offset 1 of a buffer of 16.\<close>

definition ex_text :: "char list" where
  "ex_text = '' a'' @ [CHR 0x5C] @ ''tab ''"

definition ex_ms :: mist_string where
  "ex_ms = \<lparr>str = 1, buf = Some (CHR ''x'') # map Some ex_text @ Some NUL # replicate 7 None, bsize = 16\<rparr>"

definition ex_ms2 :: mist_string where
  "ex_ms2 = \<lparr>str = 0, buf = map Some ''end'' @ [Some NUL], bsize = 4\<rparr>"

definition ex_heap :: "bool list \<Rightarrow> mheap" where
  "ex_heap oks = \<lparr>outcomes = oks, live = 2\<rparr>"

lemma ex_ms_holds: "mist_holds ex_ms ex_text"
  by (simp add: mist_holds_def ex_ms_def ex_text_def)

lemma ex_ms2_holds: "mist_holds ex_ms2 ''end''"
  by (simp add: mist_holds_def ex_ms2_def)

text \<open>C33: Replacing all occurrences of a string never leaves a buffer: it gives the string in which
  the occurrences, found from left to right without overlap, are replaced, or MIST_OUT_OF_MEMORY
  and the string as it was; nothing is leaked.\<close>

theorem mist_replace:
  assumes "mist_holds ms s" and "what \<noteq> []" and "NUL \<notin> set subst"
    and "length (replace_all what subst s) + 1 < 2 ^ 64"
  shows "\<exists>ec ms' h'. mist_string_replace ms what subst h = Some (ec, ms', h') \<and> live h' = live h \<and>
           (ec = MIST_OK \<and> mist_holds ms' (replace_all what subst s) \<or> ec = MIST_OUT_OF_MEMORY \<and> ms' = ms)"
  using assms by (rule replace_ok)

lemma ex_replace_all: "replace_all ''a'' ''<b>'' ex_text = '' <b>'' @ [CHR 0x5C] @ ''t<b>b ''"
  by (simp add: ex_text_def replace_all.simps)

theorem mist_replace_witness:
  "\<exists>ec ms' h'. mist_string_replace ex_ms ''a'' ''<b>'' (ex_heap [True, True]) = Some (ec, ms', h') \<and> live h' = 2 \<and>
     (ec = MIST_OK \<and> mist_holds ms' ('' <b>'' @ [CHR 0x5C] @ ''t<b>b '') \<or> ec = MIST_OUT_OF_MEMORY \<and> ms' = ex_ms)"
  using mist_replace [OF ex_ms_holds, of "''a''" "''<b>''" "ex_heap [True, True]"]
  by (simp add: ex_replace_all ex_heap_def)

text \<open>C34: Unescaping gives the string in which backslash sequences for tabs, newlines, returns
  and backslashes stand for these characters and every other backslash is kept.  When memory
  runs out the string is as it was; but two blocks are leaked when it runs out in growing the
  temporary string.\<close>

theorem mist_unescape:
  assumes "mist_holds ms s"
  shows "\<exists>ec ms' h'. mist_string_unescape ms h = Some (ec, ms', h') \<and>
           (ec = MIST_OK \<and> mist_holds ms' (unescaped s) \<and> live h' = live h \<or>
            ec = MIST_OUT_OF_MEMORY \<and> ms' = ms \<and> (live h' = live h \<or> live h' = live h + 2)) \<and>
           (16 \<le> length s \<and> outcomes h = [True, True] \<longrightarrow> ec = MIST_OUT_OF_MEMORY \<and> live h' = live h + 2)"
proof -
  from unescape_ok [OF assms, of h] obtain ec ms' h' where
    r: "mist_string_unescape ms h = Some (ec, ms', h')"
    "ec = MIST_OK \<and> mist_holds ms' (unescaped s) \<and> live h' = live h \<or>
     ec = MIST_OUT_OF_MEMORY \<and> ms' = ms \<and> (live h' = live h \<or> live h' = live h + 2)" by blast
  have "ec = MIST_OUT_OF_MEMORY \<and> live h' = live h + 2" if "16 \<le> length s" "outcomes h = [True, True]"
  proof -
    have c: "mist_string_create (Some []) h =
        Some (Some \<lparr>str = 0, buf = Some NUL # replicate 15 None, bsize = 16\<rparr>, h\<lparr>outcomes := [], live := live h + 2\<rparr>)"
      using that(2) round_up_size_eq [of 0]
      by (simp add: mist_string_create_def mist_string_create_from_range_def malloc_def next_outcome_def
          Let_def store_def)
    show ?thesis using r(1) that(1) mist_holdsD [OF assms]
      by (auto simp: mist_string_unescape_def c mist_string_reserve_def in_buffer_def realloc_def next_outcome_def)
  qed
  with r show ?thesis by blast
qed

theorem mist_unescape_witness:
  "\<exists>ec ms' h'. mist_string_unescape ex_ms (ex_heap [True, True]) = Some (ec, ms', h') \<and>
     (ec = MIST_OK \<and> mist_holds ms' ('' a'' @ [CHR 0x09] @ ''ab '') \<or> ec = MIST_OUT_OF_MEMORY \<and> ms' = ex_ms)"
  using mist_unescape [OF ex_ms_holds, of "ex_heap [True, True]"] by (fastforce simp: ex_text_def)

text \<open>Trimming never crashes and leaves the string without the spaces, tabs, newlines and
  returns at its ends; the buffer keeps its size.\<close>

theorem mist_trim:
  assumes "mist_holds ms s"
  shows "\<exists>ms'. mist_string_trim ms = Some ms' \<and> bsize ms' = bsize ms \<and>
           mist_holds ms' (rev (dropWhile (\<lambda>c. c \<in> set seps) (rev (dropWhile (\<lambda>c. c \<in> set seps) s))))"
  using trim_ok [OF assms] unfolding trimmed_def by blast

theorem mist_trim_witness:
  "\<exists>ms'. mist_string_trim ex_ms = Some ms' \<and> mist_holds ms' (''a'' @ [CHR 0x5C] @ ''tab'')"
  using mist_trim [OF ex_ms_holds] by (simp add: ex_text_def seps_def) blast

text \<open>C36: The operations that build strings keep them well formed, never crash and do not leak:
  creation from a range holds the range, setting holds the new value, appending a string or a
  range holds the concatenation, the sum of two strings is a new string with their
  concatenation; when memory runs out the arguments are as they were.\<close>

theorem mist_build:
  assumes "mist_holds ms s" and "mist_holds ms2 t" and "NUL \<notin> set r"
    and "str ms + length s + length t + length r + 16 < 2 ^ 64"
  shows "(\<exists>res h'. mist_string_create_from_range r h = Some (res, h') \<and>
            (case res of None \<Rightarrow> live h' = live h | Some m \<Rightarrow> mist_holds m r \<and> live h' = live h + 2)) \<and>
         (\<exists>ec ms' h'. mist_string_set ms r h = Some (ec, ms', h') \<and> live h' = live h \<and>
            (ec = MIST_OK \<and> mist_holds ms' r \<or> ec = MIST_OUT_OF_MEMORY \<and> ms' = ms)) \<and>
         (\<exists>ec ms' h'. mist_string_append ms ms2 h = Some (ec, ms', h') \<and> live h' = live h \<and>
            (ec = MIST_OK \<and> mist_holds ms' (s @ t) \<or> ec = MIST_OUT_OF_MEMORY \<and> ms' = ms)) \<and>
         (\<exists>ec ms' h'. mist_string_append_range ms r h = Some (ec, ms', h') \<and> live h' = live h \<and>
            (ec = MIST_OK \<and> mist_holds ms' (s @ r) \<or> ec = MIST_OUT_OF_MEMORY \<and> ms' = ms)) \<and>
         (\<exists>res h'. mist_string_sum ms ms2 h = Some (res, h') \<and>
            (case res of None \<Rightarrow> live h' = live h | Some m \<Rightarrow> mist_holds m (s @ t) \<and> live h' = live h + 2))"
proof (intro conjI)
  show "\<exists>res h'. mist_string_create_from_range r h = Some (res, h') \<and>
      (case res of None \<Rightarrow> live h' = live h | Some m \<Rightarrow> mist_holds m r \<and> live h' = live h + 2)"
    using create_range_ok [OF assms(3), of h] assms(4) by (auto split: option.splits)
  show "\<exists>ec ms' h'. mist_string_set ms r h = Some (ec, ms', h') \<and> live h' = live h \<and>
      (ec = MIST_OK \<and> mist_holds ms' r \<or> ec = MIST_OUT_OF_MEMORY \<and> ms' = ms)"
    using set_ok [OF assms(1,3), of h] assms(4) by auto
  show "\<exists>ec ms' h'. mist_string_append ms ms2 h = Some (ec, ms', h') \<and> live h' = live h \<and>
      (ec = MIST_OK \<and> mist_holds ms' (s @ t) \<or> ec = MIST_OUT_OF_MEMORY \<and> ms' = ms)"
    using append_ok [OF assms(1,2), of h] assms(4) by auto
  show "\<exists>ec ms' h'. mist_string_append_range ms r h = Some (ec, ms', h') \<and> live h' = live h \<and>
      (ec = MIST_OK \<and> mist_holds ms' (s @ r) \<or> ec = MIST_OUT_OF_MEMORY \<and> ms' = ms)"
    using append_range_ok [OF assms(1,3), of h] assms(4) by auto
  show "\<exists>res h'. mist_string_sum ms ms2 h = Some (res, h') \<and>
      (case res of None \<Rightarrow> live h' = live h | Some m \<Rightarrow> mist_holds m (s @ t) \<and> live h' = live h + 2)"
    using sum_ok [OF assms(1,2), of h] assms(4) by auto
qed

theorem mist_build_witness:
  "\<exists>ec ms' h'. mist_string_append ex_ms ex_ms2 (ex_heap [False]) = Some (ec, ms', h') \<and> live h' = 2 \<and>
     (ec = MIST_OK \<and> mist_holds ms' (ex_text @ ''end'') \<or> ec = MIST_OUT_OF_MEMORY \<and> ms' = ex_ms)"
proof -
  have "str ex_ms + length ex_text + length (''end'') + length (''abc'') + 16 < 2 ^ 64"
    by (simp add: ex_ms_def ex_text_def)
  from mist_build [OF ex_ms_holds ex_ms2_holds _ this, of "ex_heap [False]"] show ?thesis
    by (simp add: ex_heap_def)
qed

text \<open>The size of a new buffer is the smallest multiple of 16 with room for the string and
  its terminator, and reserving never shrinks a buffer, keeps the characters in place and gives
  room for the requested number of characters and a terminator.\<close>

theorem mist_buffer_bounds:
  assumes "mist_holds ms s" and "n + 16 < 2 ^ 64"
  shows "n < round_up_size n \<and> round_up_size n \<le> n + 16 \<and> 16 dvd round_up_size n \<and>
         (\<exists>ec ms' h'. mist_string_reserve ms n h = Some (ec, ms', h') \<and> mist_holds ms' s \<and> str ms' = str ms \<and>
            (\<exists>x. buf ms' = buf ms @ x) \<and> live h' = live h \<and>
            (ec = MIST_OK \<and> n < bsize ms' \<or> ec = MIST_OUT_OF_MEMORY \<and> ms' = ms))"
proof -
  have r: "round_up_size n = 16 * ((n + 16) div 16)" using assms(2) by (rule round_up_size_eq)
  have "n < 16 * ((n + 16) div 16)" "16 * ((n + 16) div 16) \<le> n + 16" by simp_all
  then show ?thesis using reserve_ok [OF assms(1), of n h] assms(2) unfolding r by auto
qed

theorem mist_buffer_bounds_witness:
  "\<exists>ec ms' h'. mist_string_reserve ex_ms 30 (ex_heap [True]) = Some (ec, ms', h') \<and> mist_holds ms' ex_text \<and> str ms' = 1"
  using mist_buffer_bounds [OF ex_ms_holds, of 30 "ex_heap [True]"] by (auto simp: ex_ms_def)

text \<open>A name is good exactly when it is not empty, begins with neither a dot nor a space and
  consists of latin letters, digits, spaces, hyphens, dots and underscores, as the header
  documents with the codes of these characters.\<close>

theorem mist_name_check:
  "mist_name_is_bad name =
     (if name \<noteq> [] \<and> hd name \<noteq> CHR ''.'' \<and> hd name \<noteq> CHR '' '' \<and>
         list_all (\<lambda>c. let n = of_char c :: nat in
            0x41 \<le> n \<and> n \<le> 0x5A \<or> 0x61 \<le> n \<and> n \<le> 0x7A \<or> 0x30 \<le> n \<and> n \<le> 0x39 \<or>
            n = 0x20 \<or> n = 0x2D \<or> n = 0x2E \<or> n = 0x5F) name then 0 else 1)"
  by (simp add: name_is_bad_eq name_char_def [abs_def] name_code_def Let_def)

text \<open>A character is escaped when there is a backslash before it that is not escaped itself:
  counting the backslashes in front of the character decides this.\<close>

theorem mist_escaped:
  "mist_is_char_escaped front = of_bool (escaped (rev front))"
  by (rule is_char_escaped_eq)

end
