(* ===== verification/Grar.thy ===== *)
theory Grar
  imports C_String "HOL-Library.Multiset"
begin

text \<open>
  Model of src/sources/tools/kedr_gen/src/mist_engine/src/grar.c: growing arrays of pointers.
  A pointer is None (NULL) or the object it points to; a slot that was never written is None.
  The functions are None where the C code does not return or leaves its memory.
\<close>

type_synonym 'a TGAElem = "'a option"

record 'a CGrowingArray =
  gdata :: "'a TGAElem option list option"
  gsize :: nat
  capacity :: nat

definition GRAR_DEFAULT_CAPACITY :: nat where
  "GRAR_DEFAULT_CAPACITY = 16"

definition GRAR_CAP_INC_FACTOR :: nat where
  "GRAR_CAP_INC_FACTOR = 2"

definition grar_get_element :: "'a CGrowingArray \<Rightarrow> nat \<Rightarrow> 'a TGAElem option" where
  "grar_get_element g i =
     (case gdata g of None \<Rightarrow> None | Some d \<Rightarrow> if i < length d then d ! i else None)"

definition grar_set_element :: "'a CGrowingArray \<Rightarrow> nat \<Rightarrow> 'a TGAElem \<Rightarrow> 'a CGrowingArray option" where
  "grar_set_element g i e =
     (case gdata g of
        None \<Rightarrow> None
      | Some d \<Rightarrow> if i < length d then Some (g\<lparr>gdata := Some (d[i := Some e])\<rparr>) else None)"

text \<open>The elements from the first on.\<close>

fun elements_from :: "'a CGrowingArray \<Rightarrow> nat \<Rightarrow> nat \<Rightarrow> 'a TGAElem list option" where
  "elements_from g i 0 = Some []"
| "elements_from g i (Suc n) = do { e \<leftarrow> grar_get_element g i;
                                    es \<leftarrow> elements_from g (Suc i) n;
                                    Some (e # es) }"

definition grar_elements :: "'a CGrowingArray \<Rightarrow> 'a TGAElem list option" where
  "grar_elements g = elements_from g 0 (gsize g)"

subsection \<open>Creating and growing\<close>

definition grar_create :: "mheap \<Rightarrow> 'a CGrowingArray option \<times> mheap" where
  "grar_create h =
     (case malloc h of
        (False, h) \<Rightarrow> (None, h)
      | (True, h) \<Rightarrow>
          (Some \<lparr>gdata = Some (replicate GRAR_DEFAULT_CAPACITY None), gsize = 0,
                 capacity = GRAR_DEFAULT_CAPACITY\<rparr>, h))"

text \<open>The loop that computes the new capacity need not end.\<close>

partial_function (option) grow_capacity :: "nat \<Rightarrow> nat \<Rightarrow> nat option" where
  "grow_capacity cap new_min_capacity =
     (let cap = size_wrap (cap * GRAR_CAP_INC_FACTOR)
      in if cap < new_min_capacity then grow_capacity cap new_min_capacity else Some cap)"

text \<open>
  The size of the new block is computed in size_t; what realloc does for the size 0 depends on
  the implementation.
\<close>

definition realloc_elems ::
  "'a TGAElem option list option \<Rightarrow> nat \<Rightarrow> mheap \<Rightarrow> ('a TGAElem option list option \<times> mheap) option" where
  "realloc_elems d cap h =
     (let n = size_wrap (cap * 8) div 8; old = (case d of None \<Rightarrow> [] | Some xs \<Rightarrow> xs)
      in if n = 0 then None
         else case (if d = None then malloc h else realloc h) of
                (False, h) \<Rightarrow> Some (None, h)
              | (True, h) \<Rightarrow> Some (Some (take n old @ replicate (n - length old) None), h))"

definition grar_reserve ::
  "'a CGrowingArray \<Rightarrow> nat \<Rightarrow> mheap \<Rightarrow> (bool \<times> 'a CGrowingArray \<times> mheap) option" where
  "grar_reserve g new_min_capacity h =
     (if capacity g \<ge> new_min_capacity then Some (True, g, h)
      else do { cap \<leftarrow> grow_capacity (capacity g) new_min_capacity;
                (d, h) \<leftarrow> realloc_elems (gdata g) cap h;
                (case d of
                   None \<Rightarrow> Some (False, g, h)
                 | Some d \<Rightarrow> Some (True, g\<lparr>capacity := cap, gdata := Some d\<rparr>, h)) })"

definition grar_add_element ::
  "'a CGrowingArray \<Rightarrow> 'a TGAElem \<Rightarrow> mheap \<Rightarrow> (bool \<times> 'a CGrowingArray \<times> mheap) option" where
  "grar_add_element g e h =
     do { (res, g, h) \<leftarrow> grar_reserve g (size_wrap (gsize g + 1)) h;
          if \<not> res then Some (False, g, h)
          else do { g \<leftarrow> grar_set_element g (gsize g) e;
                    Some (True, g\<lparr>gsize := gsize g + 1\<rparr>, h) } }"

fun store_elems :: "'a CGrowingArray \<Rightarrow> nat \<Rightarrow> 'a TGAElem list \<Rightarrow> 'a CGrowingArray option" where
  "store_elems g i [] = Some g"
| "store_elems g i (e # es) = do { g \<leftarrow> grar_set_element g i e; store_elems g (Suc i) es }"

definition grar_append_array ::
  "'a CGrowingArray \<Rightarrow> 'a CGrowingArray \<Rightarrow> mheap \<Rightarrow> (bool \<times> 'a CGrowingArray \<times> mheap) option" where
  "grar_append_array g src h =
     do { let req_cap = size_wrap (gsize g + gsize src);
          (res, g, h) \<leftarrow> grar_reserve g req_cap h;
          if \<not> res then Some (False, g, h)
          else do { es \<leftarrow> grar_elements src;
                    g \<leftarrow> store_elems g (gsize g) es;
                    Some (True, g\<lparr>gsize := gsize g + gsize src\<rparr>, h) } }"

subsection \<open>Destroying and clearing\<close>

definition grar_destroy :: "'a CGrowingArray \<Rightarrow> mheap \<Rightarrow> 'a CGrowingArray \<times> mheap" where
  "grar_destroy g h =
     (g\<lparr>gdata := None, gsize := 0, capacity := 0\<rparr>, if gdata g = None then h else mfree h)"

fun destroy_elems :: "('a TGAElem \<Rightarrow> mheap \<Rightarrow> mheap option) \<Rightarrow> 'a TGAElem list \<Rightarrow> mheap \<Rightarrow> mheap option" where
  "destroy_elems dtor [] h = Some h"
| "destroy_elems dtor (e # es) h = do { h \<leftarrow> dtor e h; destroy_elems dtor es h }"

definition free_elem :: "'a TGAElem \<Rightarrow> mheap \<Rightarrow> mheap option" where
  "free_elem e h = Some (if e = None then h else mfree h)"

definition grar_destroy_with_elements ::
  "'a CGrowingArray \<Rightarrow> ('a TGAElem \<Rightarrow> mheap \<Rightarrow> mheap option) option \<Rightarrow> mheap \<Rightarrow> ('a CGrowingArray \<times> mheap) option" where
  "grar_destroy_with_elements g dtor h =
     do { es \<leftarrow> grar_elements g;
          h \<leftarrow> destroy_elems (case dtor of None \<Rightarrow> free_elem | Some f \<Rightarrow> f) es h;
          Some (grar_destroy g h) }"

definition grar_clear :: "'a CGrowingArray \<Rightarrow> 'a CGrowingArray option" where
  "grar_clear g = (if gdata g = None then None else Some (g\<lparr>gsize := 0\<rparr>))"

definition grar_swap :: "'a CGrowingArray \<Rightarrow> 'a CGrowingArray \<Rightarrow> 'a CGrowingArray \<times> 'a CGrowingArray" where
  "grar_swap lhs rhs =
     (lhs\<lparr>gdata := gdata rhs, gsize := gsize rhs, capacity := capacity rhs\<rparr>,
      rhs\<lparr>gdata := gdata lhs, gsize := gsize lhs, capacity := capacity lhs\<rparr>)"

end
