(* ===== verification/Grar_Sort.thy ===== *)
theory Grar_Sort
  imports Grar
begin

text \<open>
  Sorting and searching of growing arrays.  qsort and bsearch are any functions with the
  behaviour the C library documents.  A comparator of qsort is given the addresses of two
  slots, so it sees an index beside each element; qsort promises something only for comparators
  whose decision does not depend on these indices.
\<close>

definition consistent :: "('a \<Rightarrow> 'a \<Rightarrow> int) \<Rightarrow> 'a set \<Rightarrow> bool" where
  "consistent cf A \<longleftrightarrow>
     (\<forall>x\<in>A. \<forall>y\<in>A. sgn (cf y x) = - sgn (cf x y)) \<and>
     (\<forall>x\<in>A. \<forall>y\<in>A. \<forall>z\<in>A. cf x y \<le> 0 \<longrightarrow> cf y z \<le> 0 \<longrightarrow> cf x z \<le> 0)"

text \<open>
  A comparator on slots that decides as cf does, in whatever slots the two elements are.  Of an
  element and itself this is not asked in a list where no element is twice: there they are the
  same slot.
\<close>

definition decides :: "(nat \<times> 'a \<Rightarrow> nat \<times> 'a \<Rightarrow> int) \<Rightarrow> ('a \<Rightarrow> 'a \<Rightarrow> int) \<Rightarrow> 'a list \<Rightarrow> bool" where
  "decides scf cf xs \<longleftrightarrow>
     (\<forall>x\<in>set xs. \<forall>y\<in>set xs. \<forall>i j. x \<noteq> y \<or> \<not> distinct xs \<longrightarrow> sgn (scf (i, x) (j, y)) = sgn (cf x y))"

lemma decides_differ:
  assumes "consistent cf (set xs)" and "decides scf cf xs" and "x \<in> set xs" and "y \<in> set xs" and "cf x y \<noteq> 0"
  shows "sgn (scf (i, x) (j, y)) = sgn (cf x y)"
proof -
  have "sgn (cf x x) = - sgn (cf x x)" using assms(1,3) unfolding consistent_def by blast
  then have "cf x x = 0" by (simp add: sgn_if split: if_splits)
  then have "x \<noteq> y" using assms(5) by blast
  then show ?thesis using assms(2-4) unfolding decides_def by blast
qed

fun insert_cf :: "(nat \<times> 'a \<Rightarrow> nat \<times> 'a \<Rightarrow> int) \<Rightarrow> 'a \<Rightarrow> 'a list \<Rightarrow> 'a list" where
  "insert_cf scf x [] = [x]"
| "insert_cf scf x (y # ys) = (if scf (0, x) (1, y) \<le> 0 then x # y # ys else y # insert_cf scf x ys)"

lemma insert_cf_mset [simp]: "mset (insert_cf scf x ys) = add_mset x (mset ys)"
  by (induction ys) auto

lemma insert_cf_set [simp]: "set (insert_cf scf x ys) = insert x (set ys)"
  by (induction ys) auto

lemma insert_cf_sorted:
  assumes "consistent cf A" and "\<And>x y. x \<in> A \<Longrightarrow> y \<in> A \<Longrightarrow> cf x y \<noteq> 0 \<Longrightarrow> sgn (scf (0, x) (1, y)) = sgn (cf x y)"
    and "x \<in> A" and "set ys \<subseteq> A" and "sorted_wrt (\<lambda>x y. cf x y \<le> 0) ys"
  shows "sorted_wrt (\<lambda>x y. cf x y \<le> 0) (insert_cf scf x ys)"
  using assms(4,5)
proof (induction ys)
  case (Cons y ys)
  have tr: "cf a b \<le> 0 \<Longrightarrow> cf b c \<le> 0 \<Longrightarrow> cf a c \<le> 0" if "a \<in> A" "b \<in> A" "c \<in> A" for a b c
    using assms(1) that unfolding consistent_def by blast
  have y: "y \<in> A" and ys: "\<And>z. z \<in> set ys \<Longrightarrow> z \<in> A" using Cons.prems(1) by auto
  have d: "cf x y \<noteq> 0 \<Longrightarrow> sgn (scf (0, x) (1, y)) = sgn (cf x y)"
    using assms(2,3) y by blast
  have s: "sgn (cf y x) = - sgn (cf x y)" using assms(1,3) y unfolding consistent_def by blast
  show ?case
  proof (cases "scf (0, x) (1, y) \<le> 0")
    case True
    then have "cf x y \<le> 0" using d by (cases "cf x y" "0::int" rule: linorder_cases) (auto simp: sgn_if split: if_splits)
    moreover from this have "cf x z \<le> 0" if "z \<in> set ys" for z
      using tr [OF assms(3) y ys [OF that]] Cons.prems(2) that by simp
    ultimately show ?thesis using True Cons.prems(2) by simp
  next
    case False
    then have "cf y x \<le> 0" using d s by (cases "cf x y" "0::int" rule: linorder_cases) (auto simp: sgn_if split: if_splits)
    then show ?thesis using False Cons by auto
  qed
qed simp

definition sorts :: "((nat \<times> 'a \<Rightarrow> nat \<times> 'a \<Rightarrow> int) \<Rightarrow> 'a list \<Rightarrow> 'a list) \<Rightarrow> bool" where
  "sorts f \<longleftrightarrow> (\<forall>scf cf xs. consistent cf (set xs) \<longrightarrow> decides scf cf xs \<longrightarrow>
     mset (f scf xs) = mset xs \<and> sorted_wrt (\<lambda>x y. cf x y \<le> 0) (f scf xs))"

lemma insertion_sorts: "sorts (\<lambda>scf xs. foldr (insert_cf scf) xs [])"
  unfolding sorts_def
proof (intro allI impI conjI)
  fix scf :: "nat \<times> 'a \<Rightarrow> nat \<times> 'a \<Rightarrow> int" and cf :: "'a \<Rightarrow> 'a \<Rightarrow> int" and xs
  have m: "set (foldr (insert_cf scf) ys []) = set ys" "mset (foldr (insert_cf scf) ys []) = mset ys" for ys
    by (induction ys) auto
  then show "mset (foldr (insert_cf scf) xs []) = mset xs" by simp
  assume c: "consistent cf (set xs)" "decides scf cf xs"
  have "set ys \<subseteq> set xs \<Longrightarrow> sorted_wrt (\<lambda>x y. cf x y \<le> 0) (foldr (insert_cf scf) ys [])" for ys
    by (induction ys) (auto intro!: insert_cf_sorted [OF c(1) decides_differ [OF c]] simp: m)
  then show "sorted_wrt (\<lambda>x y. cf x y \<le> 0) (foldr (insert_cf scf) xs [])" by simp
qed

typedef 'a qsorter = "{f :: (nat \<times> 'a \<Rightarrow> nat \<times> 'a \<Rightarrow> int) \<Rightarrow> 'a list \<Rightarrow> 'a list. sorts f}"
  morphisms qsort Abs_qsorter
  using insertion_sorts by blast

setup_lifting type_definition_qsorter

lift_definition insertion_qsort :: "'a qsorter" is "\<lambda>scf xs. foldr (insert_cf scf) xs []"
  by (rule insertion_sorts)

lemma qsort_sorts:
  assumes "consistent cf (set xs)" and "decides scf cf xs"
  shows "mset (qsort qs scf xs) = mset xs" and "sorted_wrt (\<lambda>x y. cf x y \<le> 0) (qsort qs scf xs)"
  using qsort [of qs] assms unfolding sorts_def by blast+

text \<open>
  bsearch is given the comparison with the key.  The elements it may look at are in the order
  less, equal, greater.
\<close>

definition searches :: "(('a \<Rightarrow> int) \<Rightarrow> 'a list \<Rightarrow> nat option) \<Rightarrow> bool" where
  "searches f \<longleftrightarrow> (\<forall>cf xs. sorted_wrt (\<lambda>x y. sgn (cf y) \<le> sgn (cf x)) xs \<longrightarrow>
     (case f cf xs of None \<Rightarrow> \<forall>x\<in>set xs. cf x \<noteq> 0 | Some i \<Rightarrow> i < length xs \<and> cf (xs ! i) = 0))"

fun linear_search :: "('a \<Rightarrow> int) \<Rightarrow> 'a list \<Rightarrow> nat option" where
  "linear_search cf [] = None"
| "linear_search cf (x # xs) = (if cf x = 0 then Some 0 else map_option Suc (linear_search cf xs))"

lemma linear_searches: "searches linear_search"
proof -
  have "case linear_search cf xs of None \<Rightarrow> \<forall>x\<in>set xs. cf x \<noteq> 0 | Some i \<Rightarrow> i < length xs \<and> cf (xs ! i) = 0"
    for cf and xs :: "'a list"
    by (induction xs) (auto split: option.splits)
  then show ?thesis by (simp add: searches_def)
qed

typedef 'a bsearcher = "{f :: ('a \<Rightarrow> int) \<Rightarrow> 'a list \<Rightarrow> nat option. searches f}"
  morphisms bsearch Abs_bsearcher
  using linear_searches by blast

setup_lifting type_definition_bsearcher

lift_definition linear_bsearch :: "'a bsearcher" is linear_search
  by (rule linear_searches)

lemma bsearch_cases:
  assumes "sorted_wrt (\<lambda>x y. sgn (cf y) \<le> sgn (cf x)) xs"
  obtains "bsearch bs cf xs = None" "\<And>x. x \<in> set xs \<Longrightarrow> cf x \<noteq> 0"
  | i where "bsearch bs cf xs = Some i" "i < length xs" "cf (xs ! i) = 0"
  using bsearch [of bs] assms unfolding searches_def by (fastforce split: option.splits)

subsection \<open>The functions of grar.c\<close>

text \<open>
  All comparators of the program assert that the elements they are given are not NULL; here
  the elements are looked at before the call.
\<close>

definition grar_sort ::
  "'a qsorter \<Rightarrow> 'a CGrowingArray \<Rightarrow> (nat \<times> 'a \<Rightarrow> nat \<times> 'a \<Rightarrow> int) \<Rightarrow> 'a CGrowingArray option" where
  "grar_sort qs g scf =
     do { es \<leftarrow> grar_elements g;
          xs \<leftarrow> those es;
          store_elems g 0 (map Some (qsort qs scf xs)) }"

text \<open>The index is converted to int.\<close>

definition grar_find ::
  "'a bsearcher \<Rightarrow> 'a CGrowingArray \<Rightarrow> 'k \<Rightarrow> ('k \<Rightarrow> 'a \<Rightarrow> int) \<Rightarrow> int option" where
  "grar_find bs g key cf =
     do { es \<leftarrow> grar_elements g;
          xs \<leftarrow> those es;
          (case bsearch bs (cf key) xs of
             None \<Rightarrow> Some (- 1)
           | Some p \<Rightarrow> (let index = signed_take_bit 31 (int p)
                        in if index \<ge> 0 \<and> index < signed_take_bit 31 (int (gsize g))
                           then Some index else None)) }"

definition grar_string_compare :: "char list \<Rightarrow> char list \<Rightarrow> int" where
  "grar_string_compare s t = (if s = t then 0 else strcmp s t)"

definition grar_string_sort :: "char list qsorter \<Rightarrow> char list CGrowingArray \<Rightarrow> char list CGrowingArray option" where
  "grar_string_sort qs g = grar_sort qs g (\<lambda>(i, s) (j, t). grar_string_compare s t)"

definition grar_string_find :: "char list bsearcher \<Rightarrow> char list CGrowingArray \<Rightarrow> char list \<Rightarrow> int option" where
  "grar_string_find bs g skey = grar_find bs g skey grar_string_compare"

fun total_length :: "char list TGAElem list \<Rightarrow> nat \<Rightarrow> nat option" where
  "total_length [] len = Some len"
| "total_length (None # es) len = None"
| "total_length (Some s # es) len = total_length es (size_wrap (len + length s))"

definition grar_string_total_length :: "char list CGrowingArray \<Rightarrow> nat option" where
  "grar_string_total_length g = do { es \<leftarrow> grar_elements g; total_length es 0 }"

end
