(* ===== verification/Smap.thy ===== *)
theory Smap
  imports Grar_Sort
begin

text \<open>
  Model of src/sources/tools/kedr_gen/src/mist_engine/src/smap.c: string maps, arrays of pairs
  that are sorted when they are searched.  A pair owns three blocks: itself, its key and its
  value.  The functions are None where an assertion fails or the code leaves its memory.
\<close>

record TStringPair =
  pkey :: "char list"
  pval :: "char list"

record CStringMap =
  container :: "TStringPair CGrowingArray"
  smap_sorted :: bool

text \<open>Equal pointers have equal keys, and then strcmp gives 0 too.\<close>

definition string_pair_compare :: "TStringPair \<Rightarrow> TStringPair \<Rightarrow> int" where
  "string_pair_compare lhs rhs = (if pkey lhs = pkey rhs then 0 else strcmp (pkey lhs) (pkey rhs))"

text \<open>The comparator for sorting looks at the addresses of the slots when the keys are equal.\<close>

definition string_pair_compare_sort :: "nat \<times> TStringPair \<Rightarrow> nat \<times> TStringPair \<Rightarrow> int" where
  "string_pair_compare_sort lhs rhs =
     (let res = string_pair_compare (snd lhs) (snd rhs)
      in if res = 0
         then (if fst lhs = fst rhs then 0 else if fst lhs < fst rhs then - 1 else 1)
         else res)"

definition string_pair_dtor :: "TStringPair TGAElem \<Rightarrow> mheap \<Rightarrow> mheap option" where
  "string_pair_dtor doomed h =
     (case doomed of None \<Rightarrow> None | Some sp \<Rightarrow> Some (mfree (mfree (mfree h))))"

subsection \<open>Creating and destroying\<close>

definition smap_create :: "mheap \<Rightarrow> CStringMap option \<times> mheap" where
  "smap_create h =
     (case malloc h of
        (False, h) \<Rightarrow> (None, h)
      | (True, h) \<Rightarrow> (case grar_create h of
                         (None, h) \<Rightarrow> (None, mfree h)
                       | (Some g, h) \<Rightarrow> (Some \<lparr>container = g, smap_sorted = False\<rparr>, h)))"

definition smap_destroy :: "CStringMap \<Rightarrow> mheap \<Rightarrow> mheap option" where
  "smap_destroy smap h =
     do { (g, h) \<leftarrow> grar_destroy_with_elements (container smap) (Some string_pair_dtor) h;
          Some (mfree h) }"

definition smap_clear :: "CStringMap \<Rightarrow> mheap \<Rightarrow> (CStringMap \<times> mheap) option" where
  "smap_clear smap h =
     do { es \<leftarrow> grar_elements (container smap);
          h \<leftarrow> destroy_elems string_pair_dtor es h;
          g \<leftarrow> grar_clear (container smap);
          Some (smap\<lparr>container := g, smap_sorted := False\<rparr>, h) }"

definition smap_get_size :: "CStringMap \<Rightarrow> nat" where
  "smap_get_size smap = gsize (container smap)"

definition smap_as_array :: "CStringMap \<Rightarrow> TStringPair TGAElem option list option" where
  "smap_as_array smap = gdata (container smap)"

subsection \<open>Adding, searching and setting\<close>

definition smap_add_element ::
  "CStringMap \<Rightarrow> char list \<Rightarrow> char list \<Rightarrow> mheap \<Rightarrow> (bool \<times> CStringMap \<times> mheap) option" where
  "smap_add_element smap k v h =
     (case malloc h of
        (False, h) \<Rightarrow> Some (False, smap, h)
      | (True, h) \<Rightarrow>
          (case malloc h of
             (False, h) \<Rightarrow> Some (False, smap, mfree h)
           | (True, h) \<Rightarrow>
               (case malloc h of
                  (False, h) \<Rightarrow> Some (False, smap, mfree (mfree h))
                | (True, h) \<Rightarrow>
                    do { let sp = Some \<lparr>pkey = k, pval = v\<rparr>;
                         (res, g, h) \<leftarrow> grar_add_element (container smap) sp h;
                         if \<not> res
                         then do { h \<leftarrow> string_pair_dtor sp h; Some (False, smap\<lparr>container := g\<rparr>, h) }
                         else Some (True, smap\<lparr>container := g, smap_sorted := False\<rparr>, h) })))"

text \<open>All the functions that need the order sort the array first unless it is sorted.\<close>

definition smap_sort :: "TStringPair qsorter \<Rightarrow> CStringMap \<Rightarrow> CStringMap option" where
  "smap_sort qs smap =
     (if \<not> smap_sorted smap
      then do { g \<leftarrow> grar_sort qs (container smap) string_pair_compare_sort;
                Some (smap\<lparr>container := g, smap_sorted := True\<rparr>) }
      else Some smap)"

text \<open>The comparator uses the key of key_pair only; its value is NULL.\<close>

definition smap_bsearch ::
  "TStringPair bsearcher \<Rightarrow> CStringMap \<Rightarrow> char list \<Rightarrow> nat option option" where
  "smap_bsearch bs smap k =
     do { es \<leftarrow> grar_elements (container smap);
          ps \<leftarrow> those es;
          Some (bsearch bs (string_pair_compare \<lparr>pkey = k, pval = []\<rparr>) ps) }"

definition smap_lookup ::
  "TStringPair qsorter \<Rightarrow> TStringPair bsearcher \<Rightarrow> CStringMap \<Rightarrow> char list \<Rightarrow>
   (char list option \<times> CStringMap) option" where
  "smap_lookup qs bs smap k =
     do { smap \<leftarrow> smap_sort qs smap;
          p \<leftarrow> smap_bsearch bs smap k;
          (case p of
             None \<Rightarrow> Some (None, smap)
           | Some i \<Rightarrow> do { e \<leftarrow> grar_get_element (container smap) i;
                            sp \<leftarrow> e;
                            Some (Some (pval sp), smap) }) }"

fun first_duplicate :: "TStringPair list \<Rightarrow> char list option" where
  "first_duplicate (x # y # ys) =
     (if strcmp (pkey y) (pkey x) = 0 then Some (pkey y) else first_duplicate (y # ys))"
| "first_duplicate _ = None"

definition smap_check_duplicate_keys ::
  "TStringPair qsorter \<Rightarrow> CStringMap \<Rightarrow> (char list option \<times> CStringMap) option" where
  "smap_check_duplicate_keys qs smap =
     do { smap \<leftarrow> smap_sort qs smap;
          es \<leftarrow> grar_elements (container smap);
          ps \<leftarrow> those es;
          Some (first_duplicate ps, smap) }"

definition smap_set_value ::
  "TStringPair qsorter \<Rightarrow> TStringPair bsearcher \<Rightarrow> CStringMap \<Rightarrow> char list \<Rightarrow> char list \<Rightarrow> mheap \<Rightarrow>
   (bool \<times> CStringMap \<times> mheap) option" where
  "smap_set_value qs bs smap k v h =
     do { smap \<leftarrow> smap_sort qs smap;
          (case malloc h of
             (False, h) \<Rightarrow> Some (False, smap, h)
           | (True, h) \<Rightarrow>
               do { p \<leftarrow> smap_bsearch bs smap k;
                    let h = mfree h;
                    (case p of
                       None \<Rightarrow> smap_add_element smap k v h
                     | Some i \<Rightarrow>
                         do { e \<leftarrow> grar_get_element (container smap) i;
                              sp \<leftarrow> e;
                              if strcmp (pkey sp) k \<noteq> 0 then None
                              else (case malloc h of
                                      (False, h) \<Rightarrow> Some (False, smap, h)
                                    | (True, h) \<Rightarrow>
                                        do { g \<leftarrow> grar_set_element (container smap) i (Some (sp\<lparr>pval := v\<rparr>));
                                             Some (True, smap\<lparr>container := g\<rparr>, mfree h) }) }) }) }"

subsection \<open>Updating one map with another\<close>

text \<open>
  The arrays and the positions i and k of smap_update.  A slot whose element has been moved
  away or destroyed is set to NULL.
\<close>

record merge_state =
  ga_old :: "TStringPair CGrowingArray"
  ga_upd :: "TStringPair CGrowingArray"
  ga_res :: "TStringPair CGrowingArray"
  old_pos :: nat
  upd_pos :: nat

type_synonym merge_result = "(bool \<times> merge_state \<times> mheap) option"

definition compare_slots :: "TStringPair TGAElem option \<Rightarrow> TStringPair TGAElem option \<Rightarrow> int option" where
  "compare_slots l r =
     do { l \<leftarrow> l; r \<leftarrow> r; l \<leftarrow> l; r \<leftarrow> r; Some (string_pair_compare l r) }"

abbreviation old_slot :: "merge_state \<Rightarrow> TStringPair TGAElem option" where
  "old_slot st \<equiv> grar_get_element (ga_old st) (old_pos st)"

abbreviation upd_slot :: "merge_state \<Rightarrow> TStringPair TGAElem option" where
  "upd_slot st \<equiv> grar_get_element (ga_upd st) (upd_pos st)"

definition put_old :: "merge_state \<Rightarrow> mheap \<Rightarrow> merge_result" where
  "put_old st h =
     do { e \<leftarrow> old_slot st;
          (ok, r, h) \<leftarrow> grar_add_element (ga_res st) e h;
          if \<not> ok then Some (False, st\<lparr>ga_res := r\<rparr>, h)
          else do { g \<leftarrow> grar_set_element (ga_old st) (old_pos st) None;
                    Some (True, st\<lparr>ga_res := r, ga_old := g, old_pos := old_pos st + 1\<rparr>, h) } }"

definition put_upd :: "merge_state \<Rightarrow> mheap \<Rightarrow> merge_result" where
  "put_upd st h =
     do { e \<leftarrow> upd_slot st;
          (ok, r, h) \<leftarrow> grar_add_element (ga_res st) e h;
          if \<not> ok then Some (False, st\<lparr>ga_res := r\<rparr>, h)
          else do { g \<leftarrow> grar_set_element (ga_upd st) (upd_pos st) None;
                    Some (True, st\<lparr>ga_res := r, ga_upd := g, upd_pos := upd_pos st + 1\<rparr>, h) } }"

partial_function (option) move_before :: "nat \<Rightarrow> merge_state \<Rightarrow> mheap \<Rightarrow> merge_result" where
  "move_before old_size st h =
     (if old_pos st < old_size
      then do { c \<leftarrow> compare_slots (old_slot st) (upd_slot st);
                if c < 0
                then do { (ok, st, h) \<leftarrow> put_old st h;
                          if ok then move_before old_size st h else Some (False, st, h) }
                else Some (True, st, h) }
      else Some (True, st, h))"

partial_function (option) drop_equal :: "nat \<Rightarrow> merge_state \<Rightarrow> mheap \<Rightarrow> (merge_state \<times> mheap) option" where
  "drop_equal old_size st h =
     (if old_pos st < old_size
      then do { c \<leftarrow> compare_slots (old_slot st) (upd_slot st);
                if c = 0
                then do { e \<leftarrow> old_slot st;
                          h \<leftarrow> string_pair_dtor e h;
                          g \<leftarrow> grar_set_element (ga_old st) (old_pos st) None;
                          drop_equal old_size (st\<lparr>ga_old := g, old_pos := old_pos st + 1\<rparr>) h }
                else Some (st, h) }
      else Some (st, h))"

partial_function (option) move_run ::
  "nat \<Rightarrow> TStringPair TGAElem \<Rightarrow> merge_state \<Rightarrow> mheap \<Rightarrow> merge_result" where
  "move_run upd_size sp st h =
     (if upd_pos st < upd_size
      then do { c \<leftarrow> compare_slots (upd_slot st) (Some sp);
                if c = 0
                then do { (ok, st, h) \<leftarrow> put_upd st h;
                          if ok then move_run upd_size sp st h else Some (False, st, h) }
                else Some (True, st, h) }
      else Some (True, st, h))"

partial_function (option) move_rest_old :: "nat \<Rightarrow> merge_state \<Rightarrow> mheap \<Rightarrow> merge_result" where
  "move_rest_old old_size st h =
     (if old_pos st < old_size
      then do { (ok, st, h) \<leftarrow> put_old st h;
                if ok then move_rest_old old_size st h else Some (False, st, h) }
      else Some (True, st, h))"

partial_function (option) move_rest_upd :: "nat \<Rightarrow> merge_state \<Rightarrow> mheap \<Rightarrow> merge_result" where
  "move_rest_upd upd_size st h =
     (if upd_pos st < upd_size
      then do { (ok, st, h) \<leftarrow> put_upd st h;
                if ok then move_rest_upd upd_size st h else Some (False, st, h) }
      else Some (True, st, h))"

text \<open>The assertions at the head of the loop fail for NULL slots.\<close>

definition slots_ok :: "nat \<Rightarrow> merge_state \<Rightarrow> bool" where
  "slots_ok old_size st \<longleftrightarrow>
     (old_pos st < old_size \<longrightarrow> old_slot st \<noteq> None \<and> old_slot st \<noteq> Some None) \<and>
     upd_slot st \<noteq> None \<and> upd_slot st \<noteq> Some None"

partial_function (option) update_loop :: "nat \<Rightarrow> nat \<Rightarrow> merge_state \<Rightarrow> mheap \<Rightarrow> merge_result" where
  "update_loop old_size upd_size st h =
     (if upd_pos st < upd_size
      then if \<not> slots_ok old_size st then None
           else do {
             (ok, st, h) \<leftarrow> move_before old_size st h;
             if \<not> ok then Some (False, st, h)
             else do {
               (st, h) \<leftarrow> drop_equal old_size st h;
               sp \<leftarrow> upd_slot st;
               (ok, st, h) \<leftarrow> move_run upd_size sp st h;
               if \<not> ok then Some (False, st, h)
               else do {
                 (ok, st, h) \<leftarrow> (if upd_pos st = upd_size then move_rest_old old_size st h
                                 else if old_pos st = old_size then move_rest_upd upd_size st h
                                 else Some (True, st, h));
                 if \<not> ok then Some (False, st, h) else update_loop old_size upd_size st h } } }
      else Some (True, st, h))"

definition smap_update ::
  "TStringPair qsorter \<Rightarrow> CStringMap \<Rightarrow> CStringMap \<Rightarrow> mheap \<Rightarrow>
   (bool \<times> CStringMap \<times> CStringMap \<times> mheap) option" where
  "smap_update qs smap upd h =
     do { smap \<leftarrow> smap_sort qs smap;
          upd \<leftarrow> smap_sort qs upd;
          let old_size = gsize (container smap);
          let upd_size = gsize (container upd);
          if upd_size = 0 then Some (True, smap, upd, h)
          else if old_size = 0
          then (let (a, b) = grar_swap (container smap) (container upd)
                in Some (True, smap\<lparr>container := a\<rparr>, upd\<lparr>container := b\<rparr>, h))
          else (case grar_create h of
                  (None, h) \<Rightarrow> Some (False, smap, upd, h)
                | (Some r, h) \<Rightarrow>
                    do { (ok, r, h) \<leftarrow> grar_reserve r (size_wrap (old_size + upd_size)) h;
                         if \<not> ok then Some (False, smap, upd, snd (grar_destroy r h))
                         else do {
                           (ok, st, h) \<leftarrow> update_loop old_size upd_size
                             \<lparr>ga_old = container smap, ga_upd = container upd, ga_res = r,
                              old_pos = 0, upd_pos = 0\<rparr> h;
                           if \<not> ok
                           then Some (False, smap\<lparr>container := ga_old st\<rparr>, upd\<lparr>container := ga_upd st\<rparr>,
                                      snd (grar_destroy (ga_res st) h))
                           else do { a \<leftarrow> grar_clear (ga_old st);
                                     b \<leftarrow> grar_clear (ga_upd st);
                                     let (a, r) = grar_swap a (ga_res st);
                                     Some (True, smap\<lparr>container := a\<rparr>, upd\<lparr>container := b\<rparr>,
                                           snd (grar_destroy r h)) } } }) }"

end
