(* ===== verification/Grar_Spec.thy ===== *)
theory Grar_Spec
  imports Grar_Sort "HOL-Library.List_Lexorder"
begin

text \<open>
  Specification of the growing arrays: an array holds a list of elements (grar_holds), and the
  functions of grar.c are total on such arrays and act on the lists.  The capacity grows by
  doubling; the loop that does it ends as long as the capacity asked for fits.
\<close>

definition grar_holds :: "'a CGrowingArray \<Rightarrow> 'a TGAElem list \<Rightarrow> bool" where
  "grar_holds g es \<longleftrightarrow>
     (\<exists>d. gdata g = Some d \<and> length d = capacity g \<and> take (length es) d = map Some es) \<and>
     gsize g = length es \<and> length es \<le> capacity g \<and> 0 < capacity g \<and> capacity g < 2 ^ 61"

lemma grar_holds_bounds:
  "grar_holds g es \<Longrightarrow> gsize g = length es \<and> length es \<le> capacity g \<and> 0 < capacity g \<and> capacity g < 2 ^ 61"
  by (simp add: grar_holds_def)

subsection \<open>Elements\<close>

lemma get_element:
  assumes "grar_holds g es" and "i < length es"
  shows "grar_get_element g i = Some (es ! i)"
proof -
  obtain d where d: "gdata g = Some d" "length es \<le> length d" "take (length es) d = map Some es"
    using assms(1) by (auto simp: grar_holds_def)
  have "d ! i = take (length es) d ! i" using assms(2) by simp
  then show ?thesis using assms(2) d by (simp add: grar_get_element_def)
qed

lemma set_element:
  assumes "grar_holds g es" and "i < length es"
  shows "\<exists>g'. grar_set_element g i e = Some g' \<and> grar_holds g' (es[i := e]) \<and> capacity g' = capacity g"
  using assms by (auto simp: grar_holds_def grar_set_element_def take_update_swap map_update)

lemma set_next:
  assumes "grar_holds g es" and "length es < capacity g"
  shows "\<exists>g'. grar_set_element g (length es) e = Some g' \<and>
           grar_holds (g'\<lparr>gsize := Suc (length es)\<rparr>) (es @ [e]) \<and> gsize g' = length es \<and> capacity g' = capacity g"
proof -
  obtain d where d: "gdata g = Some d" "length d = capacity g" "take (length es) d = map Some es"
    using assms(1) by (auto simp: grar_holds_def)
  have "take (Suc (length es)) (d[length es := Some e]) = map Some (es @ [e])"
    using assms(2) d(2,3) by (simp add: take_Suc_conv_app_nth)
  then show ?thesis using assms d by (simp add: grar_holds_def grar_set_element_def)
qed

lemma elements_from_ok:
  "grar_holds g es \<Longrightarrow> i + n \<le> length es \<Longrightarrow> elements_from g i n = Some (take n (drop i es))"
proof (induction n arbitrary: i)
  case (Suc n)
  then have "elements_from g (Suc i) n = Some (take n (drop (Suc i) es))" "i < length es" by auto
  then show ?case using get_element [OF Suc.prems(1)] by (simp add: Cons_nth_drop_Suc [symmetric])
qed simp

lemma elements: "grar_holds g es \<Longrightarrow> grar_elements g = Some es"
  using elements_from_ok [of g es 0 "length es"] by (simp add: grar_elements_def grar_holds_bounds)

lemma grar_holds_eq: "grar_holds g es \<Longrightarrow> grar_holds g es' \<Longrightarrow> es = es'"
  by (metis elements option.inject)

subsection \<open>Growing\<close>

lemma grow_capacity_ok:
  assumes "0 < cap" and "cap < n" and "n \<le> 2 ^ 60"
  shows "\<exists>c. grow_capacity cap n = Some c \<and> n \<le> c \<and> c < 2 * n"
  using assms
proof (induction "n - cap" arbitrary: cap rule: less_induct)
  case less
  have w: "size_wrap (cap * GRAR_CAP_INC_FACTOR) = cap * 2"
    using less.prems by (simp add: GRAR_CAP_INC_FACTOR_def)
  show ?case
  proof (cases "cap * 2 < n")
    case True
    then have "\<exists>c. grow_capacity (cap * 2) n = Some c \<and> n \<le> c \<and> c < 2 * n"
      using less.prems by (intro less.hyps) auto
    then show ?thesis using True by (subst grow_capacity.simps) (simp add: w Let_def)
  next
    case False
    then show ?thesis using less.prems by (subst grow_capacity.simps) (simp add: w Let_def)
  qed
qed

text \<open>From a capacity of 0, or to one that only overflow could reach, the loop never ends.\<close>

lemma grow_capacity_diverges:
  assumes "cap = 0 \<and> 0 < n \<or> (\<exists>k\<le>64. cap = 2 ^ k) \<and> 2 ^ 63 < n"
  shows "grow_capacity cap n = None"
proof -
  let ?P = "\<lambda>c n. c = 0 \<and> 0 < n \<or> (\<exists>k\<le>64. c = 2 ^ k) \<and> (2::nat) ^ 63 < n"
  have "\<not> ?P cap n" if "grow_capacity cap n = Some y" for y
  proof (rule grow_capacity.raw_induct [where P = "\<lambda>c n y. \<not> ?P c n", OF _ that])
    fix gc c n y
    assume 1: "\<And>c n y. gc c n = Some y \<Longrightarrow> \<not> ?P c n"
      "(let cap = size_wrap (c * GRAR_CAP_INC_FACTOR) in if cap < n then gc cap n else Some cap) = Some y"
    show "\<not> ?P c n"
    proof
      assume a: "c = 0 \<and> 0 < n \<or> (\<exists>k\<le>64. c = 2 ^ k) \<and> 2 ^ 63 < n"
      let ?c = "size_wrap (c * GRAR_CAP_INC_FACTOR)"
      have "?c = 0 \<or> (\<exists>k\<le>63. ?c = 2 ^ k)"
      proof (cases "c = 0")
        case True
        then show ?thesis by (simp add: size_wrap_def)
      next
        case False
        with a obtain k where k: "k \<le> 64" "c * 2 = 2 ^ Suc k" by auto
        show ?thesis
        proof (cases "k < 63")
          case True
          then have "(2::nat) ^ Suc k < 2 ^ 64" by (intro power_strict_increasing) auto
          then show ?thesis using k True by (auto simp: size_wrap_def GRAR_CAP_INC_FACTOR_def intro!: exI [of _ "Suc k"])
        next
          case False
          then have "(2::nat) ^ 64 dvd 2 ^ Suc k" by (intro le_imp_power_dvd) simp
          then show ?thesis using k by (simp add: size_wrap_def GRAR_CAP_INC_FACTOR_def)
        qed
      qed
      moreover have "(2::nat) ^ k \<le> 2 ^ 63" if "k \<le> 63" for k using that by (intro power_increasing) auto
      ultimately have "?c < n" and "?c = 0 \<and> 0 < n \<or> (\<exists>k\<le>64. ?c = 2 ^ k) \<and> 2 ^ 63 < n"
        using a by (force simp: size_wrap_def)+
      moreover from this have "gc ?c n = Some y" using 1(2) by (simp add: Let_def)
      ultimately show False using 1(1) by blast
    qed
  qed
  with assms show ?thesis by (cases "grow_capacity cap n") auto
qed

lemma malloc_live: "malloc h = (ok, h') \<Longrightarrow> live h' = live h + of_bool ok"
  by (auto simp: malloc_def next_outcome_def Let_def split: list.splits)

lemma realloc_live: "realloc h = (ok, h') \<Longrightarrow> live h' = live h"
  by (auto simp: realloc_def next_outcome_def split: list.splits)

lemma grar_create_ok:
  "\<exists>r h'. grar_create h = (r, h') \<and>
     (case r of None \<Rightarrow> live h' = live h | Some g \<Rightarrow> grar_holds g [] \<and> capacity g = 16 \<and> live h' = live h + 1)"
proof -
  obtain ok h' where m: "malloc h = (ok, h')" by fastforce
  show ?thesis using malloc_live [OF m]
    by (cases ok) (auto simp: grar_create_def m GRAR_DEFAULT_CAPACITY_def grar_holds_def)
qed

lemma grar_reserve_ok:
  assumes g: "grar_holds g es" and n: "n \<le> 2 ^ 60"
  shows "\<exists>r g' h'. grar_reserve g n h = Some (r, g', h') \<and> live h' = live h \<and> grar_holds g' es \<and>
           (r \<and> n \<le> capacity g' \<and> capacity g \<le> capacity g' \<or> \<not> r \<and> g' = g) \<and> (n \<le> capacity g \<longrightarrow> r \<and> g' = g \<and> h' = h)"
proof (cases "n \<le> capacity g")
  case True
  then show ?thesis using g by (intro exI [of _ True]) (simp add: grar_reserve_def)
next
  case False
  note G = grar_holds_bounds [OF g]
  obtain d where d: "gdata g = Some d" "length d = capacity g" "take (length es) d = map Some es"
    using g by (auto simp: grar_holds_def)
  obtain c where c: "grow_capacity (capacity g) n = Some c" "n \<le> c" "c < 2 * n"
    using grow_capacity_ok [of "capacity g" n] False G n by auto
  then have w: "size_wrap (c * 8) div 8 = c" "c < 2 ^ 61" using n by simp_all
  obtain ok h' where m: "realloc h = (ok, h')" by fastforce
  have "take (length es) (take c d @ replicate (c - length d) None) = map Some es"
    using d G False c(2) by simp
  then show ?thesis using realloc_live [OF m] g G False c d w
    by (cases ok) (auto simp: grar_reserve_def realloc_elems_def w(1) m Let_def grar_holds_def)
qed

lemma grar_add_ok:
  assumes g: "grar_holds g es" and n: "length es < 2 ^ 60"
  shows "\<exists>r g' h'. grar_add_element g e h = Some (r, g', h') \<and> live h' = live h \<and>
           (r \<and> grar_holds g' (es @ [e]) \<and> capacity g \<le> capacity g' \<or> \<not> r \<and> g' = g) \<and>
           (length es < capacity g \<longrightarrow> r \<and> capacity g' = capacity g \<and> h' = h)"
proof -
  note G = grar_holds_bounds [OF g]
  have w: "size_wrap (Suc (gsize g)) = Suc (length es)" using G n by simp
  have n': "Suc (length es) \<le> 2 ^ 60" using n by simp
  from grar_reserve_ok [OF g n', of h] obtain r g1 h1 where
    r: "grar_reserve g (Suc (length es)) h = Some (r, g1, h1)" "live h1 = live h" "grar_holds g1 es"
    "r \<and> Suc (length es) \<le> capacity g1 \<and> capacity g \<le> capacity g1 \<or> \<not> r \<and> g1 = g"
    "Suc (length es) \<le> capacity g \<longrightarrow> r \<and> g1 = g \<and> h1 = h" by blast
  show ?thesis
  proof (cases r)
    case False
    then have "grar_add_element g e h = Some (False, g1, h1)" using r(1) by (simp add: grar_add_element_def w)
    then show ?thesis using False r by auto
  next
    case True
    then have "length es < capacity g1" using r(4) by simp
    from set_next [OF r(3) this, of e] obtain g2 where
      g2: "grar_set_element g1 (length es) e = Some g2" "grar_holds (g2\<lparr>gsize := Suc (length es)\<rparr>) (es @ [e])"
      "gsize g2 = length es" "capacity g2 = capacity g1" by blast
    have "grar_add_element g e h = Some (True, g2\<lparr>gsize := Suc (length es)\<rparr>, h1)"
      using r(1) True g2(1,3) grar_holds_bounds [OF r(3)] by (simp add: grar_add_element_def w)
    then show ?thesis using g2 r True by auto
  qed
qed

lemma set_element_gsize:
  "grar_set_element (g\<lparr>gsize := n\<rparr>) i e = map_option (\<lambda>g. g\<lparr>gsize := n\<rparr>) (grar_set_element g i e)"
  "grar_set_element g i e = Some g' \<Longrightarrow> gsize g' = gsize g"
  by (cases g; auto simp: grar_set_element_def split: option.splits if_splits)+

lemma store_elems_gsize:
  "store_elems (g\<lparr>gsize := n\<rparr>) i es = map_option (\<lambda>g. g\<lparr>gsize := n\<rparr>) (store_elems g i es)"
proof (induction es arbitrary: g i)
  case (Cons e es)
  then show ?case by (cases "grar_set_element g i e") (simp_all add: set_element_gsize(1))
qed simp

lemma store_elems_ok:
  assumes "grar_holds g (es @ fs)" and "length fs = length xs"
  shows "\<exists>g'. store_elems g (length es) xs = Some g' \<and> grar_holds g' (es @ xs) \<and> capacity g' = capacity g"
  using assms
proof (induction xs arbitrary: g es fs)
  case (Cons x xs)
  then obtain f fs' where fs: "fs = f # fs'" by (cases fs) auto
  from set_element [OF Cons.prems(1), of "length es" x] fs obtain g1 where
    g1: "grar_set_element g (length es) x = Some g1" "grar_holds g1 ((es @ [x]) @ fs')" "capacity g1 = capacity g"
    by auto
  have "length fs' = length xs" using Cons.prems(2) fs by simp
  from Cons.IH [OF g1(2) this] show ?case by (auto simp: g1(1,3))
qed simp

lemma store_elems_next:
  assumes "grar_holds g es" and "length es + length xs \<le> capacity g"
  shows "\<exists>g'. store_elems g (length es) xs = Some g' \<and> grar_holds (g'\<lparr>gsize := length es + length xs\<rparr>) (es @ xs) \<and>
           gsize g' = length es"
  using assms
proof (induction xs arbitrary: g es)
  case Nil
  then show ?case by (simp add: grar_holds_def)
next
  case (Cons x xs)
  have "length es < capacity g" using Cons.prems(2) by simp
  from set_next [OF Cons.prems(1) this, of x] obtain g1 where
    g1: "grar_set_element g (length es) x = Some g1" "grar_holds (g1\<lparr>gsize := Suc (length es)\<rparr>) (es @ [x])"
    "gsize g1 = length es" "capacity g1 = capacity g" by blast
  have "length (es @ [x]) + length xs \<le> capacity (g1\<lparr>gsize := Suc (length es)\<rparr>)" using Cons.prems(2) g1(4) by simp
  from Cons.IH [OF g1(2) this] obtain g2 where
    g2: "store_elems g1 (Suc (length es)) xs = Some g2"
    "grar_holds (g2\<lparr>gsize := length es + length (x # xs)\<rparr>) (es @ x # xs)"
    by (auto simp: store_elems_gsize)
  have "gsize g2 = gsize g1" using g2(1)
  proof -
    have "store_elems g i ys = Some g' \<Longrightarrow> gsize g' = gsize g" for g g' :: "'a CGrowingArray" and i ys
    proof (induction ys arbitrary: g i)
      case (Cons y ys)
      then show ?case by (cases "grar_set_element g i y") (auto simp: set_element_gsize(2))
    qed simp
    then show ?thesis using g2(1) by blast
  qed
  then show ?case using g1(1,3) g2 by simp
qed

lemma grar_append_ok:
  assumes g: "grar_holds g es" and s: "grar_holds src fs" and n: "length es + length fs \<le> 2 ^ 60"
  shows "\<exists>r g' h'. grar_append_array g src h = Some (r, g', h') \<and> live h' = live h \<and>
           (r \<and> grar_holds g' (es @ fs) \<or> \<not> r \<and> g' = g)"
proof -
  note G = grar_holds_bounds [OF g] and S = grar_holds_bounds [OF s]
  have w: "size_wrap (length es + length fs) = length es + length fs" using n by simp
  from grar_reserve_ok [OF g n, of h] obtain r g1 h1 where
    r: "grar_reserve g (length es + length fs) h = Some (r, g1, h1)" "live h1 = live h"
    "grar_holds g1 es" "r \<and> length es + length fs \<le> capacity g1 \<or> \<not> r \<and> g1 = g" by blast
  show ?thesis
  proof (cases r)
    case True
    with r(4) have "length es + length fs \<le> capacity g1" by simp
    from store_elems_next [OF r(3) this] obtain g2 where
      "store_elems g1 (length es) fs = Some g2" "grar_holds (g2\<lparr>gsize := length es + length fs\<rparr>) (es @ fs)"
      "gsize g2 = length es" by blast
    then have "grar_append_array g src h = Some (True, g2\<lparr>gsize := length es + length fs\<rparr>, h1)"
      using r(1) True grar_holds_bounds [OF r(3)] G S by (simp add: grar_append_array_def w elements [OF s])
    then show ?thesis using \<open>grar_holds (g2\<lparr>gsize := length es + length fs\<rparr>) (es @ fs)\<close> r(2) by blast
  next
    case False
    then have "grar_append_array g src h = Some (False, g1, h1)"
      using r(1) G S by (simp add: grar_append_array_def w)
    then show ?thesis using False r by auto
  qed
qed

lemma grar_add_room:
  assumes g: "grar_holds g es" and n: "length es < capacity g"
  shows "\<exists>g'. grar_add_element g e h = Some (True, g', h) \<and> grar_holds g' (es @ [e]) \<and> capacity g' = capacity g"
proof -
  note G = grar_holds_bounds [OF g]
  have w: "size_wrap (Suc (gsize g)) = Suc (length es)" using G n by simp
  have "grar_reserve g (Suc (length es)) h = Some (True, g, h)" using n by (simp add: grar_reserve_def)
  then show ?thesis using set_next [OF g n, of e] G by (auto simp: grar_add_element_def w)
qed

subsection \<open>Arrays with room\<close>

text \<open>
  What the users of the arrays rely on after reserving: while there is room, adding an element
  succeeds, needs no memory and keeps the room.
\<close>

locale growing_array =
  fixes holds :: "'g \<Rightarrow> 'e list \<Rightarrow> bool"
    and room :: "'g \<Rightarrow> nat"
    and push :: "'g \<Rightarrow> 'e \<Rightarrow> 'h \<Rightarrow> (bool \<times> 'g \<times> 'h) option"
  assumes push_room: "holds g es \<Longrightarrow> length es < room g \<Longrightarrow>
    \<exists>g'. push g e h = Some (True, g', h) \<and> holds g' (es @ [e]) \<and> room g' = room g"
begin

fun push_all :: "'g \<Rightarrow> 'e list \<Rightarrow> 'h \<Rightarrow> (bool \<times> 'g \<times> 'h) option" where
  "push_all g [] h = Some (True, g, h)"
| "push_all g (e # es) h =
     do { (ok, g, h) \<leftarrow> push g e h; if ok then push_all g es h else Some (False, g, h) }"

lemma push_all_room:
  "holds g es \<Longrightarrow> length es + length fs \<le> room g \<Longrightarrow>
   \<exists>g'. push_all g fs h = Some (True, g', h) \<and> holds g' (es @ fs) \<and> room g' = room g"
proof (induction fs arbitrary: g es)
  case (Cons f fs)
  then have "length es < room g" by simp
  from push_room [OF Cons.prems(1) this, of f h] obtain g1 where
    g1: "push g f h = Some (True, g1, h)" "holds g1 (es @ [f])" "room g1 = room g" by blast
  have "length (es @ [f]) + length fs \<le> room g1" using Cons.prems(2) g1(3) by simp
  from Cons.IH [OF g1(2) this] g1 show ?case by simp
qed simp

end

interpretation grar: growing_array grar_holds capacity grar_add_element
  by unfold_locales (rule grar_add_room)

subsection \<open>Clearing, swapping and destroying\<close>

lemma grar_clear_ok: "grar_holds g es \<Longrightarrow> \<exists>g'. grar_clear g = Some g' \<and> grar_holds g' [] \<and> capacity g' = capacity g"
  by (auto simp: grar_clear_def grar_holds_def)

lemma grar_swap_ok:
  "grar_holds (fst (grar_swap g g')) es \<longleftrightarrow> grar_holds g' es"
  "grar_holds (snd (grar_swap g g')) es \<longleftrightarrow> grar_holds g es"
  by (simp_all add: grar_swap_def grar_holds_def)

lemma grar_destroy_ok: "grar_holds g es \<Longrightarrow> grar_destroy g h = (\<lparr>gdata = None, gsize = 0, capacity = 0\<rparr>, mfree h)"
  by (cases g) (auto simp: grar_destroy_def grar_holds_def)

lemma destroy_elems_live:
  assumes "\<And>e h. e \<in> set es \<Longrightarrow> \<exists>h'. dtor e h = Some h' \<and> live h' = live h - c e"
  shows "\<exists>h'. destroy_elems dtor es h = Some h' \<and> live h' = live h - (\<Sum>e\<leftarrow>es. c e)"
  using assms
proof (induction es arbitrary: h)
  case (Cons e es)
  then obtain h1 where h1: "dtor e h = Some h1" "live h1 = live h - c e" by (metis list.set_intros(1))
  from Cons obtain h2 where "destroy_elems dtor es h1 = Some h2" "live h2 = live h1 - (\<Sum>e\<leftarrow>es. c e)"
    by (metis list.set_intros(2))
  then show ?case by (simp add: h1)
qed simp

subsection \<open>Sorting and searching\<close>

lemma those_map_Some [simp]: "those (map Some xs) = Some xs"
  by (induction xs) auto

lemma grar_sort_ok:
  assumes g: "grar_holds g (map Some xs)" and cf: "consistent cf (set xs)" "decides scf cf xs"
  shows "\<exists>g' ys. grar_sort qs g scf = Some g' \<and> grar_holds g' (map Some ys) \<and> mset ys = mset xs \<and>
           sorted_wrt (\<lambda>x y. cf x y \<le> 0) ys \<and> capacity g' = capacity g"
proof -
  let ?ys = "qsort qs scf xs"
  note Q = qsort_sorts [OF cf, of qs]
  have "grar_holds g ([] @ map Some xs)" "length (map Some xs) = length (map Some ?ys)"
    using g mset_eq_length [OF Q(1)] by simp_all
  from store_elems_ok [OF this] show ?thesis
    using Q by (auto simp: grar_sort_def elements [OF g] simp flip: map_map)
qed

lemma grar_find_ok:
  assumes g: "grar_holds g (map Some xs)" and n: "length xs < 2 ^ 31"
    and s: "sorted_wrt (\<lambda>x y. sgn (cf key y) \<le> sgn (cf key x)) xs"
  shows "\<exists>i. grar_find bs g key cf = Some i \<and>
           (i = - 1 \<and> (\<forall>x\<in>set xs. cf key x \<noteq> 0) \<or> 0 \<le> i \<and> nat i < length xs \<and> cf key (xs ! nat i) = 0)"
proof -
  have w: "signed_take_bit 31 (int p) = int p" if "p < 2 ^ 31" for p
    by (rule signed_take_bit_int_eq_self) (use that in auto)
  show ?thesis
  proof (rule bsearch_cases [OF s, of bs])
    assume "bsearch bs (cf key) xs = None" "\<And>x. x \<in> set xs \<Longrightarrow> cf key x \<noteq> 0"
    then show ?thesis by (simp add: grar_find_def elements [OF g])
  next
    fix i assume i: "bsearch bs (cf key) xs = Some i" "i < length xs" "cf key (xs ! i) = 0"
    then have "signed_take_bit 31 (int i) = int i" using n by (intro w) simp
    moreover have "signed_take_bit 31 (int (gsize g)) = int (length xs)"
      using grar_holds_bounds [OF g] n by (simp add: w)
    ultimately show ?thesis using i by (simp add: grar_find_def elements [OF g])
  qed
qed

subsection \<open>The order of strcmp\<close>

abbreviation codes :: "char list \<Rightarrow> nat list" where
  "codes \<equiv> map of_char"

lemma codes_eq: "codes s = codes t \<longleftrightarrow> s = t"
  by (rule inj_map_eq_map) (simp add: inj_def)

lemma strcmp_sgn: "sgn (strcmp s t) = (if codes s < codes t then - 1 else if s = t then 0 else 1)"
  by (induction s t rule: strcmp.induct) auto

lemma strcmp_le: "strcmp s t \<le> 0 \<longleftrightarrow> codes s \<le> codes t"
proof -
  have "strcmp s t \<le> 0 \<longleftrightarrow> sgn (strcmp s t) \<noteq> 1" by (auto simp: sgn_if)
  then show ?thesis by (auto simp: strcmp_sgn le_less codes_eq)
qed

lemma strcmp_0: "strcmp s t = 0 \<longleftrightarrow> s = t"
proof -
  have "strcmp s t = 0 \<longleftrightarrow> sgn (strcmp s t) = 0" by (auto simp: sgn_if)
  then show ?thesis by (auto simp: strcmp_sgn)
qed

lemma strcmp_less: "strcmp s t < 0 \<longleftrightarrow> codes s < codes t"
  using strcmp_le [of s t] strcmp_0 [of s t] codes_eq [of s t] by (auto simp: le_less)

lemma strcmp_consistent: "consistent (\<lambda>x y. strcmp (f x) (f y)) A"
  unfolding consistent_def
proof (intro conjI ballI impI)
  fix x y
  show "sgn (strcmp (f y) (f x)) = - sgn (strcmp (f x) (f y))"
  proof (cases "codes (f x)" "codes (f y)" rule: linorder_cases)
    case equal
    then have "f x = f y" by (simp add: codes_eq)
    then show ?thesis by (simp add: strcmp_sgn)
  next
    case less
    then have "\<not> codes (f y) < codes (f x)" "f x \<noteq> f y" by auto
    then show ?thesis using less by (simp add: strcmp_sgn)
  next
    case greater
    then have "\<not> codes (f x) < codes (f y)" "f x \<noteq> f y" by auto
    then show ?thesis using greater by (simp add: strcmp_sgn)
  qed
next
  fix x y z assume "strcmp (f x) (f y) \<le> 0" "strcmp (f y) (f z) \<le> 0"
  then show "strcmp (f x) (f z) \<le> 0" unfolding strcmp_le by (rule order_trans)
qed

text \<open>An array sorted by strcmp may be searched with it.\<close>

lemma strcmp_searchable:
  assumes "sorted_wrt (\<lambda>x y. strcmp (f x) (f y) \<le> 0) xs"
  shows "sorted_wrt (\<lambda>x y. sgn (strcmp k (f y)) \<le> sgn (strcmp k (f x))) xs"
proof (rule sorted_wrt_mono_rel [OF _ assms])
  fix x y assume "strcmp (f x) (f y) \<le> 0"
  then have le: "codes (f x) \<le> codes (f y)" by (simp add: strcmp_le)
  show "sgn (strcmp k (f y)) \<le> sgn (strcmp k (f x))"
  proof (cases "codes k" "codes (f x)" rule: linorder_cases)
    case less
    from less_le_trans [OF less le] have "codes k < codes (f y)" .
    then show ?thesis by (simp add: strcmp_sgn)
  next
    case equal
    with le have "codes k < codes (f y) \<or> k = f y" by (simp add: le_less codes_eq)
    then show ?thesis using equal by (auto simp: strcmp_sgn codes_eq)
  next
    case greater
    then have "\<not> codes k < codes (f x)" "k \<noteq> f x" by auto
    then have "sgn (strcmp k (f x)) = 1" by (simp add: strcmp_sgn)
    then show ?thesis by (simp add: sgn_if)
  qed
qed

lemma total_length_eq:
  "total_length (map Some ss) len = Some (if ss = [] then len else (len + (\<Sum>s\<leftarrow>ss. length s)) mod 2 ^ 64)"
proof (induction ss arbitrary: len)
  case (Cons s ss)
  then show ?case by (auto simp: size_wrap_def mod_simps ac_simps)
qed simp

end
