(* ===== verification/Smap_Spec.thy ===== *)
theory Smap_Spec
  imports Smap Grar_Spec
begin

text \<open>
  Specification of the string maps: a map holds a list of pairs (smap_holds), every function is
  total on such maps, and smap_update merges the two lists.
\<close>

subsection \<open>The order of the pairs\<close>

lemma pair_compare_strcmp: "string_pair_compare p q = strcmp (pkey p) (pkey q)"
  by (auto simp: string_pair_compare_def strcmp_0)

lemma pair_consistent: "consistent string_pair_compare A"
  using strcmp_consistent [of pkey A] by (simp add: pair_compare_strcmp [abs_def])

text \<open>With distinct keys the slots are never looked at.\<close>

lemma pair_decides:
  assumes "distinct (map pkey ps)"
  shows "decides string_pair_compare_sort string_pair_compare ps"
proof -
  have "pkey p \<noteq> pkey q" if "p \<in> set ps" "q \<in> set ps" "p \<noteq> q" for p q
    using assms that by (auto simp: distinct_map inj_on_def)
  then have "string_pair_compare p q \<noteq> 0" if "p \<in> set ps" "q \<in> set ps" "p \<noteq> q" for p q
    using that by (simp add: pair_compare_strcmp strcmp_0)
  moreover have "distinct ps" using assms by (simp add: distinct_map)
  ultimately show ?thesis by (simp add: decides_def string_pair_compare_sort_def)
qed

abbreviation by_key :: "TStringPair list \<Rightarrow> bool" where
  "by_key \<equiv> sorted_wrt (\<lambda>p q. codes (pkey p) \<le> codes (pkey q))"

lemma by_key_compare: "sorted_wrt (\<lambda>p q. string_pair_compare p q \<le> 0) ps \<longleftrightarrow> by_key ps"
  by (simp add: pair_compare_strcmp strcmp_le)

subsection \<open>Maps\<close>

definition smap_holds :: "CStringMap \<Rightarrow> TStringPair list \<Rightarrow> bool" where
  "smap_holds sm ps \<longleftrightarrow> grar_holds (container sm) (map Some ps) \<and> (smap_sorted sm \<longrightarrow> by_key ps)"

text \<open>
  The map that the functions which need the order can be given: the order on pairs with equal
  keys is not one that qsort allows, so either keys are distinct or nothing is left to sort.
\<close>

definition sortable :: "CStringMap \<Rightarrow> TStringPair list \<Rightarrow> bool" where
  "sortable sm ps \<longleftrightarrow> smap_sorted sm \<or> distinct (map pkey ps)"

lemma smap_sort_ok:
  assumes "smap_holds sm ps" and "sortable sm ps"
  shows "\<exists>sm' ps'. smap_sort qs sm = Some sm' \<and> smap_holds sm' ps' \<and> smap_sorted sm' \<and> by_key ps' \<and> mset ps' = mset ps"
proof (cases "smap_sorted sm")
  case True
  then show ?thesis using assms(1) by (auto simp: smap_sort_def smap_holds_def)
next
  case False
  have g: "grar_holds (container sm) (map Some ps)" using assms(1) by (simp add: smap_holds_def)
  have d: "distinct (map pkey ps)" using assms(2) False by (simp add: sortable_def)
  from grar_sort_ok [OF g pair_consistent pair_decides [OF d], of qs] False show ?thesis
    by (auto simp: smap_sort_def smap_holds_def by_key_compare)
qed

lemma smap_create_ok:
  "\<exists>r h'. smap_create h = (r, h') \<and>
     (case r of None \<Rightarrow> live h' = live h | Some sm \<Rightarrow> smap_holds sm [] \<and> live h' = live h + 2)"
proof -
  obtain ok h1 where m: "malloc h = (ok, h1)" by fastforce
  obtain r h2 where r: "grar_create h1 = (r :: TStringPair CGrowingArray option, h2)"
    "case r of None \<Rightarrow> live h2 = live h1 | Some g \<Rightarrow> grar_holds g [] \<and> capacity g = 16 \<and> live h2 = live h1 + 1"
    using grar_create_ok [of h1] by blast
  show ?thesis using malloc_live [OF m] r
    by (cases ok; cases r) (simp_all add: smap_create_def m mfree_def smap_holds_def)
qed

lemma smap_add_ok:
  assumes "smap_holds sm ps" and "length ps < 2 ^ 60"
  shows "\<exists>r sm' h'. smap_add_element sm k v h = Some (r, sm', h') \<and>
           (r \<and> smap_holds sm' (ps @ [\<lparr>pkey = k, pval = v\<rparr>]) \<and> live h' = live h + 3 \<or>
            \<not> r \<and> sm' = sm \<and> live h' = live h)"
proof -
  obtain ok1 h1 where m1: "malloc h = (ok1, h1)" by fastforce
  obtain ok2 h2 where m2: "malloc h1 = (ok2, h2)" by fastforce
  obtain ok3 h3 where m3: "malloc h2 = (ok3, h3)" by fastforce
  note lv = malloc_live [OF m1] malloc_live [OF m2] malloc_live [OF m3]
  have g: "grar_holds (container sm) (map Some ps)" "length (map Some ps) < 2 ^ 60"
    using assms by (simp_all add: smap_holds_def)
  from grar_add_ok [OF g, of "Some \<lparr>pkey = k, pval = v\<rparr>" h3] obtain r g' h4 where
    a: "grar_add_element (container sm) (Some \<lparr>pkey = k, pval = v\<rparr>) h3 = Some (r, g', h4)" "live h4 = live h3"
    "r \<and> grar_holds g' (map Some (ps @ [\<lparr>pkey = k, pval = v\<rparr>])) \<or> \<not> r \<and> g' = container sm" by auto
  show ?thesis
  proof (cases "ok1 \<and> ok2 \<and> ok3")
    case True
    then show ?thesis using lv a
      by (cases r) (auto simp: smap_add_element_def m1 m2 m3 mfree_def string_pair_dtor_def smap_holds_def)
  next
    case False
    then show ?thesis using lv
      by (intro exI [of _ False]; cases ok1; cases ok2; cases ok3)
        (simp_all add: smap_add_element_def m1 m2 m3 mfree_def)
  qed
qed

subsection \<open>Searching\<close>

lemma smap_bsearch_ok:
  assumes "smap_holds sm ps" and "by_key ps"
  obtains "smap_bsearch bs sm k = Some None" "k \<notin> pkey ` set ps"
  | i where "smap_bsearch bs sm k = Some (Some i)" "i < length ps" "pkey (ps ! i) = k"
proof -
  have g: "grar_elements (container sm) = Some (map Some ps)"
    using assms(1) elements by (auto simp: smap_holds_def)
  have s: "sorted_wrt (\<lambda>p q. sgn (string_pair_compare \<lparr>pkey = k, pval = []\<rparr> q) \<le>
      sgn (string_pair_compare \<lparr>pkey = k, pval = []\<rparr> p)) ps"
    using strcmp_searchable [of pkey ps k] assms(2) by (simp add: pair_compare_strcmp strcmp_le)
  show thesis
  proof (rule bsearch_cases [OF s, of bs])
    assume n: "bsearch bs (string_pair_compare \<lparr>pkey = k, pval = []\<rparr>) ps = None"
      "\<And>p. p \<in> set ps \<Longrightarrow> string_pair_compare \<lparr>pkey = k, pval = []\<rparr> p \<noteq> 0"
    then have "k \<notin> pkey ` set ps" by (auto simp: pair_compare_strcmp strcmp_0)
    then show thesis using that(1) n(1) by (simp add: smap_bsearch_def g)
  next
    fix i assume i: "bsearch bs (string_pair_compare \<lparr>pkey = k, pval = []\<rparr>) ps = Some i" "i < length ps"
      "string_pair_compare \<lparr>pkey = k, pval = []\<rparr> (ps ! i) = 0"
    then have "pkey (ps ! i) = k" by (simp add: pair_compare_strcmp strcmp_0)
    then show thesis using that(2) i(1,2) by (simp add: smap_bsearch_def g)
  qed
qed

lemma smap_lookup_ok:
  assumes "smap_holds sm ps" and "sortable sm ps"
  shows "\<exists>r sm' ps'. smap_lookup qs bs sm k = Some (r, sm') \<and> smap_holds sm' ps' \<and> mset ps' = mset ps \<and>
           (case r of None \<Rightarrow> k \<notin> pkey ` set ps | Some v \<Rightarrow> \<lparr>pkey = k, pval = v\<rparr> \<in> set ps)"
proof -
  from smap_sort_ok [OF assms, of qs] obtain sm' ps' where
    s: "smap_sort qs sm = Some sm'" "smap_holds sm' ps'" "by_key ps'" "mset ps' = mset ps" by blast
  have set: "set ps' = set ps" by (rule mset_eq_setD [OF s(4)])
  show ?thesis
  proof (rule smap_bsearch_ok [OF s(2,3), of bs k])
    assume "smap_bsearch bs sm' k = Some None" "k \<notin> pkey ` set ps'"
    then show ?thesis using s set by (auto simp: smap_lookup_def)
  next
    fix i assume i: "smap_bsearch bs sm' k = Some (Some i)" "i < length ps'" "pkey (ps' ! i) = k"
    have "grar_get_element (container sm') i = Some (Some (ps' ! i))"
      using s(2) i(2) get_element [of "container sm'" "map Some ps'" i] by (simp add: smap_holds_def)
    then have "smap_lookup qs bs sm k = Some (Some (pval (ps' ! i)), sm')"
      by (simp add: smap_lookup_def s(1) i(1))
    moreover have "ps' ! i = \<lparr>pkey = k, pval = pval (ps' ! i)\<rparr>" using i(3) by simp
    then have "\<lparr>pkey = k, pval = pval (ps' ! i)\<rparr> \<in> set ps" using nth_mem [OF i(2)] set by metis
    ultimately show ?thesis using s(2,4) by auto
  qed
qed

text \<open>Setting changes the value of one pair, or adds a pair when the key is new.\<close>

lemma by_key_update: "by_key ps \<Longrightarrow> i < length ps \<Longrightarrow> by_key (ps[i := (ps ! i)\<lparr>pval := v\<rparr>])"
  by (auto simp: sorted_wrt_iff_nth_less nth_list_update)

lemma smap_set_ok:
  assumes "smap_holds sm ps" and "length ps < 2 ^ 60" and "sortable sm ps"
  shows "\<exists>r sm' ps' h'. smap_set_value qs bs sm k v h = Some (r, sm', h') \<and> smap_holds sm' ps' \<and>
           (r \<and> k \<notin> pkey ` set ps \<and> mset ps' = add_mset \<lparr>pkey = k, pval = v\<rparr> (mset ps) \<and> live h' = live h + 3 \<or>
            r \<and> (\<exists>w. \<lparr>pkey = k, pval = w\<rparr> \<in> set ps \<and>
                  mset ps' = add_mset \<lparr>pkey = k, pval = v\<rparr> (mset ps - {#\<lparr>pkey = k, pval = w\<rparr>#})) \<and> live h' = live h \<or>
            \<not> r \<and> mset ps' = mset ps \<and> live h' = live h)"
proof -
  from smap_sort_ok [OF assms(1,3), of qs] obtain sm' ps' where
    s: "smap_sort qs sm = Some sm'" "smap_holds sm' ps'" "smap_sorted sm'" "by_key ps'" "mset ps' = mset ps" by blast
  have set: "set ps' = set ps" by (rule mset_eq_setD [OF s(5)])
  have len: "length ps' < 2 ^ 60" using assms(2) mset_eq_length [OF s(5)] by simp
  obtain ok h1 where m: "malloc h = (ok, h1)" by fastforce
  show ?thesis
  proof (cases ok)
    case False
    then show ?thesis using s malloc_live [OF m] by (auto simp: smap_set_value_def m)
  next
    case ok: True
    have l1: "live (mfree h1) = live h" using malloc_live [OF m] ok by (simp add: mfree_def)
    show ?thesis
    proof (rule smap_bsearch_ok [OF s(2,4), of bs k])
      assume b: "smap_bsearch bs sm' k = Some None" "k \<notin> pkey ` set ps'"
      from smap_add_ok [OF s(2) len, of k v "mfree h1"] obtain r sm2 h2 where
        a: "smap_add_element sm' k v (mfree h1) = Some (r, sm2, h2)"
        "r \<and> smap_holds sm2 (ps' @ [\<lparr>pkey = k, pval = v\<rparr>]) \<and> live h2 = live (mfree h1) + 3 \<or>
         \<not> r \<and> sm2 = sm' \<and> live h2 = live (mfree h1)" by blast
      have run: "smap_set_value qs bs sm k v h = Some (r, sm2, h2)"
        using s(1) m ok b(1) a(1) by (simp add: smap_set_value_def)
      show ?thesis
      proof (cases r)
        case True
        then show ?thesis using a(2) b(2) run s(5) set l1
          by (intro exI [of _ True] exI [of _ sm2] exI [of _ "ps' @ [\<lparr>pkey = k, pval = v\<rparr>]"] exI [of _ h2]) simp
      next
        case False
        then show ?thesis using a(2) run s(2,5) l1
          by (intro exI [of _ False] exI [of _ sm2] exI [of _ ps'] exI [of _ h2]) simp
      qed
    next
      fix i assume b: "smap_bsearch bs sm' k = Some (Some i)" "i < length ps'" "pkey (ps' ! i) = k"
      have g: "grar_holds (container sm') (map Some ps')" using s(2) by (simp add: smap_holds_def)
      have e: "grar_get_element (container sm') i = Some (Some (ps' ! i))"
        using get_element [OF g] b(2) by simp
      have il: "i < length (map Some ps')" using b(2) by simp
      from set_element [OF g il, of "Some ((ps' ! i)\<lparr>pval := v\<rparr>)"] obtain g' where
        g': "grar_set_element (container sm') i (Some ((ps' ! i)\<lparr>pval := v\<rparr>)) = Some g'"
          "grar_holds g' (map Some (ps'[i := (ps' ! i)\<lparr>pval := v\<rparr>]))" by (auto simp: map_update)
      obtain ok2 h2 where m2: "malloc (mfree h1) = (ok2, h2)" by fastforce
      have p: "ps' ! i = \<lparr>pkey = k, pval = pval (ps' ! i)\<rparr>" using b(3) by (cases "ps' ! i") simp
      have z: "strcmp (pkey (ps' ! i)) k = 0" using b(3) by (simp add: strcmp_0)
      show ?thesis
      proof (cases ok2)
        case False
        then have "smap_set_value qs bs sm k v h = Some (False, sm', h2)"
          using s(1) m ok b(1) e z m2 by (simp add: smap_set_value_def)
        then show ?thesis using s(2,5) malloc_live [OF m2] False l1 by auto
      next
        case True
        then have run: "smap_set_value qs bs sm k v h = Some (True, sm'\<lparr>container := g'\<rparr>, mfree h2)"
          using s(1) m ok b(1) e z m2 g'(1) by (simp add: smap_set_value_def)
        have "smap_holds (sm'\<lparr>container := g'\<rparr>) (ps'[i := (ps' ! i)\<lparr>pval := v\<rparr>])"
          using g'(2) by_key_update [OF s(4) b(2)] by (simp add: smap_holds_def)
        moreover have "mset (ps'[i := (ps' ! i)\<lparr>pval := v\<rparr>]) =
            add_mset \<lparr>pkey = k, pval = v\<rparr> (mset ps - {#\<lparr>pkey = k, pval = pval (ps' ! i)\<rparr>#})"
          using mset_update [OF b(2)] p s(5) by (metis TStringPair.update_convs(2))
        moreover have "\<lparr>pkey = k, pval = pval (ps' ! i)\<rparr> \<in> set ps" using p nth_mem [OF b(2)] set by metis
        moreover have "live (mfree h2) = live h" using malloc_live [OF m2] True l1 by (simp add: mfree_def)
        ultimately show ?thesis using run by blast
      qed
    qed
  qed
qed

end
