(* ===== verification/Smap_Update.thy ===== *)
theory Smap_Update
  imports Smap_Spec
begin

text \<open>
  smap_update.  A reference merge of two lists (merged), that the loops compute it without
  running out of the reserved room, and what the merge gives on lists in the order of keys.
\<close>

subsection \<open>The reference merge\<close>

abbreviation before_key :: "TStringPair list \<Rightarrow> TStringPair \<Rightarrow> bool" where
  "before_key us p \<equiv> string_pair_compare p (hd us) < 0"

abbreviation same_key :: "TStringPair list \<Rightarrow> TStringPair \<Rightarrow> bool" where
  "same_key us p \<equiv> string_pair_compare p (hd us) = 0"

abbreviation old_rest :: "TStringPair list \<Rightarrow> TStringPair list \<Rightarrow> TStringPair list" where
  "old_rest os us \<equiv> dropWhile (same_key us) (dropWhile (before_key us) os)"

abbreviation upd_rest :: "TStringPair list \<Rightarrow> TStringPair list" where
  "upd_rest us \<equiv> dropWhile (same_key us) us"

lemma upd_rest_shorter: "us \<noteq> [] \<Longrightarrow> length (upd_rest us) < length us"
  by (cases us) (auto simp: string_pair_compare_def less_Suc_eq_le length_dropWhile_le)

function merged :: "TStringPair list \<Rightarrow> TStringPair list \<Rightarrow> TStringPair list" where
  "merged os us =
     (if us = [] then []
      else takeWhile (before_key us) os @ takeWhile (same_key us) us @
           (if upd_rest us = [] then old_rest os us
            else if old_rest os us = [] then upd_rest us
            else merged (old_rest os us) (upd_rest us)))"
  by pat_completeness auto
termination
  by (relation "measure (\<lambda>(os, us). length us)") (auto simp: upd_rest_shorter)

declare merged.simps [simp del]

subsection \<open>The state of the loops\<close>

definition merging ::
  "TStringPair list \<Rightarrow> TStringPair list \<Rightarrow> merge_state \<Rightarrow> nat \<Rightarrow> nat \<Rightarrow> TStringPair list \<Rightarrow> bool" where
  "merging os us st i k rs \<longleftrightarrow>
     old_pos st = i \<and> upd_pos st = k \<and> i \<le> length os \<and> k \<le> length us \<and>
     grar_holds (ga_old st) (replicate i None @ map Some (drop i os)) \<and>
     grar_holds (ga_upd st) (replicate k None @ map Some (drop k us)) \<and>
     grar_holds (ga_res st) (map Some rs) \<and>
     length os + length us \<le> capacity (ga_res st) \<and> length rs \<le> i + k"

lemma slot_at:
  assumes "grar_holds g (replicate i None @ map Some (drop i xs))" and "i < length xs"
  shows "grar_get_element g i = Some (Some (xs ! i))"
  using get_element [OF assms(1), of i] assms(2) by (simp add: nth_append)

lemma clear_slot:
  assumes "grar_holds g (replicate i None @ map Some (drop i xs))" and "i < length xs"
  shows "\<exists>g'. grar_set_element g i None = Some g' \<and> grar_holds g' (replicate (Suc i) None @ map Some (drop (Suc i) xs))"
proof -
  have "(replicate i None @ map Some (drop i xs))[i := None] = replicate i None @ None # map Some (drop (Suc i) xs)"
    using assms(2) by (simp add: list_update_append Cons_nth_drop_Suc [symmetric])
  also have "\<dots> = replicate (Suc i) None @ map Some (drop (Suc i) xs)"
    by (simp add: replicate_append_same [symmetric])
  finally show ?thesis using set_element [OF assms(1), of i None] assms(2) by auto
qed

lemma old_slot_at: "merging os us st i k rs \<Longrightarrow> i < length os \<Longrightarrow> old_slot st = Some (Some (os ! i))"
  by (auto simp: merging_def intro: slot_at)

lemma upd_slot_at: "merging os us st i k rs \<Longrightarrow> k < length us \<Longrightarrow> upd_slot st = Some (Some (us ! k))"
  by (auto simp: merging_def intro: slot_at)

lemma put_old_ok:
  assumes m: "merging os us st i k rs" and i: "i < length os"
  shows "\<exists>st'. put_old st h = Some (True, st', h) \<and> merging os us st' (Suc i) k (rs @ [os ! i])"
proof -
  have g: "grar_holds (ga_res st) (map Some rs)" "length (map Some rs) < capacity (ga_res st)"
    "grar_holds (ga_old st) (replicate i None @ map Some (drop i os))"
    using m i by (auto simp: merging_def)
  from grar.push_room [OF g(1,2), of "Some (os ! i)" h] obtain r where
    r: "grar_add_element (ga_res st) (Some (os ! i)) h = Some (True, r, h)"
      "grar_holds r (map Some (rs @ [os ! i]))" "capacity r = capacity (ga_res st)" by auto
  from clear_slot [OF g(3) i] obtain g' where
    "grar_set_element (ga_old st) i None = Some g'"
    "grar_holds g' (replicate (Suc i) None @ map Some (drop (Suc i) os))" by blast
  then show ?thesis using m i r old_slot_at [OF m i] by (simp add: put_old_def merging_def)
qed

lemma put_upd_ok:
  assumes m: "merging os us st i k rs" and k: "k < length us"
  shows "\<exists>st'. put_upd st h = Some (True, st', h) \<and> merging os us st' i (Suc k) (rs @ [us ! k])"
proof -
  have g: "grar_holds (ga_res st) (map Some rs)" "length (map Some rs) < capacity (ga_res st)"
    "grar_holds (ga_upd st) (replicate k None @ map Some (drop k us))"
    using m k by (auto simp: merging_def)
  from grar.push_room [OF g(1,2), of "Some (us ! k)" h] obtain r where
    r: "grar_add_element (ga_res st) (Some (us ! k)) h = Some (True, r, h)"
      "grar_holds r (map Some (rs @ [us ! k]))" "capacity r = capacity (ga_res st)" by auto
  from clear_slot [OF g(3) k] obtain g' where
    "grar_set_element (ga_upd st) k None = Some g'"
    "grar_holds g' (replicate (Suc k) None @ map Some (drop (Suc k) us))" by blast
  then show ?thesis using m k r upd_slot_at [OF m k] by (simp add: put_upd_def merging_def)
qed

subsection \<open>The inner loops\<close>

lemma move_before_ok:
  assumes "merging os us st i k rs" and "k < length us"
  defines "n \<equiv> length (takeWhile (before_key (drop k us)) (drop i os))"
  shows "\<exists>st'. move_before (length os) st h = Some (True, st', h) \<and>
           merging os us st' (i + n) k (rs @ takeWhile (before_key (drop k us)) (drop i os))"
  unfolding n_def using assms(1)
proof (induction "length os - i" arbitrary: i st rs)
  case 0
  then have "old_pos st = length os" "i = length os" by (auto simp: merging_def)
  then show ?case using 0 by (subst move_before.simps) simp
next
  case (Suc x)
  then have i: "i < length os" "old_pos st = i" by (auto simp: merging_def)
  have hd: "hd (drop k us) = us ! k" using assms(2) by (rule hd_drop_conv_nth)
  have c: "compare_slots (old_slot st) (upd_slot st) = Some (string_pair_compare (os ! i) (us ! k))"
    by (simp add: compare_slots_def old_slot_at [OF Suc.prems i(1)] upd_slot_at [OF Suc.prems assms(2)])
  have d: "drop i os = os ! i # drop (Suc i) os" using i(1) by (simp add: Cons_nth_drop_Suc)
  show ?case
  proof (cases "string_pair_compare (os ! i) (us ! k) < 0")
    case True
    from put_old_ok [OF Suc.prems i(1), of h] obtain st1 where
      st1: "put_old st h = Some (True, st1, h)" "merging os us st1 (Suc i) k (rs @ [os ! i])" by blast
    have "x = length os - Suc i" using Suc.hyps(2) by simp
    from Suc.hyps(1) [OF this st1(2)] show ?thesis
      using True i c st1(1) by (subst move_before.simps) (simp add: d hd)
  next
    case False
    then show ?thesis using i c Suc.prems by (subst move_before.simps) (simp add: d hd)
  qed
qed

lemma drop_equal_ok:
  assumes "merging os us st i k rs" and "k < length us"
  defines "n \<equiv> length (takeWhile (same_key (drop k us)) (drop i os))"
  shows "\<exists>st' h'. drop_equal (length os) st h = Some (st', h') \<and> merging os us st' (i + n) k rs \<and>
           live h' = live h - 3 * int n"
  unfolding n_def using assms(1)
proof (induction "length os - i" arbitrary: i st h)
  case 0
  then have "old_pos st = length os" "i = length os" by (auto simp: merging_def)
  then show ?case using 0 by (subst drop_equal.simps) simp
next
  case (Suc x)
  then have i: "i < length os" "old_pos st = i" by (auto simp: merging_def)
  have hd: "hd (drop k us) = us ! k" using assms(2) by (rule hd_drop_conv_nth)
  have c: "compare_slots (old_slot st) (upd_slot st) = Some (string_pair_compare (os ! i) (us ! k))"
    by (simp add: compare_slots_def old_slot_at [OF Suc.prems i(1)] upd_slot_at [OF Suc.prems assms(2)])
  have d: "drop i os = os ! i # drop (Suc i) os" using i(1) by (simp add: Cons_nth_drop_Suc)
  show ?case
  proof (cases "string_pair_compare (os ! i) (us ! k) = 0")
    case True
    have "grar_holds (ga_old st) (replicate i None @ map Some (drop i os))" using Suc.prems by (simp add: merging_def)
    from clear_slot [OF this i(1)] obtain g' where
      g': "grar_set_element (ga_old st) i None = Some g'"
        "grar_holds g' (replicate (Suc i) None @ map Some (drop (Suc i) os))" by blast
    let ?st = "st\<lparr>ga_old := g', old_pos := Suc i\<rparr>" and ?h = "mfree (mfree (mfree h))"
    have m: "merging os us ?st (Suc i) k rs" using Suc.prems g'(2) i by (simp add: merging_def)
    have "x = length os - Suc i" using Suc.hyps(2) by simp
    from Suc.hyps(1) [OF this m, of ?h] obtain st2 h2 where
      "drop_equal (length os) ?st ?h = Some (st2, h2)"
      "merging os us st2 (Suc i + length (takeWhile (same_key (drop k us)) (drop (Suc i) os))) k rs"
      "live h2 = live ?h - 3 * int (length (takeWhile (same_key (drop k us)) (drop (Suc i) os)))"
      by blast
    then show ?thesis
      using True i c g'(1) old_slot_at [OF Suc.prems i(1)]
      by (subst drop_equal.simps) (simp add: d hd string_pair_dtor_def mfree_def)
  next
    case False
    then show ?thesis using i c Suc.prems by (subst drop_equal.simps) (simp add: d hd)
  qed
qed

lemma move_run_ok:
  fixes u
  assumes "merging os us st i k rs"
  defines "n \<equiv> length (takeWhile (\<lambda>p. string_pair_compare p u = 0) (drop k us))"
  shows "\<exists>st'. move_run (length us) (Some u) st h = Some (True, st', h) \<and>
           merging os us st' i (k + n) (rs @ takeWhile (\<lambda>p. string_pair_compare p u = 0) (drop k us))"
  unfolding n_def using assms(1)
proof (induction "length us - k" arbitrary: k st rs)
  case 0
  then have "upd_pos st = length us" "k = length us" by (auto simp: merging_def)
  then show ?case using 0 by (subst move_run.simps) simp
next
  case (Suc x)
  then have k: "k < length us" "upd_pos st = k" by (auto simp: merging_def)
  have c: "compare_slots (upd_slot st) (Some (Some u)) = Some (string_pair_compare (us ! k) u)"
    by (simp add: compare_slots_def upd_slot_at [OF Suc.prems k(1)])
  have d: "drop k us = us ! k # drop (Suc k) us" using k(1) by (simp add: Cons_nth_drop_Suc)
  show ?case
  proof (cases "string_pair_compare (us ! k) u = 0")
    case True
    from put_upd_ok [OF Suc.prems k(1), of h] obtain st1 where
      st1: "put_upd st h = Some (True, st1, h)" "merging os us st1 i (Suc k) (rs @ [us ! k])" by blast
    have "x = length us - Suc k" using Suc.hyps(2) by simp
    from Suc.hyps(1) [OF this st1(2)] show ?thesis
      using True k c st1(1) by (subst move_run.simps) (simp add: d)
  next
    case False
    then show ?thesis using k c Suc.prems by (subst move_run.simps) (simp add: d)
  qed
qed

lemma move_rest_old_ok:
  assumes "merging os us st i k rs"
  shows "\<exists>st'. move_rest_old (length os) st h = Some (True, st', h) \<and>
           merging os us st' (length os) k (rs @ drop i os)"
  using assms
proof (induction "length os - i" arbitrary: i st rs)
  case 0
  then have "old_pos st = length os" "i = length os" by (auto simp: merging_def)
  then show ?case using 0 by (subst move_rest_old.simps) simp
next
  case (Suc x)
  then have i: "i < length os" "old_pos st = i" by (auto simp: merging_def)
  from put_old_ok [OF Suc.prems i(1), of h] obtain st1 where
    st1: "put_old st h = Some (True, st1, h)" "merging os us st1 (Suc i) k (rs @ [os ! i])" by blast
  have "x = length os - Suc i" using Suc.hyps(2) by simp
  from Suc.hyps(1) [OF this st1(2)] show ?case
    using i st1(1) by (subst move_rest_old.simps) (simp add: Cons_nth_drop_Suc)
qed

lemma move_rest_upd_ok:
  assumes "merging os us st i k rs"
  shows "\<exists>st'. move_rest_upd (length us) st h = Some (True, st', h) \<and>
           merging os us st' i (length us) (rs @ drop k us)"
  using assms
proof (induction "length us - k" arbitrary: k st rs)
  case 0
  then have "upd_pos st = length us" "k = length us" by (auto simp: merging_def)
  then show ?case using 0 by (subst move_rest_upd.simps) simp
next
  case (Suc x)
  then have k: "k < length us" "upd_pos st = k" by (auto simp: merging_def)
  from put_upd_ok [OF Suc.prems k(1), of h] obtain st1 where
    st1: "put_upd st h = Some (True, st1, h)" "merging os us st1 i (Suc k) (rs @ [us ! k])" by blast
  have "x = length us - Suc k" using Suc.hyps(2) by simp
  from Suc.hyps(1) [OF this st1(2)] show ?case
    using k st1(1) by (subst move_rest_upd.simps) (simp add: Cons_nth_drop_Suc)
qed

subsection \<open>The outer loop\<close>

lemma drop_takeWhile: "drop (i + length (takeWhile P (drop i xs))) xs = dropWhile P (drop i xs)"
  by (simp add: dropWhile_eq_drop add.commute)

lemma takeWhile_dropWhile_length: "length (takeWhile P xs) + length (dropWhile P xs) = length xs"
  by (metis length_append takeWhile_dropWhile_id)

lemma update_loop_end: "merging os us st i (length us) rs \<Longrightarrow> update_loop n (length us) st h = Some (True, st, h)"
  by (subst update_loop.simps) (simp add: merging_def)

lemma accounting:
  "m = a + b + r \<Longrightarrow> x = a + c + p \<Longrightarrow> y = b + q \<Longrightarrow> l' = l - 3 * int c \<Longrightarrow>
   l'' = l' - 3 * (int p + int q - int r) \<Longrightarrow> l'' = l - 3 * (int x + int y - int m)"
  by simp

lemma accounting_end:
  "m = a + b + p \<Longrightarrow> x = a + c + p \<Longrightarrow> y = b + q \<Longrightarrow> l' = l - 3 * int c \<Longrightarrow> q = 0 \<Longrightarrow>
   l' = l - 3 * (int x + int y - int m)"
  "m = a + b + q \<Longrightarrow> x = a + c + p \<Longrightarrow> y = b + q \<Longrightarrow> l' = l - 3 * int c \<Longrightarrow> p = 0 \<Longrightarrow>
   l' = l - 3 * (int x + int y - int m)"
  by simp_all

lemma update_loop_ok:
  assumes "merging os us st i k rs" and "k < length us"
  shows "\<exists>st' h'. update_loop (length os) (length us) st h = Some (True, st', h') \<and>
           merging os us st' (length os) (length us) (rs @ merged (drop i os) (drop k us)) \<and>
           live h' = live h - 3 * (int (length os - i) + int (length us - k) - int (length (merged (drop i os) (drop k us))))"
  using assms
proof (induction "length us - k" arbitrary: i k rs st h rule: less_induct)
  case less
  let ?os = "drop i os" and ?us = "drop k us"
  let ?a = "takeWhile (before_key ?us) ?os" and ?b = "takeWhile (same_key ?us) ?us"
  let ?os1 = "dropWhile (before_key ?us) ?os"
  let ?c = "takeWhile (same_key ?us) ?os1"
  have us: "?us \<noteq> []" "hd ?us = us ! k" using less.prems(2) by (simp_all add: hd_drop_conv_nth)
  have pos: "old_pos st = i" "upd_pos st = k" using less.prems(1) by (simp_all add: merging_def)
  have ok: "slots_ok (length os) st"
    using old_slot_at [OF less.prems(1)] upd_slot_at [OF less.prems] pos by (simp add: slots_ok_def)
  obtain st1 where 1: "move_before (length os) st h = Some (True, st1, h)"
    "merging os us st1 (i + length ?a) k (rs @ ?a)"
    using move_before_ok [OF less.prems] by blast
  obtain st2 h2 where 2: "drop_equal (length os) st1 h = Some (st2, h2)"
    "merging os us st2 (i + length ?a + length ?c) k (rs @ ?a)" "live h2 = live h - 3 * int (length ?c)"
    using drop_equal_ok [OF 1(2) less.prems(2)] by (metis drop_takeWhile)
  note sp = upd_slot_at [OF 2(2) less.prems(2)]
  let ?i = "i + length ?a + length ?c" and ?k = "k + length ?b"
  obtain st3 where 3: "move_run (length us) (Some (us ! k)) st2 h2 = Some (True, st3, h2)"
    "merging os us st3 ?i ?k ((rs @ ?a) @ ?b)"
    using move_run_ok [OF 2(2), of "us ! k" h2] us(2) by auto
  have os': "drop ?i os = old_rest ?os ?us" using drop_takeWhile [of "i + length ?a" "same_key ?us" os] unfolding drop_takeWhile .
  have us': "drop ?k us = upd_rest ?us" by (rule drop_takeWhile)
  have pos3: "old_pos st3 = ?i" "upd_pos st3 = ?k" "?i \<le> length os" "?k \<le> length us"
    using 3(2) by (simp_all add: merging_def)
  have bl: "length ?b > 0" using us by (cases ?us) (simp_all add: string_pair_compare_def)
  have len: "length ?os = length ?a + length ?c + length (old_rest ?os ?us)"
    "length ?us = length ?b + length (upd_rest ?us)"
    using takeWhile_dropWhile_length [of "before_key ?us" ?os] takeWhile_dropWhile_length [of "same_key ?us" ?os1]
      takeWhile_dropWhile_length [of "same_key ?us" ?us] by linarith+
  note M = merged.simps [of ?os ?us]
  note unf = update_loop.simps [of "length os" "length us" st h]
  have run: "update_loop (length os) (length us) st h =
      do { (ok, st, h) \<leftarrow> (if ?k = length us then move_rest_old (length os) st3 h2
                            else if ?i = length os then move_rest_upd (length us) st3 h2
                            else Some (True, st3, h2));
           if \<not> ok then Some (False, st, h) else update_loop (length os) (length us) st h }"
    using ok 1(1) 2(1) 3(1) sp pos pos3(1,2) less.prems(2) by (subst unf) simp
  consider (upd) "?k = length us" | (old) "?k \<noteq> length us" "?i = length os"
    | (both) "?k < length us" "?i \<noteq> length os" using pos3(4) by linarith
  then show ?case
  proof cases
    case upd
    have e: "upd_rest ?us = []" unfolding us' [symmetric] upd by simp
    obtain st4 where 4: "move_rest_old (length os) st3 h2 = Some (True, st4, h2)"
      "merging os us st4 (length os) ?k (((rs @ ?a) @ ?b) @ drop ?i os)"
      using move_rest_old_ok [OF 3(2)] by blast
    have m: "merged ?os ?us = ?a @ ?b @ drop ?i os" unfolding os' by (subst M) (simp only: us(1) e if_False if_True simp_thms)
    have U: "update_loop (length os) (length us) st h = Some (True, st4, h2)"
      using run 4 upd update_loop_end [of os us st4 "length os"] by simp
    have lm: "length (merged ?os ?us) = length ?a + length ?b + length (old_rest ?os ?us)"
      unfolding m os' length_append by simp
    have z: "length (upd_rest ?us) = 0" unfolding e by simp
    show ?thesis using U accounting_end(1) [OF lm len 2(3) z] 4(2) unfolding m append_assoc upd length_drop by blast
  next
    case old
    have e: "old_rest ?os ?us = []" unfolding os' [symmetric] old(2) by simp
    have e2: "upd_rest ?us \<noteq> []" unfolding us' [symmetric] using old(1) pos3(4) by simp
    obtain st4 where 4: "move_rest_upd (length us) st3 h2 = Some (True, st4, h2)"
      "merging os us st4 ?i (length us) (((rs @ ?a) @ ?b) @ drop ?k us)"
      using move_rest_upd_ok [OF 3(2)] by blast
    have m: "merged ?os ?us = ?a @ ?b @ drop ?k us" unfolding us' by (subst M) (simp only: us(1) e e2 if_False if_True simp_thms)
    have U: "update_loop (length os) (length us) st h = Some (True, st4, h2)"
      using run 4 old update_loop_end [of os us st4 ?i] by simp
    have lm: "length (merged ?os ?us) = length ?a + length ?b + length (upd_rest ?us)"
      unfolding m us' length_append by simp
    have z: "length (old_rest ?os ?us) = 0" unfolding e by simp
    show ?thesis using U accounting_end(2) [OF lm len 2(3) z] 4(2) unfolding m append_assoc old(2) length_drop by blast
  next
    case both
    have e: "old_rest ?os ?us \<noteq> []" "upd_rest ?us \<noteq> []"
      unfolding os' [symmetric] us' [symmetric] using both pos3(3) by simp_all
    have m: "merged ?os ?us = ?a @ ?b @ merged (drop ?i os) (drop ?k us)" unfolding us' os' by (subst M) (simp only: us(1) e if_False)
    have "length us - ?k < length us - k" using bl both(1) by linarith
    from less.hyps [OF this 3(2) both(1), of h2] obtain st4 h4 where
      4: "update_loop (length os) (length us) st3 h2 = Some (True, st4, h4)"
      "merging os us st4 (length os) (length us) (((rs @ ?a) @ ?b) @ merged (drop ?i os) (drop ?k us))"
      "live h4 = live h2 - 3 * (int (length os - ?i) + int (length us - ?k) - int (length (merged (drop ?i os) (drop ?k us))))"
      by blast
    have U: "update_loop (length os) (length us) st h = Some (True, st4, h4)" using run 4(1) both by simp
    have ln: "length os - ?i = length (old_rest ?os ?us)" "length us - ?k = length (upd_rest ?us)"
      unfolding os' [symmetric] us' [symmetric] by simp_all
    have lm: "length (merged ?os ?us) = length ?a + length ?b + length (merged (drop ?i os) (drop ?k us))"
      unfolding m length_append by simp
    show ?thesis using U accounting [OF lm len 2(3) 4(3) [unfolded ln]] 4(2) unfolding m append_assoc length_drop by blast
  qed
qed

subsection \<open>Merging lists in the order of keys\<close>

abbreviation kcode :: "TStringPair \<Rightarrow> nat list" where
  "kcode p \<equiv> codes (pkey p)"

lemma compare_code:
  "string_pair_compare p q < 0 \<longleftrightarrow> kcode p < kcode q" "string_pair_compare p q = 0 \<longleftrightarrow> kcode p = kcode q"
  by (simp_all add: pair_compare_strcmp strcmp_less strcmp_0 codes_eq)

lemma by_key_filter:
  assumes "by_key xs" and "\<And>x y. kcode x \<le> kcode y \<Longrightarrow> P y \<Longrightarrow> P x"
  shows "takeWhile P xs = filter P xs" and "dropWhile P xs = filter (\<lambda>x. \<not> P x) xs"
proof -
  have "filter P xs = takeWhile P xs \<and> filter (\<lambda>x. \<not> P x) xs = dropWhile P xs"
    using assms(1)
  proof (induction xs)
    case (Cons x xs)
    have "\<not> P x \<Longrightarrow> \<forall>y\<in>set xs. \<not> P y" using Cons.prems assms(2) by auto
    with Cons show ?case by (auto simp: filter_empty_conv filter_id_conv)
  qed simp
  then show "takeWhile P xs = filter P xs" and "dropWhile P xs = filter (\<lambda>x. \<not> P x) xs" by simp_all
qed

lemma by_key_rests:
  assumes "by_key os" and "by_key us" and "us \<noteq> []"
  shows "takeWhile (before_key us) os = filter (\<lambda>p. kcode p < kcode (hd us)) os"
    and "old_rest os us = filter (\<lambda>p. kcode (hd us) < kcode p) os"
    and "takeWhile (same_key us) us = filter (\<lambda>p. kcode p = kcode (hd us)) us"
    and "upd_rest us = filter (\<lambda>p. kcode (hd us) < kcode p) us"
    and "\<And>p. p \<in> set us \<Longrightarrow> kcode (hd us) \<le> kcode p"
proof -
  show hd: "kcode (hd us) \<le> kcode p" if "p \<in> set us" for p
    using assms(2,3) that by (cases us) auto
  let ?os1 = "filter (\<lambda>p. \<not> kcode p < kcode (hd us)) os"
  show "takeWhile (before_key us) os = filter (\<lambda>p. kcode p < kcode (hd us)) os"
    unfolding compare_code using assms(1) by (rule by_key_filter) (rule le_less_trans)
  have 1: "dropWhile (before_key us) os = ?os1"
    unfolding compare_code using assms(1) by (rule by_key_filter) (rule le_less_trans)
  have s1: "by_key ?os1" using assms(1) by (rule sorted_wrt_filter)
  have eq: "dropWhile (same_key us) xs = filter (\<lambda>p. kcode (hd us) < kcode p) xs \<and>
      takeWhile (same_key us) xs = filter (\<lambda>p. kcode p = kcode (hd us)) xs"
    if s: "by_key xs" and h: "\<forall>p\<in>set xs. kcode (hd us) \<le> kcode p" for xs
  proof -
    have c: "same_key us p = (kcode p \<le> kcode (hd us))" if "p \<in> set xs" for p
      using h that by (auto simp: compare_code)
    have "dropWhile (same_key us) xs = dropWhile (\<lambda>p. kcode p \<le> kcode (hd us)) xs"
      "takeWhile (same_key us) xs = takeWhile (\<lambda>p. kcode p \<le> kcode (hd us)) xs"
      by (rule dropWhile_cong takeWhile_cong; simp only: c)+
    moreover have "dropWhile (\<lambda>p. kcode p \<le> kcode (hd us)) xs = filter (\<lambda>p. \<not> kcode p \<le> kcode (hd us)) xs"
      "takeWhile (\<lambda>p. kcode p \<le> kcode (hd us)) xs = filter (\<lambda>p. kcode p \<le> kcode (hd us)) xs"
      by (rule by_key_filter [OF s]; erule (1) order_trans)+
    moreover have "filter (\<lambda>p. kcode p \<le> kcode (hd us)) xs = filter (\<lambda>p. kcode p = kcode (hd us)) xs"
      by (rule filter_cong) (use h in \<open>auto intro: order_antisym\<close>)
    ultimately show ?thesis by (simp only: not_le)
  qed
  have h1: "\<forall>p\<in>set ?os1. kcode (hd us) \<le> kcode p" by (simp add: not_less)
  have "filter (\<lambda>p. kcode (hd us) < kcode p) ?os1 = filter (\<lambda>p. kcode (hd us) < kcode p) os"
    unfolding filter_filter by (rule filter_cong) auto
  then show "old_rest os us = filter (\<lambda>p. kcode (hd us) < kcode p) os"
    unfolding 1 using eq [OF s1 h1] by (simp only:)
  show "takeWhile (same_key us) us = filter (\<lambda>p. kcode p = kcode (hd us)) us"
    "upd_rest us = filter (\<lambda>p. kcode (hd us) < kcode p) us"
    using eq [OF assms(2)] hd by blast+
qed

lemma mset_filter_split: "mset (filter P xs) + mset (filter (\<lambda>x. \<not> P x) xs) = mset xs"
  by (induction xs) auto

lemma by_key_three:
  assumes "by_key xs" "by_key ys" "by_key zs"
    and "\<And>p. p \<in> set xs \<Longrightarrow> kcode p < u" "\<And>p. p \<in> set ys \<Longrightarrow> kcode p = u" "\<And>p. p \<in> set zs \<Longrightarrow> u < kcode p"
  shows "by_key (xs @ ys @ zs)"
proof -
  have "kcode p \<le> kcode q" if "p \<in> set xs" "q \<in> set ys \<union> set zs" for p q
    using assms(4) [OF that(1)] assms(5,6) [of q] that(2) by fastforce
  moreover have "kcode p \<le> kcode q" if "p \<in> set ys" "q \<in> set zs" for p q
    using assms(5) [OF that(1)] assms(6) [OF that(2)] by simp
  ultimately show ?thesis using assms(1-3) by (simp add: sorted_wrt_append)
qed

lemma merged_ok:
  assumes "by_key os" and "by_key us" and "us \<noteq> []"
  shows "mset (merged os us) = mset (filter (\<lambda>p. pkey p \<notin> pkey ` set us) os) + mset us \<and> by_key (merged os us)"
  using assms
proof (induction os us rule: merged.induct)
  case (1 os us)
  note R = by_key_rests [OF 1(2-4)]
  let ?u = "kcode (hd us)" and ?os = "old_rest os us" and ?us = "upd_rest us"
  let ?rest = "if ?us = [] then ?os else if ?os = [] then ?us else merged ?os ?us"
  have s: "by_key ?os" "by_key ?us" unfolding R(2,4) by (rule sorted_wrt_filter [OF 1(2)]) (rule sorted_wrt_filter [OF 1(3)])
  have rest: "mset ?rest = mset (filter (\<lambda>p. pkey p \<notin> pkey ` set ?us) ?os) + mset ?us" "by_key ?rest"
  proof -
    have "mset ?rest = mset (filter (\<lambda>p. pkey p \<notin> pkey ` set ?us) ?os) + mset ?us \<and> by_key ?rest"
    proof (cases "?us = []")
      case True
      then show ?thesis using s(1) by (simp only: True) simp
    next
      case us: False
      show ?thesis
      proof (cases "?os = []")
        case True
        then show ?thesis using s(2) us by (simp only: True us) simp
      next
        case False
        from 1(1) [OF 1(4) us False s us] show ?thesis by (simp only: us False if_False)
      qed
    qed
    then show "mset ?rest = mset (filter (\<lambda>p. pkey p \<notin> pkey ` set ?us) ?os) + mset ?us" "by_key ?rest" by blast+
  qed
  have "set ?rest \<subseteq> set ?os \<union> set ?us"
    using mset_eq_setD [of ?rest "filter (\<lambda>p. pkey p \<notin> pkey ` set ?us) ?os @ ?us"] rest(1) by auto
  then have above: "?u < kcode p" if "p \<in> set ?rest" for p using that unfolding R(2,4) by auto
  have M: "merged os us = filter (\<lambda>p. kcode p < ?u) os @ filter (\<lambda>p. kcode p = ?u) us @ ?rest"
    using 1(4) by (subst merged.simps) (simp only: R(1,3) if_False)
  have us: "mset us = mset (filter (\<lambda>p. kcode p = ?u) us) + mset ?us"
  proof -
    have "filter (\<lambda>p. \<not> kcode p = ?u) us = ?us" unfolding R(4)
    proof (rule filter_cong)
      fix p assume "p \<in> set us"
      from R(5) [OF this] show "(\<not> kcode p = ?u) = (?u < kcode p)" by (auto simp: le_less)
    qed simp
    then show ?thesis using mset_filter_split [of "\<lambda>p. kcode p = ?u" us] by simp
  qed
  have os: "mset (filter (\<lambda>p. pkey p \<notin> pkey ` set us) os) =
      mset (filter (\<lambda>p. kcode p < ?u) os) + mset (filter (\<lambda>p. pkey p \<notin> pkey ` set ?us) ?os)"
  proof -
    let ?P = "\<lambda>p. pkey p \<notin> pkey ` set us"
    have "filter (\<lambda>p. kcode p < ?u) (filter ?P os) = filter (\<lambda>p. kcode p < ?u) os"
      unfolding filter_filter
    proof (rule filter_cong)
      fix p
      have "?P p" if l: "kcode p < ?u"
      proof
        assume "pkey p \<in> pkey ` set us"
        then obtain q where "q \<in> set us" "pkey p = pkey q" by blast
        with R(5) [of q] l show False by simp
      qed
      then show "(?P p \<and> kcode p < ?u) = (kcode p < ?u)" by blast
    qed simp
    moreover have "filter (\<lambda>p. \<not> kcode p < ?u) (filter ?P os) = filter (\<lambda>p. pkey p \<notin> pkey ` set ?us) ?os"
      unfolding R(2,4) filter_filter
    proof (rule filter_cong)
      fix p
      have hd: "hd us \<in> set us" using 1(4) by simp
      show "(?P p \<and> \<not> kcode p < ?u) = (?u < kcode p \<and> pkey p \<notin> pkey ` set (filter (\<lambda>p. ?u < kcode p) us))"
      proof (cases "?u < kcode p")
        case True
        have "pkey p \<in> pkey ` set (filter (\<lambda>p. ?u < kcode p) us)" if k: "pkey p \<in> pkey ` set us"
        proof -
          from k obtain q where "q \<in> set us" "pkey p = pkey q" by (rule imageE)
          then have "q \<in> set (filter (\<lambda>p. ?u < kcode p) us)" using True by simp
          then show ?thesis unfolding \<open>pkey p = pkey q\<close> by (rule imageI)
        qed
        moreover have "pkey ` set (filter (\<lambda>p. ?u < kcode p) us) \<subseteq> pkey ` set us" by auto
        moreover have "\<not> kcode p < ?u" using True by simp
        ultimately show ?thesis using True by blast
      next
        case False
        then have "kcode p < ?u \<or> pkey p = pkey (hd us)" by (simp add: not_less le_less codes_eq)
        then have "\<not> (?P p \<and> \<not> kcode p < ?u)" using imageI [OF hd, of pkey] by fastforce
        then show ?thesis using False by blast
      qed
    qed simp
    ultimately show ?thesis using mset_filter_split [of "\<lambda>p. kcode p < ?u" "filter ?P os"] by simp
  qed
  have "by_key (filter (\<lambda>p. kcode p < ?u) os)" "by_key (filter (\<lambda>p. kcode p = ?u) us)"
    by (rule sorted_wrt_filter [OF 1(2)]) (rule sorted_wrt_filter [OF 1(3)])
  then have "by_key (merged os us)" unfolding M
    by (rule by_key_three [OF _ _ rest(2), of _ _ ?u]) (simp, simp, erule above)
  moreover have "mset (merged os us) = mset (filter (\<lambda>p. kcode p < ?u) os) + mset (filter (\<lambda>p. kcode p = ?u) us) + mset ?rest"
    unfolding M by (simp only: mset_append add.assoc)
  then have "mset (merged os us) = mset (filter (\<lambda>p. pkey p \<notin> pkey ` set us) os) + mset us"
    unfolding os us rest(1) by (simp only: ac_simps)
  ultimately show ?case by blast
qed

subsection \<open>The function\<close>

text \<open>
  When smap_update fails, it fails before anything has been moved: the room it has reserved
  makes every later addition succeed.
\<close>

lemma smap_update_ok:
  assumes o: "smap_holds sm os" "sortable sm os" and u: "smap_holds up us" "sortable up us"
    and len: "length os + length us \<le> 2 ^ 60"
  shows "\<exists>r sm' up' h' os' us'. smap_update qs sm up h = Some (r, sm', up', h') \<and>
           smap_holds sm' os' \<and> smap_holds up' us' \<and>
           (r \<and> us' = [] \<and> by_key os' \<and> mset os' = mset (filter (\<lambda>p. pkey p \<notin> pkey ` set us) os) + mset us \<and>
              live h' = live h - 3 * (int (length os) + int (length us) - int (length os')) \<or>
            \<not> r \<and> mset os' = mset os \<and> mset us' = mset us \<and> live h' = live h)"
proof -
  obtain sm1 os1 where so: "smap_sort qs sm = Some sm1" "smap_holds sm1 os1" "smap_sorted sm1" "by_key os1" "mset os1 = mset os"
    using smap_sort_ok [OF o, of qs] by blast
  obtain up1 us1 where su: "smap_sort qs up = Some up1" "smap_holds up1 us1" "smap_sorted up1" "by_key us1" "mset us1 = mset us"
    using smap_sort_ok [OF u, of qs] by blast
  have go: "grar_holds (container sm1) (map Some os1)" and gu: "grar_holds (container up1) (map Some us1)"
    using so(2) su(2) by (simp_all add: smap_holds_def)
  have n: "gsize (container sm1) = length os1" "gsize (container up1) = length us1"
    using grar_holds_bounds [OF go] grar_holds_bounds [OF gu] by simp_all
  have l: "length os1 = length os" "length us1 = length us" "set us1 = set us"
    using mset_eq_length [OF so(5)] mset_eq_length [OF su(5)] mset_eq_setD [OF su(5)] by simp_all
  have flt: "mset (filter P os1) = mset (filter P os)" for P by (simp only: mset_filter so(5))
  note defs = smap_update_def so(1) su(1) n
  consider (nil) "us1 = []" | (empty) "us1 \<noteq> []" "os1 = []" | (both) "us1 \<noteq> []" "os1 \<noteq> []" by blast
  then show ?thesis
  proof cases
    case nil
    then have "us = []" using l(2) by simp
    have "smap_update qs sm up h = Some (True, sm1, up1, h)" using nil by (simp add: defs)
    then show ?thesis using so(2,4,5) su(2) nil \<open>us = []\<close> l(1) by auto
  next
    case empty
    then have "os = []" using l(1) by simp
    let ?a = "fst (grar_swap (container sm1) (container up1))" and ?b = "snd (grar_swap (container sm1) (container up1))"
    have "smap_update qs sm up h = Some (True, sm1\<lparr>container := ?a\<rparr>, up1\<lparr>container := ?b\<rparr>, h)"
      using empty by (simp add: defs grar_swap_def)
    moreover have "smap_holds (sm1\<lparr>container := ?a\<rparr>) us1" "smap_holds (up1\<lparr>container := ?b\<rparr>) []"
      using go gu su(4) empty(2) grar_swap_ok [of "container sm1" "container up1"] by (simp_all add: smap_holds_def)
    ultimately show ?thesis using su(4,5) \<open>os = []\<close> l(2) by auto
  next
    case both
    obtain r h1 where r: "grar_create h = (r :: TStringPair CGrowingArray option, h1)"
      "case r of None \<Rightarrow> live h1 = live h | Some g \<Rightarrow> grar_holds g [] \<and> capacity g = 16 \<and> live h1 = live h + 1"
      using grar_create_ok by blast
    have w: "size_wrap (length os1 + length us1) = length os1 + length us1"
      "length os1 + length us1 \<le> 2 ^ 60" using len l by simp_all
    show ?thesis
    proof (cases r)
      case None
      then have "smap_update qs sm up h = Some (False, sm1, up1, h1)" using both r(1) by (simp add: defs)
      then show ?thesis using so(2,5) su(2,5) r(2) None by auto
    next
      case (Some g)
      with r(2) have g: "grar_holds g []" "live h1 = live h + 1" by simp_all
      obtain ok g1 h2 where rs: "grar_reserve g (length os1 + length us1) h1 = Some (ok, g1, h2)" "live h2 = live h1"
        "grar_holds g1 []" "ok \<Longrightarrow> length os1 + length us1 \<le> capacity g1"
        using grar_reserve_ok [OF g(1) w(2), of h1] by blast
      show ?thesis
      proof (cases ok)
        case False
        then have "smap_update qs sm up h = Some (False, sm1, up1, snd (grar_destroy g1 h2))"
          using both r(1) Some rs(1) by (simp add: defs w(1))
        moreover have "live (snd (grar_destroy g1 h2)) = live h"
          using rs(2,3) g(2) by (simp add: grar_destroy_ok mfree_def)
        ultimately show ?thesis using so(2,5) su(2,5) by blast
      next
        case True
        let ?st = "\<lparr>ga_old = container sm1, ga_upd = container up1, ga_res = g1, old_pos = 0, upd_pos = 0\<rparr>"
        have m: "merging os1 us1 ?st 0 0 []" "0 < length us1"
          using go gu rs(3,4) True both(1) by (simp_all add: merging_def)
        obtain st h3 where st: "update_loop (length os1) (length us1) ?st h2 = Some (True, st, h3)"
          "merging os1 us1 st (length os1) (length us1) (merged os1 us1)"
          "live h3 = live h2 - 3 * (int (length os1) + int (length us1) - int (length (merged os1 us1)))"
          using update_loop_ok [OF m, of h2] by (auto simp only: drop0 diff_zero append_Nil)
        have G: "grar_holds (ga_old st) (replicate (length os1) None)" "grar_holds (ga_upd st) (replicate (length us1) None)"
          "grar_holds (ga_res st) (map Some (merged os1 us1))" using st(2) by (simp_all add: merging_def)
        obtain a where a: "grar_clear (ga_old st) = Some a" "grar_holds a []" using grar_clear_ok [OF G(1)] by blast
        obtain b where b: "grar_clear (ga_upd st) = Some b" "grar_holds b []" using grar_clear_ok [OF G(2)] by blast
        let ?x = "fst (grar_swap a (ga_res st))" and ?y = "snd (grar_swap a (ga_res st))"
        have xy: "grar_holds ?x (map Some (merged os1 us1))" "grar_holds ?y []"
          unfolding grar_swap_ok by (rule G(3), rule a(2))
        have run: "smap_update qs sm up h =
            Some (True, sm1\<lparr>container := ?x\<rparr>, up1\<lparr>container := b\<rparr>, snd (grar_destroy ?y h3))"
          using both r(1) Some rs(1) True st(1) a(1) b(1) by (simp add: defs w(1) grar_swap_def)
        note mo = merged_ok [OF so(4) su(4) both(1)]
        have h1: "smap_holds (sm1\<lparr>container := ?x\<rparr>) (merged os1 us1)" using xy(1) mo by (simp add: smap_holds_def)
        have h2: "smap_holds (up1\<lparr>container := b\<rparr>) []" using b(2) by (simp add: smap_holds_def)
        have lv: "live (snd (grar_destroy ?y h3)) =
            live h - 3 * (int (length os) + int (length us) - int (length (merged os1 us1)))"
          unfolding grar_destroy_ok [OF xy(2)] using st(3) rs(2) g(2) l by (simp add: mfree_def)
        have ms: "mset (merged os1 us1) = mset (filter (\<lambda>p. pkey p \<notin> pkey ` set us) os) + mset us"
          using mo by (simp only: flt su(5) l(3))
        from run h1 h2 lv ms mo show ?thesis by blast
      qed
    qed
  qed
qed

subsection \<open>Clearing and destroying\<close>

lemma destroy_pairs:
  "\<exists>h'. destroy_elems string_pair_dtor (map Some ps) h = Some h' \<and> live h' = live h - 3 * int (length ps)"
proof (induction ps arbitrary: h)
  case (Cons p ps)
  from Cons.IH [of "mfree (mfree (mfree h))"] show ?case by (auto simp: string_pair_dtor_def mfree_def)
qed simp

lemma smap_clear_ok:
  assumes "smap_holds sm ps"
  shows "\<exists>sm' h'. smap_clear sm h = Some (sm', h') \<and> smap_holds sm' [] \<and> live h' = live h - 3 * int (length ps)"
proof -
  have g: "grar_holds (container sm) (map Some ps)" using assms by (simp add: smap_holds_def)
  obtain g' where "grar_clear (container sm) = Some g'" "grar_holds g' []" using grar_clear_ok [OF g] by blast
  then show ?thesis using destroy_pairs [of ps h] by (auto simp: smap_clear_def elements [OF g] smap_holds_def)
qed

lemma smap_destroy_ok:
  assumes "smap_holds sm ps"
  shows "\<exists>h'. smap_destroy sm h = Some h' \<and> live h' = live h - 3 * int (length ps) - 2"
proof -
  have g: "grar_holds (container sm) (map Some ps)" using assms by (simp add: smap_holds_def)
  show ?thesis using destroy_pairs [of ps h]
    by (auto simp: smap_destroy_def grar_destroy_with_elements_def elements [OF g] grar_destroy_ok [OF g] mfree_def)
qed

subsection \<open>Duplicate keys\<close>

lemma first_duplicate_ok:
  "by_key ps \<Longrightarrow> case first_duplicate ps of
     None \<Rightarrow> distinct (map pkey ps)
   | Some k \<Rightarrow> \<exists>i j. i < j \<and> j < length ps \<and> pkey (ps ! i) = k \<and> pkey (ps ! j) = k"
proof (induction ps rule: first_duplicate.induct)
  case (1 x y ys)
  show ?case
  proof (cases "pkey y = pkey x")
    case True
    then have "first_duplicate (x # y # ys) = Some (pkey y)" by (simp add: strcmp_0)
    moreover have "\<exists>i j. i < j \<and> j < length (x # y # ys) \<and> pkey ((x # y # ys) ! i) = pkey y \<and>
        pkey ((x # y # ys) ! j) = pkey y"
      by (rule exI [of _ 0], rule exI [of _ 1]) (simp add: True)
    ultimately show ?thesis by (simp only: option.case)
  next
    case False
    have s: "by_key (y # ys)" using 1(2) by simp
    have ne: "strcmp (pkey y) (pkey x) \<noteq> 0" using False by (simp add: strcmp_0)
    have "pkey x \<noteq> pkey p" if "p \<in> set ys" for p
    proof
      assume e: "pkey x = pkey p"
      have "kcode x \<le> kcode y" "kcode y \<le> kcode p" using 1(2) that by simp_all
      then have "kcode x = kcode y" using e by simp
      then show False using False by (simp add: codes_eq)
    qed
    then have "pkey x \<notin> pkey ` set (y # ys)" using False by auto
    moreover have "\<exists>i j. i < j \<and> j < length (x # y # ys) \<and> pkey ((x # y # ys) ! i) = k \<and> pkey ((x # y # ys) ! j) = k"
      if "i < j" "j < length (y # ys)" "pkey ((y # ys) ! i) = k" "pkey ((y # ys) ! j) = k" for i j k
      using that by (intro exI [of _ "Suc i"] exI [of _ "Suc j"]) simp
    ultimately show ?thesis using 1(1) [OF ne s] ne by (auto split: option.splits)
  qed
qed auto

lemma smap_check_ok:
  assumes "smap_holds sm ps" and "sortable sm ps"
  shows "\<exists>r sm' ps'. smap_check_duplicate_keys qs sm = Some (r, sm') \<and> smap_holds sm' ps' \<and> mset ps' = mset ps \<and>
           (case r of None \<Rightarrow> distinct (map pkey ps) | Some k \<Rightarrow> 2 \<le> count (image_mset pkey (mset ps)) k)"
proof -
  from smap_sort_ok [OF assms, of qs] obtain sm' ps' where
    s: "smap_sort qs sm = Some sm'" "smap_holds sm' ps'" "by_key ps'" "mset ps' = mset ps" by blast
  have "grar_elements (container sm') = Some (map Some ps')" using s(2) by (simp add: smap_holds_def elements)
  then have run: "smap_check_duplicate_keys qs sm = Some (first_duplicate ps', sm')"
    by (simp add: smap_check_duplicate_keys_def s(1))
  have "distinct (map pkey ps') = distinct (map pkey ps)"
    using mset_eq_imp_distinct_iff [of "map pkey ps'" "map pkey ps"] s(4) by simp
  moreover have "2 \<le> count (image_mset pkey (mset ps)) k"
    if "i < j" "j < length ps'" "pkey (ps' ! i) = k" "pkey (ps' ! j) = k" for i j k
  proof -
    have "{i, j} \<subseteq> {n. n < length (map pkey ps') \<and> k = map pkey ps' ! n}" using that by auto
    then have "card {i, j} \<le> card {n. n < length (map pkey ps') \<and> k = map pkey ps' ! n}" by (intro card_mono) auto
    then have "2 \<le> count_list (map pkey ps') k" using that(1) by (simp add: count_list_eq_length_filter length_filter_conv_card)
    then show ?thesis using s(4) by (metis count_mset mset_map)
  qed
  ultimately show ?thesis using first_duplicate_ok [OF s(3)] run s(2,4) by (auto split: option.splits)
qed

end
