(* ===== verification/Smap_Properties.thy ===== *)
theory Smap_Properties
  imports Smap_Update
begin

text \<open>
  The properties of the growing arrays and the string maps of the mist template engine, for
  every implementation of qsort and bsearch and whichever allocations fail.
\<close>

subsection \<open>Growing arrays\<close>

definition ex_array :: "nat CGrowingArray" where
  "ex_array = \<lparr>gdata = Some [Some (Some 5), Some None], gsize = 2, capacity = 2\<rparr>"

lemma ex_array_holds: "grar_holds ex_array [Some 5, None]"
  by (simp add: grar_holds_def ex_array_def)

text \<open>C37: Reserving room in a growing array returns: the loop that doubles the capacity ends for
  every request of up to 2^60 elements, and then the array has the room and keeps its elements,
  or the allocation failed and the array is as it was.  For a capacity that is a power of two
  and a request above 2^63 elements, and for every request to an array that was destroyed, the
  loop never ends.\<close>

theorem grar_reserve_returns:
  assumes "grar_holds g es"
  shows "(n \<le> 2 ^ 60 \<longrightarrow>
            (\<exists>r g' h'. grar_reserve g n h = Some (r, g', h') \<and> live h' = live h \<and> grar_holds g' es \<and>
               (r \<and> n \<le> capacity g' \<or> \<not> r \<and> g' = g))) \<and>
         (2 ^ 63 < n \<and> (\<exists>k. capacity g = 2 ^ k) \<longrightarrow> grar_reserve g n h = None) \<and>
         (0 < n \<longrightarrow> grar_reserve (fst (grar_destroy g h)) n h' = None)"
proof (intro conjI impI)
  assume "n \<le> 2 ^ 60"
  from grar_reserve_ok [OF assms this, of h]
  show "\<exists>r g' h'. grar_reserve g n h = Some (r, g', h') \<and> live h' = live h \<and> grar_holds g' es \<and>
      (r \<and> n \<le> capacity g' \<or> \<not> r \<and> g' = g)" by blast
next
  assume "2 ^ 63 < n \<and> (\<exists>k. capacity g = 2 ^ k)"
  then obtain k where n: "2 ^ 63 < n" and k: "capacity g = 2 ^ k" by blast
  have c: "capacity g < 2 ^ 61" using grar_holds_bounds [OF assms] by blast
  then have "k < 61" unfolding k by (rule power_less_imp_less_exp [rotated]) simp
  then have "grow_capacity (capacity g) n = None" using grow_capacity_diverges [of "capacity g" n] n k by auto
  then show "grar_reserve g n h = None" using n c by (simp add: grar_reserve_def)
next
  assume "0 < n"
  then have "grow_capacity 0 n = None" by (intro grow_capacity_diverges) simp
  then show "grar_reserve (fst (grar_destroy g h)) n h' = None"
    using \<open>0 < n\<close> by (simp add: grar_destroy_ok [OF assms] grar_reserve_def)
qed

theorem grar_reserve_returns_witness:
  "(\<exists>r g' h'. grar_reserve ex_array 100 \<lparr>outcomes = [True], live = 1\<rparr> = Some (r, g', h') \<and>
       grar_holds g' [Some 5, None] \<and> (r \<and> 100 \<le> capacity g' \<or> \<not> r \<and> g' = ex_array)) \<and>
   grar_reserve ex_array (2 ^ 63 + 1) \<lparr>outcomes = [True], live = 1\<rparr> = None"
proof -
  have "capacity ex_array = 2 ^ 1" by (simp add: ex_array_def)
  then have "\<exists>k. capacity ex_array = 2 ^ k" by blast
  then show ?thesis
    using grar_reserve_returns [OF ex_array_holds, of 100 "\<lparr>outcomes = [True], live = 1\<rparr>"]
      grar_reserve_returns [OF ex_array_holds, of "2 ^ 63 + 1" "\<lparr>outcomes = [True], live = 1\<rparr>"]
    by (simp add: less_le) blast
qed

subsection \<open>String maps\<close>

abbreviation ex_pair :: "char list \<Rightarrow> char list \<Rightarrow> TStringPair" where
  "ex_pair k v \<equiv> \<lparr>pkey = k, pval = v\<rparr>"

definition ex_pairs :: "TStringPair list" where
  "ex_pairs = [ex_pair ''name'' ''x'', ex_pair ''file'' ''y'']"

definition ex_pairs2 :: "TStringPair list" where
  "ex_pairs2 = [ex_pair ''file'' ''z'']"

definition ex_map2 :: CStringMap where
  "ex_map2 = \<lparr>container = \<lparr>gdata = Some (map (\<lambda>p. Some (Some p)) ex_pairs2), gsize = 1, capacity = 1\<rparr>,
              smap_sorted = True\<rparr>"

definition ex_map :: CStringMap where
  "ex_map = \<lparr>container = \<lparr>gdata = Some (map (\<lambda>p. Some (Some p)) ex_pairs @ [None]), gsize = 2, capacity = 3\<rparr>,
             smap_sorted = False\<rparr>"

lemma ex_map_holds: "smap_holds ex_map ex_pairs" "distinct (map pkey ex_pairs)" "length ex_pairs = 2"
  by (simp_all add: smap_holds_def grar_holds_def ex_map_def ex_pairs_def)

lemma ex_map2_holds: "smap_holds ex_map2 ex_pairs2" "length ex_pairs2 = 1" "distinct (map pkey ex_pairs2)"
  by (simp_all add: smap_holds_def grar_holds_def ex_map2_def ex_pairs2_def)

text \<open>The finite map that a list of pairs with distinct keys is.\<close>

definition pairs_map :: "TStringPair list \<Rightarrow> char list \<rightharpoonup> char list" where
  "pairs_map ps = map_of (map (\<lambda>p. (pkey p, pval p)) ps)"

lemma pairs_map_Some: "distinct (map pkey ps) \<Longrightarrow> pairs_map ps k = Some v \<longleftrightarrow> ex_pair k v \<in> set ps"
proof -
  assume "distinct (map pkey ps)"
  then have "distinct (map fst (map (\<lambda>p. (pkey p, pval p)) ps))" by (simp add: comp_def)
  then have "pairs_map ps k = Some v \<longleftrightarrow> (k, v) \<in> set (map (\<lambda>p. (pkey p, pval p)) ps)"
    by (simp only: pairs_map_def map_of_eq_Some_iff)
  also have "\<dots> \<longleftrightarrow> (\<exists>p\<in>set ps. pkey p = k \<and> pval p = v)" by auto
  also have "\<dots> \<longleftrightarrow> ex_pair k v \<in> set ps" by (metis TStringPair.surjective TStringPair.select_convs old.unit.exhaust)
  finally show ?thesis .
qed

lemma pairs_map_None: "pairs_map ps k = None \<longleftrightarrow> k \<notin> pkey ` set ps"
  by (simp add: pairs_map_def map_of_eq_None_iff image_image)

lemma pairs_map_eqI:
  assumes "distinct (map pkey ps)" and "\<And>k v. ex_pair k v \<in> set ps \<longleftrightarrow> m k = Some v"
  shows "pairs_map ps = m"
proof
  fix k
  show "pairs_map ps k = m k"
    using pairs_map_Some [OF assms(1)] assms(2) by (metis not_Some_eq)
qed

lemma pairs_map_mset:
  assumes "distinct (map pkey ps)" and "mset ps' = mset ps"
  shows "distinct (map pkey ps')" and "pairs_map ps' = pairs_map ps"
proof -
  show d: "distinct (map pkey ps')"
    using mset_eq_imp_distinct_iff [of "map pkey ps'" "map pkey ps"] assms by simp
  show "pairs_map ps' = pairs_map ps"
    by (rule pairs_map_eqI [OF d]) (use mset_eq_setD [OF assms(2)] pairs_map_Some [OF assms(1)] in auto)
qed

lemma pairs_map_add:
  assumes "distinct (map pkey ps)" and "k \<notin> pkey ` set ps" and "mset ps' = add_mset (ex_pair k v) (mset ps)"
  shows "distinct (map pkey ps') \<and> pairs_map ps' = (pairs_map ps)(k \<mapsto> v)"
proof -
  have 1: "mset ps' = mset (ex_pair k v # ps)" "distinct (map pkey (ex_pair k v # ps))" using assms by auto
  have "pairs_map (ex_pair k v # ps) = (pairs_map ps)(k \<mapsto> v)" by (simp add: pairs_map_def)
  then show ?thesis using pairs_map_mset [OF 1(2,1)] by simp
qed

lemma pairs_map_set:
  assumes "distinct (map pkey ps)" and "ex_pair k w \<in> set ps"
    and "mset ps' = add_mset (ex_pair k v) (mset ps - {#ex_pair k w#})"
  shows "distinct (map pkey ps') \<and> pairs_map ps' = (pairs_map ps)(k \<mapsto> v)"
proof -
  let ?qs = "remove1 (ex_pair k w) ps"
  have m: "mset ps = mset (ex_pair k w # ?qs)" using assms(2) by simp
  have d: "distinct (map pkey (ex_pair k w # ?qs))" by (rule pairs_map_mset(1) [OF assms(1)]) (simp only: m)
  have "mset ps' = add_mset (ex_pair k v) (mset ?qs)" using assms(3) by simp
  then have "distinct (map pkey ps') \<and> pairs_map ps' = (pairs_map ?qs)(k \<mapsto> v)"
    using pairs_map_add [of ?qs k ps' v] d by simp
  moreover have "pairs_map ps = (pairs_map ?qs)(k \<mapsto> w)"
    using pairs_map_mset(2) [OF d m] by (simp add: pairs_map_def)
  ultimately show ?thesis by simp
qed

text \<open>C32: Updating a map with another one, each with distinct keys (the order the maps are sorted in
  is only defined then), gives, in the strict order of the keys, all pairs of the other map and
  those pairs of the map whose keys the other does not have: as finite maps, the map overridden
  by the other one.  The other map is empty afterwards, and the pairs that were replaced are
  freed.  When it fails both maps still hold all their pairs (the header gives up both), because
  the merge cannot run out of memory.\<close>

theorem smap_update_merges:
  assumes "smap_holds sm os" and "distinct (map pkey os)"
    and "smap_holds up us" and "distinct (map pkey us)" and "length os + length us \<le> 2 ^ 60"
  shows "\<exists>r sm' up' h' os' us'. smap_update qs sm up h = Some (r, sm', up', h') \<and>
           smap_holds sm' os' \<and> smap_holds up' us' \<and>
           (r \<and> us' = [] \<and> sorted_wrt (<) (map (\<lambda>p. map of_char (pkey p) :: nat list) os') \<and>
              pairs_map os' = pairs_map os ++ pairs_map us \<and>
              mset os' = mset (filter (\<lambda>p. pkey p \<notin> pkey ` set us) os) + mset us \<and>
              live h' = live h - 3 * (int (length os) + int (length us) - int (length os')) \<or>
            \<not> r \<and> mset os' = mset os \<and> mset us' = mset us \<and> live h' = live h)"
proof -
  have so: "sortable sm os" "sortable up us" using assms(2,4) by (simp_all add: sortable_def)
  have D: "sorted_wrt (<) (map (\<lambda>p. codes (pkey p)) os') \<and> pairs_map os' = pairs_map os ++ pairs_map us"
    if m: "mset os' = mset (filter (\<lambda>p. pkey p \<notin> pkey ` set us) os) + mset us" and b: "by_key os'" for os'
  proof -
    let ?os = "filter (\<lambda>p. pkey p \<notin> pkey ` set us) os"
    have m': "mset os' = mset (us @ ?os)" using m by simp
    have d: "distinct (map pkey (us @ ?os))" using assms(2,4) by (auto simp: distinct_map_filter image_iff)
    note P = pairs_map_mset [OF d m']
    have "distinct (map codes (map pkey os'))" using P(1) by (simp add: distinct_map inj_on_def codes_eq)
    then have "sorted_wrt (<) (map (\<lambda>p. codes (pkey p)) os')"
      using b by (simp add: strict_sorted_iff sorted_map comp_def)
    moreover have "pairs_map (us @ ?os) = pairs_map os ++ pairs_map us"
    proof (rule pairs_map_eqI [OF d])
      fix k v
      show "ex_pair k v \<in> set (us @ ?os) \<longleftrightarrow> (pairs_map os ++ pairs_map us) k = Some v"
        using pairs_map_Some [OF assms(2), of k v] pairs_map_Some [OF assms(4), of k v]
          pairs_map_None [of us k] by (force simp: map_add_Some_iff)
    qed
    ultimately show ?thesis using P(2) by simp
  qed
  show ?thesis
    using smap_update_ok [OF assms(1) so(1) assms(3) so(2) assms(5), of qs h] D by blast
qed

theorem smap_update_merges_witness:
  "\<exists>r sm' up' h' os' us'. smap_update insertion_qsort ex_map ex_map2 \<lparr>outcomes = [True], live = 13\<rparr> =
       Some (r, sm', up', h') \<and> smap_holds sm' os' \<and> smap_holds up' us' \<and>
     (r \<and> us' = [] \<and> mset os' = {#ex_pair ''name'' ''x'', ex_pair ''file'' ''z''#} \<or>
      \<not> r \<and> mset os' = mset ex_pairs)"
proof -
  have l: "length ex_pairs + length ex_pairs2 \<le> 2 ^ 60" by (simp add: ex_map_holds(3) ex_map2_holds(2))
  have m: "mset (filter (\<lambda>p. pkey p \<notin> pkey ` set ex_pairs2) ex_pairs) + mset ex_pairs2 =
      {#ex_pair ''name'' ''x'', ex_pair ''file'' ''z''#}" by (simp add: ex_pairs_def ex_pairs2_def)
  from smap_update_merges [OF ex_map_holds(1,2) ex_map2_holds(1,3) l, of insertion_qsort
      "\<lparr>outcomes = [True], live = 13\<rparr>", unfolded m] show ?thesis by (elim ex_forward conjE disjE) simp_all
qed

text \<open>C35: A string map whose keys are distinct is a finite map: looking up a key gives its value,
  setting a value gives the updated map or fails and keeps the map, keys stay distinct, and
  neither ever crashes.\<close>

theorem smap_finite_map:
  assumes "smap_holds sm ps" and "distinct (map pkey ps)" and "length ps < 2 ^ 60"
  shows "(\<exists>sm' ps'. smap_lookup qs bs sm k = Some (pairs_map ps k, sm') \<and> smap_holds sm' ps' \<and>
            distinct (map pkey ps') \<and> pairs_map ps' = pairs_map ps) \<and>
         (\<exists>r sm' ps' h'. smap_set_value qs bs sm k v h = Some (r, sm', h') \<and> smap_holds sm' ps' \<and>
            distinct (map pkey ps') \<and> pairs_map ps' = (if r then (pairs_map ps)(k \<mapsto> v) else pairs_map ps))"
proof
  have so: "sortable sm ps" using assms(2) by (simp add: sortable_def)
  from smap_lookup_ok [OF assms(1) so, of qs bs k] obtain r sm' ps' where
    l: "smap_lookup qs bs sm k = Some (r, sm')" "smap_holds sm' ps'" "mset ps' = mset ps"
      "case r of None \<Rightarrow> k \<notin> pkey ` set ps | Some v \<Rightarrow> ex_pair k v \<in> set ps" by blast
  have "pairs_map ps k = r"
  proof (cases r)
    case None
    with l(4) show ?thesis by (simp add: pairs_map_None)
  next
    case (Some w)
    with l(4) show ?thesis by (simp add: pairs_map_Some [OF assms(2)])
  qed
  then show "\<exists>sm' ps'. smap_lookup qs bs sm k = Some (pairs_map ps k, sm') \<and> smap_holds sm' ps' \<and>
      distinct (map pkey ps') \<and> pairs_map ps' = pairs_map ps"
    using l(1,2) pairs_map_mset [OF assms(2) l(3)] by blast
next
  have so: "sortable sm ps" using assms(2) by (simp add: sortable_def)
  from smap_set_ok [OF assms(1,3) so, of qs bs k v h] obtain r sm' ps' h' where
    s: "smap_set_value qs bs sm k v h = Some (r, sm', h')" "smap_holds sm' ps'"
    and c: "r \<and> k \<notin> pkey ` set ps \<and> mset ps' = add_mset (ex_pair k v) (mset ps) \<or>
        r \<and> (\<exists>w. ex_pair k w \<in> set ps \<and> mset ps' = add_mset (ex_pair k v) (mset ps - {#ex_pair k w#})) \<or>
        \<not> r \<and> mset ps' = mset ps" by blast
  from c have "distinct (map pkey ps') \<and> pairs_map ps' = (if r then (pairs_map ps)(k \<mapsto> v) else pairs_map ps)"
  proof (elim disjE conjE exE)
    assume "r" "k \<notin> pkey ` set ps" "mset ps' = add_mset (ex_pair k v) (mset ps)"
    with pairs_map_add [OF assms(2) this(2,3)] show ?thesis by (simp only: if_True)
  next
    fix w assume "r" "ex_pair k w \<in> set ps" "mset ps' = add_mset (ex_pair k v) (mset ps - {#ex_pair k w#})"
    with pairs_map_set [OF assms(2) this(2,3)] show ?thesis by (simp only: if_True)
  next
    assume "\<not> r" "mset ps' = mset ps"
    with pairs_map_mset [OF assms(2) this(2)] show ?thesis by (simp only: if_False)
  qed
  then show "\<exists>r sm' ps' h'. smap_set_value qs bs sm k v h = Some (r, sm', h') \<and> smap_holds sm' ps' \<and>
      distinct (map pkey ps') \<and> pairs_map ps' = (if r then (pairs_map ps)(k \<mapsto> v) else pairs_map ps)"
    using s by blast
qed

theorem smap_finite_map_witness:
  "\<exists>sm' ps'. smap_lookup insertion_qsort linear_bsearch ex_map ''file'' = Some (Some ''y'', sm') \<and> smap_holds sm' ps'"
proof -
  have "pairs_map ex_pairs ''file'' = Some ''y''" "length ex_pairs < 2 ^ 60"
    by (simp_all add: pairs_map_def ex_pairs_def)
  with smap_finite_map [OF ex_map_holds(1,2), of insertion_qsort linear_bsearch "''file''" "[]" "\<lparr>outcomes = [], live = 10\<rparr>", THEN conjunct1]
  show ?thesis by auto
qed

text \<open>Looking for duplicate keys in a map that is sorted, or has none, finds one exactly when there
  is one, and gives a key of at least two pairs.\<close>

theorem smap_duplicates:
  assumes "smap_holds sm ps" and "sortable sm ps"
  shows "\<exists>r sm' ps'. smap_check_duplicate_keys qs sm = Some (r, sm') \<and> smap_holds sm' ps' \<and> mset ps' = mset ps \<and>
           (r = None \<longleftrightarrow> distinct (map pkey ps)) \<and>
           (\<forall>k. r = Some k \<longrightarrow> 2 \<le> count (mset (map pkey ps)) k)"
proof -
  from smap_check_ok [OF assms, of qs] obtain r sm' ps' where
    s: "smap_check_duplicate_keys qs sm = Some (r, sm')" "smap_holds sm' ps'" "mset ps' = mset ps"
      "case r of None \<Rightarrow> distinct (map pkey ps) | Some k \<Rightarrow> 2 \<le> count (mset (map pkey ps)) k"
    unfolding mset_map by blast
  have "\<not> distinct (map pkey ps)" if "2 \<le> count (mset (map pkey ps)) k" for k
  proof
    assume "distinct (map pkey ps)"
    then have "count (mset (map pkey ps)) k = (if k \<in> set (map pkey ps) then 1 else 0)"
      unfolding distinct_count_atmost_1 by blast
    then show False using that by (cases "k \<in> set (map pkey ps)") simp_all
  qed
  then show ?thesis using s by (cases r) auto
qed

text \<open>The comparator that smap.c sorts with is no order on pairs: on two pairs with equal keys
  it says less or greater by the slots they are in, which is outside of what qsort allows; it
  agrees with the order of the keys on all other pairs.\<close>

theorem string_pair_compare_sort_slots:
  "(pkey p \<noteq> pkey q \<longrightarrow> sgn (string_pair_compare_sort (i, p) (j, q)) = sgn (strcmp (pkey p) (pkey q))) \<and>
   (pkey p = pkey q \<longrightarrow> string_pair_compare_sort (0, p) (1, q) = - 1 \<and> string_pair_compare_sort (1, p) (0, q) = 1)"
  by (simp add: string_pair_compare_sort_def pair_compare_strcmp strcmp_0)

end
