(* ===== verification/Mist_Tokens.thy ===== *)
theory Mist_Tokens
  imports Mist_String Grar
begin

text \<open>
  Model of the lexical analysis of templates in
  src/sources/tools/kedr_gen/src/mist_engine/src/mist_base.c.  Pointers into the source string
  are offsets.  An error message is what sprintf is given, its text is not built; NULL is None.
\<close>

datatype message = Message (msg_format: "char list") (msg_args: "char list list") (msg_line: nat)

definition errNoBeginMarker :: "char list" where
  "errNoBeginMarker = ''no matching begin marker found for the end marker (line %u of the template)''"

definition errNoEndMarker :: "char list" where
  "errNoEndMarker = ''no matching end marker found for the begin marker (line %u of the template)''"

definition errTooManyBeginMarkers :: "char list" where
  "errTooManyBeginMarkers = ''too many begin markers found for the end marker (line %u of the template)''"

definition errInvalidPHName :: "char list" where
  "errInvalidPHName =
     ''invalid placeholder: '' @ [CHR 0x22] @ ''%s'' @ [CHR 0x22] @ '' (line %u of the template)''"

text \<open>Its argument error_descr is never NULL here.  Both branches need one allocation.\<close>

definition mist_format_parse_error :: "char list \<Rightarrow> nat \<Rightarrow> mheap \<Rightarrow> message option \<times> mheap" where
  "mist_format_parse_error fmt ln h =
     (case malloc h of (False, h) \<Rightarrow> (None, h) | (True, h) \<Rightarrow> (Some (Message fmt [] ln), h))"

subsection \<open>Tokens\<close>

datatype EMistTokenType = MTT_SCH | MTT_PH | MTT_IF | MTT_ELSE | MTT_ENDIF

record CMistToken =
  tok_type :: EMistTokenType
  tok_beg :: nat
  tok_end :: nat

definition mist_token_create ::
  "EMistTokenType \<Rightarrow> nat \<Rightarrow> nat \<Rightarrow> mheap \<Rightarrow> CMistToken option \<times> mheap" where
  "mist_token_create ty b e h =
     (case malloc h of (False, h) \<Rightarrow> (None, h)
      | (True, h) \<Rightarrow> (Some \<lparr>tok_type = ty, tok_beg = b, tok_end = e\<rparr>, h))"

definition mist_token_destroy :: "mheap \<Rightarrow> mheap" where
  "mist_token_destroy h = mfree h"

definition mist_token_dtor :: "CMistToken TGAElem \<Rightarrow> mheap \<Rightarrow> mheap option" where
  "mist_token_dtor doomed h = (case doomed of None \<Rightarrow> None | Some t \<Rightarrow> Some (mist_token_destroy h))"

text \<open>The characters of the range [b, e).\<close>

abbreviation sub :: "char list \<Rightarrow> nat \<Rightarrow> nat \<Rightarrow> char list" where
  "sub s b e \<equiv> take (e - b) (drop b s)"

definition wspace :: "char list" where
  "wspace = [CHR 0x20, CHR 0x09, CHR 0x0A, CHR 0x0D]"

definition mist_token_from_ph_string ::
  "char list \<Rightarrow> nat \<Rightarrow> nat \<Rightarrow> mheap \<Rightarrow> EMistErrorCode \<times> CMistToken option \<times> mheap" where
  "mist_token_from_ph_string src b e h =
     (let beg = b + mist_find_in_range_first_not_of (sub src b e) wspace
      in if beg = e then (MIST_BAD_NAME, None, h)
         else let end = beg + mist_find_in_range_last_not_of (sub src beg e) wspace + 1;
                  pos = beg + mist_find_in_range_first_of (sub src beg end) wspace;
                  create = (\<lambda>ty b e. case mist_token_create ty b e h of
                              (None, h) \<Rightarrow> (MIST_OUT_OF_MEMORY, None, h)
                            | (Some t, h) \<Rightarrow> (MIST_OK, Some t, h))
              in if sub src beg pos = ''if''
                 then let pos = pos + mist_find_in_range_first_not_of (sub src pos end) wspace
                      in if pos = end then (MIST_BAD_NAME, None, h) else create MTT_IF pos end
                 else if sub src beg pos = ''else''
                 then if pos \<noteq> end then (MIST_BAD_NAME, None, h) else create MTT_ELSE beg end
                 else if sub src beg pos = ''endif''
                 then if pos \<noteq> end then (MIST_BAD_NAME, None, h) else create MTT_ENDIF beg end
                 else create MTT_PH beg end)"

subsection \<open>The tokenizer\<close>

type_synonym token_result = "(EMistErrorCode \<times> message option \<times> CMistToken CGrowingArray \<times> mheap) option"

definition syntax_error ::
  "char list \<Rightarrow> char list \<Rightarrow> nat \<Rightarrow> CMistToken CGrowingArray \<Rightarrow> mheap \<Rightarrow> token_result" where
  "syntax_error fmt src at tokens h =
     (let (m, h) = mist_format_parse_error fmt (mist_line_num_for_ptr (take at src)) h
      in Some (MIST_SYNTAX_ERROR, m, tokens, h))"

text \<open>What follows when the type of a placeholder cannot be determined.\<close>

definition bad_placeholder ::
  "EMistErrorCode \<Rightarrow> char list \<Rightarrow> nat \<Rightarrow> nat \<Rightarrow> CMistToken CGrowingArray \<Rightarrow> mheap \<Rightarrow> token_result" where
  "bad_placeholder ec src pos end tokens h =
     (if ec \<noteq> MIST_BAD_NAME then Some (ec, None, tokens, h)
      else do { (ph_str, h) \<leftarrow> mist_get_substring (sub src pos end) h;
                (case ph_str of
                   None \<Rightarrow> Some (MIST_SYNTAX_ERROR, None, tokens, h)
                 | Some b \<Rightarrow>
                     (case malloc h of
                        (False, h) \<Rightarrow> Some (MIST_SYNTAX_ERROR, None, tokens, mfree h)
                      | (True, h) \<Rightarrow>
                          do { s \<leftarrow> cstr b;
                               Some (MIST_SYNTAX_ERROR,
                                 Some (Message errInvalidPHName [s] (mist_line_num_for_ptr (take pos src))),
                                 tokens, mfree h) })) })"

text \<open>A part of the source is copied and searched for a marker that must not be in it.\<close>

definition find_in_copy :: "char list \<Rightarrow> char list \<Rightarrow> mheap \<Rightarrow> (nat option option \<times> mheap) option" where
  "find_in_copy rng marker h =
     do { (ss, h) \<leftarrow> mist_get_substring rng h;
          (case ss of
             None \<Rightarrow> Some (None, h)
           | Some b \<Rightarrow> do { s \<leftarrow> cstr b; Some (Some (strstr s marker), h) }) }"

text \<open>Adding the string chunk and the placeholder that were found.\<close>

definition add_tokens ::
  "nat \<Rightarrow> nat \<Rightarrow> CMistToken \<Rightarrow> CMistToken CGrowingArray \<Rightarrow> mheap \<Rightarrow> (bool \<times> CMistToken CGrowingArray \<times> mheap) option" where
  "add_tokens cur beg tok_ph tokens h =
     (case mist_token_create MTT_SCH cur beg h of
        (None, h) \<Rightarrow> Some (False, tokens, mist_token_destroy h)
      | (Some tok_sch, h) \<Rightarrow>
          do { (ok, tokens, h) \<leftarrow> grar_add_element tokens (Some tok_sch) h;
               if \<not> ok then Some (False, tokens, mist_token_destroy (mist_token_destroy h))
               else do { (ok, tokens, h) \<leftarrow> grar_add_element tokens (Some tok_ph) h;
                         if \<not> ok then Some (False, tokens, mist_token_destroy h)
                         else Some (True, tokens, h) } })"

partial_function (option) tokenize_loop ::
  "char list \<Rightarrow> char list \<Rightarrow> char list \<Rightarrow> nat \<Rightarrow> CMistToken CGrowingArray \<Rightarrow> mheap \<Rightarrow> token_result" where
  "tokenize_loop src begin_marker end_marker cur tokens h =
     (case strstr (drop cur src) begin_marker of
        None \<Rightarrow>
          (case strstr (drop cur src) end_marker of
             Some e \<Rightarrow> syntax_error errNoBeginMarker src (cur + e) tokens h
           | None \<Rightarrow>
               (case mist_token_create MTT_SCH cur (length src) h of
                  (None, h) \<Rightarrow> Some (MIST_OUT_OF_MEMORY, None, tokens, h)
                | (Some tok, h) \<Rightarrow>
                    do { (ok, tokens, h) \<leftarrow> grar_add_element tokens (Some tok) h;
                         if \<not> ok then Some (MIST_OUT_OF_MEMORY, None, tokens, mist_token_destroy h)
                         else Some (MIST_OK, None, tokens, h) }))
      | Some b \<Rightarrow>
          (let beg = cur + b; pos = beg + length begin_marker
           in case strstr (drop pos src) end_marker of
                None \<Rightarrow> syntax_error errNoEndMarker src beg tokens h
              | Some e \<Rightarrow>
                  (let end = pos + e
                   in do {
                     (r, h) \<leftarrow> find_in_copy (sub src pos end) begin_marker h;
                     (case r of
                        None \<Rightarrow> Some (MIST_OUT_OF_MEMORY, None, tokens, h)
                      | Some (Some _) \<Rightarrow>
                          do { (ec, m, tokens, h) \<leftarrow> syntax_error errTooManyBeginMarkers src end tokens h;
                               Some (ec, m, tokens, mfree h) }
                      | Some None \<Rightarrow>
                          do {
                            (r, h) \<leftarrow> find_in_copy (sub src cur beg) end_marker (mfree h);
                            (case r of
                               None \<Rightarrow> Some (MIST_OUT_OF_MEMORY, None, tokens, h)
                             | Some (Some tmp) \<Rightarrow>
                                 do { (ec, m, tokens, h) \<leftarrow>
                                        syntax_error errNoBeginMarker src (cur + tmp) tokens h;
                                      Some (ec, m, tokens, mfree h) }
                             | Some None \<Rightarrow>
                                 (case mist_token_from_ph_string src pos end (mfree h) of
                                    (ec, None, h) \<Rightarrow> bad_placeholder ec src pos end tokens h
                                  | (ec, Some tok_ph, h) \<Rightarrow>
                                      do { (ok, tokens, h) \<leftarrow> add_tokens cur beg tok_ph tokens h;
                                           if \<not> ok then Some (MIST_OUT_OF_MEMORY, None, tokens, h)
                                           else tokenize_loop src begin_marker end_marker
                                                  (end + length end_marker) tokens h })) }) })))"

text \<open>The result is NULL in case of an error; the message is left in error_descr.\<close>

definition mist_template_tokenize_string ::
  "char list \<Rightarrow> char list \<Rightarrow> char list \<Rightarrow> mheap \<Rightarrow>
   (CMistToken CGrowingArray option \<times> message option \<times> mheap) option" where
  "mist_template_tokenize_string src begin_marker end_marker h =
     (if begin_marker = [] \<or> end_marker = [] then None
      else case malloc h of
             (False, h) \<Rightarrow> Some (None, None, h)
           | (True, h) \<Rightarrow>
               (case grar_create h of
                  (None, h) \<Rightarrow> Some (None, None, mfree h)
                | (Some tokens, h) \<Rightarrow>
                    do { (ec, m, tokens, h) \<leftarrow> tokenize_loop src begin_marker end_marker 0 tokens h;
                         if ec \<noteq> MIST_OK
                         then do { (tokens, h) \<leftarrow> grar_destroy_with_elements tokens (Some mist_token_dtor) h;
                                   Some (None, m, mfree h) }
                         else Some (Some tokens, m, h) }))"

end
