(* ===== verification/Mist_Tokens_Spec.thy ===== *)
theory Mist_Tokens_Spec
  imports Mist_Tokens Mist_String_More Grar_Spec
begin

text \<open>
  Specification of the lexical analysis: a text is a template when it is a sequence of string
  chunks with the contents of placeholders between markers in between (render), where no part
  has a marker in it.  The tokenizer accepts exactly these texts.
\<close>

subsection \<open>How much memory is asked for\<close>

definition within :: "nat \<Rightarrow> mheap \<Rightarrow> mheap \<Rightarrow> bool" where
  "within k h h' \<longleftrightarrow> (\<exists>j\<le>k. outcomes h' = drop j (outcomes h))"

definition ample :: "nat \<Rightarrow> mheap \<Rightarrow> bool" where
  "ample k h \<longleftrightarrow> k \<le> length (outcomes h) \<and> list_all id (outcomes h)"

lemma ample_mono: "ample k h \<Longrightarrow> n \<le> k \<Longrightarrow> ample n h"
  by (simp add: ample_def)

lemma ample_within:
  assumes "ample (k + n) h" and "within k h h'"
  shows "ample n h'"
proof -
  obtain j where j: "j \<le> k" "outcomes h' = drop j (outcomes h)" using assms(2) by (auto simp: within_def)
  have "list_all id (take j (outcomes h) @ drop j (outcomes h))" using assms(1) by (simp add: ample_def)
  then have "list_all id (drop j (outcomes h))" by (simp only: list_all_append)
  moreover have "n \<le> length (outcomes h) - j" using assms(1) j(1) unfolding ample_def by linarith
  ultimately show ?thesis using j by (simp add: ample_def)
qed

lemma ample_3: "ample 3 h \<Longrightarrow> within 1 h h' \<Longrightarrow> ample 1 h'" "ample 3 h \<Longrightarrow> within 2 h h' \<Longrightarrow> ample 1 h'"
  using ample_within [of 1 2 h h'] ample_within [of 2 1 h h'] ample_mono [of 2 h' 1]
  by (simp_all add: numeral_3_eq_3 numeral_2_eq_2)

lemma within_refl [simp]: "within k h h"
  by (auto simp: within_def intro: exI [of _ 0])

lemma within_mono: "within k h h' \<Longrightarrow> k \<le> n \<Longrightarrow> within n h h'"
  by (auto simp: within_def intro: le_trans)

lemma within_trans: "within k h h1 \<Longrightarrow> within n h1 h2 \<Longrightarrow> within (k + n) h h2"
  unfolding within_def by (metis add_mono drop_drop add.commute)

lemma within_mfree [simp]: "within k h (mfree h') = within k h h'" "within k (mfree h) h' = within k h h'"
  by (simp_all add: within_def mfree_def)

lemma ample_mfree [simp]: "ample k (mfree h) = ample k h"
  by (simp add: ample_def mfree_def)

lemma live_mfree [simp]: "live (mfree h) = live h - 1"
  by (simp add: mfree_def)

lemma next_outcome_within: "next_outcome h = (ok, h') \<Longrightarrow> within 1 h h' \<and> (ok \<or> \<not> ample 1 h)"
  by (auto simp: next_outcome_def within_def ample_def intro: exI [of _ 1] exI [of _ 0] split: list.splits)

lemma malloc_within: "malloc h = (ok, h') \<Longrightarrow> within 1 h h' \<and> (ok \<or> \<not> ample 1 h)"
proof -
  assume m: "malloc h = (ok, h')"
  obtain ok' h1 where n: "next_outcome h = (ok', h1)" by fastforce
  then have "ok' = ok" "outcomes h' = outcomes h1" using m by (auto simp: malloc_def)
  with next_outcome_within [OF n] show ?thesis by (simp add: within_def)
qed

lemma realloc_elems_within:
  "realloc_elems d cap h = Some (r, h') \<Longrightarrow> within 1 h h' \<and> (r \<noteq> None \<or> \<not> ample 1 h)"
  using malloc_within [of h] next_outcome_within [of h]
  by (cases "d = None") (auto simp: realloc_elems_def realloc_def Let_def split: if_splits prod.splits bool.splits)

lemma grar_reserve_within:
  "grar_reserve g n h = Some (r, g', h') \<Longrightarrow> within 1 h h' \<and> (r \<or> \<not> ample 1 h)"
  using realloc_elems_within [of "gdata g" _ h]
  by (fastforce simp: grar_reserve_def split: if_splits bind_splits option.splits)

lemma grar_add_within:
  "grar_add_element g e h = Some (r, g', h') \<Longrightarrow> within 1 h h' \<and> (r \<or> \<not> ample 1 h)"
  using grar_reserve_within [of g _ h]
  by (fastforce simp: grar_add_element_def split: if_splits bind_splits)

subsection \<open>The parts\<close>

lemma get_substring_within:
  assumes "NUL \<notin> set rng"
  shows "\<exists>r h'. mist_get_substring rng h = Some (r, h') \<and> within 1 h h' \<and>
           (case r of None \<Rightarrow> live h' = live h \<and> \<not> ample 1 h | Some b \<Rightarrow> cstr b = Some rng \<and> live h' = live h + 1)"
proof -
  from get_substring_ok [OF assms, of h] obtain r h' where
    r: "mist_get_substring rng h = Some (r, h')"
      "case r of None \<Rightarrow> live h' = live h
       | Some b \<Rightarrow> cstr b = Some rng \<and> length b = length rng + 1 \<and> live h' = live h + 1" by blast
  obtain ok h1 where m: "malloc h = (ok, h1)" by fastforce
  have "h1 = h'" using r(1) m
    by (cases ok) (auto simp: mist_get_substring_def Let_def split: bind_splits)
  then show ?thesis using r malloc_within [OF m] malloc_live [OF m] by (cases r; cases ok) auto
qed

lemma find_in_copy_ok:
  assumes "NUL \<notin> set rng"
  shows "\<exists>r h'. find_in_copy rng marker h = Some (r, h') \<and> within 1 h h' \<and>
           (r = None \<and> live h' = live h \<and> \<not> ample 1 h \<or> r = Some (strstr rng marker) \<and> live h' = live h + 1)"
proof -
  from get_substring_within [OF assms, of h] obtain r h' where
    "mist_get_substring rng h = Some (r, h')" "within 1 h h'"
    "case r of None \<Rightarrow> live h' = live h \<and> \<not> ample 1 h | Some b \<Rightarrow> cstr b = Some rng \<and> live h' = live h + 1"
    by blast
  then show ?thesis by (cases r) (auto simp: find_in_copy_def)
qed

lemma token_create_cases:
  obtains h' where "mist_token_create ty b e h = (None, h')" "live h' = live h" "within 1 h h'" "\<not> ample 1 h"
  | h' where "mist_token_create ty b e h = (Some \<lparr>tok_type = ty, tok_beg = b, tok_end = e\<rparr>, h')"
      "live h' = live h + 1" "within 1 h h'"
proof -
  obtain ok h' where m: "malloc h = (ok, h')" by fastforce
  show thesis using malloc_within [OF m] malloc_live [OF m] that by (cases ok) (auto simp: mist_token_create_def m)
qed

lemma add_tokens_ok:
  assumes g: "grar_holds g (map Some ts)" and n: "length ts + 1 < 2 ^ 60"
  shows "\<exists>ok g' h' ts'. add_tokens cur beg t g h = Some (ok, g', h') \<and> within 3 h h' \<and> grar_holds g' (map Some ts') \<and>
           (ok \<and> ts' = ts @ [\<lparr>tok_type = MTT_SCH, tok_beg = cur, tok_end = beg\<rparr>, t] \<and> live h' = live h + 1 \<or>
            \<not> ok \<and> (ts' = ts \<or> ts' = ts @ [\<lparr>tok_type = MTT_SCH, tok_beg = cur, tok_end = beg\<rparr>]) \<and>
              \<not> ample 3 h \<and> live h' = live h - 1 + int (length ts') - int (length ts))"
proof -
  let ?c = "\<lparr>tok_type = MTT_SCH, tok_beg = cur, tok_end = beg\<rparr>"
  show ?thesis
  proof (cases rule: token_create_cases [of MTT_SCH cur beg h])
    case (1 h1)
    then show ?thesis using g ample_mono [of 3 h 1] within_mono [of 1 h h1 3]
      by (intro exI [of _ False] exI [of _ g] exI [of _ "mfree h1"] exI [of _ ts])
        (auto simp: add_tokens_def mist_token_destroy_def)
  next
    case (2 h1)
    have "length (map Some ts) < 2 ^ 60" using n by simp
    from grar_add_ok [OF g this, of "Some ?c" h1] obtain r1 g1 h2 where
      a: "grar_add_element g (Some ?c) h1 = Some (r1, g1, h2)" "live h2 = live h1"
        "r1 \<and> grar_holds g1 (map Some (ts @ [?c])) \<or> \<not> r1 \<and> g1 = g" by auto
    note wa = grar_add_within [OF a(1)]
    have w2: "within 2 h h2" using within_trans [OF 2(3), of 1 h2] wa by (simp add: numeral_2_eq_2)
    show ?thesis
    proof (cases r1)
      case False
      have "\<not> ample 3 h" using wa False ample_3(1) [of h h1] 2(3) by auto
      then show ?thesis using False a g 2(1,2) within_mono [OF w2, of 3]
        by (intro exI [of _ False] exI [of _ g] exI [of _ "mfree (mfree h2)"] exI [of _ ts])
          (auto simp: add_tokens_def mist_token_destroy_def)
    next
      case True
      with a(3) have g1: "grar_holds g1 (map Some (ts @ [?c]))" by simp
      have "length (map Some (ts @ [?c])) < 2 ^ 60" using n by simp
      from grar_add_ok [OF g1 this, of "Some t" h2] obtain r2 g2 h3 where
        b: "grar_add_element g1 (Some t) h2 = Some (r2, g2, h3)" "live h3 = live h2"
          "r2 \<and> grar_holds g2 (map Some (ts @ [?c, t])) \<or> \<not> r2 \<and> g2 = g1" by auto
      note wb = grar_add_within [OF b(1)]
      have w3: "within 3 h h3" using within_trans [OF w2, of 1 h3] wb by (simp add: numeral_3_eq_3)
      show ?thesis
      proof (cases r2)
        case True
        then show ?thesis using \<open>r1\<close> a b 2(1,2) w3
          by (intro exI [of _ True] exI [of _ g2] exI [of _ h3] exI [of _ "ts @ [?c, t]"])
            (auto simp: add_tokens_def)
      next
        case False
        have "\<not> ample 3 h" using wb False ample_3(2) [of h h2] w2 by auto
        then show ?thesis using \<open>r1\<close> False a b g1 2(1,2) w3
          by (intro exI [of _ False] exI [of _ g1] exI [of _ "mfree h3"] exI [of _ "ts @ [?c]"])
            (auto simp: add_tokens_def mist_token_destroy_def)
      qed
    qed
  qed
qed

subsection \<open>Occurrences of markers\<close>

lemma strstr_None_iff: "strstr s w = None \<longleftrightarrow> (\<forall>q\<le>length s. take (length w) (drop q s) \<noteq> w)"
proof (induction s w rule: strstr.induct)
  case (2 c cs w)
  have "(\<forall>q\<le>length (c # cs). take (length w) (drop q (c # cs)) \<noteq> w) \<longleftrightarrow>
      take (length w) (c # cs) \<noteq> w \<and> (\<forall>q\<le>length cs. take (length w) (drop q cs) \<noteq> w)"
    by (metis (no_types, lifting) Suc_le_mono drop0 drop_Suc_Cons length_Cons not0_implies_Suc zero_le)
  then show ?case using 2 by simp
qed auto

lemma strstr_Some_iff:
  "strstr s w = Some p \<longleftrightarrow> p \<le> length s \<and> take (length w) (drop p s) = w \<and> (\<forall>q<p. take (length w) (drop q s) \<noteq> w)"
proof (induction s w arbitrary: p rule: strstr.induct)
  case (2 c cs w)
  show ?case
  proof (cases p)
    case (Suc p')
    have "(\<forall>q<Suc p'. take (length w) (drop q (c # cs)) \<noteq> w) \<longleftrightarrow>
        take (length w) (c # cs) \<noteq> w \<and> (\<forall>q<p'. take (length w) (drop q cs) \<noteq> w)"
      by (metis (no_types, lifting) Suc_less_eq drop0 drop_Suc_Cons not0_implies_Suc zero_less_Suc)
    then show ?thesis using 2 Suc by auto
  qed (use 2 in auto)
qed auto

lemma strstr_split:
  assumes "strstr s w = Some p"
  shows "s = take p s @ w @ drop (p + length w) s" and "p + length w \<le> length s"
    and "strstr (take p s @ w) w = Some p"
proof -
  have p: "take (length w) (drop p s) = w" "p + length w \<le> length s" using strstr_Some [OF assms] by simp_all
  have "drop p s = w @ drop (p + length w) s" using append_take_drop_id [of "length w" "drop p s"] p(1)
    by (simp add: add.commute)
  then show s: "s = take p s @ w @ drop (p + length w) s" using append_take_drop_id [of p s] by simp
  show "p + length w \<le> length s" by (rule p(2))
  have "take (length w) (drop q (take p s @ w)) = take (length w) (drop q s)" if "q \<le> p" for q
  proof -
    have "take (length w) (drop q (take p s @ w @ r)) = take (length w) (drop q (take p s @ w))" for r
      using that p(2) by simp
    from this [of "drop (p + length w) s"] show ?thesis unfolding s [symmetric] by (rule sym)
  qed
  then show "strstr (take p s @ w) w = Some p" using assms p(2) unfolding strstr_Some_iff by auto
qed

lemma strstr_append:
  assumes "strstr (c @ w) w = Some (length c)"
  shows "strstr (c @ w @ r) w = Some (length c)"
proof -
  have "take (length w) (drop q (c @ w @ r)) = take (length w) (drop q (c @ w))" if "q \<le> length c" for q
    using that by simp
  then show ?thesis using assms unfolding strstr_Some_iff by auto
qed

subsection \<open>The contents of a placeholder\<close>

lemma wspace_seps: "wspace = seps"
  by (simp add: wspace_def seps_def)

abbreviation ws :: "char \<Rightarrow> bool" where
  "ws c \<equiv> c \<in> set wspace"

definition classify :: "char list \<Rightarrow> (EMistTokenType \<times> char list) option" where
  "classify x =
     (let t = trimmed x; w = takeWhile (\<lambda>c. \<not> ws c) t; r = dropWhile ws (dropWhile (\<lambda>c. \<not> ws c) t)
      in if t = [] then None
         else if w = ''if'' then (if r = [] then None else Some (MTT_IF, r))
         else if w = ''else'' then (if w \<noteq> t then None else Some (MTT_ELSE, t))
         else if w = ''endif'' then (if w \<noteq> t then None else Some (MTT_ENDIF, t))
         else Some (MTT_PH, t))"

lemma sub_sub: "sub s (b + i) (b + j) = sub (drop b s) i j"
  by (simp add: add.commute)

lemma sub_sub_range: "j \<le> e - b \<Longrightarrow> sub (sub s b e) i j = sub s (b + i) (b + j)"
  by (simp add: drop_take add.commute min_def)

lemma trimmed_empty: "trimmed x = [] \<longleftrightarrow> (\<forall>c\<in>set x. ws c)"
proof (cases "\<forall>c\<in>set x. c \<in> set seps")
  case True
  then show ?thesis using trimmed_split [of x x "[]" "[]"] by (auto simp: wspace_seps)
next
  case False
  note R = trim_range [OF False]
  have "length (trimmed x) > 0" unfolding R(3) [symmetric] using R(1,2) by simp
  then show ?thesis using False by (simp add: wspace_seps)
qed

lemma drop_sub: "drop k (sub s b e) = sub s (b + k) e"
  by (simp add: drop_take add.commute)

lemma takeWhile_dropWhile_len: "length (takeWhile P xs) + length (dropWhile P xs) = length xs"
  by (metis length_append takeWhile_dropWhile_id)

lemma takeWhile_dropWhile_same: "takeWhile P (dropWhile P xs) = []"
  by (induction xs) auto

lemma take_length_takeWhile: "take (length (takeWhile P xs)) xs = takeWhile P xs"
  by (metis takeWhile_eq_take)

lemma trim_rest:
  assumes "\<not> (\<forall>c\<in>set x. ws c)" and y: "y = dropWhile ws x" and l: "l = mist_find_in_range_last_not_of y wspace + 1"
  shows "l \<le> length y" and "take l y = trimmed x"
proof -
  from assms(1) obtain c where c: "c \<in> set x" "\<not> ws c" by blast
  then have "c \<in> set (takeWhile ws x @ y)" unfolding y by simp
  then have "c \<in> set y" using c(2) by (auto dest: set_takeWhileD)
  then have ny: "\<not> (\<forall>c\<in>set y. c \<in> set seps)" using c(2) by (auto simp: wspace_seps)
  have f0: "mist_find_in_range_first_not_of y seps = 0"
    unfolding first_not_of_eq wspace_seps [symmetric] y by (simp add: takeWhile_dropWhile_same)
  have ty: "trimmed y = trimmed x" by (simp add: trimmed_def wspace_seps y)
  show "l \<le> length y" using trim_range(2) [OF ny] by (simp add: l wspace_seps)
  show "take l y = trimmed x" using trim_range(3) [OF ny, unfolded f0 ty] by (simp add: l wspace_seps)
qed

lemma sub_of_prefix:
  assumes "t = take l (sub src b e)" and "l \<le> e - b" and "j \<le> l"
  shows "sub src (b + i) (b + j) = take (j - i) (drop i t)"
proof -
  have "take (j - i) (drop i t) = take (j - i) (drop i (drop b src))"
    unfolding assms(1) using assms(2,3) by (simp add: drop_take min_def)
  then show ?thesis by (simp add: add.commute)
qed

text \<open>The code computes the class of the text between the markers, in place.\<close>

definition token_class where
  "token_class src b e h h' ec tok =
     (case classify (sub src b e) of
        None \<Rightarrow> ec = MIST_BAD_NAME \<and> tok = None \<and> h' = h
      | Some (ty, txt) \<Rightarrow>
          within 1 h h' \<and>
          (ec = MIST_OUT_OF_MEMORY \<and> tok = None \<and> live h' = live h \<and> \<not> ample 1 h \<or>
           (\<exists>t. ec = MIST_OK \<and> tok = Some t \<and> live h' = live h + 1 \<and> tok_type t = ty \<and>
              b \<le> tok_beg t \<and> tok_beg t < tok_end t \<and> tok_end t \<le> e \<and> sub src (tok_beg t) (tok_end t) = txt)))"

lemma token_created:
  assumes "classify (sub src b e) = Some (ty, txt)" and "sub src i j = txt" and "b \<le> i" and "i < j" and "j \<le> e"
    and "(case mist_token_create ty i j h of
            (None, h) \<Rightarrow> (MIST_OUT_OF_MEMORY, None, h)
          | (Some t, h) \<Rightarrow> (MIST_OK, Some t, h)) = (ec, tok, h')"
  shows "token_class src b e h h' ec tok"
  using assms(2-) unfolding token_class_def assms(1)
  by (cases rule: token_create_cases [of ty i j h]) auto

lemma token_from_ph_ok:
  assumes "b \<le> e" and "e \<le> length src" and m: "mist_token_from_ph_string src b e h = (ec, tok, h')"
  shows "token_class src b e h h' ec tok"
proof -
  define x where "x = sub src b e"
  define beg where "beg = b + mist_find_in_range_first_not_of x wspace"
  have lx: "length x = e - b" using assms(1,2) by (simp add: x_def)
  have n: "mist_find_in_range_first_not_of x wspace = length (takeWhile ws x)" by (rule first_not_of_eq)
  show ?thesis
  proof (cases "\<forall>c\<in>set x. ws c")
    case True
    then have "length (takeWhile ws x) = e - b" using takeWhile_all [of ws x] lx by simp
    then have "beg = e" using assms(1) by (simp add: beg_def n)
    moreover have "classify x = None" using True trimmed_empty [of x] by (simp add: classify_def)
    ultimately show ?thesis using m
      by (simp add: mist_token_from_ph_string_def Let_def token_class_def x_def beg_def)
  next
    case False
    define y where "y = dropWhile ws x"
    define l where "l = mist_find_in_range_last_not_of y wspace + 1"
    define t where "t = trimmed x"
    define fin where "fin = beg + l"
    have nl: "length (takeWhile ws x) < e - b"
      using takeWhile_all [of ws x] False length_takeWhile_le [of ws x] lx by linarith
    have "y = drop (length (takeWhile ws x)) x" unfolding y_def by (rule dropWhile_eq_drop)
    also have "\<dots> = sub src beg e" unfolding x_def beg_def n [unfolded x_def] by (rule drop_sub)
    finally have y: "sub src beg e = y" by (rule sym)
    have bn: "beg \<noteq> e" using nl by (simp add: beg_def n)
    have ly: "length y = e - beg" unfolding y [symmetric] using assms(2) by simp
    note R = trim_rest [OF False y_def l_def, folded t_def]
    have lt: "length t = l" unfolding R(2) [symmetric] using R(1) by simp
    have tn: "t \<noteq> []" using lt l_def by auto
    have le: "l \<le> e - beg" using R(1) ly by simp
    have fe: "fin \<le> e" using le bn nl by (simp add: fin_def beg_def n)
    note part = sub_of_prefix [OF R(2) [unfolded y [symmetric], symmetric] le]
    have whole: "sub src beg fin = t" using part [of l 0] lt by (simp add: fin_def)
    define w where "w = takeWhile (\<lambda>c. \<not> ws c) t"
    define v where "v = dropWhile (\<lambda>c. \<not> ws c) t"
    define pos where "pos = beg + length w"
    have lw: "length w + length v = l" unfolding w_def v_def using takeWhile_dropWhile_len lt by metis
    have fo: "mist_find_in_range_first_of t wspace = length w" unfolding w_def by (rule first_of_eq)
    have word: "sub src beg pos = w"
      using part [of "length w" 0] lw take_length_takeWhile [of "\<lambda>c. \<not> ws c" t] by (simp add: pos_def w_def)
    define rest where "rest = dropWhile ws v"
    define pos' where "pos' = pos + length (takeWhile ws v)"
    have v: "sub src pos fin = v"
      using part [of l "length w"] lt lw dropWhile_eq_drop [of "\<lambda>c. \<not> ws c" t]
      by (simp add: pos_def fin_def w_def v_def)
    have lr: "length (takeWhile ws v) + length rest = length v" unfolding rest_def by (rule takeWhile_dropWhile_len)
    have "rest = drop (length (takeWhile ws v)) v" unfolding rest_def by (rule dropWhile_eq_drop)
    also have "\<dots> = sub src pos' fin" unfolding v [symmetric] pos'_def by (rule drop_sub)
    finally have rest: "sub src pos' fin = rest" by (rule sym)
    have fin: "fin = pos' + length rest" "fin = pos + length v" using lw lr by (simp_all add: fin_def pos_def pos'_def)
    have wt: "w \<noteq> t \<longleftrightarrow> v \<noteq> []" unfolding w_def v_def using takeWhile_dropWhile_id [of "\<lambda>c. \<not> ws c" t]
      by (metis append.right_neutral same_append_eq)
    have bf: "b \<le> beg" "beg < fin" "b \<le> pos'" using l_def by (simp_all add: beg_def fin_def pos'_def pos_def)
    define create where "create ty i j = (case mist_token_create ty i j h of
            (None, h) \<Rightarrow> (MIST_OUT_OF_MEMORY, None, h)
          | (Some t, h) \<Rightarrow> (MIST_OK, Some t, h))" for ty i j
    have cl: "classify x =
        (if w = ''if'' then (if rest = [] then None else Some (MTT_IF, rest))
         else if w = ''else'' then (if v \<noteq> [] then None else Some (MTT_ELSE, t))
         else if w = ''endif'' then (if v \<noteq> [] then None else Some (MTT_ENDIF, t))
         else Some (MTT_PH, t))"
      unfolding classify_def Let_def t_def [symmetric] w_def [symmetric] v_def [symmetric] rest_def [symmetric] wt
      using tn by (simp only: if_False)
    have e1: "b + mist_find_in_range_first_not_of (sub src b e) wspace = beg" by (simp add: beg_def x_def)
    have e2: "beg + mist_find_in_range_last_not_of (sub src beg e) wspace + 1 = fin" unfolding y fin_def l_def by simp
    have e3: "beg + mist_find_in_range_first_of (sub src beg fin) wspace = pos" unfolding whole fo pos_def ..
    have e4: "pos + mist_find_in_range_first_not_of (sub src pos fin) wspace = pos'"
      unfolding v pos'_def first_not_of_eq ..
    have pl: "sub src pos' fin = [] \<or> pos' < fin" using fin(1) rest by (cases rest) simp_all
    have pf: "pos' = fin \<longleftrightarrow> rest = []" "pos = fin \<longleftrightarrow> v = []" using fin by (simp, metis add_cancel_right_right length_0_conv)
    have "(ec, tok, h') =
        (if w = ''if'' then (if rest = [] then (MIST_BAD_NAME, None, h) else create MTT_IF pos' fin)
         else if w = ''else'' then (if v \<noteq> [] then (MIST_BAD_NAME, None, h) else create MTT_ELSE beg fin)
         else if w = ''endif'' then (if v \<noteq> [] then (MIST_BAD_NAME, None, h) else create MTT_ENDIF beg fin)
         else create MTT_PH beg fin)"
      unfolding m [symmetric] mist_token_from_ph_string_def Let_def e1 e2 e3 e4 word create_def using bn pf
      by (simp only: if_False)
    then consider "classify x = None" "(ec, tok, h') = (MIST_BAD_NAME, None, h)"
      | ty i where "classify x = Some (ty, sub src i fin)" "(ec, tok, h') = create ty i fin" "b \<le> i" "i < fin"
      using cl bf pl unfolding whole [symmetric] rest [symmetric] by (auto split: if_splits)
    then show ?thesis
    proof cases
      case 1
      then show ?thesis by (simp add: token_class_def x_def)
    next
      case 2
      show ?thesis using 2(2) unfolding create_def
        by (intro token_created [OF 2(1) [unfolded x_def] refl 2(3,4) fe]) simp
    qed
  qed
qed

end
