(* ===== verification/Mist_Tokens_Loop.thy ===== *)
theory Mist_Tokens_Loop
  imports Mist_Tokens_Spec
begin

text \<open>
  The tokenizer accepts exactly the templates: the texts that are string chunks and placeholders
  between markers, where no part has a marker in it.
\<close>

subsection \<open>Templates\<close>

type_synonym segments = "(char list \<times> char list) list"

fun render :: "char list \<Rightarrow> char list \<Rightarrow> segments \<Rightarrow> char list \<Rightarrow> char list" where
  "render bm em [] l = l"
| "render bm em ((c, p) # segs) l = c @ bm @ p @ em @ render bm em segs l"

definition clean_segment :: "char list \<Rightarrow> char list \<Rightarrow> char list \<times> char list \<Rightarrow> bool" where
  "clean_segment bm em seg =
     (case seg of (c, p) \<Rightarrow>
        strstr (c @ bm) bm = Some (length c) \<and> strstr c em = None \<and>
        strstr (p @ em) em = Some (length p) \<and> strstr p bm = None \<and> classify p \<noteq> None)"

definition clean :: "char list \<Rightarrow> char list \<Rightarrow> segments \<Rightarrow> char list \<Rightarrow> bool" where
  "clean bm em segs l \<longleftrightarrow> list_all (clean_segment bm em) segs \<and> strstr l bm = None \<and> strstr l em = None"

definition parts :: "char list \<Rightarrow> char list \<Rightarrow> char list \<Rightarrow> segments \<Rightarrow> char list \<Rightarrow> bool" where
  "parts bm em s segs l \<longleftrightarrow> clean bm em segs l \<and> s = render bm em segs l"

text \<open>The tokens such a text is to give, with the text of each.\<close>

fun wanted :: "segments \<Rightarrow> char list \<Rightarrow> (EMistTokenType \<times> char list) list" where
  "wanted [] l = [(MTT_SCH, l)]"
| "wanted ((c, p) # segs) l = (MTT_SCH, c) # the (classify p) # wanted segs l"

definition reads :: "char list \<Rightarrow> CMistToken list \<Rightarrow> (EMistTokenType \<times> char list) list" where
  "reads src ts = map (\<lambda>t. (tok_type t, sub src (tok_beg t) (tok_end t))) ts"

definition in_source :: "char list \<Rightarrow> CMistToken list \<Rightarrow> bool" where
  "in_source src ts \<longleftrightarrow> list_all (\<lambda>t. tok_beg t \<le> tok_end t \<and> tok_end t \<le> length src) ts"

lemma clean_Cons: "clean bm em (seg # segs) l \<longleftrightarrow> clean_segment bm em seg \<and> clean bm em segs l"
  by (auto simp: clean_def)

lemma parts_chunk:
  assumes "strstr s bm = None" and "parts bm em s segs l"
  shows "segs = [] \<and> l = s"
proof (cases segs)
  case (Cons seg segs')
  obtain c p where seg: "seg = (c, p)" by fastforce
  have "s = c @ bm @ p @ em @ render bm em segs' l" "strstr (c @ bm) bm = Some (length c)"
    using assms(2) by (simp_all add: parts_def Cons seg clean_Cons clean_segment_def)
  with strstr_append [of c bm "p @ em @ render bm em segs' l"] assms(1) show ?thesis by simp
qed (use assms in \<open>simp add: parts_def\<close>)

text \<open>The first markers give the first segment, in one way only.\<close>

lemma parts_segment:
  assumes b: "strstr s bm = Some b" and p: "parts bm em s segs l"
  obtains c p segs' where "segs = (c, p) # segs'" "clean_segment bm em (c, p)" "length c = b"
    "take b s = c" "drop (b + length bm) s = p @ em @ render bm em segs' l"
    "strstr (drop (b + length bm) s) em = Some (length p)"
    "parts bm em (drop (b + length bm + length p + length em) s) segs' l"
proof (cases segs)
  case Nil
  then show thesis using p b by (simp add: parts_def clean_def)
next
  case (Cons seg segs')
  obtain c p where seg: "seg = (c, p)" by fastforce
  have s: "s = c @ bm @ p @ em @ render bm em segs' l" "clean_segment bm em (c, p)" "clean bm em segs' l"
    using p by (simp_all add: parts_def Cons seg clean_Cons)
  then have c: "strstr (c @ bm) bm = Some (length c)" "strstr (p @ em) em = Some (length p)"
    by (simp_all add: clean_segment_def)
  have "length c = b" using strstr_append [OF c(1)] s(1) b by simp
  moreover from this have "take b s = c" "drop (b + length bm) s = p @ em @ render bm em segs' l"
    "drop (b + length bm + length p + length em) s = render bm em segs' l" unfolding s(1) by simp_all
  ultimately show thesis using that [of c p segs'] s(2,3) strstr_append [OF c(2)]
    by (simp add: Cons seg parts_def)
qed

lemma parts_Cons:
  assumes "strstr s bm = Some b" and "strstr (drop (b + length bm) s) em = Some e"
    and "strstr (take b s) em = None" and "strstr (take e (drop (b + length bm) s)) bm = None"
    and "classify (take e (drop (b + length bm) s)) \<noteq> None"
    and "parts bm em (drop (b + length bm + e + length em) s) segs l"
  shows "parts bm em s ((take b s, take e (drop (b + length bm) s)) # segs) l"
proof -
  let ?r = "drop (b + length bm) s"
  note B = strstr_split [OF assms(1)] and E = strstr_split [OF assms(2)]
  have "length (take b s) = b" "length (take e ?r) = e" using B(2) E(2) by simp_all
  then have "clean_segment bm em (take b s, take e ?r)"
    using B(3) E(3) assms(3-5) by (simp add: clean_segment_def)
  moreover have "s = take b s @ bm @ take e ?r @ em @ drop (e + length em) ?r"
    unfolding E(1) [symmetric] by (rule B(1))
  moreover have "drop (e + length em) ?r = drop (b + length bm + e + length em) s"
    by (simp add: add.commute add.left_commute)
  ultimately show ?thesis using assms(6) by (simp add: parts_def clean_Cons)
qed

subsection \<open>The loop\<close>

definition tokenized where
  "tokenized bm em src cur ts0 h r =
     (case r of None \<Rightarrow> False
      | Some (ec, m, g, h') \<Rightarrow>
          \<exists>ts. grar_holds g (map Some (ts0 @ ts)) \<and> in_source src ts \<and>
               live h' = live h + int (length ts) + (if m = None then 0 else 1) \<and>
               (ec = MIST_OK \<and> m = None \<and>
                  (\<exists>segs l. parts bm em (drop cur src) segs l \<and> reads src ts = wanted segs l) \<or>
                ec = MIST_SYNTAX_ERROR \<and> (\<forall>segs l. \<not> parts bm em (drop cur src) segs l) \<and>
                  (m = None \<longrightarrow> \<not> ample (6 * (length src - cur) + 2) h) \<or>
                ec = MIST_OUT_OF_MEMORY \<and> m = None \<and> \<not> ample (6 * (length src - cur) + 2) h))"

lemma not_ample:
  assumes "within k h h'" and "\<not> ample n h'" and "k + n \<le> K"
  shows "\<not> ample K h"
  using ample_within [OF _ assms(1), of n] ample_mono [OF _ assms(3), of h] assms(2) by blast

lemma tokenized_error:
  assumes "grar_holds g (map Some (ts0 @ ts))" and "in_source src ts"
    and "live h' = live h + int (length ts)" and "\<not> ample (6 * (length src - cur) + 2) h"
  shows "tokenized bm em src cur ts0 h (Some (MIST_OUT_OF_MEMORY, None, g, h'))"
  using assms unfolding tokenized_def by auto

lemma tokenized_syntax:
  assumes "grar_holds g (map Some ts0)" and "within 3 h h1" and "cur < length src"
    and "\<And>segs l. \<not> parts bm em (drop cur src) segs l"
    and "syntax_error fmt src at g h1 = Some (ec, m, g', h2)" and "live h3 = live h2 + live h - live h1"
  shows "tokenized bm em src cur ts0 h (Some (ec, m, g', h3))"
proof -
  obtain ok h' where m: "malloc h1 = (ok, h')" by fastforce
  have K: "3 + 1 \<le> 6 * (length src - cur) + 2" using assms(3) by simp
  have "ok \<or> \<not> ample (6 * (length src - cur) + 2) h"
    using malloc_within [OF m] not_ample [OF assms(2) _ K] by auto
  then show ?thesis using assms(1,4-) malloc_live [OF m] unfolding tokenized_def
    by (cases ok) (auto simp: syntax_error_def mist_format_parse_error_def m in_source_def intro!: exI [of _ "[]"])
qed

lemma token_create_live: "in_source src [\<lparr>tok_type = ty, tok_beg = b, tok_end = e\<rparr>] \<longleftrightarrow> b \<le> e \<and> e \<le> length src"
  by (simp add: in_source_def)

text \<open>What is left at the end is one chunk.\<close>

lemma last_chunk:
  assumes g: "grar_holds g (map Some ts0)" and n: "length ts0 < 2 ^ 60" and c: "cur \<le> length src"
    and "strstr (drop cur src) bm = None" and "strstr (drop cur src) em = None"
  shows "tokenized bm em src cur ts0 h (tokenize_loop src bm em cur g h)"
proof -
  let ?t = "\<lparr>tok_type = MTT_SCH, tok_beg = cur, tok_end = length src\<rparr>"
  note L = tokenize_loop.simps [of src bm em cur g h]
  show ?thesis
  proof (cases rule: token_create_cases [of MTT_SCH cur "length src" h])
    case (1 h1)
    have "tokenized bm em src cur ts0 h (Some (MIST_OUT_OF_MEMORY, None, g, h1))"
      using g 1 ample_mono [of "6 * (length src - cur) + 2" h 1]
      by (intro tokenized_error [where ts = "[]"]) (auto simp: in_source_def)
    then show ?thesis unfolding L using 1 assms(4,5) by simp
  next
    case (2 h1)
    have "length (map Some ts0) < 2 ^ 60" using n by simp
    from grar_add_ok [OF g this, of "Some ?t" h1] obtain ok g' h2 where
      a: "grar_add_element g (Some ?t) h1 = Some (ok, g', h2)" "live h2 = live h1"
        "ok \<and> grar_holds g' (map Some (ts0 @ [?t])) \<or> \<not> ok \<and> g' = g" by auto
    have na: "ok \<or> \<not> ample (6 * (length src - cur) + 2) h"
      using grar_add_within [OF a(1)] not_ample [OF 2(3), of 1 "6 * (length src - cur) + 2"] by auto
    show ?thesis
    proof (cases ok)
      case True
      have "parts bm em (drop cur src) [] (drop cur src)" using assms(4,5) by (simp add: parts_def clean_def)
      moreover have "reads src [?t] = wanted [] (drop cur src)" using c by (simp add: reads_def)
      ultimately have "\<exists>segs l. parts bm em (drop cur src) segs l \<and> reads src [?t] = wanted segs l" by blast
      then have "tokenized bm em src cur ts0 h (Some (MIST_OK, None, g', h2))"
        unfolding tokenized_def using a True 2(2) c by (auto simp: in_source_def intro!: exI [of _ "[?t]"])
      then show ?thesis unfolding L using 2(1) a(1) True assms(4,5) by simp
    next
      case False
      then have "tokenized bm em src cur ts0 h (Some (MIST_OUT_OF_MEMORY, None, g', mfree h2))"
        using a na g 2(2) by (intro tokenized_error [where ts = "[]"]) (auto simp: in_source_def)
      then show ?thesis unfolding L using 2(1) a(1) False assms(4,5) by (simp add: mist_token_destroy_def)
    qed
  qed
qed

lemma no_parts_end:
  assumes "strstr s bm = None" and "strstr s em = Some e"
  shows "\<not> parts bm em s segs l"
proof
  assume p: "parts bm em s segs l"
  with parts_chunk [OF assms(1) p] have "strstr s em = None" by (auto simp: parts_def clean_def)
  then show False using assms(2) by simp
qed

lemma no_parts:
  assumes b: "strstr s bm = Some b" and r: "r = drop (b + length bm) s"
    and "\<And>e. strstr r em = Some e \<Longrightarrow> strstr (take b s) em \<noteq> None \<or> strstr (take e r) bm \<noteq> None \<or>
           classify (take e r) = None \<or> (\<forall>segs l. \<not> parts bm em (drop (b + length bm + e + length em) s) segs l)"
  shows "\<not> parts bm em s segs l"
proof
  assume "parts bm em s segs l"
  from parts_segment [OF b this] obtain c p segs' where P: "segs = (c, p) # segs'" "clean_segment bm em (c, p)"
    "length c = b" "take b s = c" "drop (b + length bm) s = p @ em @ render bm em segs' l"
    "strstr (drop (b + length bm) s) em = Some (length p)"
    "parts bm em (drop (b + length bm + length p + length em) s) segs' l" by blast
  have "take (length p) r = p" unfolding r P(5) by simp
  with assms(3) [of "length p"] P show False unfolding clean_segment_def r by auto
qed

text \<open>One segment has been read: what holds of the rest holds of the whole.\<close>

lemma tokenized_step:
  assumes b: "strstr (drop cur src) bm = Some b" and pos: "pos = cur + b + length bm"
    and e: "strstr (drop pos src) em = Some e" and fin: "fin = pos + e"
    and c: "strstr (sub src cur (cur + b)) em = None" and p: "strstr (sub src pos fin) bm = None"
    and cl: "classify (sub src pos fin) = Some (tok_type t, sub src (tok_beg t) (tok_end t))"
    and t: "tok_beg t \<le> tok_end t" "tok_end t \<le> fin" and ne: "bm \<noteq> []" "em \<noteq> []"
    and h: "live h1 = live h + 2" "within 6 h h1"
    and r: "tokenized bm em src (fin + length em) (ts0 @ [\<lparr>tok_type = MTT_SCH, tok_beg = cur, tok_end = cur + b\<rparr>, t]) h1 r"
  shows "tokenized bm em src cur ts0 h r"
proof -
  let ?c = "\<lparr>tok_type = MTT_SCH, tok_beg = cur, tok_end = cur + b\<rparr>" and ?nxt = "fin + length em"
  have dp: "drop (b + length bm) (drop cur src) = drop pos src" and
    dn: "drop (b + length bm + e + length em) (drop cur src) = drop ?nxt src"
    by (simp_all add: pos fin add.commute add.left_commute)
  have lens: "b + length bm \<le> length (drop cur src)" "e + length em \<le> length (drop pos src)"
    using strstr_split(2) [OF b] strstr_split(2) [OF e] by simp_all
  have bl: "cur + b \<le> length src" "?nxt \<le> length src" 
    using lens length_greater_0_conv [of bm] length_greater_0_conv [of em] ne unfolding pos fin length_drop
    by linarith+
  have K: "6 + (6 * (length src - ?nxt) + 2) \<le> 6 * (length src - cur) + 2"
    using bl ne length_greater_0_conv [of bm] length_greater_0_conv [of em] unfolding pos fin by linarith
  have am: "\<not> ample (6 * (length src - ?nxt) + 2) h1 \<Longrightarrow> \<not> ample (6 * (length src - cur) + 2) h"
    by (rule not_ample [OF h(2) _ K])
  have cp: "take b (drop cur src) = sub src cur (cur + b)" "take e (drop pos src) = sub src pos fin"
    by (simp_all add: fin)
  note P = parts_Cons [OF b, unfolded dp, OF e, unfolded cp dn, OF c p]
  have yes: "parts bm em (drop cur src) ((sub src cur (cur + b), sub src pos fin) # segs) l"
    if "parts bm em (drop ?nxt src) segs l" for segs l by (rule P [OF _ that]) (simp add: cl)
  have no: "\<not> parts bm em (drop cur src) segs l" if "\<forall>segs l. \<not> parts bm em (drop ?nxt src) segs l" for segs l
    by (rule no_parts [OF b refl], unfold dp dn) (use e that dn in \<open>auto simp: fin\<close>)
  obtain ec m g h' where rr: "r = Some (ec, m, g, h')" using r by (cases r) (auto simp: tokenized_def)
  from r [unfolded tokenized_def rr] obtain ts where R:
    "grar_holds g (map Some ((ts0 @ [?c, t]) @ ts))" "in_source src ts"
    "live h' = live h1 + int (length ts) + (if m = None then 0 else 1)"
    "ec = MIST_OK \<and> m = None \<and>
       (\<exists>segs l. parts bm em (drop ?nxt src) segs l \<and> reads src ts = wanted segs l) \<or>
     ec = MIST_SYNTAX_ERROR \<and> (\<forall>segs l. \<not> parts bm em (drop ?nxt src) segs l) \<and>
       (m = None \<longrightarrow> \<not> ample (6 * (length src - ?nxt) + 2) h1) \<or>
     ec = MIST_OUT_OF_MEMORY \<and> m = None \<and> \<not> ample (6 * (length src - ?nxt) + 2) h1" by auto
  let ?ts = "?c # t # ts"
  have i: "in_source src ?ts" using R(2) t bl by (simp add: in_source_def)
  have rd: "reads src ?ts = wanted ((sub src cur (cur + b), sub src pos fin) # segs) l" if "reads src ts = wanted segs l" for segs l
    using that cl by (simp add: reads_def)
  have g: "grar_holds g (map Some (ts0 @ ?ts))" using R(1) by simp
  have lv: "live h' = live h + int (length ?ts) + (if m = None then 0 else 1)" using R(3) h(1) by simp
  from R(4) have "ec = MIST_OK \<and> m = None \<and>
      (\<exists>segs l. parts bm em (drop cur src) segs l \<and> reads src ?ts = wanted segs l) \<or>
    ec = MIST_SYNTAX_ERROR \<and> (\<forall>segs l. \<not> parts bm em (drop cur src) segs l) \<and>
      (m = None \<longrightarrow> \<not> ample (6 * (length src - cur) + 2) h) \<or>
    ec = MIST_OUT_OF_MEMORY \<and> m = None \<and> \<not> ample (6 * (length src - cur) + 2) h"
    using yes no am rd by metis
  then show ?thesis unfolding tokenized_def rr option.case prod.case
    using g i lv by (intro exI [of _ ?ts] conjI)
qed

lemma set_sub: "NUL \<notin> set src \<Longrightarrow> NUL \<notin> set (sub src b e)"
  by (meson in_set_dropD in_set_takeD)

lemma bad_placeholder_ok:
  assumes "NUL \<notin> set src"
  obtains m h' where "bad_placeholder MIST_BAD_NAME src pos fin g h = Some (MIST_SYNTAX_ERROR, m, g, h')"
    "live h' = live h + (if m = None then 0 else 1)" "m = None \<longrightarrow> \<not> ample 2 h"
proof -
  from get_substring_within [OF set_sub [OF assms], of fin pos h] obtain r h1 where
    r: "mist_get_substring (sub src pos fin) h = Some (r, h1)" "within 1 h h1"
      "case r of None \<Rightarrow> live h1 = live h \<and> \<not> ample 1 h
       | Some b \<Rightarrow> cstr b = Some (sub src pos fin) \<and> live h1 = live h + 1" by blast
  show thesis
  proof (cases r)
    case None
    then have "bad_placeholder MIST_BAD_NAME src pos fin g h = Some (MIST_SYNTAX_ERROR, None, g, h1)"
      using r(1) by (simp add: bad_placeholder_def)
    then show thesis using that [of None h1] None r(3) ample_mono [of 2 h 1] by auto
  next
    case (Some b)
    obtain ok h2 where m: "malloc h1 = (ok, h2)" by fastforce
    have na: "ok \<or> \<not> ample 2 h" using malloc_within [OF m] not_ample [OF r(2), of 1 2] by auto
    show thesis
    proof (cases ok)
      case True
      then have "bad_placeholder MIST_BAD_NAME src pos fin g h = Some (MIST_SYNTAX_ERROR,
          Some (Message errInvalidPHName [sub src pos fin] (mist_line_num_for_ptr (take pos src))), g, mfree h2)"
        using r Some m by (simp add: bad_placeholder_def)
      then show thesis by (rule that) (use malloc_live [OF m] r(3) Some True in auto)
    next
      case False
      then have "bad_placeholder MIST_BAD_NAME src pos fin g h = Some (MIST_SYNTAX_ERROR, None, g, mfree h2)"
        using r Some m by (simp add: bad_placeholder_def)
      then show thesis by (rule that) (use malloc_live [OF m] r(3) Some False na in auto)
    qed
  qed
qed

lemma syntax_error_Some: "\<exists>ec m h2. syntax_error fmt src at g h1 = Some (ec, m, g, h2)"
  by (cases "malloc h1"; cases "fst (malloc h1)") (auto simp: syntax_error_def mist_format_parse_error_def split: prod.split)

text \<open>The parts are free of markers and the class of the placeholder is to be found.\<close>

definition classified where
  "classified src bm em cur beg pos fin g h =
     (case mist_token_from_ph_string src pos fin h of
        (ec, None, h) \<Rightarrow> bad_placeholder ec src pos fin g h
      | (ec, Some tok_ph, h) \<Rightarrow>
          do { (ok, g, h) \<leftarrow> add_tokens cur beg tok_ph g h;
               if \<not> ok then Some (MIST_OUT_OF_MEMORY, None, g, h)
               else tokenize_loop src bm em (fin + length em) g h })"

lemma classified_ok:
  assumes b: "strstr (drop cur src) bm = Some b" and pos: "pos = cur + b + length bm"
    and e: "strstr (drop pos src) em = Some e" and fin: "fin = pos + e"
    and c: "strstr (sub src cur (cur + b)) em = None" and p: "strstr (sub src pos fin) bm = None"
    and ne: "bm \<noteq> []" "em \<noteq> []" and nul: "NUL \<notin> set src" and fl: "fin < length src"
    and g: "grar_holds g (map Some ts0)" and n: "length ts0 + 1 < 2 ^ 60"
    and h: "live h1 = live h" "within 2 h h1"
    and IH: "\<And>ts g h. \<lbrakk>grar_holds g (map Some ts); length ts = length ts0 + 2\<rbrakk> \<Longrightarrow>
        tokenized bm em src (fin + length em) ts h (tokenize_loop src bm em (fin + length em) g h)"
  shows "tokenized bm em src cur ts0 h (classified src bm em cur (cur + b) pos fin g h1)"
proof -
  let ?K = "6 * (length src - cur) + 2"
  have cl: "cur < length src" "pos \<le> fin" using fl unfolding fin pos by simp_all
  have K: "8 \<le> ?K" using cl(1) by simp
  obtain ec tok h2 where t: "mist_token_from_ph_string src pos fin h1 = (ec, tok, h2)" by (cases rule: prod_cases3)
  note T = token_from_ph_ok [OF cl(2) less_imp_le [OF fl] t, unfolded token_class_def]
  show ?thesis
  proof (cases "classify (sub src pos fin)")
    case None
    then have T: "ec = MIST_BAD_NAME" "tok = None" "h2 = h1" using T by simp_all
    obtain m h3 where B: "bad_placeholder MIST_BAD_NAME src pos fin g h1 = Some (MIST_SYNTAX_ERROR, m, g, h3)"
      "live h3 = live h1 + (if m = None then 0 else 1)" "m = None \<longrightarrow> \<not> ample 2 h1"
      by (rule bad_placeholder_ok [OF nul])
    have "\<not> parts bm em (drop cur src) segs l" for segs l
      by (rule no_parts [OF b refl])
        (use None e in \<open>auto simp: pos fin add.commute add.left_commute\<close>)
    moreover have "m = None \<longrightarrow> \<not> ample ?K h" using B(3) not_ample [OF h(2), of 2 ?K] K by auto
    ultimately have "tokenized bm em src cur ts0 h (Some (MIST_SYNTAX_ERROR, m, g, h3))"
      unfolding tokenized_def using g B(2) h(1) by (auto simp: in_source_def intro!: exI [of _ "[]"])
    then show ?thesis by (simp add: classified_def t T B(1))
  next
    case (Some a)
    obtain ty x where a: "a = (ty, x)" by fastforce
    from T have w: "within 1 h1 h2" by (simp add: Some a)
    have w2: "within 3 h h2" using within_trans [OF h(2) w] by (simp add: numeral_3_eq_3)
    from T consider "ec = MIST_OUT_OF_MEMORY" "tok = None" "live h2 = live h1" "\<not> ample 1 h1"
      | tk where "ec = MIST_OK" "tok = Some tk" "live h2 = live h1 + 1" "tok_type tk = ty"
          "tok_beg tk < tok_end tk" "tok_end tk \<le> fin" "sub src (tok_beg tk) (tok_end tk) = x"
      by (auto simp: Some a)
    then show ?thesis
    proof cases
      case 1
      have "\<not> ample ?K h" by (rule not_ample [OF h(2) 1(4)]) (use K in simp)
      then have "tokenized bm em src cur ts0 h (Some (MIST_OUT_OF_MEMORY, None, g, h2))"
        using g 1 h(1) by (intro tokenized_error [where ts = "[]"]) (auto simp: in_source_def)
      then show ?thesis by (simp add: classified_def t 1 bad_placeholder_def)
    next
      case 2
      from add_tokens_ok [OF g n, of cur "cur + b" tk h2] obtain ok g' h3 ts' where
        A: "add_tokens cur (cur + b) tk g h2 = Some (ok, g', h3)" "within 3 h2 h3" "grar_holds g' (map Some ts')"
          "ok \<and> ts' = ts0 @ [\<lparr>tok_type = MTT_SCH, tok_beg = cur, tok_end = cur + b\<rparr>, tk] \<and> live h3 = live h2 + 1 \<or>
           \<not> ok \<and> (ts' = ts0 \<or> ts' = ts0 @ [\<lparr>tok_type = MTT_SCH, tok_beg = cur, tok_end = cur + b\<rparr>]) \<and>
           \<not> ample 3 h2 \<and> live h3 = live h2 - 1 + int (length ts') - int (length ts0)" by blast
      show ?thesis
      proof (cases ok)
        case True
        with A(4) have ts: "ts' = ts0 @ [\<lparr>tok_type = MTT_SCH, tok_beg = cur, tok_end = cur + b\<rparr>, tk]"
          "live h3 = live h2 + 1" by simp_all
        have R: "tokenized bm em src (fin + length em) ts' h3 (tokenize_loop src bm em (fin + length em) g' h3)"
          by (rule IH [OF A(3)]) (simp add: ts)
        have "classified src bm em cur (cur + b) pos fin g h1 = tokenize_loop src bm em (fin + length em) g' h3"
          by (simp add: classified_def t 2(2) A(1) True)
        moreover have "tokenized bm em src cur ts0 h (tokenize_loop src bm em (fin + length em) g' h3)"
        proof (rule tokenized_step [OF b pos e fin c p _ _ 2(6) ne _ _ R [unfolded ts]])
          show "classify (sub src pos fin) = Some (tok_type tk, sub src (tok_beg tk) (tok_end tk))"
            unfolding 2(4,7) Some a ..
          show "within 6 h h3" using within_trans [OF w2 A(2)] by simp
        qed (use 2(3,5) h(1) ts(2) in simp_all)
        ultimately show ?thesis by simp
      next
        case False
        with A(4) obtain ts where ts: "ts' = ts0 @ ts" "in_source src ts" "\<not> ample 3 h2"
          "live h3 = live h2 - 1 + int (length ts)"
          using fl cl unfolding fin pos by (auto simp: in_source_def)
        have "\<not> ample ?K h" by (rule not_ample [OF w2 ts(3)]) (use K in simp)
        then have "tokenized bm em src cur ts0 h (Some (MIST_OUT_OF_MEMORY, None, g', h3))"
          using A(3) ts h(1) 2(3) by (intro tokenized_error [where ts = ts]) simp_all
        then show ?thesis by (simp add: classified_def t 2(2) A(1) False)
      qed
    qed
  qed
qed

lemma tokenize_loop_ok:
  assumes ne: "bm \<noteq> []" "em \<noteq> []" and nul: "NUL \<notin> set src"
  shows "\<lbrakk>cur \<le> length src; grar_holds g (map Some ts0); length ts0 + 2 * (length src - cur) < 2 ^ 60\<rbrakk> \<Longrightarrow>
    tokenized bm em src cur ts0 h (tokenize_loop src bm em cur g h)"
proof (induction "length src - cur" arbitrary: cur g ts0 h rule: less_induct)
  case less
  note L = tokenize_loop.simps [of src bm em cur g h]
  let ?s = "drop cur src"
  show ?case
  proof (cases "strstr ?s bm")
    case None
    show ?thesis
    proof (cases "strstr ?s em")
      case None
      show ?thesis by (rule last_chunk [OF less.prems(2) _ less.prems(1) \<open>strstr ?s bm = None\<close> None])
          (use less.prems(3) in simp)
    next
      case (Some e)
      obtain ec m h2 where E: "syntax_error errNoBeginMarker src (cur + e) g h = Some (ec, m, g, h2)"
        using syntax_error_Some by blast
      have "cur < length src" using strstr_split(2) [OF Some] ne by (cases em) simp_all
      from tokenized_syntax [where ?h3.0 = h2, OF less.prems(2) within_refl this no_parts_end [OF None Some] E]
      show ?thesis unfolding L using None Some E by simp
    qed
  next
    case b: (Some b)
    define pos where "pos = cur + b + length bm"
    have dp: "drop (b + length bm) ?s = drop pos src" by (simp add: pos_def add.commute add.left_commute)
    have bl: "pos \<le> length src" "cur < length src" "length ?s > 0"
      using strstr_split(2) [OF b] ne less.prems(1) unfolding pos_def by (cases bm, simp, simp)+
    show ?thesis
    proof (cases "strstr (drop pos src) em")
      case None
      obtain ec m h2 where E: "syntax_error errNoEndMarker src (cur + b) g h = Some (ec, m, g, h2)"
        using syntax_error_Some by blast
      have "\<not> parts bm em ?s segs l" for segs l by (rule no_parts [OF b refl], unfold dp) (simp add: None)
      from tokenized_syntax [where ?h3.0 = h2, OF less.prems(2) within_refl bl(2) this E]
      show ?thesis unfolding L using b None E by (simp add: Let_def pos_def)
    next
      case e: (Some e)
      define fin where "fin = pos + e"
      have fl: "fin < length src" using strstr_split(2) [OF e] ne bl(1) unfolding fin_def by (cases em) simp_all
      let ?c = "sub src cur (cur + b)" and ?p = "sub src pos fin"
      have cp: "take b ?s = ?c" "take e (drop pos src) = ?p" by (simp_all add: fin_def)
      have none: "\<not> parts bm em ?s segs l" if "strstr ?c em \<noteq> None \<or> strstr ?p bm \<noteq> None" for segs l
        by (rule no_parts [OF b refl], unfold dp cp(1)) (use that cp(2) e in auto)
      have oom: "tokenized bm em src cur ts0 h (Some (MIST_OUT_OF_MEMORY, None, g, h'))"
        if "live h' = live h" "within 2 h h''" "\<not> ample 1 h''" for h' h''
        using less.prems(2) that(1) not_ample [OF that(2,3), of "6 * (length src - cur) + 2"] bl(2)
        by (intro tokenized_error [where ts = "[]"]) (simp_all add: in_source_def)
      obtain r1 h1 where f1: "find_in_copy ?p bm h = Some (r1, h1)" "within 1 h h1"
        "r1 = None \<and> live h1 = live h \<and> \<not> ample 1 h \<or> r1 = Some (strstr ?p bm) \<and> live h1 = live h + 1"
        using find_in_copy_ok [OF set_sub [OF nul]] by blast
      note L1 = L [unfolded b option.case Let_def, folded pos_def, unfolded e option.case, folded fin_def, unfolded f1(1)]
      consider "r1 = None" | q where "r1 = Some (Some q)" | "r1 = Some None" by (cases r1) auto
      then show ?thesis
      proof cases
        case 1
        show ?thesis unfolding L1 using oom [of h1 h] f1(3) 1 by simp
      next
        case 2
        with f1(3) have q: "strstr ?p bm \<noteq> None" "live h1 = live h + 1" by (auto dest: sym)
        obtain ec m h2 where E: "syntax_error errTooManyBeginMarkers src fin g h1 = Some (ec, m, g, h2)"
          using syntax_error_Some by blast
        have "tokenized bm em src cur ts0 h (Some (ec, m, g, mfree h2))"
          by (rule tokenized_syntax [OF less.prems(2) within_mono [OF f1(2)] bl(2) none [OF disjI2 [OF q(1)]] E])
            (simp_all add: q)
        then show ?thesis unfolding L1 using 2 E by simp
      next
        case 3
        with f1(3) have p: "strstr ?p bm = None" "live h1 = live h + 1" by simp_all
        obtain r2 h2 where f2: "find_in_copy ?c em (mfree h1) = Some (r2, h2)" "within 1 (mfree h1) h2"
          "r2 = None \<and> live h2 = live (mfree h1) \<and> \<not> ample 1 (mfree h1) \<or>
           r2 = Some (strstr ?c em) \<and> live h2 = live (mfree h1) + 1"
          using find_in_copy_ok [OF set_sub [OF nul]] by blast
        have w2: "within 2 h h2" using within_trans [OF f1(2), of 1 h2] f2(2) by (simp add: numeral_2_eq_2)
        note L2 = L1 [unfolded 3 bind.simps prod.case option.case f2(1)]
        consider "r2 = None" | q where "r2 = Some (Some q)" | "r2 = Some None" by (cases r2) auto
        then show ?thesis
        proof cases
          case 1
          show ?thesis unfolding L2 using oom [of h2 h1] f2(3) 1 p(2) within_mono [OF f1(2), of 2] by simp
        next
          case 2
          with f2(3) p(2) have q: "strstr ?c em \<noteq> None" "live h2 = live h + 1" by (auto dest: sym)
          obtain ec m h3 where E: "syntax_error errNoBeginMarker src (cur + q) g h2 = Some (ec, m, g, h3)"
            using syntax_error_Some by blast
          have "tokenized bm em src cur ts0 h (Some (ec, m, g, mfree h3))"
            by (rule tokenized_syntax [OF less.prems(2) within_mono [OF w2] bl(2) none [OF disjI1 [OF q(1)]] E])
              (simp_all add: q)
          then show ?thesis unfolding L2 using 2 E by simp
        next
          case r2: 3
          with f2(3) p(2) have c: "strstr ?c em = None" "live (mfree h2) = live h" by simp_all
          have "tokenized bm em src cur ts0 h (classified src bm em cur (cur + b) pos fin g (mfree h2))"
          proof (rule classified_ok [OF b pos_def e fin_def c(1) p(1) ne nul fl less.prems(2) _ c(2)])
            show "length ts0 + 1 < 2 ^ 60" using less.prems(3) bl(2) by simp
            show "within 2 h (mfree h2)" using w2 by simp
            fix ts :: "CMistToken list" and g h assume T: "grar_holds g (map Some ts)" "length ts = length ts0 + 2"
            have nx: "fin + length em \<le> length src" "cur < fin + length em"
              using strstr_split(2) [OF e] bl(1,2) ne unfolding fin_def pos_def by (cases em; simp)+
            show "tokenized bm em src (fin + length em) ts h (tokenize_loop src bm em (fin + length em) g h)"
              by (rule less.hyps [OF _ nx(1) T(1)]) (use nx bl(2) T(2) less.prems(3) in linarith)+
          qed
          then show ?thesis unfolding L2 using r2 by (simp add: classified_def)
        qed
      qed
    qed
  qed
qed

subsection \<open>The whole analysis\<close>

lemma destroy_tokens:
  assumes "grar_holds g (map Some ts)"
  shows "\<exists>g' h'. grar_destroy_with_elements g (Some mist_token_dtor) h = Some (g', h') \<and>
           live h' = live h - int (length ts) - 1"
proof -
  have "\<exists>h'. mist_token_dtor e h = Some h' \<and> live h' = live h - 1" if "e \<in> set (map Some ts)" for e h
    using that by (auto simp: mist_token_dtor_def mist_token_destroy_def)
  from destroy_elems_live [of "map Some ts" mist_token_dtor "\<lambda>_. 1", OF this, of h] obtain h' where
    "destroy_elems mist_token_dtor (map Some ts) h = Some h'" "live h' = live h - (\<Sum>e\<leftarrow>map Some ts. 1)" by auto
  moreover have "(\<Sum>e\<leftarrow>map Some ts. 1) = int (length ts)" by (induction ts) simp_all
  ultimately show ?thesis
    by (simp add: grar_destroy_with_elements_def elements [OF assms] grar_destroy_ok [OF assms])
qed

definition analysed where
  "analysed bm em src h r m h' =
     (case r of
        Some g \<Rightarrow> m = None \<and>
          (\<exists>ts segs l. grar_holds g (map Some ts) \<and> in_source src ts \<and> live h' = live h + 2 + int (length ts) \<and>
             parts bm em src segs l \<and> reads src ts = wanted segs l)
      | None \<Rightarrow> live h' = live h + (if m = None then 0 else 1) \<and>
          (m \<noteq> None \<longrightarrow> (\<forall>segs l. \<not> parts bm em src segs l)) \<and>
          (m = None \<longrightarrow> \<not> ample (6 * length src + 4) h))"

lemma tokenize_string_ok:
  assumes ne: "bm \<noteq> []" "em \<noteq> []" and nul: "NUL \<notin> set src" and len: "length src < 2 ^ 59"
  shows "\<exists>r m h'. mist_template_tokenize_string src bm em h = Some (r, m, h') \<and> analysed bm em src h r m h'"
proof -
  obtain ok h1 where m1: "malloc h = (ok, h1)" by fastforce
  note w1 = malloc_within [OF m1] and l1 = malloc_live [OF m1]
  note D = mist_template_tokenize_string_def [of src bm em h]
  show ?thesis
  proof (cases ok)
    case False
    then have "mist_template_tokenize_string src bm em h = Some (None, None, h1)" using m1 ne by (simp add: D)
    then show ?thesis using False w1 l1 ample_mono [of "6 * length src + 4" h 1] by (auto simp: analysed_def)
  next
    case True
    obtain okc h2 where m2: "malloc h1 = (okc, h2)" by fastforce
    note w2 = malloc_within [OF m2] and l2 = malloc_live [OF m2]
    have w: "within 2 h h2" using within_trans [of 1 h h1 1 h2] w1 w2 by (simp add: numeral_2_eq_2)
    obtain gr :: "CMistToken CGrowingArray option" and h2' where gc: "grar_create h1 = (gr, h2')" by fastforce
    have C: "h2' = h2" "gr \<noteq> None \<longleftrightarrow> okc" using gc m2 by (cases okc; auto simp: grar_create_def)+
    show ?thesis
    proof (cases gr)
      case None
      then have "\<not> ample (6 * length src + 4) h" using C w2 not_ample [of 1 h h1 1 "6 * length src + 4"] w1 by simp
      moreover have "mist_template_tokenize_string src bm em h = Some (None, None, mfree h2)"
        using True None m1 gc C ne by (simp add: D)
      moreover have "live (mfree h2) = live h" using None C True l1 l2 by simp
      ultimately show ?thesis by (auto simp: analysed_def)
    next
      case (Some g)
      then have g: "grar_holds g (map Some [])" "live h2 = live h + 2"
        using grar_create_ok [where 'a = CMistToken, of h1] gc C True l1 l2 by auto
      have T: "tokenized bm em src 0 [] h2 (tokenize_loop src bm em 0 g h2)"
        by (rule tokenize_loop_ok [OF ne nul _ g(1)]) (use len in simp_all)
      then obtain ec m g' h3 where r: "tokenize_loop src bm em 0 g h2 = Some (ec, m, g', h3)"
        by (cases "tokenize_loop src bm em 0 g h2") (auto simp: tokenized_def)
      from T [unfolded r tokenized_def] obtain ts where R:
        "grar_holds g' (map Some ts)" "in_source src ts" "live h3 = live h2 + int (length ts) + (if m = None then 0 else 1)"
        "ec = MIST_OK \<and> m = None \<and> (\<exists>segs l. parts bm em src segs l \<and> reads src ts = wanted segs l) \<or>
         ec = MIST_SYNTAX_ERROR \<and> (\<forall>segs l. \<not> parts bm em src segs l) \<and>
           (m = None \<longrightarrow> \<not> ample (6 * length src + 2) h2) \<or>
         ec = MIST_OUT_OF_MEMORY \<and> m = None \<and> \<not> ample (6 * length src + 2) h2" by auto
      have na: "\<not> ample (6 * length src + 4) h" if "\<not> ample (6 * length src + 2) h2"
        by (rule not_ample [OF w that]) simp
      obtain gd h4 where d: "grar_destroy_with_elements g' (Some mist_token_dtor) h3 = Some (gd, h4)"
        "live h4 = live h3 - int (length ts) - 1" using destroy_tokens [OF R(1)] by blast
      have E: "mist_template_tokenize_string src bm em h =
          (if ec \<noteq> MIST_OK then Some (None, m, mfree h4) else Some (Some g', m, h3))"
        using True Some m1 gc C(1) ne r d(1) by (simp add: D)
      show ?thesis
      proof (cases "ec = MIST_OK")
        case True
        then show ?thesis using E R g(2) by (auto simp: analysed_def)
      next
        case False
        then show ?thesis using E R(3,4) g(2) d(2) na by (auto simp: analysed_def)
      qed
    qed
  qed
qed

end
