(* ===== verification/Mist_Template.thy ===== *)
theory Mist_Template
  imports Mist_Tokens
begin

text \<open>
  The templates and placeholders of src/sources/tools/kedr_gen/src/mist_engine/src/mist_base.c:
  the structures, which refer to each other by addresses, and their creation, changes and
  destruction.  The names, values, string chunks and separators are strings that nothing
  changes after they were made; each is a block of the heap.
\<close>

datatype EMistPlaceholderType = MPH_PLAIN | MPH_JOIN | MPH_COND

type_synonym tptr = nat

record CMistPlaceholder =
  ph_type :: EMistPlaceholderType
  ph_name :: "char list"
  tpl :: "tptr option"
  sep :: "char list option"
  tpl_cond :: "tptr option"
  tpl_then :: "tptr option"
  tpl_else :: "tptr option"
  is_concat :: bool

record CMistTemplate =
  tpl_name :: "char list"
  vals :: "char list CGrowingArray"
  sch :: "char list CGrowingArray"
  phs :: "tptr CGrowingArray"
  is_evaluated :: bool

text \<open>The structures that are allocated; addresses are not used twice.\<close>

record tstore =
  templates :: "tptr \<Rightarrow> CMistTemplate option"
  placeholders :: "tptr \<Rightarrow> CMistPlaceholder option"
  next_ptr :: tptr

definition put_template :: "tptr \<Rightarrow> CMistTemplate \<Rightarrow> tstore \<Rightarrow> tstore" where
  "put_template a t st = st\<lparr>templates := (templates st)(a \<mapsto> t)\<rparr>"

definition put_placeholder :: "tptr \<Rightarrow> CMistPlaceholder \<Rightarrow> tstore \<Rightarrow> tstore" where
  "put_placeholder a p st = st\<lparr>placeholders := (placeholders st)(a \<mapsto> p)\<rparr>"

definition new_ptr :: "tstore \<Rightarrow> tptr \<times> tstore" where
  "new_ptr st = (next_ptr st, st\<lparr>next_ptr := next_ptr st + 1\<rparr>)"

subsection \<open>Placeholders\<close>

definition mist_placeholder_create ::
  "char list \<Rightarrow> char list option \<Rightarrow> tstore \<Rightarrow> mheap \<Rightarrow> (tptr option \<times> tstore \<times> mheap) option" where
  "mist_placeholder_create name separator st h =
     (if mist_name_is_bad name \<noteq> 0 then None
      else Some (case malloc h of
        (False, h) \<Rightarrow> (None, st, h)
      | (True, h) \<Rightarrow>
          (case malloc h of
             (False, h) \<Rightarrow> (None, st, mfree h)
           | (True, h) \<Rightarrow>
               (case (if separator = None then (True, h) else malloc h) of
                  (False, h) \<Rightarrow> (None, st, mfree (mfree h))
                | (True, h) \<Rightarrow>
                    (let (a, st) = new_ptr st;
                         p = \<lparr>ph_type = (if separator = None then MPH_PLAIN else MPH_JOIN), ph_name = name,
                              tpl = None, sep = separator, tpl_cond = None, tpl_then = None,
                              tpl_else = None, is_concat = False\<rparr>
                     in (Some a, put_placeholder a p st, h))))))"

subsection \<open>Templates\<close>

definition mist_template_create ::
  "char list \<Rightarrow> tstore \<Rightarrow> mheap \<Rightarrow> (tptr option \<times> tstore \<times> mheap) option" where
  "mist_template_create name st h =
     (if mist_name_is_bad name \<noteq> 0 then None
      else Some (case malloc h of
        (False, h) \<Rightarrow> (None, st, h)
      | (True, h) \<Rightarrow>
          (case malloc h of
             (False, h) \<Rightarrow> (None, st, mfree h)
           | (True, h) \<Rightarrow>
               (case grar_create h of
                  (None, h) \<Rightarrow> (None, st, mfree (mfree h))
                | (Some vs, h) \<Rightarrow>
                    (case grar_create h of
                       (None, h) \<Rightarrow> (let (vs, h) = grar_destroy vs h in (None, st, mfree (mfree h)))
                     | (Some ss, h) \<Rightarrow>
                         (case grar_create h of
                            (None, h) \<Rightarrow>
                              (let (ss, h) = grar_destroy ss h; (vs, h) = grar_destroy vs h
                               in (None, st, mfree (mfree h)))
                          | (Some ps, h) \<Rightarrow>
                              (let (a, st) = new_ptr st;
                                   t = \<lparr>tpl_name = name, vals = vs, sch = ss, phs = ps, is_evaluated = False\<rparr>
                               in (Some a, put_template a t st, h))))))))"

text \<open>
  Destroying follows the templates that a placeholder owns: dest destroys a template and
  mist_template_destroy ties the knot.  Its fuel bounds the depth of the templates; each of them
  has an address of its own, so the number of addresses is enough.
\<close>

type_synonym destroyer = "tptr \<Rightarrow> tstore \<Rightarrow> mheap \<Rightarrow> (tstore \<times> mheap) option"

definition destroy_branch :: "destroyer \<Rightarrow> tptr option \<Rightarrow> tstore \<Rightarrow> mheap \<Rightarrow> (tstore \<times> mheap) option" where
  "destroy_branch dest b st h = (case b of None \<Rightarrow> Some (st, h) | Some mt \<Rightarrow> dest mt st h)"

definition mist_placeholder_destroy :: "destroyer \<Rightarrow> tptr \<Rightarrow> tstore \<Rightarrow> mheap \<Rightarrow> (tstore \<times> mheap) option" where
  "mist_placeholder_destroy dest ph st h =
     do { p \<leftarrow> placeholders st ph;
          (st, h) \<leftarrow>
            (if ph_type p = MPH_COND
             then do { (st, h) \<leftarrow> destroy_branch dest (tpl p) st h;
                       (st, h) \<leftarrow> destroy_branch dest (tpl_then p) st h;
                       destroy_branch dest (tpl_else p) st h }
             else Some (st, h));
          let h = (if sep p = None then mfree h else mfree (mfree h));
          Some (st\<lparr>placeholders := (placeholders st)(ph := None)\<rparr>, mfree h) }"

fun mist_placeholder_dtors ::
  "destroyer \<Rightarrow> tptr TGAElem list \<Rightarrow> tstore \<Rightarrow> mheap \<Rightarrow> (tstore \<times> mheap) option" where
  "mist_placeholder_dtors dest [] st h = Some (st, h)"
| "mist_placeholder_dtors dest (p # ps) st h =
     do { ph \<leftarrow> p;
          (st, h) \<leftarrow> mist_placeholder_destroy dest ph st h;
          mist_placeholder_dtors dest ps st h }"

definition template_destroy :: "destroyer \<Rightarrow> destroyer" where
  "template_destroy dest mt st h =
     do { t \<leftarrow> templates st mt;
          (vs, h) \<leftarrow> grar_destroy_with_elements (vals t) None (mfree h);
          (ss, h) \<leftarrow> grar_destroy_with_elements (sch t) None h;
          ps \<leftarrow> grar_elements (phs t);
          (st, h) \<leftarrow> mist_placeholder_dtors dest ps st h;
          let (ps, h) = grar_destroy (phs t) h;
          Some (st\<lparr>templates := (templates st)(mt := None)\<rparr>, mfree h) }"

primrec mist_template_destroy :: "nat \<Rightarrow> destroyer" where
  "mist_template_destroy 0 = (\<lambda>mt st h. None)"
| "mist_template_destroy (Suc n) = template_destroy (mist_template_destroy n)"

definition destroy_template :: destroyer where
  "destroy_template mt st h = mist_template_destroy (Suc (next_ptr st)) mt st h"

definition destroy_placeholder :: "tptr \<Rightarrow> tstore \<Rightarrow> mheap \<Rightarrow> (tstore \<times> mheap) option" where
  "destroy_placeholder ph st h = mist_placeholder_destroy (mist_template_destroy (Suc (next_ptr st))) ph st h"

text \<open>The values are freed; then the array is cleared.\<close>

definition mist_template_clear_values :: "tptr \<Rightarrow> tstore \<Rightarrow> mheap \<Rightarrow> (tstore \<times> mheap) option" where
  "mist_template_clear_values mt st h =
     do { t \<leftarrow> templates st mt;
          vs \<leftarrow> grar_elements (vals t);
          h \<leftarrow> destroy_elems free_elem vs h;
          g \<leftarrow> grar_clear (vals t);
          Some (put_template mt (t\<lparr>vals := g, is_evaluated := False\<rparr>) st, h) }"

definition mist_template_add_value ::
  "tptr \<Rightarrow> char list \<Rightarrow> tstore \<Rightarrow> mheap \<Rightarrow> (EMistErrorCode \<times> tstore \<times> mheap) option" where
  "mist_template_add_value mt val st h =
     (case malloc h of
        (False, h) \<Rightarrow> Some (MIST_OUT_OF_MEMORY, st, h)
      | (True, h) \<Rightarrow>
          do { t \<leftarrow> templates st mt;
               (ok, g, h) \<leftarrow> grar_add_element (vals t) (Some val) h;
               let st = put_template mt (t\<lparr>vals := g\<rparr>) st;
               Some (if ok then (MIST_OK, st, h) else (MIST_OUT_OF_MEMORY, st, mfree h)) })"

end
