(* ===== verification/Mist_Values.thy ===== *)
theory Mist_Values
  imports Mist_Template Grar_Sort
begin

text \<open>
  The second half of mist_template_evaluate in mist_base.c: the placeholders have been
  evaluated and the values of the template are put together in buffers that were allocated for
  the longest of them.  A pointer pos[i] is a buffer with an offset.
\<close>

type_synonym cursor = "cells \<times> nat"

subsection \<open>Sizes\<close>

fun longest :: "char list TGAElem list \<Rightarrow> nat \<Rightarrow> nat option" where
  "longest [] len = Some len"
| "longest (v # vs) len = do { s \<leftarrow> v; longest vs (if len < length s then length s else len) }"

definition mist_placeholder_max_length :: "tptr \<Rightarrow> tstore \<Rightarrow> nat option" where
  "mist_placeholder_max_length ph st =
     do { p \<leftarrow> placeholders st ph;
          a \<leftarrow> tpl p;
          t \<leftarrow> templates st a;
          if \<not> is_evaluated t then None
          else if gsize (vals t) = 0 then Some 0
          else if ph_type p = MPH_JOIN
          then do { s \<leftarrow> sep p;
                    len \<leftarrow> grar_string_total_length (vals t);
                    Some (size_wrap (len + (gsize (vals t) - 1) * length s)) }
          else do { vs \<leftarrow> grar_elements (vals t); longest vs 0 } }"

fun add_lengths :: "tptr TGAElem list \<Rightarrow> tstore \<Rightarrow> nat \<Rightarrow> nat option" where
  "add_lengths [] st len = Some len"
| "add_lengths (p # ps) st len =
     do { ph \<leftarrow> p; n \<leftarrow> mist_placeholder_max_length ph st; add_lengths ps st (size_wrap (len + n)) }"

definition mist_template_max_length :: "tptr \<Rightarrow> tstore \<Rightarrow> nat option" where
  "mist_template_max_length mt st =
     do { t \<leftarrow> templates st mt;
          len \<leftarrow> grar_string_total_length (sch t);
          ps \<leftarrow> grar_elements (phs t);
          add_lengths ps st len }"

fun count_values :: "tptr TGAElem list \<Rightarrow> tstore \<Rightarrow> nat \<Rightarrow> nat option" where
  "count_values [] st num = Some num"
| "count_values (e # es) st num =
     do { ph \<leftarrow> e;
          p \<leftarrow> placeholders st ph;
          a \<leftarrow> tpl p;
          if ph_type p \<noteq> MPH_JOIN
          then do { t \<leftarrow> templates st a;
                    count_values es st (if num < gsize (vals t) then gsize (vals t) else num) }
          else count_values es st num }"

definition mist_template_num_values :: "tptr \<Rightarrow> tstore \<Rightarrow> nat option" where
  "mist_template_num_values mt st =
     do { t \<leftarrow> templates st mt; ps \<leftarrow> grar_elements (phs t); count_values ps st 1 }"

subsection \<open>Copying\<close>

definition append_at :: "cursor \<Rightarrow> char list \<Rightarrow> cursor option" where
  "append_at p s =
     (if s = [] then Some p
      else do { b \<leftarrow> strncpy (fst p) (snd p) s (length s); Some (b, snd p + length s) })"

text \<open>The loop over the cursors from i on; n are left.\<close>

fun append_range :: "cursor list \<Rightarrow> nat \<Rightarrow> nat \<Rightarrow> char list \<Rightarrow> cursor list option" where
  "append_range pos i 0 s = Some pos"
| "append_range pos i (Suc n) s =
     (if i < length pos then do { p \<leftarrow> append_at (pos ! i) s; append_range (pos[i := p]) (Suc i) n s }
      else None)"

definition mist_copy_string :: "cursor list \<Rightarrow> nat \<Rightarrow> char list \<Rightarrow> cursor list option" where
  "mist_copy_string pos nvals s =
     (if nvals = 0 then None
      else if length s > 0 then append_range pos 0 nvals s else Some pos)"

fun join_rest :: "char list \<Rightarrow> char list TGAElem list \<Rightarrow> cursor \<Rightarrow> cursor option" where
  "join_rest sp [] p = Some p"
| "join_rest sp (v # vs) p =
     do { s \<leftarrow> v; p \<leftarrow> append_at p sp; p \<leftarrow> append_at p s; join_rest sp vs p }"

definition mist_placeholder_join_values :: "tptr \<Rightarrow> tstore \<Rightarrow> cursor \<Rightarrow> cursor option" where
  "mist_placeholder_join_values ph st c =
     do { p \<leftarrow> placeholders st ph;
          a \<leftarrow> tpl p;
          sp \<leftarrow> sep p;
          if ph_type p \<noteq> MPH_JOIN \<or> is_concat p then None
          else do { t \<leftarrow> templates st a;
                    if gsize (vals t) = 0 then Some c
                    else do { vs \<leftarrow> grar_elements (vals t);
                              s \<leftarrow> hd vs;
                              c \<leftarrow> append_at c s;
                              join_rest sp (tl vs) c } } }"

text \<open>The values one by one into the cursors; the last one is the value of the variable len.\<close>

fun append_values :: "cursor list \<Rightarrow> nat \<Rightarrow> char list TGAElem list \<Rightarrow> cursor list option" where
  "append_values pos i [] = Some pos"
| "append_values pos i (v # vs) =
     (if i < length pos
      then do { s \<leftarrow> v; p \<leftarrow> append_at (pos ! i) s; append_values (pos[i := p]) (Suc i) vs }
      else None)"

definition mist_copy_placeholder_values ::
  "cursor list \<Rightarrow> nat \<Rightarrow> tptr \<Rightarrow> tstore \<Rightarrow> cursor list option" where
  "mist_copy_placeholder_values pos nvals ph st =
     do { p \<leftarrow> placeholders st ph;
          a \<leftarrow> tpl p;
          t \<leftarrow> templates st a;
          let pvals = gsize (vals t);
          if nvals = 0 then None
          else if pvals = 0 then Some pos
          else if ph_type p = MPH_JOIN
          then (case pos of
                  [] \<Rightarrow> None
                | c # _ \<Rightarrow>
                    do { tpos \<leftarrow> mist_placeholder_join_values ph st c;
                         let len = snd tpos - snd c;
                         chars \<leftarrow> those (take len (drop (snd c) (fst tpos)));
                         pos \<leftarrow> (if len > 0 then append_range (pos[0 := tpos]) 1 (nvals - 1) chars else Some pos);
                         Some (pos[0 := tpos]) })
          else if \<not> nvals \<ge> pvals then None
          else do { vs \<leftarrow> grar_elements (vals t);
                    pos \<leftarrow> append_values pos 0 vs;
                    s \<leftarrow> last vs;
                    if length s > 0 then append_range pos pvals (nvals - pvals) s else Some pos } }"

subsection \<open>Building the values\<close>

text \<open>
  The loop that allocates: nvals - i buffers are left.  A pointer in the array tga is the index
  of its buffer.  When a buffer cannot be allocated, tga and the buffers in it are not freed.
\<close>

fun alloc_buffers ::
  "nat \<Rightarrow> nat \<Rightarrow> nat CGrowingArray \<Rightarrow> cursor list \<Rightarrow> mheap \<Rightarrow>
   (bool \<times> nat CGrowingArray \<times> cursor list \<times> mheap) option" where
  "alloc_buffers 0 max_len tga pos h = Some (True, tga, pos, h)"
| "alloc_buffers (Suc n) max_len tga pos h =
     (case malloc h of
        (False, h) \<Rightarrow> Some (False, tga, pos, mfree h)
      | (True, h) \<Rightarrow>
          do { let buf = replicate (size_wrap (max_len + 1)) None;
               (ok, tga, h) \<leftarrow> grar_add_element tga (Some (length pos)) h;
               if \<not> ok
               then do { (tga, h) \<leftarrow> grar_destroy_with_elements tga None (mfree (mfree h));
                         Some (False, tga, pos, h) }
               else alloc_buffers n max_len tga (pos @ [(buf, 0)]) h })"

fun copy_parts ::
  "cursor list \<Rightarrow> nat \<Rightarrow> tptr TGAElem list \<Rightarrow> char list TGAElem list \<Rightarrow> tstore \<Rightarrow> cursor list option" where
  "copy_parts pos nvals [] schs st = Some pos"
| "copy_parts pos nvals (p # ps) schs st =
     (case schs of
        [] \<Rightarrow> None
      | s # schs \<Rightarrow>
          do { ph \<leftarrow> p;
               pos \<leftarrow> mist_copy_placeholder_values pos nvals ph st;
               s \<leftarrow> s;
               pos \<leftarrow> mist_copy_string pos nvals s;
               copy_parts pos nvals ps schs st })"

text \<open>What the pointers in an array read as, when they point to the given strings.\<close>

definition pointed :: "char list list \<Rightarrow> nat CGrowingArray \<Rightarrow> char list CGrowingArray" where
  "pointed ss g =
     \<lparr>gdata = map_option (map (map_option (map_option (\<lambda>i. ss ! i)))) (gdata g),
      gsize = gsize g, capacity = capacity g\<rparr>"

definition terminate_values :: "cursor list \<Rightarrow> char list list option" where
  "terminate_values pos =
     those (map (\<lambda>p. do { b \<leftarrow> store (fst p) (snd p) [NUL]; cstr b }) pos)"

text \<open>
  Where the size of the array of positions would wrap around, the code writes outside of its block:
  the result is None.
\<close>

definition build_values :: "tptr \<Rightarrow> tstore \<Rightarrow> mheap \<Rightarrow> (EMistErrorCode \<times> tstore \<times> mheap) option" where
  "build_values mt st h =
     do { t \<leftarrow> templates st mt;
          nvals \<leftarrow> mist_template_num_values mt st;
          max_len \<leftarrow> mist_template_max_length mt st;
          if nvals = 0 \<or> size_wrap (nvals * 8) \<noteq> nvals * 8 then None
          else (case malloc h of
            (False, h) \<Rightarrow> Some (MIST_OUT_OF_MEMORY, st, h)
          | (True, h) \<Rightarrow>
              (case grar_create h of
                 (None, h) \<Rightarrow> Some (MIST_OUT_OF_MEMORY, st, mfree h)
               | (Some tga, h) \<Rightarrow>
                   do { (ok, tga, pos, h) \<leftarrow> alloc_buffers nvals max_len tga [] h;
                        if \<not> ok then Some (MIST_OUT_OF_MEMORY, st, h)
                        else do {
                          schs \<leftarrow> grar_elements (sch t);
                          ps \<leftarrow> grar_elements (phs t);
                          s \<leftarrow> (if schs = [] then None else hd schs);
                          pos \<leftarrow> mist_copy_string pos nvals s;
                          pos \<leftarrow> copy_parts pos nvals ps (tl schs) st;
                          ss \<leftarrow> terminate_values pos;
                          let (vs, old) = grar_swap (vals t) (pointed ss tga);
                          let (old', h) = grar_destroy old (mfree h);
                          if gsize old \<noteq> 0 then None
                          else Some (MIST_OK, put_template mt (t\<lparr>vals := vs\<rparr>) st, h) } })) }"

end
