(* ===== verification/Mist_Values_Spec.thy ===== *)
theory Mist_Values_Spec
  imports Mist_Values Mist_Tokens_Spec
begin

text \<open>
  What the values of a template are: the value with number k puts, between the string chunks,
  the joined values of the placeholders with a separator and the k-th value, or the last one,
  of the others.  Building them in the buffers computes these strings and stays inside the
  buffers.
\<close>

subsection \<open>Failed allocations\<close>

text \<open>What is left of the outcomes, and whether one of them was a failure or none is left.\<close>

definition uses :: "mheap \<Rightarrow> mheap \<Rightarrow> bool" where
  "uses h h' \<longleftrightarrow> (\<exists>j. outcomes h' = drop j (outcomes h))"

definition ran_out :: "mheap \<Rightarrow> mheap \<Rightarrow> bool" where
  "ran_out h h' \<longleftrightarrow>
     (\<exists>j. outcomes h' = drop j (outcomes h) \<and> (False \<in> set (take j (outcomes h)) \<or> length (outcomes h) \<le> j))"

lemma uses_refl [simp]: "uses h h"
  by (auto simp: uses_def intro: exI [of _ 0])

lemma uses_mfree [simp]: "uses h (mfree h') = uses h h'" "uses (mfree h) h' = uses h h'"
  "ran_out h (mfree h') = ran_out h h'" "ran_out (mfree h) h' = ran_out h h'"
  by (simp_all add: uses_def ran_out_def mfree_def)

lemma uses_trans [trans]: "uses h h1 \<Longrightarrow> uses h1 h2 \<Longrightarrow> uses h h2"
  by (auto simp: uses_def)

lemma ran_out_uses [intro]: "ran_out h h' \<Longrightarrow> uses h h'"
  by (auto simp: uses_def ran_out_def)

lemma ran_out_later: "ran_out h h1 \<Longrightarrow> uses h1 h2 \<Longrightarrow> ran_out h h2"
proof -
  assume "ran_out h h1" "uses h1 h2"
  then obtain j k where j: "outcomes h1 = drop j (outcomes h)" "False \<in> set (take j (outcomes h)) \<or> length (outcomes h) \<le> j"
    and k: "outcomes h2 = drop k (outcomes h1)" unfolding uses_def ran_out_def by blast
  have "outcomes h2 = drop (k + j) (outcomes h)" using j(1) k by simp
  moreover have "set (take j (outcomes h)) \<subseteq> set (take (k + j) (outcomes h))" by (rule set_take_subset_set_take) simp
  ultimately show "ran_out h h2" unfolding ran_out_def using j(2) by (intro exI [of _ "k + j"]) auto
qed

lemma ran_out_before: "uses h h1 \<Longrightarrow> ran_out h1 h2 \<Longrightarrow> ran_out h h2"
proof -
  assume "uses h h1" "ran_out h1 h2"
  then obtain j k where j: "outcomes h1 = drop j (outcomes h)"
    and k: "outcomes h2 = drop k (outcomes h1)" "False \<in> set (take k (outcomes h1)) \<or> length (outcomes h1) \<le> k"
    unfolding uses_def ran_out_def by blast
  have "outcomes h2 = drop (k + j) (outcomes h)" using j(1) k by simp
  moreover have "set (take k (outcomes h1)) \<subseteq> set (take (j + k) (outcomes h))"
    unfolding j(1) by (simp add: take_add)
  ultimately show "ran_out h h2" unfolding ran_out_def using j(1) k(2)
    by (intro exI [of _ "k + j"]) (auto simp: add.commute)
qed

lemma next_outcome_uses: "next_outcome h = (ok, h') \<Longrightarrow> uses h h' \<and> (ok \<or> ran_out h h')"
  by (auto simp: next_outcome_def uses_def ran_out_def intro: exI [of _ 1] exI [of _ 0] split: list.splits)

lemma malloc_uses: "malloc h = (ok, h') \<Longrightarrow> uses h h' \<and> (ok \<or> ran_out h h')"
proof -
  assume m: "malloc h = (ok, h')"
  obtain ok' h1 where n: "next_outcome h = (ok', h1)" by fastforce
  then have "ok' = ok" "outcomes h' = outcomes h1" using m by (auto simp: malloc_def)
  with next_outcome_uses [OF n] show ?thesis by (simp add: uses_def ran_out_def)
qed

lemma malloc_cases:
  obtains h' where "malloc h = (False, h')" "live h' = live h" "ran_out h h'"
  | h' where "malloc h = (True, h')" "live h' = live h + 1" "uses h h'"
proof -
  obtain ok h' where m: "malloc h = (ok, h')" by fastforce
  show thesis using malloc_uses [OF m] malloc_live [OF m] m that by (cases ok) auto
qed

lemma realloc_elems_uses:
  "realloc_elems d cap h = Some (r, h') \<Longrightarrow> uses h h' \<and> (r \<noteq> None \<or> ran_out h h')"
  using malloc_uses [of h] next_outcome_uses [of h]
  by (cases "d = None") (auto simp: realloc_elems_def realloc_def Let_def split: if_splits prod.splits bool.splits)

lemma grar_add_uses:
  "grar_add_element g e h = Some (r, g', h') \<Longrightarrow> uses h h' \<and> (r \<or> ran_out h h')"
  using realloc_elems_uses [of "gdata g" _ h]
  by (fastforce simp: grar_add_element_def grar_reserve_def split: if_splits bind_splits option.splits)

text \<open>Creating an array and adding to it, case by case.\<close>

lemma grar_create_cases:
  obtains h' where "grar_create h = (None :: 'a CGrowingArray option, h')" "live h' = live h" "ran_out h h'"
  | g :: "'a CGrowingArray" and h' where "grar_create h = (Some g, h')" "grar_holds g []" "live h' = live h + 1" "uses h h'"
proof (cases rule: malloc_cases [of h])
  case (1 h')
  then show ?thesis using that(1) by (simp add: grar_create_def)
next
  case (2 h')
  then show ?thesis by (intro that(2)) (auto simp: grar_create_def grar_holds_def GRAR_DEFAULT_CAPACITY_def)
qed

lemma grar_add_cases:
  assumes "grar_holds g es" and "length es < 2 ^ 60"
  obtains h' where "grar_add_element g e h = Some (False, g, h')" "live h' = live h" "ran_out h h'"
  | g' h' where "grar_add_element g e h = Some (True, g', h')" "grar_holds g' (es @ [e])" "live h' = live h" "uses h h'"
proof -
  from grar_add_ok [OF assms, of e h] obtain r g' h' where
    a: "grar_add_element g e h = Some (r, g', h')" "live h' = live h"
      "r \<and> grar_holds g' (es @ [e]) \<or> \<not> r \<and> g' = g" by auto
  show thesis using grar_add_uses [OF a(1)] a that by (cases r) auto
qed

end
