(* ===== verification/Mist_Values_Build.thy ===== *)
theory Mist_Values_Build
  imports Mist_Values_Spec
begin

text \<open>Building the values of a template computes template_value.\<close>

subsection \<open>Cursors\<close>

definition cursor_holds :: "nat \<Rightarrow> cursor \<Rightarrow> char list \<Rightarrow> bool" where
  "cursor_holds L c s \<longleftrightarrow> length (fst c) = L \<and> snd c = length s \<and> written (fst c) s \<and> NUL \<notin> set s"

lemma append_at_ok:
  assumes "cursor_holds L c s" and "NUL \<notin> set t" and "length s + length t \<le> L"
  shows "\<exists>c'. append_at c t = Some c' \<and> cursor_holds L c' (s @ t)"
proof (cases "t = []")
  case False
  from store_written [of "fst c" s t] assms obtain b where
    "store (fst c) (length s) t = Some b" "written b (s @ t)" "length b = L" by (auto simp: cursor_holds_def)
  then show ?thesis using False assms by (simp add: append_at_def cursor_holds_def strncpy_chars)
qed (use assms in \<open>simp add: append_at_def\<close>)

definition cursors :: "nat \<Rightarrow> cursor list \<Rightarrow> nat \<Rightarrow> (nat \<Rightarrow> char list) \<Rightarrow> bool" where
  "cursors L pos n f \<longleftrightarrow> length pos = n \<and> (\<forall>k<n. cursor_holds L (pos ! k) (f k))"

lemma cursors_update:
  "cursors L pos n f \<Longrightarrow> i < n \<Longrightarrow> cursor_holds L c s \<Longrightarrow> cursors L (pos[i := c]) n (f(i := s))"
  by (auto simp: cursors_def nth_list_update)

lemma cursors_cong: "cursors L pos n f \<Longrightarrow> (\<And>k. k < n \<Longrightarrow> f k = g k) \<Longrightarrow> cursors L pos n g"
  by (auto simp: cursors_def)

lemma cursors_append_ok:
  assumes "cursors L pos n f" and "NUL \<notin> set t" and "i + m \<le> n"
    and "\<And>k. i \<le> k \<Longrightarrow> k < i + m \<Longrightarrow> length (f k) + length t \<le> L"
  shows "\<exists>pos'. append_range pos i m t = Some pos' \<and>
           cursors L pos' n (\<lambda>k. if i \<le> k \<and> k < i + m then f k @ t else f k)"
  using assms
proof (induction m arbitrary: i pos f)
  case (Suc m)
  have i: "i < n" "cursor_holds L (pos ! i) (f i)" "i < length pos" using Suc.prems(1,3) by (auto simp: cursors_def)
  from append_at_ok [OF i(2) Suc.prems(2)] Suc.prems(4) [of i] obtain c where
    c: "append_at (pos ! i) t = Some c" "cursor_holds L c (f i @ t)" by auto
  note u = cursors_update [OF Suc.prems(1) i(1) c(2)]
  from Suc.IH [OF u Suc.prems(2), of "Suc i"] Suc.prems(3,4) obtain pos' where
    p: "append_range (pos[i := c]) (Suc i) m t = Some pos'"
      "cursors L pos' n (\<lambda>k. if Suc i \<le> k \<and> k < Suc i + m then (f(i := f i @ t)) k @ t else (f(i := f i @ t)) k)" by auto
  have "cursors L pos' n (\<lambda>k. if i \<le> k \<and> k < i + Suc m then f k @ t else f k)"
    by (rule cursors_cong [OF p(2)]) auto
  then show ?case using p(1) c(1) i(3) by simp
qed (auto simp: cursors_def)

lemma append_values_ok:
  assumes "cursors L pos n f" and "\<And>v. v \<in> set vs \<Longrightarrow> NUL \<notin> set v" and "i + length vs \<le> n"
    and "\<And>k. k < length vs \<Longrightarrow> length (f (i + k)) + length (vs ! k) \<le> L"
  shows "\<exists>pos'. append_values pos i (map Some vs) = Some pos' \<and>
           cursors L pos' n (\<lambda>k. if i \<le> k \<and> k < i + length vs then f k @ vs ! (k - i) else f k)"
  using assms
proof (induction vs arbitrary: i pos f)
  case (Cons v vs)
  have i: "i < n" "cursor_holds L (pos ! i) (f i)" "i < length pos" using Cons.prems(1,3) by (auto simp: cursors_def)
  from append_at_ok [OF i(2), of v] Cons.prems(2) Cons.prems(4) [of 0] obtain c where
    c: "append_at (pos ! i) v = Some c" "cursor_holds L c (f i @ v)" by auto
  note u = cursors_update [OF Cons.prems(1) i(1) c(2)]
  have "length ((f(i := f i @ v)) (Suc i + k)) + length (vs ! k) \<le> L" if "k < length vs" for k
    using Cons.prems(4) [of "Suc k"] that by simp
  from Cons.IH [OF u _ _ this] Cons.prems(2,3) obtain pos' where
    p: "append_values (pos[i := c]) (Suc i) (map Some vs) = Some pos'"
      "cursors L pos' n (\<lambda>k. if Suc i \<le> k \<and> k < Suc i + length vs then (f(i := f i @ v)) k @ vs ! (k - Suc i)
         else (f(i := f i @ v)) k)" by auto
  have "cursors L pos' n (\<lambda>k. if i \<le> k \<and> k < i + length (v # vs) then f k @ (v # vs) ! (k - i) else f k)"
    by (rule cursors_cong [OF p(2)]) (auto simp: nth_Cons' Suc_diff_le)
  then show ?case using p(1) c(1) i(3) by simp
qed (auto simp: cursors_def)

lemma copy_string_ok:
  assumes "cursors L pos n f" and "0 < n" and "NUL \<notin> set t" and "\<And>k. k < n \<Longrightarrow> length (f k) + length t \<le> L"
  shows "\<exists>pos'. mist_copy_string pos n t = Some pos' \<and> cursors L pos' n (\<lambda>k. f k @ t)"
proof (cases "t = []")
  case True
  then show ?thesis using assms(1,2) by (simp add: mist_copy_string_def)
next
  case False
  from cursors_append_ok [OF assms(1,3), of 0 n] assms(4) obtain pos' where
    p: "append_range pos 0 n t = Some pos'" "cursors L pos' n (\<lambda>k. if 0 \<le> k \<and> k < 0 + n then f k @ t else f k)" by auto
  have "cursors L pos' n (\<lambda>k. f k @ t)" by (rule cursors_cong [OF p(2)]) simp
  then show ?thesis using False assms(2) p(1) by (simp add: mist_copy_string_def)
qed

subsection \<open>The values of a placeholder\<close>

datatype part = Joined "char list" "char list list" | Single "char list list"

fun joined :: "char list \<Rightarrow> char list list \<Rightarrow> char list" where
  "joined sp [] = []"
| "joined sp [v] = v"
| "joined sp (v # w # vs) = v @ sp @ joined sp (w # vs)"

fun part_value :: "nat \<Rightarrow> part \<Rightarrow> char list" where
  "part_value k (Joined sp vs) = joined sp vs"
| "part_value k (Single vs) = (if vs = [] then [] else vs ! min k (length vs - 1))"

fun part_count :: "part \<Rightarrow> nat" where
  "part_count (Joined sp vs) = 1"
| "part_count (Single vs) = length vs"

fun part_strings :: "part \<Rightarrow> char list set" where
  "part_strings (Joined sp vs) = insert sp (set vs)"
| "part_strings (Single vs) = set vs"

text \<open>The length that is reserved.\<close>

fun part_length :: "part \<Rightarrow> nat" where
  "part_length (Joined sp vs) = (\<Sum>v\<leftarrow>vs. length v) + (length vs - 1) * length sp"
| "part_length (Single vs) = fold (\<lambda>v n. max n (length v)) vs 0"

definition part_of :: "tstore \<Rightarrow> tptr \<Rightarrow> part \<Rightarrow> bool" where
  "part_of st ph part \<longleftrightarrow>
     (\<exists>p a t vs. placeholders st ph = Some p \<and> tpl p = Some a \<and> templates st a = Some t \<and> is_evaluated t \<and>
        grar_holds (vals t) (map Some vs) \<and>
        (if ph_type p = MPH_JOIN then \<not> is_concat p \<and> (\<exists>sp. sep p = Some sp \<and> part = Joined sp vs)
         else part = Single vs)) \<and>
     (\<forall>s\<in>part_strings part. NUL \<notin> set s)"

lemma joined_Cons: "joined sp (v # vs) = v @ concat (map ((@) sp) vs)"
  by (induction vs arbitrary: v) simp_all

lemma length_joined: "length (joined sp vs) = (\<Sum>v\<leftarrow>vs. length v) + (length vs - 1) * length sp"
proof (cases vs)
  case (Cons v ws)
  have "length (concat (map ((@) sp) ws)) = (\<Sum>v\<leftarrow>ws. length v) + length ws * length sp" by (induction ws) simp_all
  then show ?thesis by (simp add: Cons joined_Cons)
qed simp

lemma fold_max_le: "v \<in> set vs \<or> length v \<le> n \<Longrightarrow> length v \<le> fold (\<lambda>v n. max n (length v)) vs n"
proof (induction vs arbitrary: n)
  case (Cons a vs)
  then show ?case using Cons.IH [of "max n (length a)"] Cons.prems by (auto simp: le_max_iff_disj)
qed simp

lemma index_in: "vs \<noteq> [] \<Longrightarrow> vs ! min k (length vs - 1) \<in> set vs"
  by (rule nth_mem) (cases vs; simp)

lemma part_value_length: "length (part_value k part) \<le> part_length part"
proof (cases part)
  case (Single vs)
  show ?thesis using index_in [of vs k] fold_max_le [of "vs ! min k (length vs - 1)" vs 0] by (auto simp: Single)
qed (simp add: length_joined)

lemma part_value_NUL: "\<forall>s\<in>part_strings part. NUL \<notin> set s \<Longrightarrow> NUL \<notin> set (part_value k part)"
proof (cases part)
  case (Joined sp vs)
  assume "\<forall>s\<in>part_strings part. NUL \<notin> set s"
  then show ?thesis by (cases vs) (auto simp: Joined joined_Cons)
next
  case (Single vs)
  assume "\<forall>s\<in>part_strings part. NUL \<notin> set s"
  then show ?thesis using index_in [of vs k] by (auto simp: Single)
qed

lemma join_rest_ok:
  assumes "cursor_holds L c s" and "NUL \<notin> set sp" and "\<And>v. v \<in> set vs \<Longrightarrow> NUL \<notin> set v"
    and "length s + length (concat (map ((@) sp) vs)) \<le> L"
  shows "\<exists>c'. join_rest sp (map Some vs) c = Some c' \<and> cursor_holds L c' (s @ concat (map ((@) sp) vs))"
  using assms
proof (induction vs arbitrary: c s)
  case (Cons v vs)
  from append_at_ok [OF Cons.prems(1,2)] Cons.prems(4) obtain c1 where
    c1: "append_at c sp = Some c1" "cursor_holds L c1 (s @ sp)" by auto
  from append_at_ok [OF c1(2), of v] Cons.prems(3,4) obtain c2 where
    c2: "append_at c1 v = Some c2" "cursor_holds L c2 ((s @ sp) @ v)" by auto
  from Cons.IH [OF c2(2) Cons.prems(2)] Cons.prems(3,4) c1(1) c2(1) show ?case by simp
qed simp

lemma taken_written: "written b (s @ t) \<Longrightarrow> those (take (length t) (drop (length s) b)) = Some t"
proof -
  assume "written b (s @ t)"
  then have "take (length t) (drop (length s) (take (length (s @ t)) b)) = map Some t" by (simp add: written_def)
  then have "take (length t) (drop (length s) b) = map Some t" by (simp add: drop_take)
  then show ?thesis by simp
qed

text \<open>Copying the values of a placeholder behind what the cursors hold.\<close>

lemma copy_joined_ok:
  assumes p: "placeholders st ph = Some p" "tpl p = Some a" "templates st a = Some t"
      "grar_holds (vals t) (map Some vs)" "ph_type p = MPH_JOIN" "\<not> is_concat p" "sep p = Some sp"
    and nul: "NUL \<notin> set sp" "\<And>v. v \<in> set vs \<Longrightarrow> NUL \<notin> set v"
    and c: "cursors L pos n f" and n: "0 < n" and L: "\<And>k. k < n \<Longrightarrow> length (f k) + length (joined sp vs) \<le> L"
  shows "\<exists>pos'. mist_copy_placeholder_values pos n ph st = Some pos' \<and>
           cursors L pos' n (\<lambda>k. f k @ joined sp vs)"
proof (cases vs)
  case Nil
  have "gsize (vals t) = 0" using grar_holds_bounds [OF p(4)] Nil by simp
  then show ?thesis using p n c Nil by (simp add: mist_copy_placeholder_values_def)
next
  case (Cons v ws)
  let ?j = "joined sp vs"
  have sz: "gsize (vals t) \<noteq> 0" "grar_elements (vals t) = Some (Some v # map Some ws)"
    using grar_holds_bounds [OF p(4)] elements [OF p(4)] Cons by simp_all
  obtain c0 rest where pos: "pos = c0 # rest" using c n by (cases pos) (auto simp: cursors_def)
  have c0: "cursor_holds L c0 (f 0)" "length pos = n" using c n by (auto simp: cursors_def pos)
  from append_at_ok [OF c0(1), of v] nul(2) L [OF n] obtain c1 where
    c1: "append_at c0 v = Some c1" "cursor_holds L c1 (f 0 @ v)" by (auto simp: Cons joined_Cons)
  from join_rest_ok [OF c1(2) nul(1), of ws] nul(2) L [OF n] obtain c2 where
    c2: "join_rest sp (map Some ws) c1 = Some c2" "cursor_holds L c2 (f 0 @ ?j)" by (auto simp: Cons joined_Cons)
  have j: "mist_placeholder_join_values ph st c0 = Some c2"
    using p sz c1(1) c2(1) by (simp add: mist_placeholder_join_values_def)
  have len: "snd c2 - snd c0 = length ?j" "snd c0 = length (f 0)" "written (fst c2) (f 0 @ ?j)"
    using c2(2) c0(1) by (simp_all add: cursor_holds_def)
  have se: "snd c2 = length (f 0) + length ?j" using c2(2) by (simp add: cursor_holds_def)
  have nj: "NUL \<notin> set ?j" using part_value_NUL [of "Joined sp vs" 0] nul by simp
  note u = cursors_update [OF c n c2(2)]
  have "\<exists>pos'. (if length ?j > 0 then append_range (pos[0 := c2]) 1 (n - 1) ?j else Some pos) = Some pos' \<and>
      cursors L (pos'[0 := c2]) n (\<lambda>k. f k @ ?j)"
  proof (cases "?j = []")
    case True
    then have "cursors L (pos[0 := c2]) n (\<lambda>k. f k @ ?j)" by (intro cursors_cong [OF u]) auto
    then show ?thesis using True by simp
  next
    case False
    have "length ((f(0 := f 0 @ ?j)) k) + length ?j \<le> L" if "1 \<le> k" "k < 1 + (n - 1)" for k
      using L [of k] that by simp
    moreover have "1 + (n - 1) \<le> n" using n by simp
    ultimately obtain pos' where
      p': "append_range (pos[0 := c2]) 1 (n - 1) ?j = Some pos'"
        "cursors L pos' n (\<lambda>k. if 1 \<le> k \<and> k < 1 + (n - 1) then (f(0 := f 0 @ ?j)) k @ ?j else (f(0 := f 0 @ ?j)) k)"
      using cursors_append_ok [OF u nj, of 1 "n - 1"] by blast
    have "cursors L (pos'[0 := c2]) n (\<lambda>k. f k @ ?j)"
      by (rule cursors_cong [OF cursors_update [OF p'(2) n c2(2)]]) auto
    then show ?thesis using False p'(1) by simp
  qed
  then obtain pos' where fin: "(if length ?j > 0 then append_range (pos[0 := c2]) 1 (n - 1) ?j else Some pos) = Some pos'"
    "cursors L (pos'[0 := c2]) n (\<lambda>k. f k @ ?j)" by blast
  have "mist_copy_placeholder_values pos n ph st = Some (pos'[0 := c2])"
    using p sz n fin(1) j len(2) se taken_written [OF len(3)]
    by (cases "?j = []") (auto simp add: mist_copy_placeholder_values_def pos Let_def)
  then show ?thesis using fin(2) by blast
qed

lemma copy_single_ok:
  assumes p: "placeholders st ph = Some p" "tpl p = Some a" "templates st a = Some t"
      "grar_holds (vals t) (map Some vs)" "ph_type p \<noteq> MPH_JOIN"
    and nul: "\<And>v. v \<in> set vs \<Longrightarrow> NUL \<notin> set v"
    and c: "cursors L pos n f" and n: "0 < n" "length vs \<le> n"
    and L: "\<And>k. k < n \<Longrightarrow> length (f k) + length (part_value k (Single vs)) \<le> L"
  shows "\<exists>pos'. mist_copy_placeholder_values pos n ph st = Some pos' \<and>
           cursors L pos' n (\<lambda>k. f k @ part_value k (Single vs))"
proof (cases "vs = []")
  case True
  have "gsize (vals t) = 0" using grar_holds_bounds [OF p(4)] True by simp
  then show ?thesis using p n c True by (simp add: mist_copy_placeholder_values_def)
next
  case False
  have sz: "gsize (vals t) = length vs" "grar_elements (vals t) = Some (map Some vs)"
    using grar_holds_bounds [OF p(4)] elements [OF p(4)] by simp_all
  have v: "part_value k (Single vs) = vs ! k" if "k < length vs" for k using that False by (auto simp: min_def)
  have w: "part_value k (Single vs) = last vs" if "length vs \<le> k" for k
  proof -
    have "min k (length vs - 1) = length vs - 1" using that by simp
    then show ?thesis using False by (simp add: last_conv_nth)
  qed
  have "length (f (0 + k)) + length (vs ! k) \<le> L" if "k < length vs" for k
    using L [of k] v [OF that] that n(2) by simp
  from append_values_ok [OF c nul _ this] n(2) obtain pos1 where
    p1: "append_values pos 0 (map Some vs) = Some pos1"
      "cursors L pos1 n (\<lambda>k. if 0 \<le> k \<and> k < 0 + length vs then f k @ vs ! (k - 0) else f k)" by auto
  have "\<exists>pos'. (if length (last vs) > 0 then append_range pos1 (length vs) (n - length vs) (last vs) else Some pos1) = Some pos' \<and>
      cursors L pos' n (\<lambda>k. f k @ part_value k (Single vs))"
  proof (cases "last vs = []")
    case True
    have "cursors L pos1 n (\<lambda>k. f k @ part_value k (Single vs))"
      by (rule cursors_cong [OF p1(2)]) (use v w True in \<open>auto simp del: part_value.simps\<close>)
    then show ?thesis using True by simp
  next
    case ne: False
    let ?g = "\<lambda>k. if 0 \<le> k \<and> k < 0 + length vs then f k @ vs ! (k - 0) else f k"
    have "length (?g k) + length (last vs) \<le> L" if "length vs \<le> k" "k < length vs + (n - length vs)" for k
      using L [of k] w [OF that(1)] that by (simp del: part_value.simps)
    moreover have "NUL \<notin> set (last vs)" "length vs + (n - length vs) \<le> n" using nul [of "last vs"] False n(2) by simp_all
    ultimately obtain pos' where
      p': "append_range pos1 (length vs) (n - length vs) (last vs) = Some pos'"
        "cursors L pos' n (\<lambda>k. if length vs \<le> k \<and> k < length vs + (n - length vs) then ?g k @ last vs else ?g k)"
      using cursors_append_ok [OF p1(2), of "last vs" "length vs" "n - length vs"] by blast
    have "cursors L pos' n (\<lambda>k. f k @ part_value k (Single vs))"
      by (rule cursors_cong [OF p'(2)]) (use v w in \<open>auto simp del: part_value.simps\<close>)
    then show ?thesis using ne p'(1) by simp
  qed
  then show ?thesis using p sz n p1(1) False
    by (cases "last vs = []") (simp_all add: mist_copy_placeholder_values_def Let_def last_map)
qed

lemma copy_placeholder_ok:
  assumes "part_of st ph part" and "cursors L pos n f" and "0 < n" and "part_count part \<le> n"
    and L: "\<And>k. k < n \<Longrightarrow> length (f k) + part_length part \<le> L"
  shows "\<exists>pos'. mist_copy_placeholder_values pos n ph st = Some pos' \<and>
           cursors L pos' n (\<lambda>k. f k @ part_value k part)"
proof -
  have lv: "length (f k) + length (part_value k part) \<le> L" if "k < n" for k
    using L [OF that] part_value_length [of k part] by simp
  from assms(1) obtain p a t vs where p: "placeholders st ph = Some p" "tpl p = Some a" "templates st a = Some t"
    "grar_holds (vals t) (map Some vs)"
    "if ph_type p = MPH_JOIN then \<not> is_concat p \<and> (\<exists>sp. sep p = Some sp \<and> part = Joined sp vs) else part = Single vs"
    "\<forall>s\<in>part_strings part. NUL \<notin> set s" unfolding part_of_def by blast
  show ?thesis
  proof (cases "ph_type p = MPH_JOIN")
    case True
    with p(5) obtain sp where s: "\<not> is_concat p" "sep p = Some sp" "part = Joined sp vs" by auto
    from copy_joined_ok [OF p(1-4) True s(1,2) _ _ assms(2,3)] p(6) lv show ?thesis by (simp add: s(3))
  next
    case False
    with p(5) have s: "part = Single vs" by simp
    from copy_single_ok [OF p(1-4) False _ assms(2,3)] p(6) assms(4) lv show ?thesis
      by (simp add: s del: part_value.simps)
  qed
qed

end
