(* ===== verification/Mist_Values_Result.thy ===== *)
theory Mist_Values_Result
  imports Mist_Values_Build
begin

text \<open>The sizes that are computed, the allocation of the buffers, and the whole construction.\<close>

subsection \<open>Sizes\<close>

definition value_count :: "part list \<Rightarrow> nat" where
  "value_count parts = fold (\<lambda>p n. max n (part_count p)) parts 1"

lemma fold_count_le: "p \<in> set parts \<Longrightarrow> part_count p \<le> fold (\<lambda>p n. max n (part_count p)) parts n"
  "n \<le> fold (\<lambda>p n. max n (part_count p)) parts n"
proof (induction parts arbitrary: n)
  case (Cons q parts)
  { case 1 then show ?case using Cons.IH(1) [of "max n (part_count q)"] Cons.IH(2) [of "max n (part_count q)"] by auto }
  { case 2 then show ?case using Cons.IH(2) [of "max n (part_count q)"] by simp }
qed simp_all

lemma value_count_pos: "0 < value_count parts"
  using fold_count_le(2) [of 1 parts] by (simp add: value_count_def)

lemma part_ofE:
  assumes "part_of st ph part"
  obtains p a t vs where "placeholders st ph = Some p" "tpl p = Some a" "templates st a = Some t" "is_evaluated t"
    "grar_holds (vals t) (map Some vs)"
    "ph_type p = MPH_JOIN \<and> \<not> is_concat p \<and> (\<exists>sp. sep p = Some sp \<and> part = Joined sp vs) \<or>
     ph_type p \<noteq> MPH_JOIN \<and> part = Single vs"
    "\<forall>s\<in>part_strings part. NUL \<notin> set s"
  using assms unfolding part_of_def by (auto split: if_splits)

lemma count_values_ok:
  assumes "list_all2 (part_of st) ps parts" and "1 \<le> n"
  shows "count_values (map Some ps) st n = Some (fold (\<lambda>p n. max n (part_count p)) parts n)"
  using assms
proof (induction arbitrary: n rule: list_all2_induct)
  case (Cons ph ps part parts)
  from Cons(1) obtain p a t vs where P: "placeholders st ph = Some p" "tpl p = Some a" "templates st a = Some t"
    "grar_holds (vals t) (map Some vs)"
    "ph_type p = MPH_JOIN \<and> \<not> is_concat p \<and> (\<exists>sp. sep p = Some sp \<and> part = Joined sp vs) \<or>
     ph_type p \<noteq> MPH_JOIN \<and> part = Single vs" by (rule part_ofE) blast
  have g: "gsize (vals t) = length vs" using grar_holds_bounds [OF P(4)] by simp
  have IH: "count_values (map Some ps) st (max n (part_count part)) =
      Some (fold (\<lambda>p n. max n (part_count p)) parts (max n (part_count part)))"
    using Cons.IH [of "max n (part_count part)"] Cons.prems by simp
  show ?case
  proof (cases "ph_type p = MPH_JOIN")
    case True
    then obtain sp where "part = Joined sp vs" using P(5) by auto
    then have "max n (part_count part) = n" using Cons.prems by simp
    then show ?thesis using IH P True by simp
  next
    case False
    then have "part = Single vs" using P(5) by auto
    then have "(if n < gsize (vals t) then gsize (vals t) else n) = max n (part_count part)" by (simp add: g)
    then show ?thesis using IH P False by simp
  qed
qed simp

lemma longest_ok: "longest (map Some vs) n = Some (fold (\<lambda>v n. max n (length v)) vs n)"
proof (induction vs arbitrary: n)
  case (Cons v vs)
  have "(if n < length v then length v else n) = max n (length v)" by simp
  then show ?case using Cons.IH by simp
qed simp

lemma max_length_ok:
  assumes "part_of st ph part" and "part_length part < 2 ^ 64"
  shows "mist_placeholder_max_length ph st = Some (part_length part)"
proof -
  from assms(1) obtain p a t vs where P: "placeholders st ph = Some p" "tpl p = Some a" "templates st a = Some t"
    "is_evaluated t" "grar_holds (vals t) (map Some vs)"
    "ph_type p = MPH_JOIN \<and> \<not> is_concat p \<and> (\<exists>sp. sep p = Some sp \<and> part = Joined sp vs) \<or>
     ph_type p \<noteq> MPH_JOIN \<and> part = Single vs" by (rule part_ofE) blast
  have g: "gsize (vals t) = length vs" "grar_elements (vals t) = Some (map Some vs)"
    using grar_holds_bounds [OF P(5)] elements [OF P(5)] by simp_all
  show ?thesis
  proof (cases "ph_type p = MPH_JOIN")
    case True
    then obtain sp where s: "sep p = Some sp" "part = Joined sp vs" using P(6) by auto
    show ?thesis
    proof (cases "vs = []")
      case False
      have "(\<Sum>v\<leftarrow>vs. length v) < 2 ^ 64" using assms(2) by (simp add: s)
      then have "grar_string_total_length (vals t) = Some (\<Sum>v\<leftarrow>vs. length v)"
        using g(2) total_length_eq [of vs 0] by (simp add: grar_string_total_length_def)
      then show ?thesis using P True s g False assms(2) by (simp add: mist_placeholder_max_length_def)
    qed (use P True s g in \<open>simp add: mist_placeholder_max_length_def\<close>)
  next
    case False
    then have "part = Single vs" using P(6) by auto
    then show ?thesis using P False g longest_ok [of vs 0]
      by (cases "vs = []") (simp_all add: mist_placeholder_max_length_def)
  qed
qed

lemma add_lengths_ok:
  assumes "list_all2 (part_of st) ps parts" and "n + (\<Sum>p\<leftarrow>parts. part_length p) < 2 ^ 64"
  shows "add_lengths (map Some ps) st n = Some (n + (\<Sum>p\<leftarrow>parts. part_length p))"
  using assms
proof (induction arbitrary: n rule: list_all2_induct)
  case (Cons ph ps part parts)
  then show ?case using max_length_ok [OF Cons(1)] Cons.IH [of "n + part_length part"] by (simp add: add.assoc)
qed simp

subsection \<open>Allocating the buffers\<close>

lemma destroy_elems_uses: "destroy_elems free_elem es h = Some h' \<Longrightarrow> uses h h'"
proof (induction es arbitrary: h)
  case (Cons e es)
  then show ?case using Cons.IH [of "if e = None then h else mfree h"]
    by (cases "e = None") (simp_all add: free_elem_def)
qed simp

lemma destroy_elems_some:
  "\<exists>h'. destroy_elems free_elem (map Some xs) h = Some h' \<and> live h' = live h - int (length xs) \<and> uses h h'"
proof (induction xs arbitrary: h)
  case (Cons x xs)
  from Cons.IH [of "mfree h"] show ?case by (auto simp: free_elem_def)
qed simp

lemma alloc_buffers_ok:
  assumes "grar_holds tga (map Some [0..<m])" and "cursors (max_len + 1) pos m (\<lambda>_. [])"
    and "m + n < 2 ^ 60" and "max_len + 1 < 2 ^ 64"
  shows "\<exists>ok tga' pos' h'. alloc_buffers n max_len tga pos h = Some (ok, tga', pos', h') \<and> uses h h' \<and>
    (ok \<and> grar_holds tga' (map Some [0..<m + n]) \<and> cursors (max_len + 1) pos' (m + n) (\<lambda>_. []) \<and> live h' = live h + int n \<or>
     \<not> ok \<and> ran_out h h' \<and> ((\<exists>j<n. live h' = live h + int j - 1) \<or> live h' = live h - int m - 2))"
  using assms
proof (induction n arbitrary: m tga pos h)
  case (Suc n)
  have lp: "length pos = m" using Suc.prems(2) by (simp add: cursors_def)
  show ?case
  proof (cases rule: malloc_cases [of h])
    case (1 h1)
    then show ?thesis by (auto intro: exI [of _ 0])
  next
    case (2 h1)
    have sm: "length (map Some [0..<m]) < 2 ^ 60" using Suc.prems(3) by simp
    show ?thesis
    proof (cases rule: grar_add_cases [OF Suc.prems(1) sm, of "Some m" h1])
      case (1 h2)
      obtain h3 where
        d: "destroy_elems free_elem (map Some [0..<m]) (mfree (mfree h2)) = Some h3"
          "live h3 = live h2 - 2 - int m" "uses h2 h3"
        using destroy_elems_some [of "[0..<m]" "mfree (mfree h2)"] by auto
      have "ran_out h (mfree h3)" "live (mfree h3) = live h - int m - 2"
        using 1(2) 2(2) d(2) ran_out_later [OF ran_out_before [OF 2(3) 1(3)] d(3)] by simp_all
      then show ?thesis using 1(1) 2(1) lp d(1)
        by (auto simp: grar_destroy_with_elements_def elements [OF Suc.prems(1)] grar_destroy_ok [OF Suc.prems(1)])
    next
      case (2 tga1 h2)
      note M = \<open>malloc h = (True, h1)\<close> \<open>live h1 = live h + 1\<close> \<open>uses h h1\<close>
      let ?c = "(replicate (size_wrap (max_len + 1)) None, 0)"
      have g1: "grar_holds tga1 (map Some [0..<Suc m])" using 2(2) by simp
      have c1: "cursors (max_len + 1) (pos @ [?c]) (Suc m) (\<lambda>_. [])"
        using Suc.prems(2,4) by (auto simp: cursors_def nth_append less_Suc_eq cursor_holds_def)
      from Suc.IH [OF g1 c1 _ Suc.prems(4), of h2] Suc.prems(3) obtain ok tga' pos' h' where
        r: "alloc_buffers n max_len tga1 (pos @ [?c]) h2 = Some (ok, tga', pos', h')" "uses h2 h'"
          "ok \<and> grar_holds tga' (map Some [0..<Suc m + n]) \<and> cursors (max_len + 1) pos' (Suc m + n) (\<lambda>_. []) \<and>
             live h' = live h2 + int n \<or>
           \<not> ok \<and> ran_out h2 h' \<and> ((\<exists>j<n. live h' = live h2 + int j - 1) \<or> live h' = live h2 - int (Suc m) - 2)"
        by auto
      have u: "uses h h2" using M(3) 2(4) by (rule uses_trans)
      have eq: "alloc_buffers (Suc n) max_len tga pos h = Some (ok, tga', pos', h')"
        using M(1) 2(1) r(1) lp by (simp add: Let_def)
      show ?thesis
      proof (cases ok)
        case True
        then show ?thesis using eq r(2,3) M(2) 2(3) uses_trans [OF u r(2)] by auto
      next
        case False
        with r(3) have f: "ran_out h2 h'" "(\<exists>j<n. live h' = live h2 + int j - 1) \<or> live h' = live h2 - int (Suc m) - 2"
          by auto
        then have "(\<exists>j<Suc n. live h' = live h + int j - 1) \<or> live h' = live h - int m - 2"
        proof (elim disjE exE conjE)
          fix j assume "j < n" "live h' = live h2 + int j - 1"
          then have "Suc j < Suc n" "live h' = live h + int (Suc j) - 1" using M(2) 2(3) by simp_all
          then show ?thesis by blast
        qed (use M(2) 2(3) in simp)
        then show ?thesis using eq False f(1) uses_trans [OF u r(2)] ran_out_before [OF u f(1)] by auto
      qed
    qed
  qed
qed auto

subsection \<open>The construction\<close>

text \<open>The value with number k of a template with the chunk c in front.\<close>

definition template_value :: "char list \<Rightarrow> part list \<Rightarrow> char list list \<Rightarrow> nat \<Rightarrow> char list" where
  "template_value c parts cs k = c @ concat (map (\<lambda>(p, c). part_value k p @ c) (zip parts cs))"

definition template_values :: "char list \<Rightarrow> part list \<Rightarrow> char list list \<Rightarrow> char list list" where
  "template_values c parts cs = map (template_value c parts cs) [0..<value_count parts]"

definition reserved_length :: "char list \<Rightarrow> part list \<Rightarrow> char list list \<Rightarrow> nat" where
  "reserved_length c parts cs = length c + (\<Sum>c\<leftarrow>cs. length c) + (\<Sum>p\<leftarrow>parts. part_length p)"

lemma copy_parts_ok:
  assumes "list_all2 (part_of st) ps parts" and "length cs = length ps" and "cursors L pos n f" and "0 < n"
    and "\<And>p. p \<in> set parts \<Longrightarrow> part_count p \<le> n" and "\<And>c. c \<in> set cs \<Longrightarrow> NUL \<notin> set c"
    and "\<And>k. k < n \<Longrightarrow> length (f k) + (\<Sum>c\<leftarrow>cs. length c) + (\<Sum>p\<leftarrow>parts. part_length p) \<le> L"
  shows "\<exists>pos'. copy_parts pos n (map Some ps) (map Some cs) st = Some pos' \<and>
           cursors L pos' n (\<lambda>k. f k @ concat (map (\<lambda>(p, c). part_value k p @ c) (zip parts cs)))"
  using assms
proof (induction arbitrary: cs pos f rule: list_all2_induct)
  case (Cons ph ps part parts)
  obtain c cs' where cs: "cs = c # cs'" using Cons.prems(1) by (cases cs) auto
  have "length (f k) + part_length part \<le> L" if "k < n" for k using Cons.prems(6) [OF that] by (simp add: cs)
  from copy_placeholder_ok [OF Cons(1) Cons.prems(2,3) _ this] Cons.prems(4) obtain pos1 where
    p1: "mist_copy_placeholder_values pos n ph st = Some pos1" "cursors L pos1 n (\<lambda>k. f k @ part_value k part)" by auto
  have "length (f k @ part_value k part) + length c \<le> L" if "k < n" for k
    using Cons.prems(6) [OF that] part_value_length [of k part] by (simp add: cs)
  from copy_string_ok [OF p1(2) Cons.prems(3) _ this] Cons.prems(5) obtain pos2 where
    p2: "mist_copy_string pos1 n c = Some pos2" "cursors L pos2 n (\<lambda>k. (f k @ part_value k part) @ c)" by (auto simp: cs)
  have "length ((f k @ part_value k part) @ c) + (\<Sum>c\<leftarrow>cs'. length c) + (\<Sum>p\<leftarrow>parts. part_length p) \<le> L" if "k < n" for k
    using Cons.prems(6) [OF that] part_value_length [of k part] by (simp add: cs)
  from Cons.IH [OF _ p2(2) Cons.prems(3) _ _ this] Cons.prems(1,4,5) obtain pos3 where
    p3: "copy_parts pos2 n (map Some ps) (map Some cs') st = Some pos3"
      "cursors L pos3 n (\<lambda>k. ((f k @ part_value k part) @ c) @ concat (map (\<lambda>(p, c). part_value k p @ c) (zip parts cs')))"
    by (auto simp: cs)
  then show ?case using p1(1) p2(1) by (simp add: cs)
qed auto

lemma terminate_values_ok:
  assumes "cursors L pos n f" and "\<And>k. k < n \<Longrightarrow> length (f k) < L"
  shows "terminate_values pos = Some (map f [0..<n])"
proof -
  have "do { b \<leftarrow> store (fst (pos ! k)) (snd (pos ! k)) [NUL]; cstr b } = Some (f k)" if "k < n" for k
  proof -
    have "cursor_holds L (pos ! k) (f k)" using assms(1) that by (simp add: cursors_def)
    then show ?thesis using store_end [of "fst (pos ! k)" "f k"] assms(2) [OF that] by (auto simp: cursor_holds_def)
  qed
  then have "map (\<lambda>p. do { b \<leftarrow> store (fst p) (snd p) [NUL]; cstr b }) pos = map Some (map f [0..<n])"
    by (intro nth_equalityI) (use assms(1) in \<open>simp_all add: cursors_def\<close>)
  then show ?thesis by (simp only: terminate_values_def those_map_Some)
qed

lemma pointed_holds: "grar_holds g (map Some js) \<Longrightarrow> grar_holds (pointed ss g) (map Some (map (nth ss) js))"
  by (auto simp: grar_holds_def pointed_def take_map)

lemma sizes_ok:
  assumes t: "templates st mt = Some t" "grar_holds (sch t) (map Some (c # cs))" "grar_holds (phs t) (map Some ps)"
    and ps: "list_all2 (part_of st) ps parts" and len: "reserved_length c parts cs + 1 < 2 ^ 64"
  shows "mist_template_num_values mt st = Some (value_count parts)"
    and "mist_template_max_length mt st = Some (reserved_length c parts cs)"
proof -
  show "mist_template_num_values mt st = Some (value_count parts)"
    using t(1) elements [OF t(3)] count_values_ok [OF ps, of 1]
    by (simp add: mist_template_num_values_def value_count_def)
  have "total_length (map Some (c # cs)) 0 = Some (length c + (\<Sum>c\<leftarrow>cs. length c))"
    using len unfolding total_length_eq by (simp add: reserved_length_def)
  then show "mist_template_max_length mt st = Some (reserved_length c parts cs)"
    using t(1) elements [OF t(2)] elements [OF t(3)] len
      add_lengths_ok [OF ps, of "length c + (\<Sum>c\<leftarrow>cs. length c)"]
    by (simp add: mist_template_max_length_def grar_string_total_length_def reserved_length_def)
qed

lemma build_values_ok:
  assumes t: "templates st mt = Some t" "grar_holds (sch t) (map Some (c # cs))" "grar_holds (phs t) (map Some ps)"
      "grar_holds (vals t) []"
    and ps: "list_all2 (part_of st) ps parts" "length cs = length ps"
    and nul: "NUL \<notin> set c" "\<And>s. s \<in> set cs \<Longrightarrow> NUL \<notin> set s"
    and len: "reserved_length c parts cs + 1 < 2 ^ 64" and cnt: "value_count parts < 2 ^ 60"
  shows "\<exists>ec st' h'. build_values mt st h = Some (ec, st', h') \<and> uses h h' \<and>
    (ec = MIST_OK \<and> live h' = live h + int (value_count parts) \<and>
       (\<exists>g. st' = put_template mt (t\<lparr>vals := g\<rparr>) st \<and> grar_holds g (map Some (template_values c parts cs))) \<or>
     ec = MIST_OUT_OF_MEMORY \<and> st' = st \<and> ran_out h h' \<and>
       (live h' = live h \<or> (\<exists>j<value_count parts. live h' = live h + 1 + int j)))"
proof -
  define n where "n = value_count parts"
  define m where "m = reserved_length c parts cs"
  have n: "0 < n" "n < 2 ^ 60" "size_wrap (n * 8) = n * 8" using value_count_pos cnt by (simp_all add: n_def)
  have num: "mist_template_num_values mt st = Some n" and maxl: "mist_template_max_length mt st = Some m"
    using sizes_ok [OF t(1-3) ps(1) len] by (simp_all add: n_def m_def)
  note B = build_values_def [of mt st h, unfolded t(1) num maxl bind.simps]
  have ok0: "(n = 0 \<or> size_wrap (n * 8) \<noteq> n * 8) = False" using n by simp
  show ?thesis
  proof (cases rule: malloc_cases [of h])
    case (1 h1)
    then show ?thesis unfolding B using ok0 ran_out_uses [OF 1(3)] by simp
  next
    case M: (2 h1)
    show ?thesis
    proof (cases rule: grar_create_cases [where 'a = nat, of h1])
      case (1 h2)
      have "build_values mt st h = Some (MIST_OUT_OF_MEMORY, st, mfree h2)" unfolding B using ok0 M 1 by simp
      then show ?thesis using M 1 ran_out_before [OF M(3) 1(3)] by auto
    next
      case (2 tga h2)
      have u: "uses h h2" using M(3) 2(4) by (rule uses_trans)
      have a0: "grar_holds tga (map Some [0..<0])" "cursors (m + 1) [] 0 (\<lambda>_. [])" using 2(2) by (simp_all add: cursors_def)
      from alloc_buffers_ok [OF a0, of n h2] n(2) len obtain ok tga' pos h3 where
        r: "alloc_buffers n m tga [] h2 = Some (ok, tga', pos, h3)" "uses h2 h3"
          "ok \<and> grar_holds tga' (map Some [0..<n]) \<and> cursors (m + 1) pos n (\<lambda>_. []) \<and> live h3 = live h2 + int n \<or>
           \<not> ok \<and> ran_out h2 h3 \<and> ((\<exists>j<n. live h3 = live h2 + int j - 1) \<or> live h3 = live h2 - 2)"
        unfolding m_def [symmetric] by auto
      note u' = uses_trans [OF u r(2)]
      show ?thesis
      proof (cases ok)
        case False
        have "build_values mt st h = Some (MIST_OUT_OF_MEMORY, st, h3)" unfolding B using ok0 M(1) 2(1) r(1) False by simp
        then show ?thesis using False r(3) M(2) 2(3) u' ran_out_before [OF u, of h3] by (auto simp: n_def)
      next
        case True
        with r(3) have a: "grar_holds tga' (map Some [0..<n])" "cursors (m + 1) pos n (\<lambda>_. [])" "live h3 = live h2 + int n"
          by simp_all
        from copy_string_ok [OF a(2) n(1) nul(1)] obtain pos1 where
          p1: "mist_copy_string pos n c = Some pos1" "cursors (m + 1) pos1 n (\<lambda>k. c)"
          by (auto simp: m_def reserved_length_def)
        have "part_count p \<le> n" if "p \<in> set parts" for p
          using fold_count_le(1) [OF that, of 1] by (simp add: n_def value_count_def)
        from copy_parts_ok [OF ps p1(2) n(1) this nul(2)] obtain pos2 where
          p2: "copy_parts pos1 n (map Some ps) (map Some cs) st = Some pos2"
            "cursors (m + 1) pos2 n (template_value c parts cs)"
          by (auto simp: m_def reserved_length_def template_value_def [abs_def])
        have "length (template_value c parts cs k) \<le> m" for k
        proof -
          have "length (concat (map (\<lambda>(p, c). part_value k p @ c) (zip parts cs))) \<le>
              (\<Sum>c\<leftarrow>cs. length c) + (\<Sum>p\<leftarrow>parts. part_length p)"
          proof (induction parts cs rule: list_induct2')
            case (4 p parts c cs)
            then show ?case using part_value_length [of k p] by simp
          qed simp_all
          then show ?thesis by (simp add: template_value_def m_def reserved_length_def)
        qed
        then have "length (template_value c parts cs k) < m + 1" for k by (simp add: le_imp_less_Suc)
        from terminate_values_ok [OF p2(2) this] have ts: "terminate_values pos2 = Some (template_values c parts cs)"
          by (simp add: template_values_def n_def)
        let ?old = "snd (grar_swap (vals t) (pointed (template_values c parts cs) tga'))"
        let ?g = "fst (grar_swap (vals t) (pointed (template_values c parts cs) tga'))"
        have g: "grar_holds ?old []" using t(4) by (simp add: grar_swap_ok)
        have "map (nth (template_values c parts cs)) [0..<n] = template_values c parts cs"
          by (rule nth_equalityI) (simp_all add: template_values_def n_def)
        then have g': "grar_holds ?g (map Some (template_values c parts cs))"
          using pointed_holds [OF a(1), of "template_values c parts cs"] by (simp add: grar_swap_ok)
        have "build_values mt st h = Some (MIST_OK, put_template mt (t\<lparr>vals := ?g\<rparr>) st, mfree (mfree h3))"
          unfolding B using ok0 M(1) 2(1) r(1) True elements [OF t(2)] elements [OF t(3)] p1(1) p2(1) ts
            grar_destroy_ok [OF g] grar_holds_bounds [OF g] by (simp add: case_prod_unfold)
        then show ?thesis using g' a(3) M(2) 2(3) u' by (auto simp: n_def)
      qed
    qed
  qed
qed

text \<open>What is leaked when the first buffer cannot be allocated: the array for the values.\<close>

lemma build_values_leak:
  assumes "templates st mt = Some t" and "mist_template_num_values mt st = Some n" and "0 < n" and "n < 2 ^ 60"
    and "mist_template_max_length mt st = Some m" and "outcomes h = [True, True]"
  shows "\<exists>h'. build_values mt st h = Some (MIST_OUT_OF_MEMORY, st, h') \<and> live h' = live h + 1"
proof -
  obtain k where n: "n = Suc k" using assms(3) by (cases n) auto
  have "size_wrap (n * 8) = n * 8" using assms(4) by simp
  then show ?thesis using assms
    by (simp add: build_values_def n malloc_def next_outcome_def grar_create_def mfree_def)
qed

end
