(* ===== verification/Mist_Evaluate.thy ===== *)
theory Mist_Evaluate
  imports Mist_Values
begin

text \<open>
  The evaluation of templates in mist_base.c: mist_template_evaluate and
  mist_placeholder_evaluate, which call each other.  Templates may refer to each other in
  cycles, and the flag is_evaluated cuts them; n bounds the depth of the calls, and None is the
  result of a failed assertion and also of a depth that does not suffice.  Every function takes
  the one it calls as an argument (an evaluator), so that what is said for all evaluators does
  not depend on the depth.
\<close>

subsection \<open>Conditions\<close>

text \<open>The values of the condition are read again every time.\<close>

definition value_at :: "tptr \<Rightarrow> nat \<Rightarrow> tstore \<Rightarrow> char list option" where
  "value_at a i st = do { t \<leftarrow> templates st a; v \<leftarrow> grar_get_element (vals t) i; v }"

definition condition_at :: "tptr \<Rightarrow> nat \<Rightarrow> tstore \<Rightarrow> bool option" where
  "condition_at c i st = do { v \<leftarrow> value_at c i st; Some (v \<noteq> []) }"

definition branch_of :: "CMistPlaceholder \<Rightarrow> bool \<Rightarrow> tptr option" where
  "branch_of p cexpr = (if cexpr then tpl_then p else tpl_else p)"

text \<open>The loop stops at the first value that is not empty; n are left.\<close>

fun some_condition :: "tptr \<Rightarrow> nat \<Rightarrow> nat \<Rightarrow> tstore \<Rightarrow> bool option" where
  "some_condition c i 0 st = Some False"
| "some_condition c i (Suc n) st =
     do { b \<leftarrow> condition_at c i st; if b then Some True else some_condition c (Suc i) n st }"

text \<open>A copy of a value is added to a template.\<close>

definition add_copy :: "tptr \<Rightarrow> char list \<Rightarrow> tstore \<Rightarrow> mheap \<Rightarrow> (bool \<times> tstore \<times> mheap) option" where
  "add_copy mt v st h =
     (case malloc h of
        (False, h) \<Rightarrow> Some (False, st, h)
      | (True, h) \<Rightarrow>
          do { t \<leftarrow> templates st mt;
               (ok, g, h) \<leftarrow> grar_add_element (vals t) (Some v) h;
               let st = put_template mt (t\<lparr>vals := g\<rparr>) st;
               Some (if ok then (True, st, h) else (False, st, mfree h)) })"

fun copy_branch :: "tptr \<Rightarrow> tptr \<Rightarrow> nat \<Rightarrow> nat \<Rightarrow> tstore \<Rightarrow> mheap \<Rightarrow> (EMistErrorCode \<times> tstore \<times> mheap) option" where
  "copy_branch mt b i 0 st h = Some (MIST_OK, st, h)"
| "copy_branch mt b i (Suc n) st h =
     do { v \<leftarrow> value_at b i st;
          (ok, st, h) \<leftarrow> add_copy mt v st h;
          if ok then copy_branch mt b (Suc i) n st h else Some (MIST_OUT_OF_MEMORY, st, h) }"

text \<open>The second pass: value i of the result, with condition c; n values are left.\<close>

fun select_values ::
  "tptr \<Rightarrow> CMistPlaceholder \<Rightarrow> tptr \<Rightarrow> nat \<Rightarrow> nat \<Rightarrow> bool \<Rightarrow> nat \<Rightarrow> nat \<Rightarrow> tstore \<Rightarrow> mheap \<Rightarrow>
   (EMistErrorCode \<times> tstore \<times> mheap) option" where
  "select_values mt p cnd ncond c cexpr i 0 st h = Some (MIST_OK, st, h)"
| "select_values mt p cnd ncond c cexpr i (Suc n) st h =
     do { b \<leftarrow> branch_of p cexpr;
          t \<leftarrow> templates st b;
          let nvals = gsize (vals t);
          if \<not> is_evaluated t \<or> nvals = 0 then None
          else do { v \<leftarrow> value_at b (if i < nvals then i else nvals - 1) st;
                    (ok, st, h) \<leftarrow> add_copy mt v st h;
                    if \<not> ok then Some (MIST_OUT_OF_MEMORY, st, h)
                    else if c + 1 < ncond
                    then do { cexpr \<leftarrow> condition_at cnd (c + 1) st;
                              select_values mt p cnd ncond (c + 1) cexpr (Suc i) n st h }
                    else select_values mt p cnd ncond c cexpr (Suc i) n st h } }"

subsection \<open>Attributes\<close>

text \<open>A template without string chunks is an attribute; without values it gets an empty one.\<close>

definition evaluate_attribute :: "tptr \<Rightarrow> CMistTemplate \<Rightarrow> tstore \<Rightarrow> mheap \<Rightarrow> (EMistErrorCode \<times> tstore \<times> mheap) option" where
  "evaluate_attribute mt t st h =
     (if gsize (vals t) = 0
      then (case malloc h of
              (False, h) \<Rightarrow> Some (MIST_OUT_OF_MEMORY, st, h)
            | (True, h) \<Rightarrow>
                do { (ok, g, h) \<leftarrow> grar_add_element (vals t) (Some []) h;
                     Some (if ok then (MIST_OK, put_template mt (t\<lparr>vals := g, is_evaluated := True\<rparr>) st, h)
                           else (MIST_OUT_OF_MEMORY, put_template mt (t\<lparr>vals := g\<rparr>) st, mfree h)) })
      else Some (MIST_OK, put_template mt (t\<lparr>is_evaluated := True\<rparr>) st, h))"

definition set_evaluated :: "tptr \<Rightarrow> tstore \<Rightarrow> tstore option" where
  "set_evaluated mt st = do { t \<leftarrow> templates st mt; Some (put_template mt (t\<lparr>is_evaluated := True\<rparr>) st) }"

subsection \<open>Evaluation\<close>

type_synonym evaluator = "tptr \<Rightarrow> tstore \<Rightarrow> mheap \<Rightarrow> (EMistErrorCode \<times> tstore \<times> mheap) option"

text \<open>The first pass over the conditions: the branches are evaluated and the values counted.\<close>

fun evaluate_branches ::
  "evaluator \<Rightarrow> CMistPlaceholder \<Rightarrow> tptr \<Rightarrow> nat \<Rightarrow> nat \<Rightarrow> nat \<Rightarrow> tstore \<Rightarrow> mheap \<Rightarrow>
   (EMistErrorCode \<times> nat \<times> tstore \<times> mheap) option" where
  "evaluate_branches ev p cnd c 0 ntotal st h = Some (MIST_OK, ntotal, st, h)"
| "evaluate_branches ev p cnd c (Suc k) ntotal st h =
     do { cexpr \<leftarrow> condition_at cnd c st;
          b \<leftarrow> branch_of p cexpr;
          (ec, st, h) \<leftarrow> ev b st h;
          if ec \<noteq> MIST_OK then Some (ec, ntotal, st, h)
          else do { tb \<leftarrow> templates st b;
                    let nvals = gsize (vals tb);
                    evaluate_branches ev p cnd (Suc c) k (if nvals > ntotal then nvals else ntotal) st h } }"

definition concat_values :: "evaluator \<Rightarrow> CMistPlaceholder \<Rightarrow> tptr \<Rightarrow> tptr \<Rightarrow> nat \<Rightarrow> tstore \<Rightarrow> mheap \<Rightarrow>
    (EMistErrorCode \<times> tstore \<times> mheap) option" where
  "concat_values ev p mt cnd ncond st h =
     do { cexpr \<leftarrow> some_condition cnd 0 ncond st;
          b \<leftarrow> branch_of p cexpr;
          (ec, st, h) \<leftarrow> ev b st h;
          if ec \<noteq> MIST_OK then Some (ec, st, h)
          else do { tb \<leftarrow> templates st b;
                    if gsize (vals tb) = 0 then None
                    else copy_branch mt b 0 (gsize (vals tb)) st h } }"

definition conditional_values :: "evaluator \<Rightarrow> CMistPlaceholder \<Rightarrow> tptr \<Rightarrow> tptr \<Rightarrow> nat \<Rightarrow> tstore \<Rightarrow> mheap \<Rightarrow>
    (EMistErrorCode \<times> tstore \<times> mheap) option" where
  "conditional_values ev p mt cnd ncond st h =
     do { (ec, ntotal, st, h) \<leftarrow> evaluate_branches ev p cnd 0 ncond ncond st h;
          if ec \<noteq> MIST_OK then Some (ec, st, h)
          else do { cexpr \<leftarrow> condition_at cnd 0 st;
                    select_values mt p cnd ncond 0 cexpr 0 ntotal st h } }"

text \<open>
  The first part of a conditional empties the template of the result and the branches and
  evaluates the condition.
\<close>

definition evaluate_condition :: "evaluator \<Rightarrow> CMistPlaceholder \<Rightarrow> evaluator" where
  "evaluate_condition ev p mt st h =
     do { cnd \<leftarrow> tpl_cond p;
          th \<leftarrow> tpl_then p;
          el \<leftarrow> tpl_else p;
          (st, h) \<leftarrow> mist_template_clear_values mt st h;
          (st, h) \<leftarrow> mist_template_clear_values th st h;
          (st, h) \<leftarrow> mist_template_clear_values el st h;
          ev cnd st h }"

definition evaluate_conditional :: "evaluator \<Rightarrow> CMistPlaceholder \<Rightarrow> evaluator" where
  "evaluate_conditional ev p mt st h =
     do { (ec, st, h) \<leftarrow> evaluate_condition ev p mt st h;
          if ec \<noteq> MIST_OK then Some (ec, st, h)
          else do {
            cnd \<leftarrow> tpl_cond p;
            tc \<leftarrow> templates st cnd;
            let ncond = gsize (vals tc);
            if ncond = 0 then None
            else do {
              (ec, st, h) \<leftarrow> (if is_concat p then concat_values ev p mt cnd ncond st h
                              else conditional_values ev p mt cnd ncond st h);
              if ec \<noteq> MIST_OK then Some (ec, st, h)
              else do { st \<leftarrow> set_evaluated mt st; Some (ec, st, h) } } } }"

definition mist_placeholder_evaluate :: "evaluator \<Rightarrow> evaluator" where
  "mist_placeholder_evaluate ev ph st h =
     do { p \<leftarrow> placeholders st ph;
          mt \<leftarrow> tpl p;
          if ph_type p = MPH_COND then evaluate_conditional ev p mt st h else ev mt st h }"

fun evaluate_placeholders ::
  "evaluator \<Rightarrow> tptr TGAElem list \<Rightarrow> tstore \<Rightarrow> mheap \<Rightarrow> (EMistErrorCode \<times> tstore \<times> mheap) option" where
  "evaluate_placeholders ev [] st h = Some (MIST_OK, st, h)"
| "evaluate_placeholders ev (p # ps) st h =
     do { ph \<leftarrow> p;
          (ec, st, h) \<leftarrow> mist_placeholder_evaluate ev ph st h;
          if ec \<noteq> MIST_OK then Some (ec, st, h) else evaluate_placeholders ev ps st h }"

definition template_evaluate :: "evaluator \<Rightarrow> evaluator" where
  "template_evaluate ev mt st h =
     do { t \<leftarrow> templates st mt;
          if is_evaluated t then Some (MIST_OK, st, h)
          else if gsize (sch t) = 0
          then (if gsize (phs t) \<noteq> 0 then None else evaluate_attribute mt t st h)
          else if gsize (sch t) \<noteq> gsize (phs t) + 1 then None
          else do { (st, h) \<leftarrow> mist_template_clear_values mt st h;
                    st \<leftarrow> set_evaluated mt st;
                    ps \<leftarrow> grar_elements (phs t);
                    (ec, st, h) \<leftarrow> evaluate_placeholders ev ps st h;
                    if ec \<noteq> MIST_OK then Some (ec, st, h) else build_values mt st h } }"

primrec mist_template_evaluate :: "nat \<Rightarrow> evaluator" where
  "mist_template_evaluate 0 = (\<lambda>mt st h. None)"
| "mist_template_evaluate (Suc n) = template_evaluate (mist_template_evaluate n)"

end
