(* ===== verification/Template_Properties.thy ===== *)
theory Template_Properties
  imports Mist_Tokens_Loop Mist_Values_Result Mist_Evaluate
begin

text \<open>
  The properties of the templates of the mist engine.  Each holds whichever allocations fail.
\<close>

subsection \<open>Lexical analysis\<close>

text \<open>C38: Lexical analysis of any text, with any markers that are not empty, returns and never
  leaves a block.  It gives the tokens of a template, a sequence of string chunks and
  placeholders in which the parts have no markers in them, each token reading as the chunk or as
  the trimmed contents of the placeholder with its kind; it gives NULL and a message only when the
  text is no template, and NULL without a message only when memory runs out.  What is allocated
  is what is returned.\<close>

theorem mist_tokenize:
  assumes "bm \<noteq> []" and "em \<noteq> []" and "NUL \<notin> set src" and "length src < 2 ^ 59"
  shows "\<exists>r m h'. mist_template_tokenize_string src bm em h = Some (r, m, h') \<and>
    (case r of
       Some g \<Rightarrow> m = None \<and>
         (\<exists>ts segs l. grar_holds g (map Some ts) \<and> live h' = live h + 2 + int (length ts) \<and>
            clean bm em segs l \<and> src = render bm em segs l \<and> reads src ts = wanted segs l \<and>
            list_all (\<lambda>t. tok_beg t \<le> tok_end t \<and> tok_end t \<le> length src) ts)
     | None \<Rightarrow> live h' = live h + (if m = None then 0 else 1) \<and>
         (m \<noteq> None \<longrightarrow> (\<forall>segs l. clean bm em segs l \<longrightarrow> src \<noteq> render bm em segs l)) \<and>
         (m = None \<longrightarrow> \<not> ample (6 * length src + 4) h))"
proof -
  from tokenize_string_ok [OF assms, of h] obtain r m h' where
    r: "mist_template_tokenize_string src bm em h = Some (r, m, h')" "analysed bm em src h r m h'" by blast
  show ?thesis
    by (intro exI conjI, rule r(1), use r(2) in \<open>unfold analysed_def parts_def in_source_def\<close>)
      (auto split: option.splits)
qed

text \<open>A template with a name and one that closes a marker that was never opened.\<close>

definition ex_source :: "char list" where
  "ex_source = ''f($ a $);''"

lemma ex_source_clean: "clean ''$'' ''$'' [(''f('', '' a '')] '');''"
  by (simp add: clean_def clean_segment_def classify_def trimmed_def seps_def wspace_def)

theorem mist_tokenize_witness:
  "\<exists>r m h'. mist_template_tokenize_string ex_source ''$'' ''$'' \<lparr>outcomes = replicate 64 True, live = 0\<rparr> = Some (r, m, h') \<and>
     r \<noteq> None \<and> m = None"
proof -
  have r: "ex_source = render ''$'' ''$'' [(''f('', '' a '')] '');''" by (simp add: ex_source_def)
  have "NUL \<notin> set ex_source" "length ex_source < 2 ^ 59"
    "ample (6 * length ex_source + 4) \<lparr>outcomes = replicate 64 True, live = 0\<rparr>"
    by (simp_all add: ex_source_def ample_def list_all_iff)
  with mist_tokenize [of "''$''" "''$''" ex_source "\<lparr>outcomes = replicate 64 True, live = 0\<rparr>"] r ex_source_clean
  show ?thesis by (fastforce split: option.splits)
qed

subsection \<open>The values of a template\<close>

text \<open>C39: When the placeholders of a template are evaluated, its values are what they should be:
  there are as many as the placeholders without a separator have at most, at least one, and the
  value with number k puts between the string chunks the joined values of the placeholders with a
  separator and the k-th value, or the last one, of the others.  They are built in buffers that
  were allocated for an upper bound of their length, and nothing is written outside; without
  memory the template keeps its values, and the only blocks lost are an array and the buffers
  allocated before the one that failed, which are not freed.\<close>

theorem mist_values_built:
  assumes "templates st mt = Some t" and "grar_holds (sch t) (map Some (c # cs))"
    and "grar_holds (phs t) (map Some ps)" and "grar_holds (vals t) []"
    and "list_all2 (part_of st) ps qs" and "length cs = length ps"
    and "\<forall>s\<in>set (c # cs). NUL \<notin> set s"
    and "reserved_length c qs cs + 1 < 2 ^ 64" and "value_count qs < 2 ^ 60"
  shows "\<exists>ec st' h'. build_values mt st h = Some (ec, st', h') \<and>
    (ec = MIST_OK \<and> live h' = live h + int (value_count qs) \<and>
       (\<exists>g. st' = put_template mt (t\<lparr>vals := g\<rparr>) st \<and>
          grar_holds g (map (\<lambda>k. Some (c @ concat (map (\<lambda>(p, s). part_value k p @ s) (zip qs cs))))
                            [0..<value_count qs])) \<or>
     ec = MIST_OUT_OF_MEMORY \<and> st' = st \<and> ran_out h h' \<and>
       (live h' = live h \<or> (\<exists>j<value_count qs. live h' = live h + 1 + int j))) \<and>
    (outcomes h = [True, True] \<longrightarrow> ec = MIST_OUT_OF_MEMORY \<and> live h' = live h + 1)"
proof -
  have nul: "NUL \<notin> set c" "\<And>s. s \<in> set cs \<Longrightarrow> NUL \<notin> set s" using assms(7) by simp_all
  from build_values_ok [OF assms(1-6) nul assms(8,9), of h] obtain ec st' h' where
    r: "build_values mt st h = Some (ec, st', h')"
      "ec = MIST_OK \<and> live h' = live h + int (value_count qs) \<and>
         (\<exists>g. st' = put_template mt (t\<lparr>vals := g\<rparr>) st \<and> grar_holds g (map Some (template_values c qs cs))) \<or>
       ec = MIST_OUT_OF_MEMORY \<and> st' = st \<and> ran_out h h' \<and>
         (live h' = live h \<or> (\<exists>j<value_count qs. live h' = live h + 1 + int j))" by blast
  from sizes_ok [OF assms(1-3,5,8)] have
    "mist_template_num_values mt st = Some (value_count qs)"
    "mist_template_max_length mt st = Some (reserved_length c qs cs)" by simp_all
  from build_values_leak [OF assms(1) this(1) value_count_pos assms(9) this(2), of h] r
  show ?thesis by (auto simp: template_values_def template_value_def [abs_def] comp_def)
qed

text \<open>A template with two placeholders: one with two values and one that joins two values.\<close>

definition ex_garray :: "'a list \<Rightarrow> 'a CGrowingArray" where
  "ex_garray es = \<lparr>gdata = Some (map (\<lambda>e. Some (Some e)) es @ replicate (16 - length es) None),
     gsize = length es, capacity = 16\<rparr>"

definition ex_tpl :: "char list list \<Rightarrow> char list list \<Rightarrow> tptr list \<Rightarrow> CMistTemplate" where
  "ex_tpl vs ss ps = \<lparr>tpl_name = ''t'', vals = ex_garray vs, sch = ex_garray ss, phs = ex_garray ps,
     is_evaluated = True\<rparr>"

definition ex_placeholder :: "tptr \<Rightarrow> char list option \<Rightarrow> CMistPlaceholder" where
  "ex_placeholder a s = \<lparr>ph_type = (if s = None then MPH_PLAIN else MPH_JOIN), ph_name = ''p'', tpl = Some a,
     sep = s, tpl_cond = None, tpl_then = None, tpl_else = None, is_concat = False\<rparr>"

definition ex_store :: tstore where
  "ex_store =
     \<lparr>templates = [0 \<mapsto> ex_tpl [] [''int f'', ''('', '');''] [3, 4],
                   1 \<mapsto> ex_tpl [''1'', ''2''] [] [], 2 \<mapsto> ex_tpl [''x'', ''yy''] [] []],
      placeholders = [3 \<mapsto> ex_placeholder 1 None, 4 \<mapsto> ex_placeholder 2 (Some '', '')], next_ptr = 5\<rparr>"

lemma ex_garray_holds: "length es \<le> 16 \<Longrightarrow> grar_holds (ex_garray es) (map Some es)"
  by (simp add: grar_holds_def ex_garray_def)

lemma ex_parts:
  "list_all2 (part_of ex_store) [3, 4] [Single [''1'', ''2''], Joined '', '' [''x'', ''yy'']]"
  using ex_garray_holds [of "[''1'', ''2'']"] ex_garray_holds [of "[''x'', ''yy'']"]
  by (simp add: part_of_def ex_store_def ex_placeholder_def ex_tpl_def)

theorem mist_values_built_witness:
  "\<exists>ec st' h'. build_values 0 ex_store \<lparr>outcomes = replicate 9 True, live = 0\<rparr> = Some (ec, st', h') \<and>
     (ec = MIST_OK \<and> live h' = 2 \<and>
        (\<exists>t g. templates st' 0 = Some (t\<lparr>vals := g\<rparr>) \<and>
           grar_holds g (map Some [''int f1(x, yy);'', ''int f2(x, yy);''])) \<or>
      ec = MIST_OUT_OF_MEMORY \<and> st' = ex_store)"
proof -
  have t: "templates ex_store 0 = Some (ex_tpl [] [''int f'', ''('', '');''] [3, 4])" by (simp add: ex_store_def)
  let ?t = "ex_tpl [] [''int f'', ''('', '');''] [3, 4]" and ?cs = "[''('', '');'']"
  let ?qs = "[Single [''1'', ''2''], Joined '', '' [''x'', ''yy'']]" and ?h = "\<lparr>outcomes = replicate 9 True, live = 0\<rparr>"
  have n: "value_count ?qs = 2" by (simp add: value_count_def)
  have a: "grar_holds (sch ?t) (map Some (''int f'' # ?cs))" "grar_holds (phs ?t) (map Some [3, 4])" "grar_holds (vals ?t) []"
    using ex_garray_holds [of "''int f'' # ?cs"] ex_garray_holds [of "[3, 4] :: nat list"]
      ex_garray_holds [of "[] :: char list list"] by (simp_all add: ex_tpl_def)
  have b: "length ?cs = length [3, 4 :: nat]" "\<forall>s\<in>set (''int f'' # ?cs). NUL \<notin> set s"
    "reserved_length ''int f'' ?qs ?cs + 1 < 2 ^ 64" "value_count ?qs < 2 ^ 60"
    by (simp_all add: reserved_length_def n)
  have v: "map (\<lambda>k. Some (''int f'' @ concat (map (\<lambda>(p, s). part_value k p @ s) (zip ?qs ?cs)))) [0..<2] =
      map Some [''int f1(x, yy);'', ''int f2(x, yy);'']" by (simp add: upt_rec)
  from mist_values_built [OF t a ex_parts b, of ?h, unfolded n v] obtain ec st' h' where
    r: "build_values 0 ex_store ?h = Some (ec, st', h')"
      "ec = MIST_OK \<and> live h' = live ?h + int 2 \<and> (\<exists>g. st' = put_template 0 (?t\<lparr>vals := g\<rparr>) ex_store \<and>
         grar_holds g (map Some [''int f1(x, yy);'', ''int f2(x, yy);''])) \<or>
       ec = MIST_OUT_OF_MEMORY \<and> st' = ex_store" by blast
  have "templates (put_template 0 (?t\<lparr>vals := g\<rparr>) ex_store) 0 = Some (?t\<lparr>vals := g\<rparr>)" for g
    by (simp add: put_template_def)
  with r(2) have "ec = MIST_OK \<and> live h' = 2 \<and>
      (\<exists>t g. templates st' 0 = Some (t\<lparr>vals := g\<rparr>) \<and> grar_holds g (map Some [''int f1(x, yy);'', ''int f2(x, yy);''])) \<or>
    ec = MIST_OUT_OF_MEMORY \<and> st' = ex_store" by auto
  with r(1) show ?thesis by blast
qed

end
