(* ===== verification/Mist_Group.thy ===== *)
theory Mist_Group
  imports Mist_Evaluate Smap
begin

text \<open>
  Template groups of src/sources/tools/kedr_gen/src/mist_engine/src/mist_base.c: the templates
  of a group sorted by name, the attributes that are made for names without a template, the
  connections of placeholders to templates, and setting, evaluating and clearing values.  qs and
  bs are qsort and bsearch of the C library.  The functions are None where an assertion fails
  or the code leaves its memory.
\<close>

record CMistTemplateGroup =
  tg_tpl :: "tptr CGrowingArray"
  tg_main :: tptr

subsection \<open>Sorting and searching by name\<close>

definition name_at :: "tstore \<Rightarrow> tptr \<Rightarrow> char list" where
  "name_at st a = (case templates st a of None \<Rightarrow> [] | Some t \<Rightarrow> tpl_name t)"

definition mist_template_compare :: "tstore \<Rightarrow> tptr \<Rightarrow> tptr \<Rightarrow> int" where
  "mist_template_compare st lhs rhs = strcmp (name_at st lhs) (name_at st rhs)"

text \<open>All elements are templates: this is looked at before the comparator is called.\<close>

definition all_templates :: "tptr CGrowingArray \<Rightarrow> tstore \<Rightarrow> tptr list option" where
  "all_templates g st =
     do { es \<leftarrow> grar_elements g;
          xs \<leftarrow> those es;
          if list_all (\<lambda>a. templates st a \<noteq> None) xs then Some xs else None }"

definition sort_templates :: "tptr qsorter \<Rightarrow> tptr CGrowingArray \<Rightarrow> tstore \<Rightarrow> tptr CGrowingArray option" where
  "sort_templates qs g st =
     do { xs \<leftarrow> all_templates g st;
          grar_sort qs g (\<lambda>(i, a) (j, b). mist_template_compare st a b) }"

text \<open>The key is a template that has only the name.\<close>

definition find_template :: "tptr bsearcher \<Rightarrow> tptr CGrowingArray \<Rightarrow> char list \<Rightarrow> tstore \<Rightarrow> int option" where
  "find_template bs g name st =
     do { xs \<leftarrow> all_templates g st;
          grar_find bs g name (\<lambda>name a. strcmp name (name_at st a)) }"

definition template_at :: "tptr CGrowingArray \<Rightarrow> int \<Rightarrow> tptr option" where
  "template_at g ind = (if ind < 0 then None else do { e \<leftarrow> grar_get_element g (nat ind); e })"

subsection \<open>Attributes\<close>

type_synonym collector =
  "tptr \<Rightarrow> char list CGrowingArray \<Rightarrow> mheap \<Rightarrow> (EMistErrorCode \<times> char list CGrowingArray \<times> mheap) option"

definition collect_branches :: "collector \<Rightarrow> CMistPlaceholder \<Rightarrow> char list CGrowingArray \<Rightarrow> mheap \<Rightarrow>
    (EMistErrorCode \<times> char list CGrowingArray \<times> mheap) option" where
  "collect_branches col p attrs h =
     (if ph_type p = MPH_COND
      then do { th \<leftarrow> tpl_then p;
                el \<leftarrow> tpl_else p;
                (ec, attrs, h) \<leftarrow> col th attrs h;
                if ec \<noteq> MIST_OK then Some (ec, attrs, h) else col el attrs h }
      else Some (MIST_OK, attrs, h))"

fun collect_attrs_for_placeholders ::
  "collector \<Rightarrow> tptr bsearcher \<Rightarrow> CMistTemplateGroup \<Rightarrow> tstore \<Rightarrow> tptr TGAElem list \<Rightarrow> char list CGrowingArray \<Rightarrow> mheap \<Rightarrow>
   (EMistErrorCode \<times> char list CGrowingArray \<times> mheap) option" where
  "collect_attrs_for_placeholders col bs mtg st [] attrs h = Some (MIST_OK, attrs, h)"
| "collect_attrs_for_placeholders col bs mtg st (e # es) attrs h =
     do { ph \<leftarrow> e;
          p \<leftarrow> placeholders st ph;
          ind \<leftarrow> find_template bs (tg_tpl mtg) (ph_name p) st;
          (ok, attrs, h) \<leftarrow>
            (if ind = - 1 then grar_add_element attrs (Some (ph_name p)) h else Some (True, attrs, h));
          if \<not> ok then Some (MIST_OUT_OF_MEMORY, attrs, h)
          else do {
            (ec, attrs, h) \<leftarrow> collect_branches col p attrs h;
            if ec \<noteq> MIST_OK then Some (ec, attrs, h)
            else collect_attrs_for_placeholders col bs mtg st es attrs h } }"

text \<open>The fuel bounds the depth of the templates.\<close>

primrec mist_tg_collect_attrs_for_template ::
  "nat \<Rightarrow> tptr bsearcher \<Rightarrow> CMistTemplateGroup \<Rightarrow> tstore \<Rightarrow> collector" where
  "mist_tg_collect_attrs_for_template 0 bs mtg st = (\<lambda>mt attrs h. None)"
| "mist_tg_collect_attrs_for_template (Suc n) bs mtg st =
     (\<lambda>mt attrs h.
        do { t \<leftarrow> templates st mt;
             es \<leftarrow> grar_elements (phs t);
             collect_attrs_for_placeholders (mist_tg_collect_attrs_for_template n bs mtg st) bs mtg st es attrs h })"

fun collect_attrs ::
  "collector \<Rightarrow> tptr TGAElem list \<Rightarrow> char list CGrowingArray \<Rightarrow> mheap \<Rightarrow>
   (EMistErrorCode \<times> char list CGrowingArray \<times> mheap) option" where
  "collect_attrs col [] attrs h = Some (MIST_OK, attrs, h)"
| "collect_attrs col (e # es) attrs h =
     do { a \<leftarrow> e;
          (ec, attrs, h) \<leftarrow> col a attrs h;
          if ec \<noteq> MIST_OK then Some (ec, attrs, h) else collect_attrs col es attrs h }"

text \<open>One template for each of the names, which are sorted.\<close>

definition skip_name :: "char list \<Rightarrow> char list TGAElem list \<Rightarrow> char list TGAElem list" where
  "skip_name name = dropWhile (\<lambda>e. case e of None \<Rightarrow> False | Some s \<Rightarrow> strcmp name s = 0)"

function create_attr_templates ::
  "char list TGAElem list \<Rightarrow> CMistTemplateGroup \<Rightarrow> tstore \<Rightarrow> mheap \<Rightarrow>
   (EMistErrorCode \<times> CMistTemplateGroup \<times> tstore \<times> mheap) option" where
  "create_attr_templates [] mtg st h = Some (MIST_OK, mtg, st, h)"
| "create_attr_templates (None # es) mtg st h = None"
| "create_attr_templates (Some name # es) mtg st h =
     do { (r, st, h) \<leftarrow> mist_template_create name st h;
          case r of
            None \<Rightarrow> Some (MIST_OUT_OF_MEMORY, mtg, st, h)
          | Some tp \<Rightarrow>
              do { (ok, g, h) \<leftarrow> grar_add_element (tg_tpl mtg) (Some tp) h;
                   if \<not> ok
                   then do { (st, h) \<leftarrow> destroy_template tp st h;
                             Some (MIST_OUT_OF_MEMORY, mtg\<lparr>tg_tpl := g\<rparr>, st, h) }
                   else create_attr_templates (skip_name name es) (mtg\<lparr>tg_tpl := g\<rparr>) st h } }"
  by pat_completeness auto
termination
  by (relation "measure (\<lambda>(es, mtg, st, h). length es)") (auto simp: skip_name_def length_dropWhile_le le_imp_less_Suc)

definition mist_tg_create_attrs ::
  "tptr qsorter \<Rightarrow> tptr bsearcher \<Rightarrow> char list qsorter \<Rightarrow> CMistTemplateGroup \<Rightarrow> tstore \<Rightarrow> mheap \<Rightarrow>
   (EMistErrorCode \<times> CMistTemplateGroup \<times> tstore \<times> mheap) option" where
  "mist_tg_create_attrs qs bs sqs mtg st h =
     do { g \<leftarrow> sort_templates qs (tg_tpl mtg) st;
          let mtg = mtg\<lparr>tg_tpl := g\<rparr>;
          (case grar_create h of
             (None, h) \<Rightarrow> Some (MIST_OUT_OF_MEMORY, mtg, st, h)
           | (Some attrs, h) \<Rightarrow>
               if gsize g = 0 then None
               else do {
                 es \<leftarrow> grar_elements g;
                 (ec, attrs, h) \<leftarrow>
                   collect_attrs (mist_tg_collect_attrs_for_template (Suc (next_ptr st)) bs mtg st) es attrs h;
                 if ec \<noteq> MIST_OK then Some (ec, mtg, st, snd (grar_destroy attrs h))
                 else if gsize attrs = 0 then Some (MIST_OK, mtg, st, snd (grar_destroy attrs h))
                 else do {
                   attrs \<leftarrow> grar_string_sort sqs attrs;
                   names \<leftarrow> grar_elements attrs;
                   (ec, mtg, st, h) \<leftarrow> create_attr_templates names mtg st h;
                   Some (ec, mtg, st, snd (grar_destroy attrs h)) } }) }"

subsection \<open>Connecting\<close>

type_synonym connector = "tptr \<Rightarrow> tstore \<Rightarrow> tstore option"

definition connect_placeholder ::
  "connector \<Rightarrow> tptr bsearcher \<Rightarrow> CMistTemplateGroup \<Rightarrow> tptr \<Rightarrow> tstore \<Rightarrow> tstore option" where
  "connect_placeholder con bs mtg ph st =
     do { p \<leftarrow> placeholders st ph;
          ind \<leftarrow> find_template bs (tg_tpl mtg) (ph_name p) st;
          mt \<leftarrow> template_at (tg_tpl mtg) ind;
          if ph_type p = MPH_COND
          then do { let st = put_placeholder ph (p\<lparr>tpl_cond := Some mt\<rparr>) st;
                    th \<leftarrow> tpl_then p;
                    el \<leftarrow> tpl_else p;
                    st \<leftarrow> con th st;
                    con el st }
          else Some (put_placeholder ph (p\<lparr>tpl := Some mt\<rparr>) st) }"

fun connect_placeholders ::
  "connector \<Rightarrow> tptr bsearcher \<Rightarrow> CMistTemplateGroup \<Rightarrow> tptr TGAElem list \<Rightarrow> tstore \<Rightarrow> tstore option" where
  "connect_placeholders con bs mtg [] st = Some st"
| "connect_placeholders con bs mtg (e # es) st =
     do { ph \<leftarrow> e;
          st \<leftarrow> connect_placeholder con bs mtg ph st;
          connect_placeholders con bs mtg es st }"

primrec mist_tg_connect_templates_for_template ::
  "nat \<Rightarrow> tptr bsearcher \<Rightarrow> CMistTemplateGroup \<Rightarrow> connector" where
  "mist_tg_connect_templates_for_template 0 bs mtg = (\<lambda>mt st. None)"
| "mist_tg_connect_templates_for_template (Suc n) bs mtg =
     (\<lambda>mt st.
        do { t \<leftarrow> templates st mt;
             es \<leftarrow> grar_elements (phs t);
             connect_placeholders (mist_tg_connect_templates_for_template n bs mtg) bs mtg es st })"

fun connect_all :: "connector \<Rightarrow> tptr TGAElem list \<Rightarrow> tstore \<Rightarrow> tstore option" where
  "connect_all con [] st = Some st"
| "connect_all con (e # es) st = do { a \<leftarrow> e; st \<leftarrow> con a st; connect_all con es st }"

definition mist_tg_connect_templates :: "tptr bsearcher \<Rightarrow> CMistTemplateGroup \<Rightarrow> tstore \<Rightarrow> tstore option" where
  "mist_tg_connect_templates bs mtg st =
     (if gsize (tg_tpl mtg) = 0 then None
      else do { es \<leftarrow> grar_elements (tg_tpl mtg);
                connect_all (mist_tg_connect_templates_for_template (Suc (next_ptr st)) bs mtg) es st })"

subsection \<open>Destroying\<close>

fun mist_template_dtors :: "tptr TGAElem list \<Rightarrow> tstore \<Rightarrow> mheap \<Rightarrow> (tstore \<times> mheap) option" where
  "mist_template_dtors [] st h = Some (st, h)"
| "mist_template_dtors (e # es) st h =
     do { a \<leftarrow> e; (st, h) \<leftarrow> destroy_template a st h; mist_template_dtors es st h }"

definition mist_tg_destroy_impl :: "CMistTemplateGroup \<Rightarrow> tstore \<Rightarrow> mheap \<Rightarrow> (tstore \<times> mheap) option" where
  "mist_tg_destroy_impl mtg st h =
     do { es \<leftarrow> grar_elements (tg_tpl mtg);
          (st, h) \<leftarrow> mist_template_dtors es st h;
          Some (st, mfree (snd (grar_destroy (tg_tpl mtg) h))) }"

subsection \<open>Values\<close>

definition mist_tg_add_value_impl ::
  "tptr bsearcher \<Rightarrow> CMistTemplateGroup \<Rightarrow> char list \<Rightarrow> char list \<Rightarrow> tstore \<Rightarrow> mheap \<Rightarrow>
   (EMistErrorCode \<times> tstore \<times> mheap) option" where
  "mist_tg_add_value_impl bs mtg name val st h =
     (case malloc h of
        (False, h) \<Rightarrow> Some (MIST_OUT_OF_MEMORY, st, h)
      | (True, h) \<Rightarrow>
          do { ind \<leftarrow> find_template bs (tg_tpl mtg) name st;
               let h = mfree h;
               if ind \<noteq> - 1
               then do { tp \<leftarrow> template_at (tg_tpl mtg) ind; mist_template_add_value tp val st h }
               else Some (MIST_OK, st, h) })"

fun add_pairs ::
  "tptr bsearcher \<Rightarrow> CMistTemplateGroup \<Rightarrow> TStringPair TGAElem list \<Rightarrow> tstore \<Rightarrow> mheap \<Rightarrow>
   (EMistErrorCode \<times> tstore \<times> mheap) option" where
  "add_pairs bs mtg [] st h = Some (MIST_OK, st, h)"
| "add_pairs bs mtg (e # es) st h =
     do { p \<leftarrow> e;
          (ec, st, h) \<leftarrow> mist_tg_add_value_impl bs mtg (pkey p) (pval p) st h;
          if ec \<noteq> MIST_OK then Some (ec, st, h) else add_pairs bs mtg es st h }"

definition mist_tg_set_values_impl ::
  "tptr bsearcher \<Rightarrow> CMistTemplateGroup \<Rightarrow> CStringMap \<Rightarrow> tstore \<Rightarrow> mheap \<Rightarrow> (EMistErrorCode \<times> tstore \<times> mheap) option" where
  "mist_tg_set_values_impl bs mtg sm st h =
     do { es \<leftarrow> grar_elements (container sm); add_pairs bs mtg es st h }"

fun clear_flags :: "tptr TGAElem list \<Rightarrow> tstore \<Rightarrow> tstore option" where
  "clear_flags [] st = Some st"
| "clear_flags (e # es) st =
     do { a \<leftarrow> e; t \<leftarrow> templates st a; clear_flags es (put_template a (t\<lparr>is_evaluated := False\<rparr>) st) }"

text \<open>The result is where the main template has its values; n bounds the depth of the calls.\<close>

definition mist_tg_evaluate_impl ::
  "nat \<Rightarrow> CMistTemplateGroup \<Rightarrow> tstore \<Rightarrow> mheap \<Rightarrow> (char list CGrowingArray option \<times> tstore \<times> mheap) option" where
  "mist_tg_evaluate_impl n mtg st h =
     (if gsize (tg_tpl mtg) = 0 then None
      else do { es \<leftarrow> grar_elements (tg_tpl mtg);
                st \<leftarrow> clear_flags es st;
                (ec, st, h) \<leftarrow> mist_template_evaluate n (tg_main mtg) st h;
                if ec \<noteq> MIST_OK then Some (None, st, h)
                else do { t \<leftarrow> templates st (tg_main mtg); Some (Some (vals t), st, h) } })"

fun clear_all_values :: "tptr TGAElem list \<Rightarrow> tstore \<Rightarrow> mheap \<Rightarrow> (tstore \<times> mheap) option" where
  "clear_all_values [] st h = Some (st, h)"
| "clear_all_values (e # es) st h =
     do { a \<leftarrow> e;
          (st, h) \<leftarrow> mist_template_clear_values a st h;
          t \<leftarrow> templates st a;
          clear_all_values es (put_template a (t\<lparr>is_evaluated := False\<rparr>) st) h }"

definition mist_tg_clear_values_impl :: "CMistTemplateGroup \<Rightarrow> tstore \<Rightarrow> mheap \<Rightarrow> (tstore \<times> mheap) option" where
  "mist_tg_clear_values_impl mtg st h =
     (if gsize (tg_tpl mtg) = 0 then None
      else do { es \<leftarrow> grar_elements (tg_tpl mtg); clear_all_values es st h })"

subsection \<open>The path of a file\<close>

definition errMainTplMultivalued :: "char list" where
  "errMainTplMultivalued =
     ''multi-valued top-level template in '' @ [CHR 0x22] @ ''%s'' @ [CHR 0x22] @ '' template group''"

definition format_name_error :: "char list \<Rightarrow> char list \<Rightarrow> mheap \<Rightarrow> message option \<times> mheap" where
  "format_name_error fmt name h =
     (case malloc h of (False, h) \<Rightarrow> (None, h) | (True, h) \<Rightarrow> (Some (Message fmt [name] 0), h))"

definition mist_tg_generate_path_string_impl ::
  "nat \<Rightarrow> tptr bsearcher \<Rightarrow> CMistTemplateGroup \<Rightarrow> CStringMap \<Rightarrow> tstore \<Rightarrow> mheap \<Rightarrow>
   (char list option \<times> message option \<times> tstore \<times> mheap) option" where
  "mist_tg_generate_path_string_impl n bs path_tg params st h =
     do { (ec, st, h) \<leftarrow> mist_tg_set_values_impl bs path_tg params st h;
          if ec \<noteq> MIST_OK then Some (None, None, st, h)
          else do {
            (r, st, h) \<leftarrow> mist_tg_evaluate_impl n path_tg st h;
            case r of
              None \<Rightarrow> Some (None, None, st, h)
            | Some vs \<Rightarrow>
                if gsize vs = 0 then None
                else if gsize vs \<noteq> 1
                then (let (m, h) = format_name_error errMainTplMultivalued (name_at st (tg_main path_tg)) h
                      in Some (None, m, st, h))
                else do { e \<leftarrow> grar_get_element vs 0;
                          path \<leftarrow> e;
                          if path = [] then None else Some (Some path, None, st, h) } } }"

end
