(* ===== verification/Mist_Syntax.thy ===== *)
theory Mist_Syntax
  imports Mist_Values_Result Mist_Evaluate
begin

text \<open>
  The syntax of templates as a datatype, the values a template has when the values of what it
  refers to are known, and how the syntax is laid out in a store.
\<close>

text \<open>A template is chunks with placeholders in between: first chunk, placeholders, other chunks.\<close>

datatype 'r ast = Ast "char list" "'r expr list" "char list list"
  and 'r expr = Ref 'r "char list option" | Cond bool 'r "'r ast" "'r ast"

subsection \<open>Values\<close>

text \<open>
  With concat, one branch is chosen for all values of the condition.  Otherwise value i comes from
  the branch that the i-th value of the condition, or its last one, chooses, and there are as
  many as the condition and the branches that are chosen have at most.
\<close>

definition chosen :: "char list list \<Rightarrow> char list list \<Rightarrow> char list \<Rightarrow> char list list" where
  "chosen th el c = (if c \<noteq> [] then th else el)"

definition value_of :: "char list list \<Rightarrow> nat \<Rightarrow> char list" where
  "value_of vs i = vs ! min i (length vs - 1)"

definition cond_count :: "char list list \<Rightarrow> char list list \<Rightarrow> char list list \<Rightarrow> nat" where
  "cond_count cs th el = fold (\<lambda>c n. max n (length (chosen th el c))) cs (length cs)"

definition cond_values :: "bool \<Rightarrow> char list list \<Rightarrow> char list list \<Rightarrow> char list list \<Rightarrow> char list list" where
  "cond_values cat cs th el =
     (if cat then (if list_ex (\<lambda>c. c \<noteq> []) cs then th else el)
      else map (\<lambda>i. value_of (chosen th el (value_of cs i)) i) [0..<cond_count cs th el])"

primrec denote :: "('r \<Rightarrow> char list list) \<Rightarrow> 'r ast \<Rightarrow> char list list"
  and denote_part :: "('r \<Rightarrow> char list list) \<Rightarrow> 'r expr \<Rightarrow> part" where
  "denote env (Ast c es cs) = template_values c (map (denote_part env) es) cs"
| "denote_part env (Ref r s) = (case s of None \<Rightarrow> Single (env r) | Some s \<Rightarrow> Joined s (env r))"
| "denote_part env (Cond cat r th el) = Single (cond_values cat (env r) (denote env th) (denote env el))"

text \<open>What the templates of a tree refer to, and its depth.\<close>

primrec refs_of :: "'r ast \<Rightarrow> 'r set" and refs_of_expr :: "'r expr \<Rightarrow> 'r set" where
  "refs_of (Ast c es cs) = \<Union> (set (map refs_of_expr es))"
| "refs_of_expr (Ref r s) = {r}"
| "refs_of_expr (Cond cat r th el) = insert r (refs_of th \<union> refs_of el)"

primrec depth_of :: "'r ast \<Rightarrow> nat" and depth_of_expr :: "'r expr \<Rightarrow> nat" where
  "depth_of (Ast c es cs) = Suc (fold max (map depth_of_expr es) 0)"
| "depth_of_expr (Ref r s) = 0"
| "depth_of_expr (Cond cat r th el) = max (depth_of th) (depth_of el)"

text \<open>Strings have no NUL in them and sizes fit.\<close>

primrec sized :: "('r \<Rightarrow> char list list) \<Rightarrow> 'r ast \<Rightarrow> bool"
  and sized_expr :: "('r \<Rightarrow> char list list) \<Rightarrow> 'r expr \<Rightarrow> bool" where
  "sized env (Ast c es cs) \<longleftrightarrow>
     length cs = length es \<and> list_all (\<lambda>s. NUL \<notin> set s) (c # cs) \<and>
     reserved_length c (map (denote_part env) es) cs + 1 < 2 ^ 64 \<and>
     value_count (map (denote_part env) es) < 2 ^ 60 \<and> list_all id (map (sized_expr env) es)"
| "sized_expr env (Ref r s) \<longleftrightarrow> (case s of None \<Rightarrow> True | Some s \<Rightarrow> NUL \<notin> set s)"
| "sized_expr env (Cond cat r th el) \<longleftrightarrow> sized env th \<and> sized env el"

subsection \<open>Trees in a store\<close>

definition holds_values :: "CMistTemplate \<Rightarrow> char list list \<Rightarrow> bool" where
  "holds_values t vs \<longleftrightarrow> grar_holds (vals t) (map Some vs)"

text \<open>The set is the addresses of the structures that the tree consists of.\<close>

inductive tree_in :: "tstore \<Rightarrow> tptr \<Rightarrow> tptr set \<Rightarrow> tptr ast \<Rightarrow> bool"
  and phs_in :: "tstore \<Rightarrow> tptr list \<Rightarrow> tptr set \<Rightarrow> tptr expr list \<Rightarrow> bool"
  and ph_in :: "tstore \<Rightarrow> tptr \<Rightarrow> tptr set \<Rightarrow> tptr expr \<Rightarrow> bool" for st where
  tree_in: "\<lbrakk>templates st a = Some t; grar_holds (sch t) (map Some (c # cs)); grar_holds (phs t) (map Some ps);
     holds_values t vs; length cs = length es; phs_in st ps F es; a \<notin> F\<rbrakk> \<Longrightarrow> tree_in st a (insert a F) (Ast c es cs)"
| phs_in_Nil: "phs_in st [] {} []"
| phs_in_Cons: "\<lbrakk>ph_in st p F e; phs_in st ps G es; F \<inter> G = {}\<rbrakk> \<Longrightarrow> phs_in st (p # ps) (F \<union> G) (e # es)"
| ph_in_Ref: "\<lbrakk>placeholders st p = Some q; ph_type q = (if s = None then MPH_PLAIN else MPH_JOIN); sep q = s;
     \<not> is_concat q; tpl q = Some r\<rbrakk> \<Longrightarrow> ph_in st p {p} (Ref r s)"
| ph_in_Cond: "\<lbrakk>placeholders st p = Some q; ph_type q = MPH_COND; is_concat q = cat; tpl_cond q = Some r;
     tpl q = Some m; templates st m = Some tm; holds_values tm vs;
     tpl_then q = Some a; tree_in st a F th; tpl_else q = Some b; tree_in st b G el;
     m \<notin> F \<union> G; F \<inter> G = {}; p \<noteq> m; p \<notin> F \<union> G\<rbrakk> \<Longrightarrow> ph_in st p ({p, m} \<union> F \<union> G) (Cond cat r th el)"

inductive_cases tree_inE: "tree_in st a F (Ast c es cs)"
inductive_cases phs_in_NilE: "phs_in st ps F []"
inductive_cases phs_in_ConsE: "phs_in st ps F (e # es)"
inductive_cases ph_in_RefE: "ph_in st p F (Ref r s)"
inductive_cases ph_in_CondE: "ph_in st p F (Cond cat r th el)"

lemma tree_in_Ast:
  assumes "tree_in st a F (Ast c es cs)"
  obtains F' t ps vs where "F = insert a F'" "templates st a = Some t" "grar_holds (sch t) (map Some (c # cs))"
    "grar_holds (phs t) (map Some ps)" "length cs = length es" "phs_in st ps F' es" "a \<notin> F'" "holds_values t vs"
  using assms by (rule tree_inE) (rule that, simp_all)

text \<open>Two stores that agree on the addresses of a tree.\<close>

definition agree :: "tptr set \<Rightarrow> tstore \<Rightarrow> tstore \<Rightarrow> bool" where
  "agree A st st' \<longleftrightarrow> (\<forall>x\<in>A. templates st' x = templates st x \<and> placeholders st' x = placeholders st x)"

lemma agree_mono: "agree A st st' \<Longrightarrow> B \<subseteq> A \<Longrightarrow> agree B st st'"
  by (auto simp: agree_def)

lemma agree_trans: "agree A st st1 \<Longrightarrow> agree A st1 st2 \<Longrightarrow> agree A st st2"
  by (simp add: agree_def)

lemma tree_in_agree:
  "tree_in st a F t \<Longrightarrow> agree F st st' \<Longrightarrow> tree_in st' a F t"
  "phs_in st ps F es \<Longrightarrow> agree F st st' \<Longrightarrow> phs_in st' ps F es"
  "ph_in st p F e \<Longrightarrow> agree F st st' \<Longrightarrow> ph_in st' p F e"
proof (induction rule: tree_in_phs_in_ph_in.inducts)
  case (tree_in a t c cs ps vs es F)
  have "templates st' a = Some t" using tree_in by (simp add: agree_def)
  moreover have "phs_in st' ps F es" using tree_in.IH tree_in.prems agree_mono by blast
  ultimately show ?case using tree_in.hyps by (intro tree_in_phs_in_ph_in.tree_in)
next
  case phs_in_Nil
  show ?case by (rule tree_in_phs_in_ph_in.phs_in_Nil)
next
  case (phs_in_Cons p F e ps G es)
  then show ?case by (intro tree_in_phs_in_ph_in.phs_in_Cons) (auto intro: agree_mono)
next
  case (ph_in_Ref p q s r)
  then show ?case by (intro tree_in_phs_in_ph_in.ph_in_Ref) (auto simp: agree_def)
next
  case (ph_in_Cond p q cat r m tm vs a F th b G el)
  have "placeholders st' p = Some q" "templates st' m = Some tm"
    using ph_in_Cond by (simp_all add: agree_def)
  moreover have "tree_in st' a F th" "tree_in st' b G el"
    using ph_in_Cond.IH ph_in_Cond.prems agree_mono [of "{p, m} \<union> F \<union> G"] by blast+
  ultimately show ?case using ph_in_Cond.hyps by (intro tree_in_phs_in_ph_in.ph_in_Cond)
qed

lemma tree_in_root: "tree_in st a F t \<Longrightarrow> a \<in> F"
  by (erule tree_in.cases) auto

end
