(* ===== verification/Mist_Evaluate_Spec.thy ===== *)
theory Mist_Evaluate_Spec
  imports Mist_Syntax
begin

text \<open>
  Evaluating templates computes what they denote.  A group has members, templates with a tree or
  attributes, which are laid out in disjoint sets of addresses.
\<close>

record tgroup =
  foot :: "tptr \<Rightarrow> tptr set"
  tree_of :: "tptr \<Rightarrow> tptr ast option"
  env :: "tptr \<Rightarrow> char list list"

definition evaluated :: "tstore \<Rightarrow> tptr \<Rightarrow> char list list \<Rightarrow> bool" where
  "evaluated st a vs \<longleftrightarrow> (\<exists>t. templates st a = Some t \<and> is_evaluated t \<and> holds_values t vs)"

definition ready :: "tgroup \<Rightarrow> tstore \<Rightarrow> tptr \<Rightarrow> bool" where
  "ready G st b \<longleftrightarrow>
     (case tree_of G b of
        None \<Rightarrow> foot G b = {b} \<and>
          (\<exists>t vs. templates st b = Some t \<and> gsize (sch t) = 0 \<and> gsize (phs t) = 0 \<and> holds_values t vs \<and>
             (if is_evaluated t then vs = env G b else (if vs = [] then [[]] else vs) = env G b))
      | Some t \<Rightarrow> tree_in st b (foot G b) t \<and>
          (\<forall>x. templates st b = Some x \<longrightarrow> is_evaluated x \<longrightarrow> holds_values x (env G b)))"

definition region :: "tgroup \<Rightarrow> tptr set \<Rightarrow> tptr set" where
  "region G B = \<Union> (foot G ` B)"

definition group_ready :: "tgroup \<Rightarrow> tptr set \<Rightarrow> tstore \<Rightarrow> bool" where
  "group_ready G B st \<longleftrightarrow> (\<forall>b\<in>B. ready G st b)"

definition keeps :: "tgroup \<Rightarrow> tptr set \<Rightarrow> tstore \<Rightarrow> tstore \<Rightarrow> bool" where
  "keeps G B st st' \<longleftrightarrow> (\<forall>b\<in>B. evaluated st b (env G b) \<longrightarrow> evaluated st' b (env G b))"

definition changes :: "tptr set \<Rightarrow> tstore \<Rightarrow> tstore \<Rightarrow> bool" where
  "changes A st st' \<longleftrightarrow> (\<forall>x. x \<notin> A \<longrightarrow> templates st' x = templates st x) \<and> placeholders st' = placeholders st"

text \<open>What one call may do to the store while the group stays usable.\<close>

definition progress :: "tgroup \<Rightarrow> tptr set \<Rightarrow> tptr set \<Rightarrow> tstore \<Rightarrow> tstore \<Rightarrow> bool" where
  "progress G B F st st' \<longleftrightarrow> changes (F \<union> region G B) st st' \<and> group_ready G B st' \<and> keeps G B st st'"

text \<open>The result of an operation: success with a property, or a lack of memory.\<close>

definition returns :: "mheap \<Rightarrow> (EMistErrorCode \<times> tstore \<times> mheap) option \<Rightarrow> (tstore \<Rightarrow> bool) \<Rightarrow> bool" where
  "returns h r P \<longleftrightarrow>
     (\<exists>ec st' h'. r = Some (ec, st', h') \<and> uses h h' \<and> (ec = MIST_OK \<and> P st' \<or> ec = MIST_OUT_OF_MEMORY \<and> ran_out h h'))"

lemma returns_weaken: "returns h r P \<Longrightarrow> (\<And>st'. P st' \<Longrightarrow> Q st') \<Longrightarrow> returns h r Q"
  by (auto simp: returns_def)

lemma returns_OK: "uses h h' \<Longrightarrow> P st' \<Longrightarrow> returns h (Some (MIST_OK, st', h')) P"
  by (simp add: returns_def)

lemma returns_later: "uses h h1 \<Longrightarrow> returns h1 r P \<Longrightarrow> returns h r P"
  unfolding returns_def using uses_trans ran_out_before by blast

lemma returns_bind:
  assumes "returns h r P"
    and "\<And>st' h'. P st' \<Longrightarrow> uses h h' \<Longrightarrow> returns h' (f st' h') Q"
  shows "returns h (do { (ec, st', h') \<leftarrow> r; if ec \<noteq> MIST_OK then Some (ec, st', h') else f st' h' }) Q"
proof -
  from assms(1) obtain ec st' h' where r: "r = Some (ec, st', h')" "uses h h'"
    "ec = MIST_OK \<and> P st' \<or> ec = MIST_OUT_OF_MEMORY \<and> ran_out h h'" unfolding returns_def by blast
  show ?thesis
  proof (cases "ec = MIST_OK")
    case True
    with r(3) have "P st'" by auto
    from returns_later [OF r(2) assms(2) [OF this r(2)]] show ?thesis using r(1) True by simp
  next
    case False
    then show ?thesis using r by (auto simp: returns_def)
  qed
qed

subsection \<open>Changes\<close>

lemma changes_refl [simp]: "changes A st st"
  by (simp add: changes_def)

lemma changes_trans: "changes A st st1 \<Longrightarrow> changes A st1 st2 \<Longrightarrow> changes A st st2"
  by (simp add: changes_def)

lemma changes_mono: "changes A st st' \<Longrightarrow> A \<subseteq> B \<Longrightarrow> changes B st st'"
  by (auto simp: changes_def)

lemma changes_put: "a \<in> A \<Longrightarrow> changes A st (put_template a t st)"
  by (auto simp: changes_def put_template_def)

lemma changes_agree: "changes A st st' \<Longrightarrow> A \<inter> C = {} \<Longrightarrow> agree C st st'"
  by (auto simp: changes_def agree_def)

lemma agree_evaluated: "agree A st st' \<Longrightarrow> a \<in> A \<Longrightarrow> evaluated st a vs \<Longrightarrow> evaluated st' a vs"
  by (simp add: agree_def evaluated_def)

lemma templates_put [simp]: "templates (put_template a t st) b = (if b = a then Some t else templates st b)"
  "placeholders (put_template a t st) = placeholders st"
  by (simp_all add: put_template_def)

lemma foot_member: "ready G st b \<Longrightarrow> b \<in> foot G b"
  by (auto simp: ready_def tree_in_root split: option.splits)

lemma ready_agree: "ready G st b \<Longrightarrow> agree (foot G b) st st' \<Longrightarrow> ready G st' b"
proof -
  assume r: "ready G st b" and a: "agree (foot G b) st st'"
  have t: "templates st' b = templates st b" using foot_member [OF r] a by (simp add: agree_def)
  show ?thesis
  proof (cases "tree_of G b")
    case None
    then show ?thesis using r unfolding ready_def t by simp
  next
    case (Some x)
    then have "tree_in st' b (foot G b) x" using r by (intro tree_in_agree(1) [OF _ a]) (simp add: ready_def)
    then show ?thesis using r Some unfolding ready_def t by simp
  qed
qed

lemma group_ready_changes:
  assumes "group_ready G B st" and "changes A st st'" and "A \<inter> region G B = {}"
  shows "group_ready G B st'" and "keeps G B st st'"
proof -
  have a: "agree (foot G b) st st'" if "b \<in> B" for b
    using changes_agree [OF assms(2), of "foot G b"] assms(3) that by (auto simp: region_def)
  show "group_ready G B st'" using assms(1) ready_agree [OF _ a] by (simp add: group_ready_def)
  show "keeps G B st st'"
    using assms(1) agree_evaluated [OF a foot_member] by (auto simp: keeps_def group_ready_def)
qed

lemma progress_changes:
  "group_ready G B st \<Longrightarrow> changes F st st' \<Longrightarrow> F \<inter> region G B = {} \<Longrightarrow> progress G B F st st'"
  using group_ready_changes [of G B st F st'] changes_mono [of F st st'] by (auto simp: progress_def)

lemma progress_refl: "group_ready G B st \<Longrightarrow> progress G B F st st"
  by (simp add: progress_def keeps_def)

lemma progress_trans: "progress G B F st st1 \<Longrightarrow> progress G B F st1 st2 \<Longrightarrow> progress G B F st st2"
  using changes_trans by (auto simp: progress_def keeps_def)

lemma progress_mono: "progress G B F st st' \<Longrightarrow> F \<subseteq> F' \<Longrightarrow> progress G B F' st st'"
  using changes_mono [of "F \<union> region G B" st st' "F' \<union> region G B"] by (auto simp: progress_def)

lemma progress_agree: "progress G B F st st' \<Longrightarrow> C \<inter> (F \<union> region G B) = {} \<Longrightarrow> agree C st st'"
  using changes_agree by (auto simp: progress_def Int_commute)

subsection \<open>Small steps\<close>

lemma clear_values_ok:
  assumes "templates st a = Some t" and "holds_values t vs"
  shows "\<exists>g h'. mist_template_clear_values a st h = Some (put_template a (t\<lparr>vals := g, is_evaluated := False\<rparr>) st, h') \<and>
           grar_holds g [] \<and> uses h h'"
proof -
  from destroy_elems_some [of vs h] obtain h' where
    h': "destroy_elems free_elem (map Some vs) h = Some h'" "uses h h'" by blast
  from assms(2) have g: "grar_holds (vals t) (map Some vs)" by (simp add: holds_values_def)
  from grar_clear_ok [OF g] obtain g' where "grar_clear (vals t) = Some g'" "grar_holds g' []" by blast
  then show ?thesis using assms(1) h' elements [OF g] by (auto simp: mist_template_clear_values_def)
qed

lemma tree_in_put:
  assumes "tree_in st a F t" and "templates st a = Some x" and "holds_values y vs" and "sch y = sch x" and "phs y = phs x"
  shows "tree_in (put_template a y st) a F t"
proof -
  obtain c es cs where t: "t = Ast c es cs" by (cases t) auto
  from assms(1) [unfolded t] obtain x' ps F' where X: "F = insert a F'" "templates st a = Some x'"
    "grar_holds (sch x') (map Some (c # cs))" "grar_holds (phs x') (map Some ps)" "length cs = length es"
    "phs_in st ps F' es" "a \<notin> F'" by (rule tree_in_Ast)
  have "agree F' st (put_template a y st)" using X(7) by (auto simp: agree_def)
  from tree_in_agree(2) [OF X(6) this] show ?thesis
    unfolding t X(1) using X assms(2-) by (intro tree_in_phs_in_ph_in.tree_in [where vs = vs and ps = ps]) auto
qed

subsection \<open>Values\<close>

definition values_at :: "tstore \<Rightarrow> tptr \<Rightarrow> char list list \<Rightarrow> bool" where
  "values_at st a vs \<longleftrightarrow> (\<exists>t. templates st a = Some t \<and> holds_values t vs)"

lemma evaluated_values: "evaluated st a vs \<Longrightarrow> values_at st a vs"
  by (auto simp: evaluated_def values_at_def)

lemma value_at_ok: "values_at st a vs \<Longrightarrow> i < length vs \<Longrightarrow> value_at a i st = Some (vs ! i)"
proof -
  assume v: "values_at st a vs" and i: "i < length vs"
  then obtain t where t: "templates st a = Some t" "grar_holds (vals t) (map Some vs)"
    by (auto simp: values_at_def holds_values_def)
  then show ?thesis using get_element [OF t(2), of i] i by (simp add: value_at_def)
qed

lemma condition_at_ok: "values_at st a cs \<Longrightarrow> i < length cs \<Longrightarrow> condition_at a i st = Some (cs ! i \<noteq> [])"
  by (simp add: condition_at_def value_at_ok)

lemma some_condition_ok:
  "values_at st a cs \<Longrightarrow> i + n = length cs \<Longrightarrow> some_condition a i n st = Some (list_ex (\<lambda>c. c \<noteq> []) (drop i cs))"
proof (induction n arbitrary: i)
  case (Suc n)
  then have "i < length cs" by simp
  then show ?case using Suc condition_at_ok [OF Suc.prems(1), of i] by (auto simp: Cons_nth_drop_Suc [symmetric])
qed simp

text \<open>A template got other values.\<close>

definition with_values :: "tptr \<Rightarrow> CMistTemplate \<Rightarrow> char list list \<Rightarrow> tstore \<Rightarrow> tstore \<Rightarrow> bool" where
  "with_values mt t vs st st' \<longleftrightarrow> (\<exists>g. st' = put_template mt (t\<lparr>vals := g\<rparr>) st \<and> grar_holds g (map Some vs))"

lemma put_put [simp]: "put_template a t (put_template a t' st) = put_template a t st"
  by (simp add: put_template_def)

lemma put_same: "templates st a = Some t \<Longrightarrow> put_template a t st = st"
  by (simp add: put_template_def fun_upd_idem)

lemma with_values_other:
  assumes "with_values mt t vs st st'"
  shows "x \<noteq> mt \<Longrightarrow> values_at st x xs \<Longrightarrow> values_at st' x xs" "x \<noteq> mt \<Longrightarrow> evaluated st x xs \<Longrightarrow> evaluated st' x xs"
  using assms by (auto simp: with_values_def values_at_def evaluated_def)

lemma add_copy_ok:
  assumes "with_values mt t vs st0 st" and "length vs < 2 ^ 60"
  shows "\<exists>ok st' h'. add_copy mt v st h = Some (ok, st', h') \<and> uses h h' \<and>
           (ok \<and> with_values mt t (vs @ [v]) st0 st' \<or> \<not> ok \<and> ran_out h h')"
proof -
  obtain g where g: "st = put_template mt (t\<lparr>vals := g\<rparr>) st0" "grar_holds g (map Some vs)"
    using assms(1) by (auto simp: with_values_def)
  show ?thesis
  proof (cases rule: malloc_cases [of h])
    case (1 h1)
    then show ?thesis using ran_out_uses [OF 1(3)] by (auto simp: add_copy_def)
  next
    case M: (2 h1)
    have n: "length (map Some vs) < 2 ^ 60" using assms(2) by simp
    show ?thesis
    proof (cases rule: grar_add_cases [OF g(2) n, of "Some v" h1])
      case (1 h2)
      then show ?thesis using M g ran_out_before [OF M(3) 1(3)] ran_out_uses by (auto simp: add_copy_def)
    next
      case (2 g' h2)
      then show ?thesis using M g uses_trans [OF M(3) 2(4)] by (auto simp: add_copy_def with_values_def)
    qed
  qed
qed

lemma copy_branch_ok:
  assumes "with_values mt t vs st0 st" and "values_at st0 b bs" and "b \<noteq> mt" and "i + n = length bs"
    and "length vs + n < 2 ^ 60"
  shows "returns h (copy_branch mt b i n st h) (with_values mt t (vs @ drop i bs) st0)"
  using assms
proof (induction n arbitrary: i vs st h)
  case (Suc n)
  have i: "i < length bs" "length vs < 2 ^ 60" using Suc.prems(4,5) by simp_all
  have v: "value_at b i st = Some (bs ! i)"
    by (rule value_at_ok [OF with_values_other(1) [OF Suc.prems(1,3,2)] i(1)])
  from add_copy_ok [OF Suc.prems(1) i(2), of "bs ! i" h] obtain ok st' h' where
    a: "add_copy mt (bs ! i) st h = Some (ok, st', h')" "uses h h'"
      "ok \<and> with_values mt t (vs @ [bs ! i]) st0 st' \<or> \<not> ok \<and> ran_out h h'" by blast
  show ?case
  proof (cases ok)
    case True
    with a(3) have "with_values mt t (vs @ [bs ! i]) st0 st'" by simp
    from Suc.IH [OF this Suc.prems(2,3), of "Suc i" h'] Suc.prems(4,5)
    have "returns h' (copy_branch mt b (Suc i) n st' h') (with_values mt t (vs @ drop i bs) st0)"
      using Cons_nth_drop_Suc [OF i(1)] by simp
    from returns_later [OF a(2) this] show ?thesis using v a(1) True by simp
  next
    case False
    then show ?thesis using v a by (simp add: returns_def)
  qed
qed (simp add: returns_def)

lemma select_values_ok:
  assumes "with_values mt t vs st0 st" and "values_at st0 cnd cs" and "cnd \<noteq> mt" and "cs \<noteq> []"
    and br: "\<And>c. c \<in> set cs \<Longrightarrow> \<exists>x. branch_of p (c \<noteq> []) = Some x \<and> x \<noteq> mt \<and>
           evaluated st0 x (chosen th el c) \<and> chosen th el c \<noteq> []"
    and "length vs + n < 2 ^ 60" and "c = min i (length cs - 1)" and "cexpr = (cs ! c \<noteq> [])"
  shows "returns h (select_values mt p cnd (length cs) c cexpr i n st h)
           (with_values mt t (vs @ map (\<lambda>i. value_of (chosen th el (value_of cs i)) i) [i..<i + n]) st0)"
  using assms
proof (induction n arbitrary: i c cexpr vs st h)
  case (Suc n)
  let ?v = "\<lambda>i. value_of (chosen th el (value_of cs i)) i"
  have c: "c < length cs" "value_of cs i = cs ! c"
    using Suc.prems(4,7) by (cases cs; simp add: value_of_def less_Suc_eq_le)+
  from Suc.prems(5) [OF nth_mem [OF c(1)]] obtain x where
    x: "branch_of p cexpr = Some x" "x \<noteq> mt" "evaluated st0 x (chosen th el (cs ! c))" "chosen th el (cs ! c) \<noteq> []"
    unfolding Suc.prems(8) by blast
  let ?b = "chosen th el (cs ! c)"
  have ev: "evaluated st x ?b" by (rule with_values_other(2) [OF Suc.prems(1) x(2,3)])
  then obtain tx where tx: "templates st x = Some tx" "is_evaluated tx" "holds_values tx ?b"
    by (auto simp: evaluated_def)
  have sz: "gsize (vals tx) = length ?b" using grar_holds_bounds [of "vals tx"] tx(3) by (auto simp: holds_values_def)
  let ?j = "if i < length ?b then i else length ?b - 1"
  have j: "?j < length ?b" "?j = min i (length ?b - 1)" using x(4) by (auto simp: min_def)
  have v: "value_at x ?j st = Some (?v i)"
    using value_at_ok [OF evaluated_values [OF ev] j(1)] j(2) by (simp add: value_of_def [of ?b] c(2))
  have l: "length vs < 2 ^ 60" using Suc.prems(6) by simp
  from add_copy_ok [OF Suc.prems(1) l, of "?v i" h] obtain ok st' h' where
    a: "add_copy mt (?v i) st h = Some (ok, st', h')" "uses h h'"
      "ok \<and> with_values mt t (vs @ [?v i]) st0 st' \<or> \<not> ok \<and> ran_out h h'" by blast
  have cond: "(\<not> is_evaluated tx \<or> length ?b = 0) = False" using tx(2) x(4) by simp
  note S = select_values.simps(2) [of mt p cnd "length cs" c cexpr i n st h]
  have s0: "select_values mt p cnd (length cs) c cexpr i (Suc n) st h =
      (if \<not> ok then Some (MIST_OUT_OF_MEMORY, st', h')
       else if c + 1 < length cs
       then do { cexpr \<leftarrow> condition_at cnd (c + 1) st';
                 select_values mt p cnd (length cs) (c + 1) cexpr (Suc i) n st' h' }
       else select_values mt p cnd (length cs) c cexpr (Suc i) n st' h')"
    unfolding S x(1) tx(1) bind.simps Let_def sz cond if_False v a(1) prod.case ..
  show ?case
  proof (cases ok)
    case False
    then show ?thesis using s0 a by (simp add: returns_def)
  next
    case True
    with a(3) have w: "with_values mt t (vs @ [?v i]) st0 st'" by simp
    define c' where "c' = min (Suc i) (length cs - 1)"
    have l': "length (vs @ [?v i]) + n < 2 ^ 60" using Suc.prems(6) by simp
    note IH = Suc.IH [OF w Suc.prems(2-5) l', of c' "Suc i" "cs ! c' \<noteq> []" h']
    have step: "(if c + 1 < length cs
         then do { cexpr \<leftarrow> condition_at cnd (c + 1) st';
                   select_values mt p cnd (length cs) (c + 1) cexpr (Suc i) n st' h' }
         else select_values mt p cnd (length cs) c cexpr (Suc i) n st' h') =
        select_values mt p cnd (length cs) c' (cs ! c' \<noteq> []) (Suc i) n st' h'"
    proof (cases "c + 1 < length cs")
      case True
      then have "c' = c + 1" using Suc.prems(7) by (auto simp: c'_def min_def split: if_splits)
      then show ?thesis
        using True condition_at_ok [OF with_values_other(1) [OF w Suc.prems(3,2)], of "c + 1"] by simp
    next
      case False
      then have "c' = c" using Suc.prems(7) c(1) by (auto simp: c'_def min_def split: if_splits)
      then show ?thesis using False Suc.prems(8) by simp
    qed
    have "vs @ map ?v [i..<i + Suc n] = (vs @ [?v i]) @ map ?v [Suc i..<Suc i + n]" by (simp add: upt_rec)
    then have "returns h' (select_values mt p cnd (length cs) c' (cs ! c' \<noteq> []) (Suc i) n st' h')
        (with_values mt t (vs @ map ?v [i..<i + Suc n]) st0)" using IH [OF _ c'_def refl] by simp
    from returns_later [OF a(2) this] show ?thesis using s0 step True by simp
  qed
qed (simp add: returns_def)

end
