(* ===== verification/Mist_Evaluate_Tree.thy ===== *)
theory Mist_Evaluate_Tree
  imports Mist_Evaluate_Spec
begin

text \<open>
  Evaluating a tree of templates, for an evaluator ev that evaluates the members B of the group
  and the trees below.
\<close>

definition evaluates :: "tgroup \<Rightarrow> tptr set \<Rightarrow> evaluator \<Rightarrow> bool" where
  "evaluates G B ev \<longleftrightarrow>
     (\<forall>b\<in>B. \<forall>st h. group_ready G B st \<longrightarrow>
        returns h (ev b st h) (\<lambda>st'. progress G B {} st st' \<and> evaluated st' b (env G b)))"

definition fresh_values :: "tstore \<Rightarrow> tptr \<Rightarrow> char list list \<Rightarrow> bool" where
  "fresh_values st a vs \<longleftrightarrow> (\<forall>x. templates st a = Some x \<longrightarrow> is_evaluated x \<longrightarrow> holds_values x vs)"

definition tree_evaluates :: "tgroup \<Rightarrow> tptr set \<Rightarrow> evaluator \<Rightarrow> tptr ast \<Rightarrow> bool" where
  "tree_evaluates G B ev t \<longleftrightarrow>
     (\<forall>st h a F. tree_in st a F t \<longrightarrow> F \<inter> region G B = {} \<longrightarrow> group_ready G B st \<longrightarrow>
        fresh_values st a (denote (env G) t) \<longrightarrow>
        returns h (ev a st h)
          (\<lambda>st'. progress G B F st st' \<and> tree_in st' a F t \<and> evaluated st' a (denote (env G) t)))"

definition ph_evaluates :: "tgroup \<Rightarrow> tptr set \<Rightarrow> evaluator \<Rightarrow> tptr expr \<Rightarrow> bool" where
  "ph_evaluates G B ev e \<longleftrightarrow>
     (\<forall>st h p F. ph_in st p F e \<longrightarrow> F \<inter> region G B = {} \<longrightarrow> group_ready G B st \<longrightarrow>
        returns h (mist_placeholder_evaluate ev p st h)
          (\<lambda>st'. progress G B F st st' \<and> ph_in st' p F e \<and> part_of st' p (denote_part (env G) e)))"

definition group_ok :: "tgroup \<Rightarrow> tptr set \<Rightarrow> bool" where
  "group_ok G B \<longleftrightarrow>
     (\<forall>b\<in>B. env G b \<noteq> [] \<and> length (env G b) < 2 ^ 60 \<and> (\<forall>v\<in>set (env G b). NUL \<notin> set v)) \<and>
     (\<forall>b\<in>B. \<forall>c\<in>B. b \<noteq> c \<longrightarrow> foot G b \<inter> foot G c = {})"

lemma evaluated_unique: "evaluated st a vs \<Longrightarrow> fresh_values st a ws' \<Longrightarrow> vs = ws'"
  using grar_holds_eq by (fastforce simp: evaluated_def fresh_values_def holds_values_def)

lemma evaluated_fresh: "evaluated st a vs \<Longrightarrow> fresh_values st a vs"
  by (auto simp: evaluated_def fresh_values_def)

lemma agree_fresh: "agree A st st' \<Longrightarrow> a \<in> A \<Longrightarrow> fresh_values st a vs \<Longrightarrow> fresh_values st' a vs"
  by (simp add: agree_def fresh_values_def)

lemma not_evaluated_fresh: "templates st a = Some x \<Longrightarrow> \<not> is_evaluated x \<Longrightarrow> fresh_values st a vs"
  by (simp add: fresh_values_def)

subsection \<open>References\<close>

lemma ref_evaluates:
  assumes "evaluates G B ev" and "group_ok G B" and "r \<in> B" and "case s of None \<Rightarrow> True | Some s \<Rightarrow> NUL \<notin> set s"
  shows "ph_evaluates G B ev (Ref r s)"
  unfolding ph_evaluates_def
proof (intro allI impI)
  fix st h p F
  assume p: "ph_in st p F (Ref r s)" and d: "F \<inter> region G B = {}" and g: "group_ready G B st"
  from p obtain q where q: "placeholders st p = Some q" "ph_type q = (if s = None then MPH_PLAIN else MPH_JOIN)"
    "sep q = s" "\<not> is_concat q" "tpl q = Some r" and F: "F = {p}" by (rule ph_in_RefE) auto
  have e: "mist_placeholder_evaluate ev p st h = ev r st h" using q by (simp add: mist_placeholder_evaluate_def)
  have "returns h (ev r st h) (\<lambda>st'. progress G B {} st st' \<and> evaluated st' r (env G r))"
    using assms(1,3) g by (simp add: evaluates_def)
  then show "returns h (mist_placeholder_evaluate ev p st h)
      (\<lambda>st'. progress G B F st st' \<and> ph_in st' p F (Ref r s) \<and> part_of st' p (denote_part (env G) (Ref r s)))"
    unfolding e
  proof (rule returns_weaken, elim conjE)
    fix st' assume pr: "progress G B {} st st'" and ev: "evaluated st' r (env G r)"
    have q': "placeholders st' p = Some q" using pr q(1) by (simp add: progress_def changes_def)
    have "ph_in st' p F (Ref r s)" unfolding F using q q' by (intro tree_in_phs_in_ph_in.ph_in_Ref)
    moreover have "part_of st' p (denote_part (env G) (Ref r s))"
    proof -
      from ev obtain t where "templates st' r = Some t" "is_evaluated t" "grar_holds (vals t) (map Some (env G r))"
        by (auto simp: evaluated_def holds_values_def)
      moreover have "\<forall>v\<in>set (env G r). NUL \<notin> set v" using assms(2,3) by (simp add: group_ok_def)
      ultimately show ?thesis using q q' assms(4) by (cases s) (auto simp: part_of_def)
    qed
    ultimately show "progress G B F st st' \<and> ph_in st' p F (Ref r s) \<and> part_of st' p (denote_part (env G) (Ref r s))"
      using progress_mono [OF pr, of F] by simp
  qed
qed

subsection \<open>Branches\<close>

definition branches ::
  "tgroup \<Rightarrow> tptr set \<Rightarrow> tptr \<times> tptr set \<times> tptr ast \<Rightarrow> tptr \<times> tptr set \<times> tptr ast \<Rightarrow> tstore \<Rightarrow> bool" where
  "branches G B x y st \<longleftrightarrow>
     group_ready G B st \<and>
     (case x of (a, F, t) \<Rightarrow> tree_in st a F t \<and> fresh_values st a (denote (env G) t)) \<and>
     (case y of (a, F, t) \<Rightarrow> tree_in st a F t \<and> fresh_values st a (denote (env G) t))"

lemma branch_evaluates:
  assumes "tree_evaluates G B ev t" and "branches G B (a, F, t) (b, H, u) st"
    and "F \<inter> region G B = {}" and "H \<inter> region G B = {}" and "F \<inter> H = {}"
  shows "returns h (ev a st h) (\<lambda>st'. progress G B (F \<union> H) st st' \<and> branches G B (a, F, t) (b, H, u) st' \<and>
           evaluated st' a (denote (env G) t) \<and> agree H st st')"
proof -
  have X: "tree_in st a F t" "fresh_values st a (denote (env G) t)" "tree_in st b H u"
    "fresh_values st b (denote (env G) u)" "group_ready G B st" using assms(2) by (auto simp: branches_def)
  have "returns h (ev a st h) (\<lambda>st'. progress G B F st st' \<and> tree_in st' a F t \<and> evaluated st' a (denote (env G) t))"
    using assms(1,3) X by (simp add: tree_evaluates_def)
  then show ?thesis
  proof (rule returns_weaken, elim conjE)
    fix st' assume p: "progress G B F st st'" and t: "tree_in st' a F t" "evaluated st' a (denote (env G) t)"
    have H: "agree H st st'" by (rule progress_agree [OF p]) (use assms(4,5) in blast)
    have "branches G B (a, F, t) (b, H, u) st'"
      using p t evaluated_fresh [OF t(2)] tree_in_agree(1) [OF X(3) H] agree_fresh [OF H tree_in_root [OF X(3)] X(4)]
      by (simp add: branches_def progress_def)
    then show "progress G B (F \<union> H) st st' \<and> branches G B (a, F, t) (b, H, u) st' \<and>
        evaluated st' a (denote (env G) t) \<and> agree H st st'"
      using t H progress_mono [OF p, of "F \<union> H"] by simp
  qed
qed

lemma branches_swap: "branches G B x y st = branches G B y x st"
  by (auto simp: branches_def)

text \<open>Either of the two, chosen by a condition; what was evaluated stays so.\<close>

lemma chosen_branch_evaluates:
  assumes t: "tree_evaluates G B ev th" "tree_evaluates G B ev el" and b: "branches G B (a, F, th) (b, H, el) st"
    and d: "F \<inter> region G B = {}" "H \<inter> region G B = {}" "F \<inter> H = {}"
  shows "returns h (ev (if c then a else b) st h)
    (\<lambda>st'. progress G B (F \<union> H) st st' \<and> branches G B (a, F, th) (b, H, el) st' \<and>
       evaluated st' (if c then a else b) (if c then denote (env G) th else denote (env G) el) \<and>
       (evaluated st a (denote (env G) th) \<longrightarrow> evaluated st' a (denote (env G) th)) \<and>
       (evaluated st b (denote (env G) el) \<longrightarrow> evaluated st' b (denote (env G) el)))"
proof (cases c)
  case True
  have "b \<in> H" using b tree_in_root [of st b H el] by (auto simp: branches_def)
  then have "returns h (ev a st h)
    (\<lambda>st'. progress G B (F \<union> H) st st' \<and> branches G B (a, F, th) (b, H, el) st' \<and>
       evaluated st' a (denote (env G) th) \<and>
       (evaluated st b (denote (env G) el) \<longrightarrow> evaluated st' b (denote (env G) el)))"
    by (intro returns_weaken [OF branch_evaluates [OF t(1) b d]]) (auto intro: agree_evaluated)
  then show ?thesis using True by (auto elim!: returns_weaken)
next
  case False
  have "a \<in> F" using b tree_in_root [of st a F th] by (auto simp: branches_def)
  moreover have b': "branches G B (b, H, el) (a, F, th) st" using b branches_swap by blast
  have d': "H \<inter> F = {}" using d(3) by blast
  ultimately have "returns h (ev b st h)
    (\<lambda>st'. progress G B (F \<union> H) st st' \<and> branches G B (a, F, th) (b, H, el) st' \<and>
       evaluated st' b (denote (env G) el) \<and>
       (evaluated st a (denote (env G) th) \<longrightarrow> evaluated st' a (denote (env G) th)))"
    by (intro returns_weaken [OF branch_evaluates [OF t(2) b' d(2,1) d']])
      (auto intro: agree_evaluated simp: branches_swap [of G B "(a, F, th)"] Un_commute)
  then show ?thesis using False by (auto elim!: returns_weaken)
qed

lemma returnsE:
  assumes "returns h r P"
  obtains st' h' where "r = Some (MIST_OK, st', h')" "uses h h'" "P st'"
  | st' h' where "r = Some (MIST_OUT_OF_MEMORY, st', h')" "ran_out h h'"
  using assms by (auto simp: returns_def)

lemma chosen_if: "chosen th el c = (if c \<noteq> [] then th else el)"
  by (simp add: chosen_def)

lemma evaluate_branches_ok:
  assumes t: "tree_evaluates G B ev th" "tree_evaluates G B ev el"
    and d: "F \<inter> region G B = {}" "H \<inter> region G B = {}" "F \<inter> H = {}"
    and p: "tpl_then p = Some a" "tpl_else p = Some b" and r: "r \<in> B"
  defines "T \<equiv> denote (env G) th" and "E \<equiv> denote (env G) el" and "cs \<equiv> env G r"
  shows "\<lbrakk>branches G B (a, F, th) (b, H, el) st; evaluated st r cs; i + k = length cs\<rbrakk> \<Longrightarrow>
    \<exists>ec N' st' h'. evaluate_branches ev p r i k N st h = Some (ec, N', st', h') \<and> uses h h' \<and>
      (ec = MIST_OK \<and> N' = fold (\<lambda>c n. max n (length (chosen T E c))) (drop i cs) N \<and>
         progress G B (F \<union> H) st st' \<and> branches G B (a, F, th) (b, H, el) st' \<and> evaluated st' r cs \<and>
         (\<forall>c\<in>set (drop i cs). evaluated st' (if c \<noteq> [] then a else b) (chosen T E c)) \<and>
         (evaluated st a T \<longrightarrow> evaluated st' a T) \<and> (evaluated st b E \<longrightarrow> evaluated st' b E) \<or>
       ec = MIST_OUT_OF_MEMORY \<and> ran_out h h')"
proof (induction k arbitrary: i N st h)
  case 0
  then show ?case using progress_refl [of G B st "F \<union> H"] by (simp add: branches_def)
next
  case (Suc k)
  let ?c = "cs ! i"
  have i: "i < length cs" "drop i cs = ?c # drop (Suc i) cs" using Suc.prems(3) Cons_nth_drop_Suc [of i cs] by simp_all
  have cnd: "condition_at r i st = Some (?c \<noteq> [])"
    by (rule condition_at_ok [OF evaluated_values [OF Suc.prems(2)] i(1)])
  have bo: "branch_of p (?c \<noteq> []) = Some (if ?c \<noteq> [] then a else b)" using p by (simp add: branch_of_def)
  note S = evaluate_branches.simps(2) [of ev p r i k N st h, unfolded cnd bind.simps bo]
  from chosen_branch_evaluates [OF t Suc.prems(1) d, of h "?c \<noteq> []", folded T_def E_def, folded chosen_if]
  show ?case
  proof (cases rule: returnsE)
    case (2 st1 h1)
    then show ?thesis using ran_out_uses [OF 2(2)] unfolding S by simp
  next
    case (1 st1 h1)
    then have st1: "progress G B (F \<union> H) st st1" "branches G B (a, F, th) (b, H, el) st1"
      "evaluated st1 (if ?c \<noteq> [] then a else b) (chosen T E ?c)"
      "evaluated st a T \<longrightarrow> evaluated st1 a T" "evaluated st b E \<longrightarrow> evaluated st1 b E" by simp_all
    have r1: "evaluated st1 r cs" using st1(1) Suc.prems(2) r by (simp add: progress_def keeps_def cs_def)
    obtain tb where tb: "templates st1 (if ?c \<noteq> [] then a else b) = Some tb" "holds_values tb (chosen T E ?c)"
      using st1(3) unfolding evaluated_def by blast
    have sz: "gsize (vals tb) = length (chosen T E ?c)"
      using grar_holds_bounds [of "vals tb"] tb(2) by (auto simp: holds_values_def)
    define N1 where "N1 = max N (length (chosen T E ?c))"
    have n1: "(if length (chosen T E ?c) > N then length (chosen T E ?c) else N) = N1" by (simp add: N1_def)
    have ik: "Suc i + k = length cs" using Suc.prems(3) by simp
    from Suc.IH [OF st1(2) r1 ik, of N1 h1] obtain ec N' st' h' where
      R: "evaluate_branches ev p r (Suc i) k N1 st1 h1 = Some (ec, N', st', h')" "uses h1 h'"
        "ec = MIST_OK \<and> N' = fold (\<lambda>c n. max n (length (chosen T E c))) (drop (Suc i) cs) N1 \<and>
           progress G B (F \<union> H) st1 st' \<and> branches G B (a, F, th) (b, H, el) st' \<and> evaluated st' r cs \<and>
           (\<forall>c\<in>set (drop (Suc i) cs). evaluated st' (if c \<noteq> [] then a else b) (chosen T E c)) \<and>
           (evaluated st1 a T \<longrightarrow> evaluated st' a T) \<and> (evaluated st1 b E \<longrightarrow> evaluated st' b E) \<or>
         ec = MIST_OUT_OF_MEMORY \<and> ran_out h1 h'" by blast
    have eq: "evaluate_branches ev p r i (Suc k) N st h = Some (ec, N', st', h')"
      by (simp only: S 1(1) bind.simps prod.case simp_thms if_False tb(1) Let_def sz n1 R(1))
    have keep: "evaluated st' (if ?c \<noteq> [] then a else b) (chosen T E ?c)"
      if "(evaluated st1 a T \<longrightarrow> evaluated st' a T)" "(evaluated st1 b E \<longrightarrow> evaluated st' b E)"
      using st1(3) that by (simp add: chosen_if split: if_splits)
    from R(3) show ?thesis
    proof (elim disjE conjE)
      assume ok: "ec = MIST_OK" "N' = fold (\<lambda>c n. max n (length (chosen T E c))) (drop (Suc i) cs) N1"
        "progress G B (F \<union> H) st1 st'" "branches G B (a, F, th) (b, H, el) st'" "evaluated st' r cs"
        "\<forall>c\<in>set (drop (Suc i) cs). evaluated st' (if c \<noteq> [] then a else b) (chosen T E c)"
        "evaluated st1 a T \<longrightarrow> evaluated st' a T" "evaluated st1 b E \<longrightarrow> evaluated st' b E"
      have "N' = fold (\<lambda>c n. max n (length (chosen T E c))) (drop i cs) N" unfolding i(2) ok(2) N1_def by simp
      moreover have "\<forall>c\<in>set (drop i cs). evaluated st' (if c \<noteq> [] then a else b) (chosen T E c)"
        unfolding i(2) using ok(6) keep [OF ok(7,8)] by simp
      ultimately show ?thesis
        using eq ok(1,3-5,7,8) uses_trans [OF 1(2) R(2)] progress_trans [OF st1(1) ok(3)] st1(4,5) by blast
    next
      assume "ec = MIST_OUT_OF_MEMORY" "ran_out h1 h'"
      then show ?thesis using eq uses_trans [OF 1(2) R(2)] ran_out_before [OF 1(2)] by blast
    qed
  qed
qed

end
