(* ===== verification/Mist_Evaluate_Cond.thy ===== *)
theory Mist_Evaluate_Cond
  imports Mist_Evaluate_Tree
begin

text \<open>
  Evaluating a conditional placeholder, and what is known of the values that templates denote.
\<close>

subsection \<open>The values of a tree\<close>

definition good_values :: "char list list \<Rightarrow> bool" where
  "good_values vs \<longleftrightarrow> vs \<noteq> [] \<and> length vs < 2 ^ 60 \<and> (\<forall>v\<in>set vs. NUL \<notin> set v)"

lemma group_ok_good: "group_ok G B \<Longrightarrow> b \<in> B \<Longrightarrow> good_values (env G b)"
  by (simp add: group_ok_def good_values_def)

lemma chosen_good: "good_values th \<Longrightarrow> good_values el \<Longrightarrow> good_values (chosen th el c)"
  by (simp add: chosen_def)

lemma value_of_good: "good_values vs \<Longrightarrow> NUL \<notin> set (value_of vs i)"
proof -
  assume g: "good_values vs"
  then have "0 < length vs" by (simp add: good_values_def)
  then have "min i (length vs - 1) < length vs" by linarith
  then have "value_of vs i \<in> set vs" by (simp add: value_of_def)
  then show ?thesis using g by (simp add: good_values_def)
qed

lemma cond_count_bounds:
  assumes "good_values th" and "good_values el" and "length cs < 2 ^ 60"
  shows "length cs \<le> cond_count cs th el" and "cond_count cs th el < 2 ^ 60"
proof -
  have l: "length (chosen th el c) < 2 ^ 60" for c
    using chosen_good [OF assms(1,2)] by (simp add: good_values_def)
  have "n \<le> fold (\<lambda>c n. max n (length (chosen th el c))) xs n" for n xs
    by (induction xs arbitrary: n) (simp_all, meson max.boundedE)
  then show "length cs \<le> cond_count cs th el" by (simp add: cond_count_def)
  have "fold (\<lambda>c n. max n (length (chosen th el c))) xs n < M"
    if "n < M" "\<And>c. length (chosen th el c) < M" for n xs M
    using that(1) by (induction xs arbitrary: n) (simp_all add: that(2))
  from this [OF assms(3) l] show "cond_count cs th el < 2 ^ 60" by (simp add: cond_count_def)
qed

lemma cond_values_good:
  assumes "good_values cs" and "good_values th" and "good_values el"
  shows "good_values (cond_values cat cs th el)"
proof (cases cat)
  case True
  then show ?thesis using assms by (simp add: cond_values_def)
next
  case False
  have n: "0 < cond_count cs th el" "cond_count cs th el < 2 ^ 60"
    using cond_count_bounds [OF assms(2,3), of cs] assms(1) unfolding good_values_def by (cases cs; simp)+
  have v: "NUL \<notin> set (value_of (chosen th el c) i)" for c i by (rule value_of_good [OF chosen_good [OF assms(2,3)]])
  show ?thesis unfolding cond_values_def good_values_def using False n v by auto
qed

lemma joined_set: "set (joined sp vs) \<subseteq> set sp \<union> \<Union> (set ` set vs)"
  by (induction sp vs rule: joined.induct) auto

lemma part_value_set:
  assumes "\<forall>s\<in>part_strings p. NUL \<notin> set s"
  shows "NUL \<notin> set (part_value k p)"
proof (cases p)
  case (Joined sp vs)
  then show ?thesis using assms joined_set [of sp vs] by auto
next
  case (Single vs)
  show ?thesis
  proof (cases "vs = []")
    case False
    then have "0 < length vs" by simp
    then have "min k (length vs - 1) < length vs" by linarith
    then have "part_value k p \<in> set vs" using False by (simp add: Single)
    then show ?thesis using assms Single by auto
  qed (simp add: Single)
qed

lemma denote_good:
  "(\<forall>r\<in>refs_of t. good_values (val r)) \<Longrightarrow> sized val t \<Longrightarrow> good_values (denote val t)"
  "(\<forall>r\<in>refs_of_expr e. good_values (val r)) \<Longrightarrow> sized_expr val e \<Longrightarrow>
     \<forall>s\<in>part_strings (denote_part val e). NUL \<notin> set s"
proof (induction t and e)
  case (Ast c es cs)
  let ?ps = "map (denote_part val) es"
  have z: "length cs = length es" "\<forall>s\<in>set (c # cs). NUL \<notin> set s" "value_count ?ps < 2 ^ 60" "\<forall>e\<in>set es. sized_expr val e"
    using Ast.prems(2) by (simp_all add: list_all_iff)
  have ps: "\<forall>s\<in>part_strings p. NUL \<notin> set s" if "p \<in> set ?ps" for p
    using that Ast.IH Ast.prems(1) z(4) by auto
  have "NUL \<notin> set (template_value c ?ps cs k)" for k
  proof -
    have "NUL \<notin> set (part_value k p @ d)" if "(p, d) \<in> set (zip ?ps cs)" for p d
      using part_value_set [OF ps [OF set_zip_leftD [OF that]]] set_zip_rightD [OF that] z(2) by simp
    then show ?thesis using z(2) by (auto simp: template_value_def)
  qed
  then show ?case using z(3) value_count_pos [of ?ps] unfolding good_values_def denote.simps template_values_def by auto
next
  case (Ref r s)
  then show ?case by (cases s) (auto simp: good_values_def)
next
  case (Cond cat r th el)
  then have "good_values (cond_values cat (val r) (denote val th) (denote val el))" by (intro cond_values_good) simp_all
  then show ?case by (simp add: good_values_def)
qed

subsection \<open>Filling a conditional\<close>

text \<open>The template of the conditional at m got values, the branches are as the group needs them.\<close>

definition filled ::
  "tgroup \<Rightarrow> tptr set \<Rightarrow> tptr \<times> tptr set \<times> tptr ast \<Rightarrow> tptr \<times> tptr set \<times> tptr ast \<Rightarrow> tptr \<Rightarrow> char list list \<Rightarrow>
   tstore \<Rightarrow> tstore \<Rightarrow> bool" where
  "filled G B x y m vs st st' \<longleftrightarrow>
     progress G B (insert m (fst (snd x) \<union> fst (snd y))) st st' \<and> branches G B x y st' \<and> values_at st' m vs"

definition apart :: "tgroup \<Rightarrow> tptr set \<Rightarrow> tptr set \<Rightarrow> tptr set \<Rightarrow> tptr \<Rightarrow> bool" where
  "apart G B F H m \<longleftrightarrow> F \<inter> region G B = {} \<and> H \<inter> region G B = {} \<and> F \<inter> H = {} \<and> m \<notin> F \<union> H \<union> region G B"

lemma branches_changes:
  assumes "branches G B (a, F, th) (b, H, el) st" and "changes {m} st st'" and "m \<notin> F \<union> H \<union> region G B"
  shows "branches G B (a, F, th) (b, H, el) st'"
proof -
  have X: "tree_in st a F th" "fresh_values st a (denote (env G) th)" "tree_in st b H el"
    "fresh_values st b (denote (env G) el)" "group_ready G B st" using assms(1) by (auto simp: branches_def)
  have F: "agree F st st'" "agree H st st'" using assms(2,3) by (auto intro!: changes_agree)
  have "group_ready G B st'" by (rule group_ready_changes(1) [OF X(5) assms(2)]) (use assms(3) in simp)
  then show ?thesis
    using tree_in_agree(1) [OF X(1) F(1)] tree_in_agree(1) [OF X(3) F(2)] agree_fresh [OF F(1) tree_in_root [OF X(1)] X(2)]
      agree_fresh [OF F(2) tree_in_root [OF X(3)] X(4)] by (simp add: branches_def)
qed

lemma with_values_changes: "with_values m t vs st st' \<Longrightarrow> changes {m} st st'"
  unfolding with_values_def by (elim exE conjE, hypsubst, rule changes_put) simp

lemma with_values_at: "with_values m t vs st st' \<Longrightarrow> values_at st' m vs"
  by (auto simp: with_values_def values_at_def holds_values_def)

lemma with_values_start:
  assumes "templates st m = Some t" and "holds_values t vs"
  shows "with_values m t vs st st"
  unfolding with_values_def using assms put_same [of st m t]
  by (intro exI [of _ "vals t"]) (simp add: holds_values_def)

lemma with_values_filled:
  assumes p: "progress G B (F \<union> H) st st1" and b: "branches G B (a, F, th) (b, H, el) st1"
    and w: "with_values m t vs st1 st2" and m: "apart G B F H m"
  shows "filled G B (a, F, th) (b, H, el) m vs st st2"
proof -
  have c: "changes {m} st1 st2" by (rule with_values_changes [OF w])
  have m': "m \<notin> F \<union> H \<union> region G B" using m by (simp add: apart_def)
  have g: "group_ready G B st1" using b by (simp add: branches_def)
  have "progress G B {m} st1 st2" by (rule progress_changes [OF g c]) (use m' in simp)
  then have "progress G B (insert m (F \<union> H)) st1 st2" by (rule progress_mono) simp
  moreover have "progress G B (insert m (F \<union> H)) st st1" by (rule progress_mono [OF p]) blast
  ultimately show ?thesis
    using progress_trans branches_changes [OF b c m'] with_values_at [OF w] by (simp add: filled_def)
qed

lemma concat_values_ok:
  assumes t: "tree_evaluates G B ev th" "tree_evaluates G B ev el" and b: "branches G B (a, F, th) (b, H, el) st"
    and m: "apart G B F H m" "templates st m = Some tm" "holds_values tm []"
    and p: "tpl_then p = Some a" "tpl_else p = Some b" and r: "evaluated st r cs"
    and good: "good_values (denote (env G) th)" "good_values (denote (env G) el)"
  shows "returns h (concat_values ev p m r (length cs) st h)
    (filled G B (a, F, th) (b, H, el) m (cond_values True cs (denote (env G) th) (denote (env G) el)) st)"
proof -
  define c where "c = list_ex (\<lambda>c. c \<noteq> []) cs"
  define x vs where "x = (if c then a else b)" and "vs = (if c then denote (env G) th else denote (env G) el)"
  have sc: "some_condition r 0 (length cs) st = Some c"
    using some_condition_ok [OF evaluated_values [OF r], of 0 "length cs"] by (simp add: c_def)
  have bo: "branch_of p c = Some x" using p by (simp add: branch_of_def x_def)
  have vs: "good_values vs" "vs = cond_values True cs (denote (env G) th) (denote (env G) el)"
    using good by (simp_all add: vs_def c_def cond_values_def)
  note d = m(1) [unfolded apart_def]
  have F: "a \<in> F" "b \<in> H" using b tree_in_root by (auto simp: branches_def)
  then have xm: "x \<noteq> m" using d by (auto simp: x_def)
  have "returns h (ev x st h) (\<lambda>st'. progress G B (F \<union> H) st st' \<and> branches G B (a, F, th) (b, H, el) st' \<and> evaluated st' x vs)"
    unfolding x_def vs_def
    by (rule returns_weaken [OF chosen_branch_evaluates [OF t b]]) (use d in auto)
  then show ?thesis unfolding concat_values_def sc bind.simps bo vs(2) [symmetric]
  proof (rule returns_bind, elim conjE)
    fix st1 h1
    assume p1: "progress G B (F \<union> H) st st1" and b1: "branches G B (a, F, th) (b, H, el) st1" and e1: "evaluated st1 x vs"
    from e1 obtain tb where tb: "templates st1 x = Some tb" "holds_values tb vs" by (auto simp: evaluated_def)
    have sz: "gsize (vals tb) = length vs"
      using grar_holds_bounds [of "vals tb"] tb(2) by (auto simp: holds_values_def)
    have n0: "(length vs = 0) = False" using vs(1) by (simp add: good_values_def)
    have "agree {m} st st1" by (rule progress_agree [OF p1]) (use d in blast)
    then have m1: "templates st1 m = Some tm" using m(2) by (simp add: agree_def)
    have "length ([] :: char list list) + length vs < 2 ^ 60" using vs(1) by (simp add: good_values_def)
    from copy_branch_ok [OF with_values_start [OF m1 m(3)] evaluated_values [OF e1] xm _ this, of 0 h1]
    have "returns h1 (copy_branch m x 0 (length vs) st1 h1) (with_values m tm vs st1)" by simp
    then have "returns h1 (copy_branch m x 0 (length vs) st1 h1) (filled G B (a, F, th) (b, H, el) m vs st)"
      by (rule returns_weaken) (rule with_values_filled [OF p1 b1 _ m(1)])
    then show "returns h1 (do { tb \<leftarrow> templates st1 x;
          if gsize (vals tb) = 0 then None else copy_branch m x 0 (gsize (vals tb)) st1 h1 })
        (filled G B (a, F, th) (b, H, el) m vs st)"
      by (simp only: tb(1) bind.simps sz n0 if_False)
  qed
qed

lemma conditional_values_ok:
  assumes t: "tree_evaluates G B ev th" "tree_evaluates G B ev el" and b: "branches G B (a, F, th) (b, H, el) st"
    and m: "apart G B F H m" "templates st m = Some tm" "holds_values tm []"
    and p: "tpl_then p = Some a" "tpl_else p = Some b" and r: "r \<in> B" "evaluated st r (env G r)" "good_values (env G r)"
      "r \<noteq> m"
    and good: "good_values (denote (env G) th)" "good_values (denote (env G) el)"
  shows "returns h (conditional_values ev p m r (length (env G r)) st h)
    (filled G B (a, F, th) (b, H, el) m (cond_values False (env G r) (denote (env G) th) (denote (env G) el)) st)"
proof -
  define cs T E where "cs = env G r" and "T = denote (env G) th" and "E = denote (env G) el"
  note d = m(1) [unfolded apart_def]
  have rc: "evaluated st r cs" "cs \<noteq> []" "length cs < 2 ^ 60" using r by (simp_all add: cs_def good_values_def)
  have gTE: "good_values T" "good_values E" using good by (simp_all add: T_def E_def)
  from evaluate_branches_ok [OF t _ _ _ p r(1) b, of 0 "length cs" "length cs" h, folded cs_def T_def E_def] d rc(1)
  obtain ec N st1 h1 where R: "evaluate_branches ev p r 0 (length cs) (length cs) st h = Some (ec, N, st1, h1)" "uses h h1"
    "ec = MIST_OK \<and> N = fold (\<lambda>c n. max n (length (chosen T E c))) cs (length cs) \<and>
       progress G B (F \<union> H) st st1 \<and> branches G B (a, F, th) (b, H, el) st1 \<and> evaluated st1 r cs \<and>
       (\<forall>c\<in>set cs. evaluated st1 (if c \<noteq> [] then a else b) (chosen T E c)) \<or>
     ec = MIST_OUT_OF_MEMORY \<and> ran_out h h1" by fastforce
  have e: "conditional_values ev p m r (length cs) st h =
      (if ec \<noteq> MIST_OK then Some (ec, st1, h1)
       else do { cexpr \<leftarrow> condition_at r 0 st1; select_values m p r (length cs) 0 cexpr 0 N st1 h1 })"
    by (simp only: conditional_values_def R(1) bind.simps prod.case)
  from R(3) show ?thesis unfolding cs_def [symmetric] T_def [symmetric] E_def [symmetric]
  proof (elim disjE conjE)
    assume "ec = MIST_OUT_OF_MEMORY" "ran_out h h1"
    then show "returns h (conditional_values ev p m r (length cs) st h)
        (filled G B (a, F, th) (b, H, el) m (cond_values False cs T E) st)" using e R(2) by (simp add: returns_def)
  next
    assume ok: "ec = MIST_OK" "N = fold (\<lambda>c n. max n (length (chosen T E c))) cs (length cs)"
      "progress G B (F \<union> H) st st1" "branches G B (a, F, th) (b, H, el) st1" "evaluated st1 r cs"
      "\<forall>c\<in>set cs. evaluated st1 (if c \<noteq> [] then a else b) (chosen T E c)"
    have N: "N = cond_count cs T E" unfolding ok(2) cond_count_def ..
    have N60: "length ([] :: char list list) + N < 2 ^ 60"
      using cond_count_bounds(2) [OF gTE rc(3)] unfolding N by simp
    have cnd: "condition_at r 0 st1 = Some (cs ! 0 \<noteq> [])"
      by (rule condition_at_ok [OF evaluated_values [OF ok(5)]]) (use rc(2) in simp)
    have F: "a \<in> F" "b \<in> H" using ok(4) tree_in_root by (auto simp: branches_def)
    have br: "\<exists>x. branch_of p (c \<noteq> []) = Some x \<and> x \<noteq> m \<and> evaluated st1 x (chosen T E c) \<and> chosen T E c \<noteq> []"
      if "c \<in> set cs" for c
    proof (intro exI conjI)
      show "branch_of p (c \<noteq> []) = Some (if c \<noteq> [] then a else b)" using p by (simp add: branch_of_def)
      show "(if c \<noteq> [] then a else b) \<noteq> m" using F d by auto
      show "evaluated st1 (if c \<noteq> [] then a else b) (chosen T E c)" using ok(6) that by blast
      show "chosen T E c \<noteq> []" using chosen_good [OF gTE] by (simp add: good_values_def)
    qed
    have "agree {m} st st1" by (rule progress_agree [OF ok(3)]) (use d in blast)
    then have m1: "templates st1 m = Some tm" using m(2) by (simp add: agree_def)
    have "returns h1 (select_values m p r (length cs) 0 (cs ! 0 \<noteq> []) 0 N st1 h1)
        (with_values m tm ([] @ map (\<lambda>i. value_of (chosen T E (value_of cs i)) i) [0..<0 + N]) st1)"
      by (rule select_values_ok [OF with_values_start [OF m1 m(3)] evaluated_values [OF ok(5)] r(4) rc(2) br N60])
        simp_all
    then have "returns h1 (select_values m p r (length cs) 0 (cs ! 0 \<noteq> []) 0 N st1 h1)
        (with_values m tm (cond_values False cs T E) st1)" by (simp add: cond_values_def N)
    then have "returns h1 (select_values m p r (length cs) 0 (cs ! 0 \<noteq> []) 0 N st1 h1)
        (filled G B (a, F, th) (b, H, el) m (cond_values False cs T E) st)"
      by (rule returns_weaken) (rule with_values_filled [OF ok(3,4) _ m(1)])
    from returns_later [OF R(2) this] show "returns h (conditional_values ev p m r (length cs) st h)
        (filled G B (a, F, th) (b, H, el) m (cond_values False cs T E) st)"
      using e ok(1) cnd by simp
  qed
qed

subsection \<open>A conditional\<close>

lemma set_evaluated_ok:
  assumes "values_at st m vs"
  shows "\<exists>st'. set_evaluated m st = Some st' \<and> evaluated st' m vs \<and> changes {m} st st'"
proof -
  from assms obtain t where t: "templates st m = Some t" "holds_values t vs" by (auto simp: values_at_def)
  show ?thesis
  proof (intro exI conjI)
    show "set_evaluated m st = Some (put_template m (t\<lparr>is_evaluated := True\<rparr>) st)" using t by (simp add: set_evaluated_def)
    show "evaluated (put_template m (t\<lparr>is_evaluated := True\<rparr>) st) m vs" using t by (simp add: evaluated_def holds_values_def)
    show "changes {m} st (put_template m (t\<lparr>is_evaluated := True\<rparr>) st)" by (rule changes_put) simp
  qed
qed

text \<open>Clearing the values of a root leaves the tree in place and not evaluated.\<close>

lemma clear_root_ok:
  assumes "tree_in st a F t"
  shows "\<exists>st' h'. mist_template_clear_values a st h = Some (st', h') \<and> uses h h' \<and> changes {a} st st' \<and>
    tree_in st' a F t \<and> (\<forall>vs. fresh_values st' a vs)"
proof -
  obtain c es cs where t: "t = Ast c es cs" by (cases t) auto
  from assms [unfolded t] obtain F' x ps vs where X: "templates st a = Some x" "holds_values x vs"
    by (rule tree_in_Ast) blast
  from clear_values_ok [OF X, of h] obtain g h' where
    g: "mist_template_clear_values a st h = Some (put_template a (x\<lparr>vals := g, is_evaluated := False\<rparr>) st, h')"
      "grar_holds g []" "uses h h'" by blast
  have "tree_in (put_template a (x\<lparr>vals := g, is_evaluated := False\<rparr>) st) a F t"
    by (rule tree_in_put [OF assms X(1), of _ "[]"]) (use g(2) in \<open>simp_all add: holds_values_def\<close>)
  moreover have "\<forall>vs. fresh_values (put_template a (x\<lparr>vals := g, is_evaluated := False\<rparr>) st) a vs"
    by (simp add: fresh_values_def)
  ultimately show ?thesis using g(1,3) changes_put by blast
qed

text \<open>The three templates of the conditional are cleared first.\<close>

lemma clear_three_ok:
  assumes g: "group_ready G B st" and m: "apart G B F H m" "values_at st m vs"
    and t: "tree_in st a F th" "tree_in st b H el"
  shows "\<exists>st1 st2 st3 h1 h2 h3 tm. mist_template_clear_values m st h = Some (st1, h1) \<and>
    mist_template_clear_values a st1 h1 = Some (st2, h2) \<and> mist_template_clear_values b st2 h2 = Some (st3, h3) \<and>
    uses h h3 \<and> changes (insert m (F \<union> H)) st st3 \<and> branches G B (a, F, th) (b, H, el) st3 \<and>
    templates st3 m = Some tm \<and> holds_values tm []"
proof -
  note d = m(1) [unfolded apart_def]
  from m(2) obtain t0 where t0: "templates st m = Some t0" "holds_values t0 vs" by (auto simp: values_at_def)
  from clear_values_ok [OF t0, of h] obtain g1 h1 where
    c1: "mist_template_clear_values m st h = Some (put_template m (t0\<lparr>vals := g1, is_evaluated := False\<rparr>) st, h1)"
      "grar_holds g1 []" "uses h h1" by blast
  define st1 where "st1 = put_template m (t0\<lparr>vals := g1, is_evaluated := False\<rparr>) st"
  have ch1: "changes {m} st st1" unfolding st1_def by (rule changes_put) simp
  have t1: "tree_in st1 a F th" "tree_in st1 b H el"
    by (rule tree_in_agree(1) [OF t(1) changes_agree [OF ch1]], use d in simp)
      (rule tree_in_agree(1) [OF t(2) changes_agree [OF ch1]], use d in simp)
  have ab: "a \<in> F" "b \<in> H" using t tree_in_root by blast+
  from clear_root_ok [OF t1(1), of h1] obtain st2 h2 where
    c2: "mist_template_clear_values a st1 h1 = Some (st2, h2)" "uses h1 h2" "changes {a} st1 st2"
      "tree_in st2 a F th" "\<forall>vs. fresh_values st2 a vs" by blast
  have b2: "tree_in st2 b H el" by (rule tree_in_agree(1) [OF t1(2) changes_agree [OF c2(3)]]) (use ab d in auto)
  from clear_root_ok [OF b2, of h2] obtain st3 h3 where
    c3: "mist_template_clear_values b st2 h2 = Some (st3, h3)" "uses h2 h3" "changes {b} st2 st3"
      "tree_in st3 b H el" "\<forall>vs. fresh_values st3 b vs" by blast
  have "agree F st2 st3" by (rule changes_agree [OF c3(3)]) (use ab d in auto)
  then have a3: "tree_in st3 a F th" "\<forall>vs. fresh_values st3 a vs"
    using tree_in_agree(1) [OF c2(4)] agree_fresh [of F st2 st3 a] c2(5) ab by blast+
  have ch: "changes (insert m (F \<union> H)) st st3"
  proof (rule changes_trans [OF changes_mono [OF ch1] changes_trans [OF changes_mono [OF c2(3)] changes_mono [OF c3(3)]]])
  qed (use ab in auto)
  have "group_ready G B st3" by (rule group_ready_changes(1) [OF g ch]) (use d in auto)
  then have "branches G B (a, F, th) (b, H, el) st3" using a3 c3(4,5) by (simp add: branches_def)
  moreover have "templates st3 m = Some (t0\<lparr>vals := g1, is_evaluated := False\<rparr>)"
  proof -
    have "m \<noteq> a" "m \<noteq> b" using ab d by auto
    then have "templates st3 m = templates st1 m" using c2(3) c3(3) by (simp add: changes_def)
    then show ?thesis by (simp add: st1_def)
  qed
  moreover have "holds_values (t0\<lparr>vals := g1, is_evaluated := False\<rparr>) []" using c1(2) by (simp add: holds_values_def)
  ultimately show ?thesis
    using c1(1) [folded st1_def] c2(1) c3(1) ch uses_trans [OF c1(3) uses_trans [OF c2(2) c3(2)]] by blast
qed

lemma filled_part:
  assumes f: "filled G B (a, F, th) (b, H, el) m vs st st1" and e: "set_evaluated m st1 = Some st2"
      "evaluated st2 m vs" "changes {m} st1 st2"
    and m: "apart G B F H m" and q: "placeholders st p = Some q" "ph_type q = MPH_COND" "is_concat q = cat"
      "tpl_cond q = Some r" "tpl q = Some m" "tpl_then q = Some a" "tpl_else q = Some b" "p \<noteq> m" "p \<notin> F \<union> H"
    and v: "good_values vs" "denote_part (env G) (Cond cat r th el) = Single vs"
  shows "progress G B (insert m (F \<union> H)) st st2 \<and> ph_in st2 p ({p, m} \<union> F \<union> H) (Cond cat r th el) \<and>
    part_of st2 p (denote_part (env G) (Cond cat r th el))"
proof -
  note d = m [unfolded apart_def]
  from f have p1: "progress G B (insert m (F \<union> H)) st st1" and b1: "branches G B (a, F, th) (b, H, el) st1"
    by (simp_all add: filled_def)
  have b2: "branches G B (a, F, th) (b, H, el) st2" by (rule branches_changes [OF b1 e(3)]) (use d in blast)
  have "group_ready G B st1" using b1 by (simp add: branches_def)
  from progress_changes [OF this e(3)] have "progress G B {m} st1 st2" using d by blast
  then have p2: "progress G B (insert m (F \<union> H)) st1 st2" by (rule progress_mono) simp
  have pr: "progress G B (insert m (F \<union> H)) st st2" by (rule progress_trans [OF p1 p2])
  have q2: "placeholders st2 p = Some q" using pr q(1) by (simp add: progress_def changes_def)
  obtain tm where tm: "templates st2 m = Some tm" "is_evaluated tm" "holds_values tm vs"
    using e(2) by (auto simp: evaluated_def)
  have "ph_in st2 p ({p, m} \<union> F \<union> H) (Cond cat r th el)"
    by (rule tree_in_phs_in_ph_in.ph_in_Cond [OF q2 q(2-5) tm(1,3) q(6) _ q(7)])
      (use b2 d q(8,9) in \<open>simp_all add: branches_def\<close>)
  moreover have "part_of st2 p (Single vs)"
    unfolding part_of_def using q2 q(2,5) tm v(1) by (auto simp: holds_values_def good_values_def)
  ultimately show ?thesis using pr v(2) by simp
qed

text \<open>What is left when the condition is evaluated.\<close>

definition fill_conditional :: "evaluator \<Rightarrow> CMistPlaceholder \<Rightarrow> tptr \<Rightarrow> tptr \<Rightarrow> evaluator" where
  "fill_conditional ev p m r = (\<lambda>_ st h.
     do { tc \<leftarrow> templates st r;
          let ncond = gsize (vals tc);
          if ncond = 0 then None
          else do {
            (ec, st, h) \<leftarrow> (if is_concat p then concat_values ev p m r ncond st h
                            else conditional_values ev p m r ncond st h);
            if ec \<noteq> MIST_OK then Some (ec, st, h)
            else do { st \<leftarrow> set_evaluated m st; Some (ec, st, h) } } })"

lemma fill_conditional_ok:
  assumes t: "tree_evaluates G B ev th" "tree_evaluates G B ev el" and G: "group_ok G B" "r \<in> B"
    and good: "good_values (denote (env G) th)" "good_values (denote (env G) el)"
    and m: "apart G B F H m" "templates st m = Some tm" "holds_values tm []"
    and b: "branches G B (a, F, th) (b, H, el) st" "evaluated st r (env G r)"
    and q: "placeholders st p = Some q" "ph_type q = MPH_COND" "is_concat q = cat"
      "tpl_cond q = Some r" "tpl q = Some m" "tpl_then q = Some a" "tpl_else q = Some b" "p \<noteq> m" "p \<notin> F \<union> H"
  defines "e \<equiv> Cond cat r th el"
  shows "returns h (fill_conditional ev q m r x st h)
    (\<lambda>st'. progress G B (insert m (F \<union> H)) st st' \<and> ph_in st' p ({p, m} \<union> F \<union> H) e \<and>
       part_of st' p (denote_part (env G) e))"
proof -
  define cs ws where "cs = env G r" and "ws = cond_values cat cs (denote (env G) th) (denote (env G) el)"
  have cs: "good_values cs" using group_ok_good [OF G] by (simp add: cs_def)
  have ws: "good_values ws" "denote_part (env G) e = Single ws"
    using cond_values_good [OF cs good] by (simp_all add: ws_def cs_def e_def)
  have r: "evaluated st r cs" using b(2) by (simp add: cs_def)
  then obtain tc where tc: "templates st r = Some tc" "holds_values tc cs" by (auto simp: evaluated_def)
  have sz: "gsize (vals tc) = length cs"
    using grar_holds_bounds [of "vals tc"] tc(2) by (auto simp: holds_values_def)
  have n0: "(length cs = 0) = False" using cs by (simp add: good_values_def)
  have g: "group_ready G B st" using b(1) by (simp add: branches_def)
  have rm: "r \<noteq> m" using m(1) G(2) g foot_member [of G st r] by (auto simp: apart_def region_def group_ready_def)
  have "returns h (if cat then concat_values ev q m r (length cs) st h else conditional_values ev q m r (length cs) st h)
      (filled G B (a, F, th) (b, H, el) m ws st)"
  proof (cases cat)
    case True
    from concat_values_ok [OF t b(1) m q(6,7) r good, of h] show ?thesis using True by (simp add: ws_def)
  next
    case False
    from conditional_values_ok [OF t b(1) m q(6,7) G(2) b(2) cs [unfolded cs_def] rm good, of h]
    show ?thesis using False by (simp add: ws_def cs_def)
  qed
  then have "returns h (do {
        (ec, st, h) \<leftarrow> (if cat then concat_values ev q m r (length cs) st h
                        else conditional_values ev q m r (length cs) st h);
        if ec \<noteq> MIST_OK then Some (ec, st, h) else do { st \<leftarrow> set_evaluated m st; Some (MIST_OK, st, h) } })
      (\<lambda>st'. progress G B (insert m (F \<union> H)) st st' \<and> ph_in st' p ({p, m} \<union> F \<union> H) e \<and>
         part_of st' p (denote_part (env G) e))"
  proof (rule returns_bind)
    fix st5 h5
    assume f: "filled G B (a, F, th) (b, H, el) m ws st st5"
    then have "values_at st5 m ws" by (simp add: filled_def)
    from set_evaluated_ok [OF this] obtain st6 where
      e6: "set_evaluated m st5 = Some st6" "evaluated st6 m ws" "changes {m} st5 st6" by blast
    from filled_part [OF f e6 m(1) q ws(1) ws(2) [unfolded e_def]]
    show "returns h5 (do { st \<leftarrow> set_evaluated m st5; Some (MIST_OK, st, h5) })
        (\<lambda>st'. progress G B (insert m (F \<union> H)) st st' \<and> ph_in st' p ({p, m} \<union> F \<union> H) e \<and>
           part_of st' p (denote_part (env G) e))"
      unfolding e6(1) bind.simps e_def by (intro returns_OK) simp_all
  qed
  moreover have "(\<lambda>(ec, st, h). if ec \<noteq> MIST_OK then Some (ec, st, h)
        else do { st \<leftarrow> set_evaluated m st; Some (ec, st, h :: mheap) }) =
      (\<lambda>(ec, st, h). if ec \<noteq> MIST_OK then Some (ec, st, h) else do { st \<leftarrow> set_evaluated m st; Some (MIST_OK, st, h) })"
    by auto
  ultimately show ?thesis
    by (simp only: fill_conditional_def tc(1) bind.simps Let_def sz n0 if_False q(3))
qed

lemma placeholder_evaluate_cond:
  assumes "placeholders st p = Some q" and "ph_type q = MPH_COND" and "tpl q = Some m" and "tpl_cond q = Some r"
    and "tpl_then q = Some a" and "tpl_else q = Some b"
    and "mist_template_clear_values m st h = Some (st1, h1)" and "mist_template_clear_values a st1 h1 = Some (st2, h2)"
    and "mist_template_clear_values b st2 h2 = Some (st3, h3)"
  shows "mist_placeholder_evaluate ev p st h =
     do { (ec, st, h) \<leftarrow> ev r st3 h3;
          if ec \<noteq> MIST_OK then Some (ec, st, h) else fill_conditional ev q m r m st h }"
  by (simp only: mist_placeholder_evaluate_def assms bind.simps simp_thms if_True evaluate_conditional_def evaluate_condition_def prod.case
      fill_conditional_def)

lemma cond_evaluates:
  assumes ev: "evaluates G B ev" and t: "tree_evaluates G B ev th" "tree_evaluates G B ev el"
    and G: "group_ok G B" "r \<in> B"
    and good: "good_values (denote (env G) th)" "good_values (denote (env G) el)"
  shows "ph_evaluates G B ev (Cond cat r th el)"
  unfolding ph_evaluates_def
proof (intro allI impI)
  fix st h p F0
  assume ph: "ph_in st p F0 (Cond cat r th el)" and d0: "F0 \<inter> region G B = {}" and g: "group_ready G B st"
  let ?e = "Cond cat r th el"
  from ph obtain q m tm0 vs a F b H where q: "placeholders st p = Some q" "ph_type q = MPH_COND" "is_concat q = cat"
      "tpl_cond q = Some r" "tpl q = Some m" "tpl_then q = Some a" "tpl_else q = Some b" "p \<noteq> m" "p \<notin> F \<union> H"
    and s: "templates st m = Some tm0" "holds_values tm0 vs" "tree_in st a F th" "tree_in st b H el"
      "m \<notin> F \<union> H" "F \<inter> H = {}" and F0: "F0 = {p, m} \<union> F \<union> H" by (rule ph_in_CondE) blast
  have m: "apart G B F H m" using d0 s(5,6) unfolding F0 apart_def by blast
  have v0: "values_at st m vs" using s(1,2) by (auto simp: values_at_def)
  from clear_three_ok [OF g m v0 s(3,4), of h] obtain st1 st2 st3 h1 h2 h3 tm where
    c: "mist_template_clear_values m st h = Some (st1, h1)" "mist_template_clear_values a st1 h1 = Some (st2, h2)"
      "mist_template_clear_values b st2 h2 = Some (st3, h3)" "uses h h3" "changes (insert m (F \<union> H)) st st3"
      "branches G B (a, F, th) (b, H, el) st3" "templates st3 m = Some tm" "holds_values tm []" by blast
  have p3: "progress G B (insert m (F \<union> H)) st st3"
    by (rule progress_changes [OF g c(5)]) (use m in \<open>auto simp: apart_def\<close>)
  have "returns h3 (ev r st3 h3) (\<lambda>st'. progress G B {} st3 st' \<and> evaluated st' r (env G r))"
    using ev G(2) p3 by (simp add: evaluates_def progress_def)
  then have "returns h3 (mist_placeholder_evaluate ev p st h)
      (\<lambda>st'. progress G B F0 st st' \<and> ph_in st' p F0 ?e \<and> part_of st' p (denote_part (env G) ?e))"
    unfolding placeholder_evaluate_cond [OF q(1,2,5,4,6,7) c(1-3)]
  proof (rule returns_bind, elim conjE)
    fix st4 h4
    assume p4: "progress G B {} st3 st4" and r4: "evaluated st4 r (env G r)"
    have out: "agree (insert m (F \<union> H)) st3 st4" by (rule progress_agree [OF p4]) (use m in \<open>auto simp: apart_def\<close>)
    have agr: "agree {m} st3 st4" "agree F st3 st4" "agree H st3 st4" using agree_mono [OF out] by blast+
    have m4: "templates st4 m = Some tm" using agr(1) c(7) by (simp add: agree_def)
    have X: "tree_in st3 a F th" "fresh_values st3 a (denote (env G) th)" "tree_in st3 b H el"
      "fresh_values st3 b (denote (env G) el)" using c(6) by (auto simp: branches_def)
    have b4: "branches G B (a, F, th) (b, H, el) st4"
      using p4 tree_in_agree(1) [OF X(1) agr(2)] tree_in_agree(1) [OF X(3) agr(3)]
        agree_fresh [OF agr(2) tree_in_root [OF X(1)] X(2)] agree_fresh [OF agr(3) tree_in_root [OF X(3)] X(4)]
      by (simp add: branches_def progress_def)
    have q4: "placeholders st4 p = Some q" using p3 p4 q(1) by (simp add: progress_def changes_def)
    have p04: "progress G B (insert m (F \<union> H)) st st4"
      by (rule progress_trans [OF p3 progress_mono [OF p4]]) simp
    show "returns h4 (fill_conditional ev q m r m st4 h4)
        (\<lambda>st'. progress G B F0 st st' \<and> ph_in st' p F0 ?e \<and> part_of st' p (denote_part (env G) ?e))"
    proof (rule returns_weaken [OF fill_conditional_ok [OF t G good m m4 c(8) b4 r4 q4 q(2-9)]], elim conjE)
      fix st' assume "progress G B (insert m (F \<union> H)) st4 st'" "ph_in st' p ({p, m} \<union> F \<union> H) ?e"
        "part_of st' p (denote_part (env G) ?e)"
      then show "progress G B F0 st st' \<and> ph_in st' p F0 ?e \<and> part_of st' p (denote_part (env G) ?e)"
        using progress_mono [OF progress_trans [OF p04], of st' F0] unfolding F0 by blast
    qed
  qed
  then show "returns h (mist_placeholder_evaluate ev p st h)
      (\<lambda>st'. progress G B F0 st st' \<and> ph_in st' p F0 ?e \<and> part_of st' p (denote_part (env G) ?e))"
    by (rule returns_later [OF c(4)])
qed

end
