(* ===== verification/Mist_Evaluate_Total.thy ===== *)
theory Mist_Evaluate_Total
  imports Mist_Evaluate_Cond
begin

text \<open>
  Evaluating the members of a group in which the references are not cyclic: the depth that
  suffices, and that every member gets the values that its tree denotes.
\<close>

subsection \<open>The placeholders of a template\<close>

text \<open>What is known of a placeholder stays true while the others are evaluated.\<close>

lemma part_of_later:
  assumes e: "ph_in st p F e" "part_of st p (denote_part (env G) e)" "refs_of_expr e \<subseteq> B"
    and p: "progress G B H st st'" and d: "F \<inter> (H \<union> region G B) = {}"
  shows "part_of st' p (denote_part (env G) e)"
proof (cases e)
  case (Ref r s)
  have "p \<in> F" using e(1) unfolding Ref by (rule ph_in_RefE) blast
  have q: "placeholders st' = placeholders st" using p by (simp add: progress_def changes_def)
  from e(1) obtain q where tq: "placeholders st p = Some q" "ph_type q = (if s = None then MPH_PLAIN else MPH_JOIN)"
    "tpl q = Some r" "sep q = s" unfolding Ref by (rule ph_in_RefE) blast
  from e(2) obtain t vs where t: "templates st r = Some t" "is_evaluated t" "grar_holds (vals t) (map Some vs)"
    "denote_part (env G) e = (case s of None \<Rightarrow> Single vs | Some s \<Rightarrow> Joined s vs)"
    by (rule part_ofE) (use tq in \<open>cases s; auto\<close>)
  then have "vs = env G r" by (simp add: Ref split: option.splits)
  then have "evaluated st r (env G r)" using t by (auto simp: evaluated_def holds_values_def)
  then have "evaluated st' r (env G r)" using p e(3) by (simp add: progress_def keeps_def Ref)
  then obtain t' where "templates st' r = Some t'" "is_evaluated t'" "grar_holds (vals t') (map Some (env G r))"
    by (auto simp: evaluated_def holds_values_def)
  then show ?thesis using e(2) tq t \<open>vs = env G r\<close> unfolding part_of_def q by (cases s) auto
next
  case (Cond cat r th el)
  from e(1) obtain q m where q: "placeholders st p = Some q" "tpl q = Some m" "m \<in> F" "p \<in> F"
    unfolding Cond by (rule ph_in_CondE) blast
  have "agree F st st'" by (rule progress_agree [OF p d])
  then have "placeholders st' p = placeholders st p" "templates st' m = templates st m" using q by (simp_all add: agree_def)
  then show ?thesis using e(2) q(1,2) unfolding part_of_def by auto
qed

lemma evaluate_placeholders_ok:
  assumes "phs_in st ps F es" and "F \<inter> region G B = {}" and "group_ready G B st"
    and "\<forall>e\<in>set es. ph_evaluates G B ev e \<and> refs_of_expr e \<subseteq> B"
  shows "returns h (evaluate_placeholders ev (map Some ps) st h)
    (\<lambda>st'. progress G B F st st' \<and> phs_in st' ps F es \<and>
       list_all2 (part_of st') ps (map (denote_part (env G)) es))"
  using assms
proof (induction es arbitrary: ps F st h rule: list.induct)
  case Nil
  from Nil(1) show ?case
    by (rule phs_in_NilE) (use Nil(1,3) in \<open>simp add: returns_def progress_refl\<close>)
next
  case (Cons e es)
  from Cons.prems(1) obtain p ps' F1 F2 where X: "ps = p # ps'" "F = F1 \<union> F2" "ph_in st p F1 e" "phs_in st ps' F2 es"
    "F1 \<inter> F2 = {}" by (rule phs_in_ConsE) blast
  have d: "F1 \<inter> region G B = {}" "F2 \<inter> region G B = {}" using Cons.prems(2) X(2) by blast+
  have e: "ph_evaluates G B ev e" "refs_of_expr e \<subseteq> B" "\<forall>e\<in>set es. ph_evaluates G B ev e \<and> refs_of_expr e \<subseteq> B"
    using Cons.prems(4) by simp_all
  have "returns h (mist_placeholder_evaluate ev p st h)
      (\<lambda>st'. progress G B F1 st st' \<and> ph_in st' p F1 e \<and> part_of st' p (denote_part (env G) e))"
    using e(1) X(3) d(1) Cons.prems(3) by (simp add: ph_evaluates_def)
  then show ?case unfolding X(1) list.map evaluate_placeholders.simps bind.simps
  proof (rule returns_bind, elim conjE)
    fix st1 h1
    assume p1: "progress G B F1 st st1" and e1: "ph_in st1 p F1 e" "part_of st1 p (denote_part (env G) e)"
    have "agree F2 st st1" by (rule progress_agree [OF p1]) (use X(5) d in blast)
    then have s1: "phs_in st1 ps' F2 es" by (rule tree_in_agree(2) [OF X(4)])
    have g1: "group_ready G B st1" using p1 by (simp add: progress_def)
    show "returns h1 (evaluate_placeholders ev (map Some ps') st1 h1)
        (\<lambda>st'. progress G B F st st' \<and> phs_in st' (p # ps') F (e # es) \<and>
           list_all2 (part_of st') (p # ps') (denote_part (env G) e # map (denote_part (env G)) es))"
    proof (rule returns_weaken [OF Cons.IH [OF s1 d(2) g1 e(3)]], elim conjE)
      fix st2 assume p2: "progress G B F2 st1 st2" and s2: "phs_in st2 ps' F2 es"
        and l2: "list_all2 (part_of st2) ps' (map (denote_part (env G)) es)"
      have d12: "F1 \<inter> (F2 \<union> region G B) = {}" using X(5) d(1) by blast
      have "ph_in st2 p F1 e" by (rule tree_in_agree(3) [OF e1(1) progress_agree [OF p2 d12]])
      then have "phs_in st2 (p # ps') F (e # es)" unfolding X(2) using s2 X(5) by (rule tree_in_phs_in_ph_in.phs_in_Cons)
      moreover have "part_of st2 p (denote_part (env G) e)" by (rule part_of_later [OF e1 e(2) p2 d12])
      moreover have "progress G B F st st2"
        by (rule progress_trans [OF progress_mono [OF p1] progress_mono [OF p2]]) (use X(2) in auto)
      ultimately show "progress G B F st st2 \<and> phs_in st2 (p # ps') F (e # es) \<and>
          list_all2 (part_of st2) (p # ps') (denote_part (env G) e # map (denote_part (env G)) es)" using l2 by simp
    qed
  qed
qed

subsection \<open>A template\<close>

lemma phs_in_length: "phs_in st ps F es \<Longrightarrow> length ps = length es"
proof (induction es arbitrary: ps F rule: list.induct)
  case (Cons e es)
  from Cons.prems show ?case by (rule phs_in_ConsE) (use Cons.IH in auto)
qed (rule phs_in_NilE, simp_all)

text \<open>Values are built when the placeholders are evaluated.\<close>

lemma build_tree_ok:
  assumes t: "templates st a = Some t" "grar_holds (sch t) (map Some (c # cs))" "grar_holds (phs t) (map Some ps)"
      "grar_holds (vals t) []" "is_evaluated t"
    and ps: "phs_in st ps F es" "a \<notin> F" "list_all2 (part_of st) ps (map (denote_part vs) es)"
    and z: "sized vs (Ast c es cs)"
  shows "returns h (build_values a st h)
    (\<lambda>st'. changes {a} st st' \<and> tree_in st' a (insert a F) (Ast c es cs) \<and> evaluated st' a (denote vs (Ast c es cs)))"
proof -
  let ?ps = "map (denote_part vs) es"
  have n: "length ps = length es" by (rule phs_in_length [OF ps(1)])
  have Z: "length cs = length es" "NUL \<notin> set c" "\<And>s. s \<in> set cs \<Longrightarrow> NUL \<notin> set s"
    "reserved_length c ?ps cs + 1 < 2 ^ 64" "value_count ?ps < 2 ^ 60" using z by (auto simp: list_all_iff)
  have l: "length cs = length ps" using Z(1) n by simp
  from build_values_ok [OF t(1-4) ps(3) l Z(2-5), of h] obtain ec st' h' where
    r: "build_values a st h = Some (ec, st', h')" "uses h h'"
      "ec = MIST_OK \<and> (\<exists>g. st' = put_template a (t\<lparr>vals := g\<rparr>) st \<and> grar_holds g (map Some (template_values c ?ps cs))) \<or>
       ec = MIST_OUT_OF_MEMORY \<and> ran_out h h'" by blast
  show ?thesis
  proof (cases "ec = MIST_OK")
    case True
    with r(3) obtain g where g: "st' = put_template a (t\<lparr>vals := g\<rparr>) st"
      "grar_holds g (map Some (template_values c ?ps cs))" by auto
    have "phs_in st' ps F es" by (rule tree_in_agree(2) [OF ps(1)]) (use ps(2) g in \<open>auto simp: agree_def\<close>)
    then have "tree_in st' a (insert a F) (Ast c es cs)"
      using t g ps(2) Z(1) by (intro tree_in_phs_in_ph_in.tree_in [where ps = ps and t = "t\<lparr>vals := g\<rparr>"])
        (auto simp: holds_values_def)
    moreover have "evaluated st' a (denote vs (Ast c es cs))" using t(5) g by (simp add: evaluated_def holds_values_def)
    moreover have "changes {a} st st'" unfolding g(1) by (rule changes_put) simp
    ultimately show ?thesis using r True by (simp add: returns_def)
  next
    case False
    then show ?thesis using r by (auto simp: returns_def)
  qed
qed

lemma tree_step:
  assumes es: "\<forall>e\<in>set es. ph_evaluates G B ev e \<and> refs_of_expr e \<subseteq> B" and z: "sized (env G) (Ast c es cs)"
  shows "tree_evaluates G B (template_evaluate ev) (Ast c es cs)"
  unfolding tree_evaluates_def
proof (intro allI impI)
  fix st h a F0
  let ?t = "Ast c es cs"
  let ?Q = "\<lambda>st'. progress G B F0 st st' \<and> tree_in st' a F0 ?t \<and> evaluated st' a (denote (env G) ?t)"
  assume ti: "tree_in st a F0 ?t" and d: "F0 \<inter> region G B = {}" and g: "group_ready G B st"
    and fr: "fresh_values st a (denote (env G) ?t)"
  from ti obtain F t ps vs where X: "F0 = insert a F" "templates st a = Some t" "grar_holds (sch t) (map Some (c # cs))"
    "grar_holds (phs t) (map Some ps)" "length cs = length es" "phs_in st ps F es" "a \<notin> F" "holds_values t vs"
    by (rule tree_in_Ast)
  show "returns h (template_evaluate ev a st h) ?Q"
  proof (cases "is_evaluated t")
    case True
    then have "evaluated st a (denote (env G) ?t)" using fr X(2) unfolding evaluated_def fresh_values_def by blast
    then have "?Q st" using ti progress_refl [OF g] by simp
    then show ?thesis using True X(2) by (simp add: template_evaluate_def returns_def)
  next
    case False
    have n: "length ps = length es" by (rule phs_in_length [OF X(6)])
    have sz: "gsize (sch t) = Suc (length es)" "gsize (phs t) = length es"
      using grar_holds_bounds [OF X(3)] grar_holds_bounds [OF X(4)] X(5) n by simp_all
    from clear_values_ok [OF X(2,8), of h] obtain g1 h1 where
      c: "mist_template_clear_values a st h = Some (put_template a (t\<lparr>vals := g1, is_evaluated := False\<rparr>) st, h1)"
        "grar_holds g1 []" "uses h h1" by blast
    define t1 where "t1 = t\<lparr>vals := g1, is_evaluated := True\<rparr>"
    define st1 where "st1 = put_template a t1 st"
    have se: "set_evaluated a (put_template a (t\<lparr>vals := g1, is_evaluated := False\<rparr>) st) = Some st1"
      by (simp add: set_evaluated_def st1_def t1_def)
    have e: "template_evaluate ev a st h =
        do { (ec, st, h) \<leftarrow> evaluate_placeholders ev (map Some ps) st1 h1;
             if ec \<noteq> MIST_OK then Some (ec, st, h) else build_values a st h }"
      using False X(2) sz c(1) se elements [OF X(4)] by (simp add: template_evaluate_def)
    have ch: "changes {a} st st1" unfolding st1_def by (rule changes_put) simp
    have g1: "group_ready G B st1" by (rule group_ready_changes(1) [OF g ch]) (use d X(1) in blast)
    have p1: "progress G B F0 st st1"
      by (rule progress_changes [OF g changes_mono [OF ch]]) (use d X(1) in auto)
    have ps1: "phs_in st1 ps F es" by (rule tree_in_agree(2) [OF X(6) changes_agree [OF ch]]) (use X(7) in simp)
    have dF: "F \<inter> region G B = {}" "{a} \<inter> (F \<union> region G B) = {}" using d X(1,7) by blast+
    have "returns h1 (template_evaluate ev a st h) ?Q"
      unfolding e
    proof (rule returns_bind [OF evaluate_placeholders_ok [OF ps1 dF(1) g1 es]], elim conjE)
      fix st2 h2
      assume p2: "progress G B F st1 st2" and ps2: "phs_in st2 ps F es"
        and l2: "list_all2 (part_of st2) ps (map (denote_part (env G)) es)"
      have "agree {a} st1 st2" by (rule progress_agree [OF p2 dF(2)])
      then have t2: "templates st2 a = Some t1" by (simp add: agree_def st1_def)
      have "grar_holds (sch t1) (map Some (c # cs))" "grar_holds (phs t1) (map Some ps)" "grar_holds (vals t1) []" "is_evaluated t1"
        using X(3,4) c(2) by (simp_all add: t1_def)
      from build_tree_ok [OF t2 this ps2 X(7) l2 z, of h2]
      show "returns h2 (build_values a st2 h2) ?Q"
      proof (rule returns_weaken, elim conjE)
        fix st3 assume c3: "changes {a} st2 st3" and t3: "tree_in st3 a (insert a F) ?t"
          and e3: "evaluated st3 a (denote (env G) ?t)"
        have "group_ready G B st2" using p2 by (simp add: progress_def)
        from progress_changes [OF this c3] have "progress G B {a} st2 st3" using dF(2) by blast
        then have "progress G B F0 st2 st3" by (rule progress_mono) (use X(1) in simp)
        moreover have "progress G B F0 st1 st2" by (rule progress_mono [OF p2]) (use X(1) in blast)
        ultimately show "?Q st3" using t3 e3 progress_trans p1 unfolding X(1) by blast
      qed
    qed
    then show ?thesis by (rule returns_later [OF c(3)])
  qed
qed

lemma fold_max_depth:
  fixes n :: nat
  shows "n \<le> fold max xs n" "x \<in> set xs \<Longrightarrow> x \<le> fold max xs n"
proof (induction xs arbitrary: n)
  case (Cons y xs)
  { case 1 show ?case using Cons.IH(1) [of "max y n"] by simp }
  { case 2 then show ?case using Cons.IH(1) [of "max y n"] Cons.IH(2) [of "max y n"] by auto }
qed simp_all

text \<open>The depth of the calls is that of the tree and what the references need.\<close>

lemma tree_total:
  assumes N: "\<And>n. N \<le> n \<Longrightarrow> evaluates G B (mist_template_evaluate n)" and G: "group_ok G B"
  shows "refs_of t \<subseteq> B \<Longrightarrow> sized (env G) t \<Longrightarrow> N + depth_of t \<le> n \<Longrightarrow> tree_evaluates G B (mist_template_evaluate n) t"
    and "refs_of_expr e \<subseteq> B \<Longrightarrow> sized_expr (env G) e \<Longrightarrow> N + depth_of_expr e \<le> n \<Longrightarrow>
      ph_evaluates G B (mist_template_evaluate n) e"
proof (induction t and e arbitrary: n and n)
  case (Ast c es cs)
  from Ast.prems(3) obtain k where k: "n = Suc k" by (cases n) simp_all
  have "ph_evaluates G B (mist_template_evaluate k) e \<and> refs_of_expr e \<subseteq> B" if "e \<in> set es" for e
  proof -
    have "depth_of_expr e \<le> fold max (map depth_of_expr es) 0" using that by (intro fold_max_depth(2)) simp
    then have "N + depth_of_expr e \<le> k" using Ast.prems(3) k by simp
    moreover have "refs_of_expr e \<subseteq> B" "sized_expr (env G) e" using Ast.prems(1,2) that by (auto simp: list_all_iff)
    ultimately show ?thesis using Ast.IH [OF that] by blast
  qed
  then show ?case unfolding k mist_template_evaluate.simps by (intro tree_step Ast.prems(2)) blast
next
  case (Ref r s)
  have "evaluates G B (mist_template_evaluate n)" by (rule N) (use Ref.prems(3) in simp)
  then show ?case by (rule ref_evaluates [OF _ G]) (use Ref.prems in simp_all)
next
  case (Cond cat r th el)
  have r: "\<forall>r\<in>refs_of th. good_values (env G r)" "\<forall>r\<in>refs_of el. good_values (env G r)"
    using Cond.prems(1) group_ok_good [OF G] by auto
  have z: "sized (env G) th" "sized (env G) el" using Cond.prems(2) by simp_all
  have "tree_evaluates G B (mist_template_evaluate n) th" "tree_evaluates G B (mist_template_evaluate n) el"
    using Cond.IH [of n] Cond.prems by auto
  moreover have "evaluates G B (mist_template_evaluate n)" by (rule N) (use Cond.prems(3) in simp)
  ultimately show ?case
    using Cond.prems(1) by (intro cond_evaluates [OF _ _ _ G _ denote_good(1) [OF r(1) z(1)] denote_good(1) [OF r(2) z(2)]])
      simp_all
qed

subsection \<open>Attributes\<close>

lemma attribute_evaluates:
  assumes "ready G st b" and "tree_of G b = None"
  shows "returns h (template_evaluate ev b st h)
    (\<lambda>st'. changes {b} st st' \<and> ready G st' b \<and> evaluated st' b (env G b))"
proof -
  from assms obtain t vs where t: "foot G b = {b}" "templates st b = Some t" "gsize (sch t) = 0" "gsize (phs t) = 0"
    "holds_values t vs" "if is_evaluated t then vs = env G b else (if vs = [] then [[]] else vs) = env G b"
    by (auto simp: ready_def)
  have res: "changes {b} st st' \<and> ready G st' b \<and> evaluated st' b (env G b)"
    if "st' = put_template b (t\<lparr>vals := g, is_evaluated := True\<rparr>) st" "grar_holds g (map Some (env G b))" for st' g
    using that t assms(2) by (auto simp: changes_def ready_def evaluated_def holds_values_def)
  show ?thesis
  proof (cases "is_evaluated t")
    case True
    then have "t\<lparr>vals := vals t, is_evaluated := True\<rparr> = t" by (cases t) simp
    then have "put_template b (t\<lparr>vals := vals t, is_evaluated := True\<rparr>) st = st" using put_same [OF t(2)] by simp
    then have "changes {b} st st \<and> ready G st b \<and> evaluated st b (env G b)"
      using res [of st "vals t"] t(5,6) True by (simp add: holds_values_def)
    then show ?thesis using True t(2) by (simp add: template_evaluate_def returns_def)
  next
    case False
    then have e: "template_evaluate ev b st h = evaluate_attribute b t st h" using t by (simp add: template_evaluate_def)
    have vs: "(if vs = [] then [[]] else vs) = env G b" using t(6) False by simp
    have g: "grar_holds (vals t) (map Some vs)" using t(5) by (simp add: holds_values_def)
    have sz: "gsize (vals t) = length vs" using grar_holds_bounds [OF g] by simp
    show ?thesis
    proof (cases "vs = []")
      case True
      with vs have env: "env G b = [[]]" by simp
      show ?thesis
      proof (cases rule: malloc_cases [of h])
        case (1 h1)
        then show ?thesis using ran_out_uses [OF 1(3)] sz True e
          by (simp add: evaluate_attribute_def returns_def)
      next
        case M: (2 h1)
        have g0: "grar_holds (vals t) ([] :: char list TGAElem list)" "length ([] :: char list TGAElem list) < 2 ^ 60"
          using g True by simp_all
        show ?thesis
        proof (cases rule: grar_add_cases [OF g0, of "Some []" h1])
          case (1 h2)
          then show ?thesis using M sz True e ran_out_before [OF M(3) 1(3)] ran_out_uses [OF ran_out_before [OF M(3) 1(3)]]
            by (simp add: evaluate_attribute_def returns_def)
        next
          case (2 g' h2)
          have "grar_holds g' (map Some (env G b))" using 2(2) env by simp
          from res [OF refl this] show ?thesis using M 2 sz True e uses_trans [OF M(3) 2(4)]
            by (simp add: evaluate_attribute_def returns_def)
        qed
      qed
    next
      case False
      then have "grar_holds (vals t) (map Some (env G b))" using g vs by simp
      from res [OF refl this] show ?thesis using False sz e by (simp add: evaluate_attribute_def returns_def)
    qed
  qed
qed

subsection \<open>Groups\<close>

text \<open>The templates of a group refer to members of smaller rank only, and the values of a member
  are what its tree denotes.  D is the depth of the trees.\<close>

definition acyclic_group :: "tgroup \<Rightarrow> tptr set \<Rightarrow> (tptr \<Rightarrow> nat) \<Rightarrow> nat \<Rightarrow> bool" where
  "acyclic_group G M rank D \<longleftrightarrow>
     group_ok G M \<and> 0 < D \<and>
     (\<forall>b\<in>M. case tree_of G b of
        None \<Rightarrow> True
      | Some t \<Rightarrow> sized (env G) t \<and> depth_of t \<le> D \<and> env G b = denote (env G) t \<and> refs_of t \<subseteq> {c \<in> M. rank c < rank b})"

lemma group_ok_mono: "group_ok G M \<Longrightarrow> B \<subseteq> M \<Longrightarrow> group_ok G B"
  unfolding group_ok_def by (meson subsetD)

lemma group_ok_apart: "group_ok G M \<Longrightarrow> b \<in> M \<Longrightarrow> c \<in> M \<Longrightarrow> b \<noteq> c \<Longrightarrow> foot G b \<inter> foot G c = {}"
  unfolding group_ok_def by meson

lemma region_apart:
  assumes "group_ok G M" and "b \<in> M" and "B \<subseteq> M" and "b \<notin> B"
  shows "foot G b \<inter> region G B = {}"
proof -
  have "foot G b \<inter> foot G c = {}" if "c \<in> B" for c
    by (rule group_ok_apart [OF assms(1,2)]) (use assms(3,4) that in auto)
  then show ?thesis by (auto simp: region_def)
qed

lemma ready_evaluated:
  assumes "ready G st b" and "tree_of G b = Some t" and "tree_in st' b (foot G b) t" and "evaluated st' b (env G b)"
  shows "ready G st' b"
  using assms evaluated_fresh [OF assms(4)] by (simp add: ready_def fresh_values_def)

lemma progress_member:
  assumes G: "group_ok G M" and B: "B \<subseteq> M" "b \<in> M" "b \<notin> B" and g: "group_ready G M st"
    and p: "changes (foot G b \<union> region G B) st st'" "group_ready G B st'" "keeps G B st st'"
    and b: "ready G st' b" "evaluated st' b (env G b)" and C: "insert b B \<subseteq> C" "C \<subseteq> M"
  shows "progress G C {} st st'"
proof -
  have r: "foot G b \<union> region G B \<subseteq> region G C" using C by (auto simp: region_def)
  have other: "agree (foot G c) st st'" if "c \<in> C" "c \<notin> insert b B" for c
  proof (rule changes_agree [OF p(1)])
    have "c \<in> M" "insert b B \<subseteq> M" using C B(1,2) that(1) by auto
    from region_apart [OF G this that(2)] show "(foot G b \<union> region G B) \<inter> foot G c = {}" by (auto simp: region_def)
  qed
  have rd: "ready G st c" if "c \<in> C" for c using g C that by (auto simp: group_ready_def)
  have "ready G st' c" if "c \<in> C" for c
  proof (cases "c \<in> insert b B")
    case True
    then show ?thesis using b(1) p(2) by (auto simp: group_ready_def)
  next
    case False
    from ready_agree [OF rd [OF that] other [OF that False]] show ?thesis .
  qed
  moreover have "evaluated st' c (env G c)" if "c \<in> C" "evaluated st c (env G c)" for c
  proof (cases "c \<in> insert b B")
    case True
    then show ?thesis using b(2) p(3) that(2) by (auto simp: keeps_def)
  next
    case False
    from agree_evaluated [OF other [OF that(1) False] foot_member [OF rd [OF that(1)]] that(2)] show ?thesis .
  qed
  ultimately show ?thesis using changes_mono [OF p(1) r] by (simp add: progress_def group_ready_def keeps_def)
qed

text \<open>Members of rank below r are evaluated with depth r * D.\<close>

lemma ranked_evaluates:
  assumes G: "acyclic_group G M rank D"
  shows "r * D \<le> n \<Longrightarrow> evaluates G {b \<in> M. rank b < r} (mist_template_evaluate n)"
proof (induction r arbitrary: n rule: less_induct)
  case (less r)
  have ok: "group_ok G M" "0 < D" using G by (simp_all add: acyclic_group_def)
  let ?C = "{b \<in> M. rank b < r}"
  show ?case unfolding evaluates_def
  proof (intro ballI allI impI)
    fix b st h
    assume b: "b \<in> ?C" and g: "group_ready G ?C st"
    let ?B = "{c \<in> M. rank c < rank b}"
    let ?Q = "\<lambda>st'. progress G ?C {} st st' \<and> evaluated st' b (env G b)"
    have B: "?B \<subseteq> ?C" "b \<in> ?C" "b \<notin> ?B" "insert b ?B \<subseteq> ?C" using b by auto
    have okC: "group_ok G ?C" by (rule group_ok_mono [OF ok(1)]) blast
    have rb: "ready G st b" using g b by (simp add: group_ready_def)
    note pm = progress_member [OF okC B(1-3) g _ _ _ _ _ B(4) order_refl]
    show "returns h (mist_template_evaluate n b st h) ?Q"
    proof (cases "tree_of G b")
      case None
      obtain k where "n = Suc k" using less.prems ok(2) b by (cases n) auto
      then have "returns h (mist_template_evaluate n b st h)
          (\<lambda>st'. changes {b} st st' \<and> ready G st' b \<and> evaluated st' b (env G b))"
        using attribute_evaluates [OF rb None] by simp
      then show ?thesis
      proof (rule returns_weaken, elim conjE)
        fix st' assume s: "changes {b} st st'" "ready G st' b" "evaluated st' b (env G b)"
        have F: "{b} = foot G b" using rb None by (simp add: ready_def)
        have gB: "group_ready G ?B st" using g B(1) by (auto simp: group_ready_def)
        have d: "foot G b \<inter> region G ?B = {}" by (rule region_apart [OF okC B(2,1,3)])
        from pm [OF changes_mono [OF s(1)[unfolded F]] group_ready_changes [OF gB s(1)[unfolded F] d] s(2,3)]
        show "?Q st'" using s(3) by simp
      qed
    next
      case (Some t)
      have t: "sized (env G) t" "depth_of t \<le> D" "env G b = denote (env G) t" "refs_of t \<subseteq> ?B"
      proof -
        have "b \<in> M" using b by simp
        then have "case tree_of G b of None \<Rightarrow> True | Some t \<Rightarrow> sized (env G) t \<and> depth_of t \<le> D \<and>
            env G b = denote (env G) t \<and> refs_of t \<subseteq> ?B" using G unfolding acyclic_group_def by blast
        then show "sized (env G) t" "depth_of t \<le> D" "env G b = denote (env G) t" "refs_of t \<subseteq> ?B" by (simp_all add: Some)
      qed
      have lo: "evaluates G ?B (mist_template_evaluate m)" if "rank b * D \<le> m" for m
        using less.IH [OF _ that] b by simp
      have okB: "group_ok G ?B" by (rule group_ok_mono [OF ok(1)]) blast
      have "Suc (rank b) * D \<le> r * D" using b by (intro mult_le_mono1) simp
      then have "rank b * D + depth_of t \<le> n" using less.prems t(2) by simp
      from tree_total(1) [OF lo okB t(4,1) this]
      have te: "tree_evaluates G ?B (mist_template_evaluate n) t" .
      have F: "tree_in st b (foot G b) t" "fresh_values st b (denote (env G) t)"
        using rb Some t(3) by (simp_all add: ready_def fresh_values_def)
      have gB: "group_ready G ?B st" using g B(1) by (auto simp: group_ready_def)
      have d: "foot G b \<inter> region G ?B = {}" by (rule region_apart [OF okC B(2,1,3)])
      have "returns h (mist_template_evaluate n b st h)
          (\<lambda>st'. progress G ?B (foot G b) st st' \<and> tree_in st' b (foot G b) t \<and> evaluated st' b (env G b))"
        using te F d gB unfolding tree_evaluates_def t(3) by blast
      then show ?thesis
      proof (rule returns_weaken, elim conjE)
        fix st' assume s: "progress G ?B (foot G b) st st'" "tree_in st' b (foot G b) t" "evaluated st' b (env G b)"
        from s(1) pm [OF _ _ _ ready_evaluated [OF rb Some s(2,3)] s(3)] s(3)
        show "?Q st'" by (simp add: progress_def)
      qed
    qed
  qed
qed

end
