(* ===== verification/Mist_Group_Spec.thy ===== *)
theory Mist_Group_Spec
  imports Mist_Group Mist_Evaluate_Total
begin

text \<open>
  Evaluating a template group: the flags are cleared and the main template is evaluated.
\<close>

text \<open>The members are in the store; an attribute without values counts as an empty one.\<close>

definition attribute_in :: "tstore \<Rightarrow> tptr \<Rightarrow> char list list \<Rightarrow> bool" where
  "attribute_in st b vs \<longleftrightarrow>
     (\<exists>t ws. templates st b = Some t \<and> gsize (sch t) = 0 \<and> gsize (phs t) = 0 \<and> holds_values t ws \<and>
        (if ws = [] then [[]] else ws) = vs)"

definition laid_out :: "tgroup \<Rightarrow> tptr set \<Rightarrow> tstore \<Rightarrow> bool" where
  "laid_out G M st \<longleftrightarrow>
     (\<forall>b\<in>M. case tree_of G b of
        None \<Rightarrow> foot G b = {b} \<and> attribute_in st b (env G b)
      | Some t \<Rightarrow> tree_in st b (foot G b) t)"

lemma laid_outD:
  assumes "laid_out G M st" and "b \<in> M"
  shows "tree_of G b = None \<Longrightarrow> foot G b = {b} \<and> attribute_in st b (env G b)"
    and "tree_of G b = Some t \<Longrightarrow> tree_in st b (foot G b) t"
  using assms unfolding laid_out_def by (auto dest!: bspec [of M _ b])

lemma laid_outI:
  assumes "\<And>b. b \<in> M \<Longrightarrow> tree_of G b = None \<Longrightarrow> foot G b = {b} \<and> attribute_in st b (env G b)"
    and "\<And>b t. b \<in> M \<Longrightarrow> tree_of G b = Some t \<Longrightarrow> tree_in st b (foot G b) t"
  shows "laid_out G M st"
  using assms unfolding laid_out_def by (auto split: option.splits)

definition not_evaluated :: "tptr set \<Rightarrow> tstore \<Rightarrow> bool" where
  "not_evaluated A st \<longleftrightarrow> (\<forall>a\<in>A. \<forall>t. templates st a = Some t \<longrightarrow> \<not> is_evaluated t)"

lemma laid_out_member:
  assumes "laid_out G M st" and "b \<in> M"
  obtains t where "templates st b = Some t" "b \<in> foot G b"
proof (cases "tree_of G b")
  case None
  then show thesis using laid_outD(1) [OF assms] that by (auto simp: attribute_in_def)
next
  case (Some x)
  then have t: "tree_in st b (foot G b) x" by (rule laid_outD(2) [OF assms])
  obtain c es cs where x: "x = Ast c es cs" by (cases x) auto
  from t [unfolded x] obtain F t' ps vs where "templates st b = Some t'" by (rule tree_in_Ast)
  then show thesis using that tree_in_root [OF t] by blast
qed

lemma laid_out_put:
  assumes G: "group_ok G M" and l: "laid_out G M st" and a: "a \<in> M" and t: "templates st a = Some t"
  shows "laid_out G M (put_template a (t\<lparr>is_evaluated := False\<rparr>) st)"
proof (rule laid_outI)
  let ?st = "put_template a (t\<lparr>is_evaluated := False\<rparr>) st"
  fix b assume b: "b \<in> M" "tree_of G b = None"
  from laid_outD(1) [OF l b] obtain t' vs where f: "foot G b = {b}" and t': "templates st b = Some t'"
    "gsize (sch t') = 0" "gsize (phs t') = 0" "holds_values t' vs" "(if vs = [] then [[]] else vs) = env G b"
    by (auto simp: attribute_in_def)
  have "attribute_in ?st b (env G b)"
    unfolding attribute_in_def using t t'
    by (intro exI [of _ "if b = a then t\<lparr>is_evaluated := False\<rparr> else t'"] exI [of _ vs]) (auto simp: holds_values_def)
  then show "foot G b = {b} \<and> attribute_in ?st b (env G b)" using f by simp
next
  let ?st = "put_template a (t\<lparr>is_evaluated := False\<rparr>) st"
  fix b x assume b: "b \<in> M" "tree_of G b = Some x"
  have x: "tree_in st b (foot G b) x" by (rule laid_outD(2) [OF l b])
  show "tree_in ?st b (foot G b) x"
  proof (cases "b = a")
    case True
    obtain c es cs where ax: "x = Ast c es cs" by (cases x) auto
    from x [unfolded ax] obtain F t' ps vs where "templates st b = Some t'" "holds_values t' vs" by (rule tree_in_Ast)
    then show ?thesis using True t tree_in_put [of st a "foot G a" x t "t\<lparr>is_evaluated := False\<rparr>" vs] x
      by (simp add: holds_values_def)
  next
    case False
    have "a \<in> foot G a" by (rule laid_out_member [OF l a])
    then have "a \<notin> foot G b" using group_ok_apart [OF G b(1) a False] by blast
    then have "agree (foot G b) st ?st" by (auto simp: agree_def)
    then show ?thesis by (rule tree_in_agree(1) [OF x])
  qed
qed

lemma clear_flags_ok:
  assumes "group_ok G M" and "laid_out G M st" and "set as \<subseteq> M" and "not_evaluated A st"
  shows "\<exists>st'. clear_flags (map Some as) st = Some st' \<and> laid_out G M st' \<and> not_evaluated (A \<union> set as) st'"
  using assms(2-)
proof (induction as arbitrary: A st)
  case (Cons a as)
  then have a: "a \<in> M" "set as \<subseteq> M" by simp_all
  from laid_out_member [OF Cons.prems(1) a(1)] obtain t where t: "templates st a = Some t" by blast
  let ?st = "put_template a (t\<lparr>is_evaluated := False\<rparr>) st"
  have "not_evaluated (insert a A) ?st" using Cons.prems(3) by (simp add: not_evaluated_def)
  from Cons.IH [OF laid_out_put [OF assms(1) Cons.prems(1) a(1) t] a(2) this] show ?case using t by simp
qed simp

lemma laid_out_ready:
  assumes "laid_out G M st" and "not_evaluated M st"
  shows "group_ready G M st"
  unfolding group_ready_def
proof
  fix b assume b: "b \<in> M"
  have n: "\<not> is_evaluated t" if "templates st b = Some t" for t using assms(2) b that by (simp add: not_evaluated_def)
  show "ready G st b"
  proof (cases "tree_of G b")
    case None
    from laid_outD(1) [OF assms(1) b None] obtain t vs where t: "foot G b = {b}" "templates st b = Some t"
      "gsize (sch t) = 0" "gsize (phs t) = 0" "holds_values t vs" "(if vs = [] then [[]] else vs) = env G b"
      by (auto simp: attribute_in_def)
    then show ?thesis using n [OF t(2)] unfolding ready_def None option.case
      by (intro conjI exI [of _ t] exI [of _ vs]) simp_all
  next
    case (Some x)
    then show ?thesis using laid_outD(2) [OF assms(1) b] n by (auto simp: ready_def)
  qed
qed

lemma ready_laid_out:
  assumes "group_ok G M" and "group_ready G M st"
  shows "laid_out G M st"
proof (rule laid_outI)
  fix b assume b: "b \<in> M" "tree_of G b = None"
  then have r: "ready G st b" using assms(2) by (simp add: group_ready_def)
  have e: "env G b \<noteq> []" using group_ok_good [OF assms(1) b(1)] by (simp add: good_values_def)
  from r b(2) obtain t vs where "foot G b = {b}" "templates st b = Some t" "gsize (sch t) = 0" "gsize (phs t) = 0"
    "holds_values t vs" "if is_evaluated t then vs = env G b else (if vs = [] then [[]] else vs) = env G b"
    by (auto simp: ready_def)
  then show "foot G b = {b} \<and> attribute_in st b (env G b)"
    using e unfolding attribute_in_def by (intro conjI exI [of _ t] exI [of _ vs]) (auto split: if_splits)
next
  fix b t assume "b \<in> M" "tree_of G b = Some t"
  then show "tree_in st b (foot G b) t" using assms(2) by (auto simp: group_ready_def ready_def)
qed

lemma tg_evaluate_ok:
  assumes G: "acyclic_group G M rank D" "\<forall>b\<in>M. rank b < R" "R * D \<le> n"
    and g: "grar_holds (tg_tpl mtg) (map Some ms)" "set ms = M" "tg_main mtg \<in> M" and l: "laid_out G M st"
  shows "\<exists>r st' h'. mist_tg_evaluate_impl n mtg st h = Some (r, st', h') \<and> uses h h' \<and>
    (case r of Some vs \<Rightarrow> grar_holds vs (map Some (env G (tg_main mtg))) \<and> laid_out G M st'
     | None \<Rightarrow> ran_out h h')"
proof -
  have ok: "group_ok G M" using G(1) by (simp add: acyclic_group_def)
  have sz: "gsize (tg_tpl mtg) \<noteq> 0" using grar_holds_bounds [OF g(1)] g(2,3) by auto
  have n0: "not_evaluated {} st" by (simp add: not_evaluated_def)
  from clear_flags_ok [OF ok l _ n0, of ms] g(2) obtain st1 where
    c: "clear_flags (map Some ms) st = Some st1" "laid_out G M st1" "not_evaluated M st1" by auto
  have "{b \<in> M. rank b < R} = M" using G(2) by blast
  then have "evaluates G M (mist_template_evaluate n)" using ranked_evaluates [OF G(1,3)] by simp
  then have r: "returns h (mist_template_evaluate n (tg_main mtg) st1 h)
      (\<lambda>st'. progress G M {} st1 st' \<and> evaluated st' (tg_main mtg) (env G (tg_main mtg)))"
    using g(3) laid_out_ready [OF c(2,3)] by (simp add: evaluates_def)
  have e: "mist_tg_evaluate_impl n mtg st h =
      do { (ec, st, h) \<leftarrow> mist_template_evaluate n (tg_main mtg) st1 h;
           if ec \<noteq> MIST_OK then Some (None, st, h)
           else do { t \<leftarrow> templates st (tg_main mtg); Some (Some (vals t), st, h) } }"
    using sz elements [OF g(1)] c(1) by (simp add: mist_tg_evaluate_impl_def)
  from r show ?thesis
  proof (cases rule: returnsE)
    case (1 st' h')
    then obtain t where t: "templates st' (tg_main mtg) = Some t" "holds_values t (env G (tg_main mtg))"
      by (auto simp: evaluated_def)
    have "laid_out G M st'" using 1(3) by (intro ready_laid_out [OF ok]) (simp add: progress_def)
    then show ?thesis using 1(1,2) t by (simp add: e holds_values_def)
  next
    case (2 st' h')
    then show ?thesis using ran_out_uses [OF 2(2)] by (simp add: e)
  qed
qed

end
