(* ===== verification/Mist_Group_Path.thy ===== *)
theory Mist_Group_Path
  imports Mist_Group_Spec Grar_Spec
begin

text \<open>
  Setting the values of a group and generating a path: members are found by name, values that
  are given for the same name are kept in the order of the string map.
\<close>

subsection \<open>Members by name\<close>

definition sorted_members :: "tstore \<Rightarrow> tptr list \<Rightarrow> bool" where
  "sorted_members st ms \<longleftrightarrow> length ms < 2 ^ 31 \<and> list_all (\<lambda>a. templates st a \<noteq> None) ms \<and>
     sorted_wrt (\<lambda>a b. strcmp (name_at st a) (name_at st b) < 0) ms"

lemma find_template_ok:
  assumes g: "grar_holds g (map Some ms)" and s: "sorted_members st ms"
  shows "(\<exists>a. a \<in> set ms \<and> name_at st a = name \<and>
            (\<exists>i. find_template bs g name st = Some i \<and> i \<noteq> - 1 \<and> template_at g i = Some a)) \<or>
         find_template bs g name st = Some (- 1) \<and> (\<forall>a\<in>set ms. name_at st a \<noteq> name)"
proof -
  have all: "all_templates g st = Some ms" using elements [OF g] s by (simp add: all_templates_def sorted_members_def)
  have "sorted_wrt (\<lambda>a b. strcmp (name_at st a) (name_at st b) \<le> 0) ms"
    by (rule sorted_wrt_mono_rel [of ms "\<lambda>a b. strcmp (name_at st a) (name_at st b) < 0"])
      (use s in \<open>simp_all add: sorted_members_def\<close>)
  from strcmp_searchable [OF this, of name] grar_find_ok [OF g, of "\<lambda>name a. strcmp name (name_at st a)" name bs] s
  obtain i where i: "grar_find bs g name (\<lambda>name a. strcmp name (name_at st a)) = Some i"
    "i = - 1 \<and> (\<forall>x\<in>set ms. strcmp name (name_at st x) \<noteq> 0) \<or>
     0 \<le> i \<and> nat i < length ms \<and> strcmp name (name_at st (ms ! nat i)) = 0"
    unfolding sorted_members_def by blast
  have f: "find_template bs g name st = Some i" using all i(1) by (simp add: find_template_def)
  from i(2) show ?thesis
  proof (elim disjE conjE)
    assume "i = - 1" "\<forall>x\<in>set ms. strcmp name (name_at st x) \<noteq> 0"
    then show ?thesis using f by (auto simp: strcmp_0)
  next
    assume n: "0 \<le> i" "nat i < length ms" "strcmp name (name_at st (ms ! nat i)) = 0"
    have "template_at g i = Some (ms ! nat i)" using n get_element [OF g, of "nat i"] by (simp add: template_at_def)
    then show ?thesis using f n nth_mem [OF n(2)] by (intro disjI1 exI [of _ "ms ! nat i"]) (auto simp: strcmp_0)
  qed
qed

lemma sorted_members_names:
  assumes "sorted_members st ms" and "a \<in> set ms" and "b \<in> set ms" and "name_at st a = name_at st b"
  shows "a = b"
proof (rule ccontr)
  assume "a \<noteq> b"
  obtain i j where ij: "i < length ms" "ms ! i = a" "j < length ms" "ms ! j = b"
    using assms(2,3) by (auto simp: in_set_conv_nth)
  then have "i \<noteq> j" using \<open>a \<noteq> b\<close> by blast
  then consider "i < j" | "j < i" by linarith
  then have "strcmp (name_at st a) (name_at st b) < 0 \<or> strcmp (name_at st b) (name_at st a) < 0"
    using assms(1) ij sorted_wrt_nth_less [of _ ms] unfolding sorted_members_def by cases blast+
  then show False using assms(4) strcmp_0 [of "name_at st b" "name_at st b"] by simp
qed

subsection \<open>Setting values\<close>

definition given :: "TStringPair list \<Rightarrow> char list \<Rightarrow> char list list" where
  "given kvs name = map pval (filter (\<lambda>p. pkey p = name) kvs)"

lemma given_simps [simp]: "given [] name = []"
  "given (kv # kvs) name = (if pkey kv = name then pval kv # given kvs name else given kvs name)"
  by (simp_all add: given_def)

definition or_empty :: "char list list \<Rightarrow> char list list" where
  "or_empty vs = (if vs = [] then [[]] else vs)"

text \<open>The members are laid out when the pairs are added.\<close>

definition pending_member :: "tgroup \<Rightarrow> TStringPair list \<Rightarrow> tstore \<Rightarrow> tptr \<Rightarrow> bool" where
  "pending_member G kvs st b \<longleftrightarrow>
     (\<exists>t us. templates st b = Some t \<and> holds_values t us \<and> length us + length kvs < 2 ^ 60 \<and>
        (case tree_of G b of
           None \<Rightarrow> foot G b = {b} \<and> gsize (sch t) = 0 \<and> gsize (phs t) = 0 \<and>
             or_empty (us @ given kvs (tpl_name t)) = env G b
         | Some x \<Rightarrow> tree_in st b (foot G b) x))"

definition pending_values :: "tgroup \<Rightarrow> tptr set \<Rightarrow> TStringPair list \<Rightarrow> tstore \<Rightarrow> bool" where
  "pending_values G M kvs st \<longleftrightarrow> (\<forall>b\<in>M. pending_member G kvs st b)"

lemma pending_laid_out: "pending_values G M [] st \<Longrightarrow> laid_out G M st"
proof (rule laid_outI)
  fix b assume b: "pending_values G M [] st" "b \<in> M" "tree_of G b = None"
  then have "pending_member G [] st b" by (simp add: pending_values_def)
  then obtain t us where "templates st b = Some t" "holds_values t us" "foot G b = {b}" "gsize (sch t) = 0"
    "gsize (phs t) = 0" "or_empty us = env G b" using b(3) by (auto simp: pending_member_def)
  then show "foot G b = {b} \<and> attribute_in st b (env G b)" unfolding attribute_in_def or_empty_def by blast
next
  fix b t assume "pending_values G M [] st" "b \<in> M" "tree_of G b = Some t"
  then show "tree_in st b (foot G b) t" by (auto simp: pending_values_def pending_member_def)
qed

lemma pending_root:
  assumes "pending_member G kvs st b"
  shows "b \<in> foot G b"
proof (cases "tree_of G b")
  case None
  then show ?thesis using assms by (auto simp: pending_member_def)
next
  case (Some x)
  then show ?thesis using assms tree_in_root by (auto simp: pending_member_def)
qed

lemma pending_other:
  assumes "pending_member G (kv # kvs) st b" and "agree (foot G b) st st'" and "name_at st b \<noteq> pkey kv"
  shows "pending_member G kvs st' b"
proof -
  from assms(1) obtain t us where t: "templates st b = Some t" "holds_values t us" "length us + length (kv # kvs) < 2 ^ 60"
    "case tree_of G b of
       None \<Rightarrow> foot G b = {b} \<and> gsize (sch t) = 0 \<and> gsize (phs t) = 0 \<and>
         or_empty (us @ given (kv # kvs) (tpl_name t)) = env G b
     | Some x \<Rightarrow> tree_in st b (foot G b) x" unfolding pending_member_def by blast
  have g: "given (kv # kvs) (tpl_name t) = given kvs (tpl_name t)" using assms(3) t(1) by (auto simp: name_at_def)
  have t': "templates st' b = Some t" using assms(2) pending_root [OF assms(1)] t(1) by (simp add: agree_def)
  show ?thesis
  proof (cases "tree_of G b")
    case None
    then show ?thesis using t t' unfolding pending_member_def g by (intro exI [of _ t] exI [of _ us]) simp
  next
    case (Some x)
    then have "tree_in st' b (foot G b) x" using t(4) tree_in_agree(1) [OF _ assms(2)] by simp
    then show ?thesis using t t' Some unfolding pending_member_def by (intro exI [of _ t] exI [of _ us]) simp
  qed
qed

lemma pending_absent:
  assumes "pending_member G (kv # kvs) st b" and "name_at st b \<noteq> pkey kv"
  shows "pending_member G kvs st b"
  by (rule pending_other [OF assms(1) _ assms(2)]) (simp add: agree_def)

lemma template_add_value_ok:
  assumes "templates st a = Some t" and "holds_values t us" and "length us < 2 ^ 60"
  shows "returns h (mist_template_add_value a val st h)
    (\<lambda>st'. \<exists>g. st' = put_template a (t\<lparr>vals := g\<rparr>) st \<and> grar_holds g (map Some (us @ [val])))"
proof (cases rule: malloc_cases [of h])
  case (1 h1)
  then show ?thesis using ran_out_uses [OF 1(3)] by (simp add: mist_template_add_value_def returns_def)
next
  case M: (2 h1)
  have g: "grar_holds (vals t) (map Some us)" "length (map Some us) < 2 ^ 60" using assms(2,3) by (simp_all add: holds_values_def)
  show ?thesis
  proof (cases rule: grar_add_cases [OF g, of "Some val" h1])
    case (1 h2)
    then show ?thesis using M assms(1) ran_out_before [OF M(3) 1(3)] ran_out_uses [OF ran_out_before [OF M(3) 1(3)]]
      by (simp add: mist_template_add_value_def returns_def)
  next
    case (2 g' h2)
    then have "mist_template_add_value a val st h = Some (MIST_OK, put_template a (t\<lparr>vals := g'\<rparr>) st, h2)"
      using M assms(1) by (simp add: mist_template_add_value_def)
    then show ?thesis using uses_trans [OF M(3) 2(4)] 2(2) unfolding returns_def by auto
  qed
qed

lemma pending_added:
  assumes p: "pending_member G (kv # kvs) st a" and t: "templates st a = Some t" "holds_values t us" and k: "tpl_name t = pkey kv"
    and g: "grar_holds g (map Some (us @ [pval kv]))"
  shows "pending_member G kvs (put_template a (t\<lparr>vals := g\<rparr>) st) a"
proof -
  let ?t = "t\<lparr>vals := g\<rparr>" and ?st = "put_template a (t\<lparr>vals := g\<rparr>) st"
  from p t(1) obtain us' where P: "holds_values t us'" "length us' + length (kv # kvs) < 2 ^ 60"
    "case tree_of G a of
       None \<Rightarrow> foot G a = {a} \<and> gsize (sch t) = 0 \<and> gsize (phs t) = 0 \<and>
         or_empty (us' @ given (kv # kvs) (tpl_name t)) = env G a
     | Some x \<Rightarrow> tree_in st a (foot G a) x" unfolding pending_member_def by auto
  have us: "us' = us" using grar_holds_eq P(1) t(2) unfolding holds_values_def by fastforce
  have h: "holds_values ?t (us @ [pval kv])" using g by (simp add: holds_values_def)
  have l: "length (us @ [pval kv]) + length kvs < 2 ^ 60" using P(2) us by simp
  have st: "templates ?st a = Some ?t" by simp
  show ?thesis
  proof (cases "tree_of G a")
    case None
    then show ?thesis using P(3) h l st k unfolding pending_member_def us
      by (intro exI [of _ ?t] exI [of _ "us @ [pval kv]"]) simp
  next
    case (Some x)
    then have "tree_in ?st a (foot G a) x" using P(3) tree_in_put [OF _ t(1) h, of "foot G a" x] by simp
    then show ?thesis using Some h l st unfolding pending_member_def
      by (intro exI [of _ ?t] exI [of _ "us @ [pval kv]"]) simp
  qed
qed

lemma add_value_ok:
  assumes G: "group_ok G M" and g: "grar_holds (tg_tpl mtg) (map Some ms)" "set ms = M" "sorted_members st ms"
    and p: "pending_values G M (kv # kvs) st"
  shows "returns h (mist_tg_add_value_impl bs mtg (pkey kv) (pval kv) st h)
    (\<lambda>st'. sorted_members st' ms \<and> pending_values G M kvs st' \<and> name_at st' = name_at st)"
proof (cases rule: malloc_cases [of h])
  case (1 h1)
  then show ?thesis using ran_out_uses [OF 1(3)] by (simp add: mist_tg_add_value_impl_def returns_def)
next
  case m: (2 h1)
  have pm: "pending_member G (kv # kvs) st b" if "b \<in> M" for b using p that by (simp add: pending_values_def)
  show ?thesis
  proof (cases "find_template bs (tg_tpl mtg) (pkey kv) st = Some (- 1)")
    case True
    then have no: "name_at st b \<noteq> pkey kv" if "b \<in> M" for b
      using find_template_ok [OF g(1,3), of "pkey kv" bs] that g(2) by auto
    have "pending_values G M kvs st" using pending_absent [OF pm no] by (simp add: pending_values_def)
    then show ?thesis using True m g(3) by (simp add: mist_tg_add_value_impl_def returns_def)
  next
    case False
    with find_template_ok [OF g(1,3), of "pkey kv" bs] obtain a i where
      a: "a \<in> M" "name_at st a = pkey kv" "find_template bs (tg_tpl mtg) (pkey kv) st = Some i" "i \<noteq> - 1"
        "template_at (tg_tpl mtg) i = Some a" using g(2) by auto
    from pm [OF a(1)] obtain t us where t: "templates st a = Some t" "holds_values t us" "length us + length (kv # kvs) < 2 ^ 60"
      unfolding pending_member_def by blast
    have k: "tpl_name t = pkey kv" using a(2) t(1) by (simp add: name_at_def)
    have e: "mist_tg_add_value_impl bs mtg (pkey kv) (pval kv) st h = mist_template_add_value a (pval kv) st (mfree h1)"
      using m(1) a(3-5) by (simp add: mist_tg_add_value_impl_def)
    have l: "length us < 2 ^ 60" using t(3) by simp
    have "returns (mfree h1) (mist_template_add_value a (pval kv) st (mfree h1))
        (\<lambda>st'. sorted_members st' ms \<and> pending_values G M kvs st' \<and> name_at st' = name_at st)"
    proof (rule returns_weaken [OF template_add_value_ok [OF t(1,2) l]], elim exE conjE)
      fix st' g'
      assume st': "st' = put_template a (t\<lparr>vals := g'\<rparr>) st" and g': "grar_holds g' (map Some (us @ [pval kv]))"
      have n: "name_at st' = name_at st" using t(1) st' by (auto simp: name_at_def)
      have s: "sorted_members st' ms" using g(3) unfolding sorted_members_def n
        by (auto simp: st' list_all_iff)
      have "pending_member G kvs st' b" if b: "b \<in> M" for b
      proof (cases "b = a")
        case True
        then show ?thesis using pending_added [OF pm [OF a(1)] t(1,2) k g'] st' by simp
      next
        case False
        have "name_at st b \<noteq> pkey kv" using sorted_members_names [OF g(3), of b a] a(1,2) b g(2) False by auto
        moreover have "a \<notin> foot G b" using group_ok_apart [OF G b a(1) False] pending_root [OF pm [OF a(1)]] by blast
        then have "agree (foot G b) st st'" by (auto simp: agree_def st')
        ultimately show ?thesis using pending_other [OF pm [OF b]] by blast
      qed
      then show "sorted_members st' ms \<and> pending_values G M kvs st' \<and> name_at st' = name_at st"
        using n s by (simp add: pending_values_def)
    qed
    then show ?thesis unfolding e using returns_later m(3) uses_mfree by blast
  qed
qed

lemma add_pairs_ok:
  assumes "group_ok G M" and "grar_holds (tg_tpl mtg) (map Some ms)" and "set ms = M"
    and "sorted_members st ms" and "pending_values G M kvs st"
  shows "returns h (add_pairs bs mtg (map Some kvs) st h)
    (\<lambda>st'. sorted_members st' ms \<and> pending_values G M [] st' \<and> name_at st' = name_at st)"
  using assms(4,5)
proof (induction kvs arbitrary: st h)
  case Nil
  then show ?case by (simp add: returns_def)
next
  case (Cons kv kvs)
  from add_value_ok [OF assms(1-3) Cons.prems, of h bs]
  show ?case unfolding list.map add_pairs.simps bind.simps
  proof (rule returns_bind, elim conjE)
    fix st1 h1 assume s: "sorted_members st1 ms" "pending_values G M kvs st1" "name_at st1 = name_at st"
    from Cons.IH [OF s(1,2), of h1] show "returns h1 (add_pairs bs mtg (map Some kvs) st1 h1)
        (\<lambda>st'. sorted_members st' ms \<and> pending_values G M [] st' \<and> name_at st' = name_at st)" using s(3) by simp
  qed
qed

end
