(* ===== verification/Group_Properties.thy ===== *)
theory Group_Properties
  imports Mist_Group_Path Template_Properties
begin

text \<open>
  The properties of the template groups of the mist engine.  They hold whichever allocations
  fail, and for any qsort and bsearch.
\<close>

lemma path_string_ok:
  assumes G: "acyclic_group G M rank D" "\<forall>b\<in>M. rank b < R" "R * D \<le> n"
    and g: "grar_holds (tg_tpl mtg) (map Some ms)" "set ms = M" "tg_main mtg \<in> M" "sorted_members st ms"
    and kvs: "grar_holds (container params) (map Some kvs)" "pending_values G M kvs st"
  defines "vs \<equiv> env G (tg_main mtg)"
  shows "mist_tg_generate_path_string_impl n bs mtg params st h = None \<and> vs = [[]] \<or>
    (\<exists>r m st' h'. mist_tg_generate_path_string_impl n bs mtg params st h = Some (r, m, st', h') \<and> uses h h' \<and>
      (case r of
         Some path \<Rightarrow> vs = [path] \<and> m = None \<and> laid_out G M st'
       | None \<Rightarrow> ran_out h h' \<or> length vs \<noteq> 1 \<and> map_option msg_format m = Some errMainTplMultivalued))"
proof -
  have ok: "group_ok G M" using G(1) by (simp add: acyclic_group_def)
  have s: "mist_tg_set_values_impl bs mtg params st h = add_pairs bs mtg (map Some kvs) st h"
    using elements [OF kvs(1)] by (simp add: mist_tg_set_values_impl_def)
  from add_pairs_ok [OF ok g(1,2,4) kvs(2), of h bs] show ?thesis
  proof (cases rule: returnsE)
    case (2 st1 h1)
    then show ?thesis using ran_out_uses [OF 2(2)] by (simp add: mist_tg_generate_path_string_impl_def s)
  next
    case (1 st1 h1)
    then have l: "laid_out G M st1" using pending_laid_out by blast
    from tg_evaluate_ok [OF G g(1-3) l, of h1] obtain r st2 h2 where
      e: "mist_tg_evaluate_impl n mtg st1 h1 = Some (r, st2, h2)" "uses h1 h2"
        "case r of Some g \<Rightarrow> grar_holds g (map Some vs) \<and> laid_out G M st2 | None \<Rightarrow> ran_out h1 h2"
      unfolding vs_def by blast
    have u: "uses h h2" by (rule uses_trans [OF 1(2) e(2)])
    show ?thesis
    proof (cases r)
      case None
      then have "ran_out h h2" using e(3) ran_out_before [OF 1(2)] by simp
      then show ?thesis using 1(1) e(1) None u by (simp add: mist_tg_generate_path_string_impl_def s)
    next
      case (Some g)
      then have v: "grar_holds g (map Some vs)" "laid_out G M st2" using e(3) by simp_all
      have sz: "gsize g = length vs" using grar_holds_bounds [OF v(1)] by simp
      have ne: "vs \<noteq> []" using group_ok_good [OF ok g(3)] by (simp add: vs_def good_values_def)
      show ?thesis
      proof (cases "length vs = 1")
        case True
        then obtain path where p: "vs = [path]" by (cases vs) auto
        then have "grar_get_element g 0 = Some (Some path)" using get_element [OF v(1), of 0] by simp
        then show ?thesis using 1(1) e(1) Some sz p v(2) u
          by (cases "path = []") (simp_all add: mist_tg_generate_path_string_impl_def s)
      next
        case False
        then have eq: "mist_tg_generate_path_string_impl n bs mtg params st h =
            (let (m, h) = format_name_error errMainTplMultivalued (name_at st2 (tg_main mtg)) h2 in Some (None, m, st2, h))"
          using 1(1) e(1) Some sz ne by (simp add: mist_tg_generate_path_string_impl_def s)
        show ?thesis
        proof (cases rule: malloc_cases [of h2])
          case (1 h3)
          then show ?thesis using eq u ran_out_before [OF u 1(3)] ran_out_uses [OF ran_out_before [OF u 1(3)]]
            by (simp add: format_name_error_def)
        next
          case (2 h3)
          then show ?thesis using eq uses_trans [OF u 2(3)] False by (simp add: format_name_error_def)
        qed
      qed
    qed
  qed
qed

subsection \<open>Recursion\<close>

lemma clear_flags_keep:
  "\<forall>b\<in>set ms. templates st b \<noteq> None \<Longrightarrow>
   \<exists>st'. clear_flags (map Some ms) st = Some st' \<and> placeholders st' = placeholders st \<and>
     (\<forall>b x. templates st b = Some x \<longrightarrow> (\<exists>f. templates st' b = Some (x\<lparr>is_evaluated := f\<rparr>)))"
proof (induction ms arbitrary: st)
  case Nil
  have "\<exists>f. x = x\<lparr>is_evaluated := f\<rparr>" for x :: CMistTemplate by (rule exI [of _ "is_evaluated x"]) simp
  then show ?case by auto
next
  case (Cons c ms)
  from Cons.prems obtain x where c: "templates st c = Some x" by auto
  let ?st = "put_template c (x\<lparr>is_evaluated := False\<rparr>) st"
  have "\<forall>b\<in>set ms. templates ?st b \<noteq> None" using Cons.prems by simp
  from Cons.IH [OF this] obtain st' where s: "clear_flags (map Some ms) ?st = Some st'"
    "placeholders st' = placeholders st"
    "\<And>b y. templates ?st b = Some y \<Longrightarrow> \<exists>f. templates st' b = Some (y\<lparr>is_evaluated := f\<rparr>)"
    by auto
  have "\<exists>f. templates st' b = Some (y\<lparr>is_evaluated := f\<rparr>)" if "templates st b = Some y" for b y
    using s(3) [of b] that c by (cases "b = c") auto
  then show ?case using s(1,2) c by auto
qed

lemma clear_flags_at:
  "clear_flags es st = Some st' \<Longrightarrow> templates st a = Some t \<Longrightarrow> Some a \<in> set es \<or> \<not> is_evaluated t \<Longrightarrow>
     templates st' a = Some (t\<lparr>is_evaluated := False\<rparr>)"
proof (induction es arbitrary: st t)
  case Nil
  then show ?case by (cases t) simp
next
  case (Cons e es)
  from Cons.prems(1) obtain c x where c: "e = Some c" "templates st c = Some x"
    "clear_flags es (put_template c (x\<lparr>is_evaluated := False\<rparr>) st) = Some st'" by (auto split: Option.bind_splits)
  define t1 where "t1 = (if a = c then t\<lparr>is_evaluated := False\<rparr> else t)"
  have "templates (put_template c (x\<lparr>is_evaluated := False\<rparr>) st) a = Some t1"
    using Cons.prems(2) c(2) by (auto simp: t1_def)
  from Cons.IH [OF c(3) this] Cons.prems(3) c(1) show ?case by (auto simp: t1_def)
qed

text \<open>Emptying a template keeps the placeholders and the other templates.\<close>

abbreviation has_values :: "tstore \<Rightarrow> tptr \<Rightarrow> bool" where
  "has_values st b \<equiv> \<exists>x vs. templates st b = Some x \<and> grar_holds (vals x) (map Some vs)"

lemma clear_keeps:
  assumes "has_values st b"
  shows "\<exists>st' h'. mist_template_clear_values b st h = Some (st', h') \<and> placeholders st' = placeholders st \<and>
    (\<forall>c. c \<noteq> b \<longrightarrow> templates st' c = templates st c) \<and> (\<forall>c. has_values st c \<longrightarrow> has_values st' c)"
proof -
  from assms obtain x vs where x: "templates st b = Some x" "grar_holds (vals x) (map Some vs)" by blast
  then have "holds_values x vs" by (simp add: holds_values_def)
  from clear_values_ok [OF x(1) this, of h] obtain g h' where
    c: "mist_template_clear_values b st h = Some (put_template b (x\<lparr>vals := g, is_evaluated := False\<rparr>) st, h')"
      "grar_holds g (map Some [])" by auto
  let ?st = "put_template b (x\<lparr>vals := g, is_evaluated := False\<rparr>) st"
  have "has_values ?st d" if "has_values st d" for d
    using that c(2) by (cases "d = b") (auto intro: exI [of _ "[]"])
  then show ?thesis using c(1) by auto
qed

text \<open>The condition of a conditional on an evaluated template is not evaluated again.\<close>

lemma own_condition:
  assumes p: "placeholders st ph = Some p" "ph_type p = MPH_COND" "tpl_cond p = Some a"
      "tpl p = Some m" "tpl_then p = Some b" "tpl_else p = Some c" "a \<notin> {m, b, c}"
    and v: "has_values st m" "has_values st b" "has_values st c"
    and t: "templates st a = Some t" "is_evaluated t" "gsize (vals t) = 0"
  shows "\<exists>st' h'. templates st' a = Some t \<and>
     (\<forall>ev. evaluate_condition (template_evaluate ev) p m st h = Some (MIST_OK, st', h') \<and>
           mist_placeholder_evaluate (template_evaluate ev) ph st h = None)"
proof -
  from clear_keeps [OF v(1), of h] obtain s1 h1 where
    1: "mist_template_clear_values m st h = Some (s1, h1)" "\<And>d. d \<noteq> m \<Longrightarrow> templates s1 d = templates st d"
      and k1: "\<And>d. has_values st d \<Longrightarrow> has_values s1 d" by blast
  from clear_keeps [OF k1 [OF v(2)], of h1] obtain s2 h2 where
    2: "mist_template_clear_values b s1 h1 = Some (s2, h2)" "\<And>d. d \<noteq> b \<Longrightarrow> templates s2 d = templates s1 d"
      and k2: "\<And>d. has_values s1 d \<Longrightarrow> has_values s2 d" by blast
  from clear_keeps [OF k2 [OF k1 [OF v(3)]], of h2] obtain s3 h3 where
    3: "mist_template_clear_values c s2 h2 = Some (s3, h3)" "\<And>d. d \<noteq> c \<Longrightarrow> templates s3 d = templates s2 d" by blast
  have a: "templates s3 a = Some t" using 1(2) 2(2) 3(2) p(7) t(1) by simp
  have "evaluate_condition (template_evaluate ev) p m st h = template_evaluate ev a s3 h3" for ev
    by (simp add: evaluate_condition_def p 1(1) 2(1) 3(1))
  also have "template_evaluate ev a s3 h3 = Some (MIST_OK, s3, h3)" for ev
    using a t(2) by (simp add: template_evaluate_def)
  finally have e: "evaluate_condition (template_evaluate ev) p m st h = Some (MIST_OK, s3, h3)" for ev .
  then have "mist_placeholder_evaluate (template_evaluate ev) ph st h = None" for ev
    by (simp add: mist_placeholder_evaluate_def evaluate_conditional_def p a t(3))
  then show ?thesis using a e by blast
qed

lemma recursive_condition_aborts:
  assumes t: "templates st a = Some t" "grar_holds (vals t) (map Some vs)" "gsize (sch t) = gsize (phs t) + 1"
      "grar_holds (phs t) (map Some (ph # ps))"
    and g: "grar_holds (tg_tpl mtg) (map Some ms)" "\<forall>b\<in>set ms. templates st b \<noteq> None" "a \<in> set ms" "tg_main mtg = a"
    and p: "placeholders st ph = Some p" "ph_type p = MPH_COND" "tpl_cond p = Some a"
      "tpl p = Some m" "tpl_then p = Some b" "tpl_else p = Some c" "a \<notin> {m, b, c}"
    and v: "has_values st m" "has_values st b" "has_values st c"
  shows "\<exists>s0 s1 h1 s2 h2 t2. clear_flags (map Some ms) st = Some s0 \<and>
     (\<forall>ev. template_evaluate ev a s0 h =
        do { (ec, s, h) \<leftarrow> evaluate_placeholders ev (map Some (ph # ps)) s1 h1;
             if ec \<noteq> MIST_OK then Some (ec, s, h) else build_values a s h }) \<and>
     (\<forall>ev. evaluate_condition (template_evaluate ev) p m s1 h1 = Some (MIST_OK, s2, h2)) \<and>
     templates s2 a = Some t2 \<and> gsize (vals t2) = 0 \<and>
     (\<forall>ev. mist_placeholder_evaluate (template_evaluate ev) ph s1 h1 = None) \<and>
     (\<forall>n. mist_tg_evaluate_impl n mtg st h = None)"
proof -
  from clear_flags_keep [OF g(2)] obtain s0 where
    0: "clear_flags (map Some ms) st = Some s0" "placeholders s0 = placeholders st"
      "\<And>b x. templates st b = Some x \<Longrightarrow> \<exists>f. templates s0 b = Some (x\<lparr>is_evaluated := f\<rparr>)" by blast
  have v0: "has_values s0 d" if "has_values st d" for d
  proof -
    from that obtain x ws where x: "templates st d = Some x" "grar_holds (vals x) (map Some ws)" by blast
    from 0(3) [OF x(1)] x(2) show ?thesis by auto
  qed
  have t0: "templates s0 a = Some (t\<lparr>is_evaluated := False\<rparr>)" by (rule clear_flags_at [OF 0(1) t(1)]) (use g(3) in auto)
  have "holds_values (t\<lparr>is_evaluated := False\<rparr>) vs" using t(2) by (simp add: holds_values_def)
  from clear_values_ok [OF t0 this, of h] obtain g' h1 where
    c: "mist_template_clear_values a s0 h = Some (put_template a (t\<lparr>vals := g', is_evaluated := False\<rparr>) s0, h1)"
      "grar_holds g' []" by auto
  let ?t = "t\<lparr>vals := g', is_evaluated := True\<rparr>"
  define s1 where "s1 = put_template a ?t s0"
  have e: "template_evaluate ev a s0 h = do { (ec, s, h) \<leftarrow> evaluate_placeholders ev (map Some (ph # ps)) s1 h1;
        if ec \<noteq> MIST_OK then Some (ec, s, h) else build_values a s h }" for ev
    using t(3) elements [OF t(4)] by (simp add: template_evaluate_def t0 c(1) set_evaluated_def s1_def)
  have p1: "placeholders s1 ph = Some p" and t1: "templates s1 a = Some ?t" and z: "gsize (vals ?t) = 0"
    using p(1) 0(2) grar_holds_bounds [OF c(2)] by (simp_all add: s1_def)
  have v1: "has_values s1 d" if "d \<in> {m, b, c}" for d
    using that p(7) v v0 [of d] by (auto simp: s1_def)
  from own_condition [OF p1 p(2-7) v1 v1 v1 t1 _ z, of h1] obtain s2 h2 where
    2: "templates s2 a = Some ?t" "\<And>ev. evaluate_condition (template_evaluate ev) p m s1 h1 = Some (MIST_OK, s2, h2)"
      "\<And>ev. mist_placeholder_evaluate (template_evaluate ev) ph s1 h1 = None" by auto
  have "template_evaluate (template_evaluate ev) a s0 h = None" for ev by (simp add: e 2(3))
  then have "mist_template_evaluate n a s0 h = None" for n
  proof (cases n)
    case (Suc k)
    show ?thesis
    proof (cases k)
      case 0
      have "mist_placeholder_evaluate (\<lambda>mt st h. None) ph s1 h1 = None"
        using p1 p(2,4) by (auto simp: mist_placeholder_evaluate_def evaluate_conditional_def evaluate_condition_def
            split: Option.bind_splits)
      then show ?thesis using Suc 0 e by simp
    qed (use Suc \<open>\<And>ev. template_evaluate (template_evaluate ev) a s0 h = None\<close> in simp)
  qed simp
  then have "mist_tg_evaluate_impl n mtg st h = None" for n
    using elements [OF g(1)] 0(1) g(4) by (simp add: mist_tg_evaluate_impl_def)
  then show ?thesis using 0(1) e 2 z by (intro exI [of _ s0] exI [of _ s1] exI [of _ h1] exI [of _ s2] exI [of _ h2] exI [of _ ?t]) simp
qed

subsection \<open>A group\<close>

text \<open>Template f has the placeholder x and a conditional on x; x is an attribute.\<close>

definition ex_member :: "char list \<Rightarrow> char list list \<Rightarrow> char list list \<Rightarrow> tptr list \<Rightarrow> CMistTemplate" where
  "ex_member name vs ss ps = \<lparr>tpl_name = name, vals = ex_garray vs, sch = ex_garray ss, phs = ex_garray ps,
     is_evaluated = False\<rparr>"

definition ex_cond :: "tptr \<Rightarrow> CMistPlaceholder" where
  "ex_cond r = \<lparr>ph_type = MPH_COND, ph_name = ''x'', tpl = Some 7, sep = None, tpl_cond = Some r,
     tpl_then = Some 5, tpl_else = Some 6, is_concat = False\<rparr>"

definition ex_group_store :: "tptr \<Rightarrow> char list list \<Rightarrow> tstore" where
  "ex_group_store r vs =
     \<lparr>templates = [0 \<mapsto> ex_member ''f'' [] [''int '', ''_'', '';''] [3, 4], 1 \<mapsto> ex_member ''x'' vs [] [],
                   5 \<mapsto> ex_member ''t'' [] [''a''] [], 6 \<mapsto> ex_member ''e'' [] [''b''] [], 7 \<mapsto> ex_member ''c'' [] [] []],
      placeholders = [3 \<mapsto> ex_placeholder 1 None, 4 \<mapsto> ex_cond r], next_ptr = 8\<rparr>"

definition ex_tree :: "tptr ast" where
  "ex_tree = Ast ''int '' [Ref 1 None, Cond False 1 (Ast ''a'' [] []) (Ast ''b'' [] [])] [''_'', '';'']"

definition ex_group :: tgroup where
  "ex_group = \<lparr>foot = (\<lambda>b. if b = 1 then {1} else {0, 3, 4, 5, 6, 7}), tree_of = [0 \<mapsto> ex_tree],
     env = (\<lambda>b. if b = 1 then [''m''] else [''int m_a;''])\<rparr>"

definition ex_tg :: CMistTemplateGroup where
  "ex_tg = \<lparr>tg_tpl = ex_garray [0, 1], tg_main = 0\<rparr>"

lemma ex_tree_denote: "denote (env ex_group) ex_tree = [''int m_a;'']"
  by (simp add: ex_tree_def ex_group_def template_values_def template_value_def value_count_def cond_values_def
      cond_count_def chosen_def value_of_def)

lemma ex_acyclic: "acyclic_group ex_group {0, 1} (\<lambda>b. 1 - b) 2"
proof -
  have "group_ok ex_group {0, 1}" by (simp add: group_ok_def ex_group_def)
  moreover have "sized (env ex_group) ex_tree"
    by (simp add: ex_tree_def ex_group_def reserved_length_def value_count_def template_values_def template_value_def
        cond_values_def cond_count_def chosen_def value_of_def)
  moreover have "depth_of ex_tree \<le> 2" "refs_of ex_tree = {1}" by (simp_all add: ex_tree_def)
  moreover have "tree_of ex_group 0 = Some ex_tree" "tree_of ex_group 1 = None" "env ex_group 0 = [''int m_a;'']"
    by (simp_all add: ex_group_def)
  ultimately show ?thesis using ex_tree_denote by (simp add: acyclic_group_def)
qed

lemma ex_member_holds:
  assumes "length vs \<le> 16" and "length ss \<le> 16" and "length ps \<le> 16"
  shows "holds_values (ex_member name vs ss ps) vs" "grar_holds (sch (ex_member name vs ss ps)) (map Some ss)"
    "grar_holds (phs (ex_member name vs ss ps)) (map Some ps)"
  using assms by (simp_all add: holds_values_def ex_member_def ex_garray_holds)

lemma ex_leaf:
  assumes "templates st a = Some (ex_member name [] [c] [])"
  shows "tree_in st a {a} (Ast c [] [])"
  using tree_in_phs_in_ph_in.tree_in [OF assms, of c "[]" "[]" "[]" "[]" "{}"] ex_member_holds [of "[]" "[c]" "[]" name]
    tree_in_phs_in_ph_in.phs_in_Nil [of st] by simp

lemma ex_tree_in: "tree_in (ex_group_store 1 vs) 0 {0, 3, 4, 5, 6, 7} ex_tree"
proof -
  let ?st = "ex_group_store 1 vs"
  have t: "templates ?st 0 = Some (ex_member ''f'' [] [''int '', ''_'', '';''] [3, 4])"
    "templates ?st 5 = Some (ex_member ''t'' [] [''a''] [])" "templates ?st 6 = Some (ex_member ''e'' [] [''b''] [])"
    "templates ?st 7 = Some (ex_member ''c'' [] [] [])" "placeholders ?st 3 = Some (ex_placeholder 1 None)"
    "placeholders ?st 4 = Some (ex_cond 1)" by (simp_all add: ex_group_store_def)
  have "ph_in ?st 3 {3} (Ref 1 None)"
    by (rule tree_in_phs_in_ph_in.ph_in_Ref [OF t(5)]) (simp_all add: ex_placeholder_def)
  moreover have "ph_in ?st 4 ({4, 7} \<union> {5} \<union> {6}) (Cond False 1 (Ast ''a'' [] []) (Ast ''b'' [] []))"
    by (rule tree_in_phs_in_ph_in.ph_in_Cond [OF t(6) _ _ _ _ t(4) ex_member_holds(1) _ ex_leaf [OF t(2)] _ ex_leaf [OF t(3)]])
      (simp_all add: ex_cond_def)
  ultimately have "phs_in ?st [3, 4] ({3} \<union> (({4, 7} \<union> {5} \<union> {6}) \<union> {}))
      [Ref 1 None, Cond False 1 (Ast ''a'' [] []) (Ast ''b'' [] [])]"
    by (intro tree_in_phs_in_ph_in.phs_in_Cons tree_in_phs_in_ph_in.phs_in_Nil) auto
  from tree_in_phs_in_ph_in.tree_in [OF t(1) _ _ _ _ this, of "''int ''" "[''_'', '';'']" "[]"]
  have "tree_in ?st 0 (insert 0 ({3} \<union> (({4, 7} \<union> {5} \<union> {6}) \<union> {}))) ex_tree"
    using ex_member_holds [of "[]" "[''int '', ''_'', '';'']" "[3, 4]" "''f''"] by (simp add: ex_tree_def)
  moreover have "insert 0 ({3} \<union> (({4, 7} \<union> {5} \<union> {6}) \<union> {})) = {0, 3, 4, 5, 6, 7 :: nat}" by blast
  ultimately show ?thesis by simp
qed

lemma ex_laid_out: "laid_out ex_group {0, 1} (ex_group_store 1 [''m''])"
proof (rule laid_outI)
  let ?st = "ex_group_store 1 [''m'']"
  fix b assume b: "b \<in> {0, 1}" "tree_of ex_group b = None"
  then have b1: "b = 1" by (auto simp: ex_group_def)
  have "templates ?st 1 = Some (ex_member ''x'' [''m''] [] [])" by (simp add: ex_group_store_def)
  moreover have "gsize (sch (ex_member ''x'' [''m''] [] [])) = 0" "gsize (phs (ex_member ''x'' [''m''] [] [])) = 0"
    by (simp_all add: ex_member_def ex_garray_def)
  ultimately have "attribute_in ?st 1 [''m'']" using ex_member_holds(1) [of "[''m'']" "[]" "[]" "''x''"]
    unfolding attribute_in_def by (intro exI [of _ "ex_member ''x'' [''m''] [] []"] exI [of _ "[''m'']"]) simp
  then show "foot ex_group b = {b} \<and> attribute_in ?st b (env ex_group b)" by (simp add: b1 ex_group_def)
next
  fix b t assume "b \<in> {0, 1}" "tree_of ex_group b = Some t"
  then have "b = 0" "t = ex_tree" by (auto simp: ex_group_def split: if_splits)
  then show "tree_in (ex_group_store 1 [''m'']) b (foot ex_group b) t" using ex_tree_in by (simp add: ex_group_def)
qed

subsection \<open>Evaluating a group\<close>

text \<open>C30: Evaluating a group whose templates do not refer to each other in cycles returns, with
  calls no deeper than the ranks of the members times the depth of their trees, and fails no
  assertion.  The result is the values that the tree of the main template denotes, where the
  placeholders stand for what the members denote, a joined placeholder for its values joined, and a
  conditional for what its branches denote; without memory the result is NULL.  Whatever
  flags and values were left in the templates by an earlier evaluation, the outcome is the same:
  afterwards the group can be evaluated again with this result.\<close>

theorem mist_group_evaluated:
  assumes "acyclic_group G M rank D" and "\<forall>b\<in>M. rank b < R" and "R * D \<le> n"
    and "grar_holds (tg_tpl mtg) (map Some ms)" and "set ms = M" and "tg_main mtg \<in> M" and "laid_out G M st"
  shows "\<exists>r st' h'. mist_tg_evaluate_impl n mtg st h = Some (r, st', h') \<and>
    (case r of
       Some vs \<Rightarrow> grar_holds vs (map Some (env G (tg_main mtg))) \<and> laid_out G M st' \<and>
         (\<forall>t. tree_of G (tg_main mtg) = Some t \<longrightarrow> grar_holds vs (map Some (denote (env G) t)))
     | None \<Rightarrow> ran_out h h')"
proof -
  have d: "env G (tg_main mtg) = denote (env G) t" if "tree_of G (tg_main mtg) = Some t" for t
    using assms(1,6) that unfolding acyclic_group_def by fastforce
  from tg_evaluate_ok [OF assms, of h] obtain r st' h' where
    r: "mist_tg_evaluate_impl n mtg st h = Some (r, st', h')"
      "case r of Some vs \<Rightarrow> grar_holds vs (map Some (env G (tg_main mtg))) \<and> laid_out G M st' | None \<Rightarrow> ran_out h h'"
    by blast
  have "case r of
       Some vs \<Rightarrow> grar_holds vs (map Some (env G (tg_main mtg))) \<and> laid_out G M st' \<and>
         (\<forall>t. tree_of G (tg_main mtg) = Some t \<longrightarrow> grar_holds vs (map Some (denote (env G) t)))
     | None \<Rightarrow> ran_out h h'"
    using r(2) by (cases r) (simp, simp, metis d)
  with r(1) show ?thesis by blast
qed

theorem mist_group_evaluated_witness:
  "\<exists>r st' h'. mist_tg_evaluate_impl 4 ex_tg (ex_group_store 1 [''m'']) \<lparr>outcomes = replicate 64 True, live = 0\<rparr> =
       Some (r, st', h') \<and>
     (case r of Some vs \<Rightarrow> grar_holds vs [Some ''int m_a;''] | None \<Rightarrow> ran_out \<lparr>outcomes = replicate 64 True, live = 0\<rparr> h')"
proof -
  have g: "grar_holds (tg_tpl ex_tg) (map Some [0, 1])" "set [0, 1] = {0, 1 :: nat}" "tg_main ex_tg \<in> {0, 1}"
    using ex_garray_holds [of "[0, 1] :: nat list"] by (simp_all add: ex_tg_def)
  have r: "\<forall>b\<in>{0, 1 :: nat}. 1 - b < 2" "2 * 2 \<le> (4 :: nat)" by simp_all
  have e: "env ex_group (tg_main ex_tg) = [''int m_a;'']" by (simp add: ex_group_def ex_tg_def)
  from mist_group_evaluated [OF ex_acyclic r g ex_laid_out, of "\<lparr>outcomes = replicate 64 True, live = 0\<rparr>"]
  show ?thesis by (fastforce simp: e split: option.splits)
qed

subsection \<open>The path of a file\<close>

text \<open>C31: Generating a path gives every template the values that the string map has for its name,
  in its order and after the values it already had, ignores the other names, and evaluates the
  group.  The result is the only value of the main template; if there are more, it is NULL with
  the message that says so; otherwise it is NULL only without memory.  The one assertion that can
  fail is that the path is not the empty string.\<close>

theorem mist_path_generated:
  assumes "acyclic_group G M rank D" and "\<forall>b\<in>M. rank b < R" and "R * D \<le> n"
    and "grar_holds (tg_tpl mtg) (map Some ms)" and "set ms = M" and "tg_main mtg \<in> M" and "sorted_members st ms"
    and "grar_holds (container params) (map Some kvs)" and "pending_values G M kvs st"
  shows "mist_tg_generate_path_string_impl n bs mtg params st h = None \<and> env G (tg_main mtg) = [[]] \<or>
    (\<exists>r m st' h'. mist_tg_generate_path_string_impl n bs mtg params st h = Some (r, m, st', h') \<and> uses h h' \<and>
      (case r of
         Some path \<Rightarrow> env G (tg_main mtg) = [path] \<and> m = None \<and> laid_out G M st'
       | None \<Rightarrow> ran_out h h' \<or>
           length (env G (tg_main mtg)) \<noteq> 1 \<and> map_option msg_format m = Some errMainTplMultivalued))"
  by (rule path_string_ok [OF assms])

definition ex_params :: CStringMap where
  "ex_params = \<lparr>container = ex_garray [\<lparr>pkey = ''x'', pval = ''m''\<rparr>, \<lparr>pkey = ''y'', pval = ''n''\<rparr>], smap_sorted = True\<rparr>"

lemma ex_pending:
  "pending_values ex_group {0, 1} [\<lparr>pkey = ''x'', pval = ''m''\<rparr>, \<lparr>pkey = ''y'', pval = ''n''\<rparr>] (ex_group_store 1 [])"
proof -
  let ?st = "ex_group_store 1 []" and ?kvs = "[\<lparr>pkey = ''x'', pval = ''m''\<rparr>, \<lparr>pkey = ''y'', pval = ''n''\<rparr>]"
  let ?f = "ex_member ''f'' [] [''int '', ''_'', '';''] [3, 4]" and ?x = "ex_member ''x'' [] [] []"
  have t: "templates ?st 0 = Some ?f" "templates ?st 1 = Some ?x" by (simp_all add: ex_group_store_def)
  have h: "holds_values ?f []" "holds_values ?x []" by (rule ex_member_holds; simp)+
  have "pending_member ex_group ?kvs ?st 0"
    unfolding pending_member_def using t(1) h(1) ex_tree_in [of "[]"]
    by (intro exI [of _ ?f] exI [of _ "[]"]) (simp add: ex_group_def)
  moreover have "gsize (sch ?x) = 0" "gsize (phs ?x) = 0" "tpl_name ?x = ''x''" by (simp_all add: ex_member_def ex_garray_def)
  then have "pending_member ex_group ?kvs ?st 1"
    unfolding pending_member_def using t(2) h(2)
    by (intro exI [of _ ?x] exI [of _ "[]"]) (simp add: ex_group_def or_empty_def)
  ultimately show ?thesis by (simp add: pending_values_def)
qed

theorem mist_path_generated_witness:
  "\<exists>r m st' h'. mist_tg_generate_path_string_impl 4 linear_bsearch ex_tg ex_params (ex_group_store 1 [])
       \<lparr>outcomes = replicate 64 True, live = 0\<rparr> = Some (r, m, st', h') \<and>
     (r = Some ''int m_a;'' \<or> r = None \<and> ran_out \<lparr>outcomes = replicate 64 True, live = 0\<rparr> h')"
proof -
  let ?kvs = "[\<lparr>pkey = ''x'', pval = ''m''\<rparr>, \<lparr>pkey = ''y'', pval = ''n''\<rparr>]"
  have g: "grar_holds (tg_tpl ex_tg) (map Some [0, 1])" "set [0, 1] = {0, 1 :: nat}" "tg_main ex_tg \<in> {0, 1}"
    using ex_garray_holds [of "[0, 1] :: nat list"] by (simp_all add: ex_tg_def)
  have r: "\<forall>b\<in>{0, 1 :: nat}. 1 - b < 2" "2 * 2 \<le> (4 :: nat)" by simp_all
  have s: "sorted_members (ex_group_store 1 []) [0, 1]"
    by (simp add: sorted_members_def ex_group_store_def name_at_def ex_member_def)
  have k: "grar_holds (container ex_params) (map Some ?kvs)"
    using ex_garray_holds [of ?kvs] by (simp add: ex_params_def)
  have e: "env ex_group (tg_main ex_tg) = [''int m_a;'']" by (simp add: ex_group_def ex_tg_def)
  from mist_path_generated [OF ex_acyclic r g s k ex_pending, of linear_bsearch "\<lparr>outcomes = replicate 64 True, live = 0\<rparr>"]
  show ?thesis by (auto simp: e split: option.splits)
qed

subsection \<open>Recursion\<close>

text \<open>C40: In a group in which the first placeholder of the main template is a conditional on the main
  template itself, evaluation always fails an assertion, whichever allocations fail.  Whatever
  the calls below return (ev), so at every depth: the main template is emptied and marked, and the
  first thing that happens then (state s1) is that this placeholder is evaluated; the condition
  is taken for evaluated, so its evaluation returns MIST_OK at once (state s2), and it has no
  values, which is what the assertion ncond >= 1 forbids; the evaluation of the placeholder and of
  the group does not return.  mist_base.h says that with recursion the functions do not crash.\<close>

theorem mist_recursive_condition:
  assumes "templates st a = Some t" and "grar_holds (vals t) (map Some vs)"
    and "gsize (sch t) = gsize (phs t) + 1" and "grar_holds (phs t) (map Some (ph # ps))"
    and "grar_holds (tg_tpl mtg) (map Some ms)" and "\<forall>b\<in>set ms. templates st b \<noteq> None"
    and "a \<in> set ms" and "tg_main mtg = a"
    and "placeholders st ph = Some p" and "ph_type p = MPH_COND" and "tpl_cond p = Some a"
    and "tpl p = Some m" and "tpl_then p = Some b" and "tpl_else p = Some c" and "a \<notin> {m, b, c}"
    and "has_values st m" and "has_values st b" and "has_values st c"
  shows "\<exists>s0 s1 h1 s2 h2 t2. clear_flags (map Some ms) st = Some s0 \<and>
     (\<forall>ev. template_evaluate ev a s0 h =
        do { (ec, s, h) \<leftarrow> evaluate_placeholders ev (map Some (ph # ps)) s1 h1;
             if ec \<noteq> MIST_OK then Some (ec, s, h) else build_values a s h }) \<and>
     (\<forall>ev. evaluate_condition (template_evaluate ev) p m s1 h1 = Some (MIST_OK, s2, h2)) \<and>
     templates s2 a = Some t2 \<and> gsize (vals t2) = 0 \<and>
     (\<forall>ev. mist_placeholder_evaluate (template_evaluate ev) ph s1 h1 = None) \<and>
     (\<forall>n. mist_tg_evaluate_impl n mtg st h = None)"
  by (rule recursive_condition_aborts [OF assms])

definition ex_recursive :: tstore where
  "ex_recursive =
     (ex_group_store 0 [])\<lparr>templates := (templates (ex_group_store 0 []))(0 \<mapsto> ex_member ''x'' [] [''('', '')''] [4])\<rparr>"

theorem mist_recursive_condition_witness:
  "\<exists>s1 h1 s2 h2 t2.
     (\<forall>ev. evaluate_condition (template_evaluate ev) (ex_cond 0) 7 s1 h1 = Some (MIST_OK, s2, h2)) \<and>
     templates s2 0 = Some t2 \<and> gsize (vals t2) = 0 \<and>
     mist_tg_evaluate_impl 9 ex_tg ex_recursive \<lparr>outcomes = replicate 64 True, live = 0\<rparr> = None"
proof -
  let ?t = "ex_member ''x'' [] [''('', '')''] [4]"
  have t: "templates ex_recursive 0 = Some ?t" "grar_holds (vals ?t) (map Some [])"
      "gsize (sch ?t) = gsize (phs ?t) + 1" "grar_holds (phs ?t) (map Some [4])"
    using ex_garray_holds [of "[] :: char list list"] ex_member_holds(3) [of "[]" "[''('', '')'']" "[4]" "''x''"]
    by (simp_all add: ex_recursive_def ex_member_def ex_garray_def)
  have g: "grar_holds (tg_tpl ex_tg) (map Some [0, 1])" "\<forall>b\<in>set [0, 1]. templates ex_recursive b \<noteq> None"
      "0 \<in> set [0, 1 :: nat]" "tg_main ex_tg = 0"
    using ex_garray_holds [of "[0, 1] :: nat list"]
    by (simp_all add: ex_tg_def ex_recursive_def ex_group_store_def)
  have p: "placeholders ex_recursive 4 = Some (ex_cond 0)" by (simp add: ex_recursive_def ex_group_store_def)
  have e: "has_values st b" if "templates st b = Some (ex_member n [] ss qs)" for st b n ss qs
    using that ex_garray_holds [of "[] :: char list list"]
    by (intro exI [of _ "ex_member n [] ss qs"] exI [of _ "[]"]) (simp add: ex_member_def)
  have v: "has_values ex_recursive 7" "has_values ex_recursive 5" "has_values ex_recursive 6"
    by (rule e, simp add: ex_recursive_def ex_group_store_def)+
  have c: "ph_type (ex_cond 0) = MPH_COND" "tpl_cond (ex_cond 0) = Some 0" "tpl (ex_cond 0) = Some 7"
      "tpl_then (ex_cond 0) = Some 5" "tpl_else (ex_cond 0) = Some 6" "(0::nat) \<notin> {7, 5, 6}"
    by (simp_all add: ex_cond_def)
  from mist_recursive_condition [OF t g p c v] show ?thesis by blast
qed

end
