(* ===== verification/Spec2Isabelle.thy ===== *)
theory Spec2Isabelle
  imports Foreign_Properties Payload_Properties Interceptor_Properties
    Mist_Properties Smap_Properties Template_Properties Group_Properties
begin

text \<open>
  KEDR COI (callback operations interception): a kernel module that intercepts the operations
  of kernel objects.  An object points to a structure of operations (function pointers); the
  module replaces some of them by intermediate operations, which call the handlers of
  registered payloads before and after the original operation.  The modules that implement the
  intermediate operations are generated from descriptions by the tool kedr_gen, which evaluates
  templates with the mist engine.  This development models the core of the module,
  src/sources/core/ with its headers, and the data structures of the mist engine,
  src/sources/tools/kedr_gen/src/mist_engine/src/, and proves what makes them correct.

  Parts of the program and the theories that model them:

  * Hash table (kedr_coi_hash_table.c/.h): Elem_Table states the contract of a table with
    several elements per key as a locale, Hash_Table models the code - lists of elements in
    1 << bits heads, a 32-bit int, insertion in front, resizing with its slow path through a
    minimal table - and interprets the locale on it.
  * Instrumentors (kedr_coi_instrumentors.c, kedr_coi_instrumentors_impl.c, _internal.h):
    Instr_State has the records instrument_data, watch data, foreign data and instrumentor;
    Instr_Impl the two ways to instrument a structure of operations, at place (ap_idata_) and
    with a copy (uc_idata_); Instrumentor the normal instrumentor; Foreign_Impl the chain of
    foreign data of one structure (apf_); Foreign_Instrumentor the foreign instrumentors.
  * Payloads (payloads.c/.h): Payloads models registration, the reference counts of modules,
    the arrays of handlers, the closure under groups and the table of replacements.
  * Interceptors (kedr_coi_interceptors.c, kedr_coi_module.c): Interceptors models the state of
    the whole module (record coi: interceptors, factory interceptors, operations fields, memory
    of operations, module references, the log of trace callbacks) and every exported function.
  * Strings of the mist engine (mist_string_utils.c/.h): C_String has the blocks of characters,
    the functions of string.h and malloc; Mist_String models CMistString, a string at an offset
    in a buffer that grows, and every function on it and on ranges of characters.
  * Growing arrays (grar.c/.h): Grar models the arrays of pointers, Grar_Sort their sorting and
    searching.
  * String maps (smap.c/.h): Smap models the arrays of pairs, sorted on demand, and the merge of
    two maps that moves the pairs and leaves NULL in the slots they came from.

  * Templates (mist_base.c): Mist_Tokens models the lexical analysis of the text of a template.
    Mist_Template has the structures CMistTemplate and CMistPlaceholder, which refer to each other
    by addresses in a store (record tstore), with their creation and destruction.  Mist_Values
    models how the values of a template are put together in buffers, Mist_Evaluate the evaluation
    of templates, attributes and conditionals, which cuts cycles by the flag is_evaluated.
  * Template groups (mist_base.c): Mist_Group models the attributes and connections of a group,
    and setting, evaluating and clearing its values.

  Conventions (theory Prelude).  A C function is a HOL function on the state it can reach.  A
  result of type option is None when the kernel crashes: a BUG_ON fires, or an access goes
  through a pointer that is not valid.  int results keep their C values; a pointer that may be
  an ERR_PTR is a sum.  Pointers and sizes are 64-bit words.  Allocations are outcomes taken from
  a list, so every theorem holds whichever of them fails.  An operations structure is a map
  from offsets to pointers; memory maps addresses to structures, and a freed one is not in it.
  The spinlock of an instrumentor makes each of its calls one atomic step; orders of calls are
  step relations (instr_step, instr_reach in Instr_Reach, payloads_step, payloads_reach in
  Payload_Inv).

  Parameters, for code that is not in the repository: hash_ptr of linux/hash.h is an element of
  the type hash_fn, all functions whose result fits in the bits asked for, when these are 1 to
  64; the outcome of
  mutex_lock_killable and of try_module_get, the layout of modules, and the contents of the
  client's payloads are arguments (record kernel_params).  qsort and bsearch are elements of the
  types qsorter and bsearcher: all functions with the documented behaviour.  A comparator may look
  at the addresses of the slots, as the one of smap.c does, but qsort promises a result only where
  its decisions do not depend on them; of smap.c that is for distinct keys (sortable).

  In the theories of the mist engine a result of type option is None when an assertion fails, the
  code leaves a block, reads what was never written, or does not return; the heap (record
  mheap) counts the blocks that are allocated, so leaks are visible.  Where the assertion itself
  is the point (mist_recursive_condition), the statement is about every evaluator in the place
  of the recursive calls, so that no bound of their depth is involved.

  What the lemmas show.
  * Hash_Table: table_inv (1 to 30 bits, heads, no element twice, every element in the bucket of
    its key), kept by every operation; the elements of one key are a stack (key_stack).
  * Instr_Inv defines instr_inv hp R H i w: the tables of an instrumentor mirror its objects, the
    global table has a mark for every instrumented structure, every reference counter is the
    number of watches plus the references H held in mid-call, all instrumented structures are
    alive at the offsets R.  Instr_Idata, Instr_Watch and Instr_Spec show that every operation
    keeps it and what each one does to memory; Instr_Destroy treats creation and destruction
    and Instr_Reach sequences of calls, interleaved with writes, allocations and frees of
    structures by the rest of the kernel, and watching an object again after it was forgotten.
  * Foreign_Spec describes a structure with a chain of foreign data by chain_content, a function
    of the original operation, the normal replacements and the chain; adding and removing foreign
    data refine adding to and removing from the chain.
  * Payload_Spec and Payload_Inv: payloads_inv, which every operation keeps; the state after using
    the payloads as a closed expression (used_payloads); every exit of a failed use restores the
    state.
  * Interceptor_Spec: starting, with the loop over factory interceptors and its rollback.
    Interceptor_Watch: watching, what an intermediate operation is told, stopping.
  * Mist_String_Spec defines mist_holds ms s, the buffer ms holds the string s, and shows that
    creating, reserving, setting, appending and summing compute on strings; Mist_String_Edit
    that replacing and unescaping compute replace_all and unescaped; Mist_String_More treats
    trimming, searching, names and escapes.
  * Grar_Spec defines grar_holds g es and gives the functions of grar.c on lists, the locale
    growing_array of what users of reserved arrays rely on, and the order of strcmp.
    Smap_Spec does the same for string maps (smap_holds); Smap_Update shows that the loops of
    smap_update compute a reference merge, and what the merge is.
  * Mist_Tokens_Spec and Mist_Tokens_Loop: a template is what render gives of string chunks and
    placeholders without markers in them (clean); the tokenizer gives the tokens of exactly these
    texts (analysed), and within and ample count the allocations that are asked for.
  * Mist_Values_Spec, Mist_Values_Build and Mist_Values_Result: values are built inside their
    buffers (cursors) and are what template_values says.
  * Mist_Syntax has the syntax of templates as a datatype, ast, the values that a tree denotes, and
    tree_in, how a tree is laid out in a store.  Mist_Evaluate_Spec, _Tree, _Cond and _Total show
    that an evaluator of a group without cycles computes what the trees denote: progress says
    what a call may change, returns that it ends with a result or without memory.
    Mist_Group_Spec and Mist_Group_Path lift this to groups; pending_values says which values the
    members will have when the pairs of a string map are added.
  * Examples, Foreign_Examples, Interceptor_Examples: concrete states, computed by running the
    model, on which the witnesses apply the properties.
  The properties are here (hash table, normal instrumentor) and in Payload_Properties,
  Foreign_Properties, Interceptor_Properties, Mist_Properties, Smap_Properties,
  Template_Properties and Group_Properties.

  Bounds and fuel.  Functions that follow the pointers between templates have fuel, a bound of
  the depth of their calls.  Destroying templates, collecting attributes and connecting follow
  only templates that others own; a chain of them is not longer than the number of addresses,
  which is the fuel that is given.  Evaluation is claimed for every depth from the ranks of the
  members times the depth of their trees on.  Strings and arrays have sizes below 2^64 and 2^60, with the
  wrap-around of size_t written out.  The loops of smap_update and the one that doubles a
  capacity, and the loop of the tokenizer, are partial functions (None when they do not end),
  proved to end.  The loops of the
  core run over lists or arrays with an end marker (an offset of -1), which are lists here
  (for_each_handler, for_each_replacement, for_each_intermediate cut at the marker), and every
  function on them is structurally recursive.
  Reference counters and numbers of elements are unbounded integers.

  Not modelled.  The mutexes and spinlocks themselves, and the reference counting of the module
  by its users; the texts of messages; the names of interceptors; of the mist engine the parser of
  tokens (mist_parse_, mist_match_ in mist_base.c), its files and its command line
  (mist_exec.c, mist_file_utils.c, mist_engine.c); the generator around the engine (C++);
  generated interceptors, examples and tests.  Of foreign instrumentors, preservation of a
  whole-state invariant by watching and binding, and stopping an interceptor that has factory
  interceptors after objects were watched through them, are modelled but not proved.
\<close>

section \<open>The hash table\<close>

text \<open>C22: Adding an element to a well-formed table (the element not being in it) succeeds,
  keeps the table well formed, puts the element in front of the stack of elements with its
  key, leaves the stacks of the other keys alone, and a lookup returns the top of the stack.\<close>

theorem hash_table_add:
  assumes "table_inv hp t" and "e \<notin> fst ` entries t"
  shows "\<exists>t'. kedr_coi_hash_table_add_elem hp t e key as = (0, t', as) \<and> table_inv hp t' \<and>
         entries t' = insert (e, key) (entries t) \<and>
         (\<forall>k. key_stack t' k = (if k = key then e # key_stack t k else key_stack t k)) \<and>
         (\<forall>k. kedr_coi_hash_table_find_elem hp t' k =
              (case key_stack t' k of [] \<Rightarrow> None | x # _ \<Rightarrow> Some x))"
  using assms table_inv_add [OF assms, of key]
  by (auto simp: key_stack_add table_inv_heads find_key_stack entries_add)

theorem hash_table_add_witness:
  "\<exists>t'. kedr_coi_hash_table_add_elem low_bits_hash ex_table 3 0x21 [] = (0, t', []) \<and>
        key_stack t' 0x21 = 3 # key_stack ex_table 0x21"
  using hash_table_add [OF ex_table_inv, of 3 "0x21" "[]"] by (auto simp: ex_table_entries)

text \<open>Removing an element that is in a well-formed table never crashes, keeps the table
  well formed, takes the element out of the stack of its key and nothing else; lookups
  return the top of the remaining stacks.\<close>

theorem hash_table_remove:
  assumes "table_inv hp t" and "(e, key) \<in> entries t"
  shows "\<exists>t' as'. kedr_coi_hash_table_remove_elem hp t e as = Some (t', as') \<and> table_inv hp t' \<and>
           entries t' = entries t - {(e, key)} \<and>
           (\<forall>k. key_stack t' k = filter (\<lambda>x. x \<noteq> e) (key_stack t k)) \<and>
           (\<forall>k. kedr_coi_hash_table_find_elem hp t' k =
                (case key_stack t' k of [] \<Rightarrow> None | x # _ \<Rightarrow> Some x))"
proof -
  from kedr_table.del_exists [OF assms(2)] obtain t' where t': "table_del t e = Some t'" by blast
  have "table_inv hp t'" by (rule table_inv_del [OF assms(1) t'])
  moreover have "fst x \<noteq> e \<longleftrightarrow> x \<noteq> (e, key)" if "x \<in> entries t" for x
    using kedr_table.elem_once [OF assms, of "snd x"] that by (cases x) auto
  then have "entries t' = entries t - {(e, key)}" using kedr_table.ents_del [OF t'] by blast
  ultimately show ?thesis using t' by (simp add: key_stack_del find_key_stack table_inv_heads)
qed

theorem hash_table_remove_witness:
  "\<exists>t' as'. kedr_coi_hash_table_remove_elem low_bits_hash ex_table 1 [] = Some (t', as') \<and>
      table_inv low_bits_hash t' \<and> entries t' = entries ex_table - {(1, 0x11)}"
proof -
  have "(1, 0x11) \<in> entries ex_table" by (simp add: ex_table_entries)
  from hash_table_remove [OF ex_table_inv this, of "[]"] show ?thesis by blast
qed

text \<open>C21: Resizing a well-formed table to a number of bits from 1 to 30, those for which 1 << bits is
  a positive int, keeps it well formed and keeps exactly its elements, whatever allocations
  fail on the way.  With the code 0 the table has the number of bits asked for; after a failure
  it is the old table, or, where the slow path of narrowing freed the old buckets first, a
  minimal one.\<close>

theorem hash_table_realloc:
  assumes "table_inv hp t" and "0 < bits_new" and "bits_new \<le> 30"
  shows "case kedr_coi_hash_table_realloc hp t bits_new as of
           (r, t', as') \<Rightarrow> table_inv hp t' \<and> mset (table_elems t') = mset (table_elems t) \<and>
                           (if r = 0 then bits t' = bits_new
                            else r = - ENOMEM \<and> (t' = t \<or> bits t' = 1 \<and> bits_new < bits t))"
proof -
  obtain r t' as' where run: "kedr_coi_hash_table_realloc hp t bits_new as = (r, t', as')"
    by (cases "kedr_coi_hash_table_realloc hp t bits_new as")
  then have "if r = 0 then bits t' = bits_new
             else r = - ENOMEM \<and> (t' = t \<or> bits t' = 1 \<and> bits_new < bits t)"
    by (auto simp: kedr_coi_hash_table_realloc_def kedr_coi_hash_table_realloc_slowpath_def Let_def
        errno_defs BITS_MIN_def split: prod.splits option.splits if_splits)
  with realloc_ok [OF assms(1) run bits_ok_le [OF assms(2,3)]] run show ?thesis by simp
qed

theorem hash_table_realloc_witness:
  "case kedr_coi_hash_table_realloc low_bits_hash ex_table 2 [None, Some 0x1, None] of
     (r, t', as') \<Rightarrow> mset (table_elems t') = mset (table_elems ex_table)"
  using hash_table_realloc [OF ex_table_inv, of 2 "[None, Some 0x1, None]"] by (auto split: prod.splits)

text \<open>Destroying a table with a callback calls it on every element, exactly once and in
  bucket order, threading the callback's state; without a callback nothing is called.\<close>

theorem hash_table_destroy:
  "kedr_coi_hash_table_destroy t (Some f) s = fold_opt f (table_elems t) s \<and>
   kedr_coi_hash_table_destroy t None s = Some s"
  by (simp add: destroy_eq destroy_None)

section \<open>The normal instrumentor\<close>

text \<open>C3: From creation on, in any order of calls of the instrumentor's interface and of
  writes, allocations and frees of operations structures by the kernel (only structures that
  are instrumented must stay allocated), the invariant of the instrumentor holds: its tables
  are well formed and mirror its objects, every reference counter is the number of references,
  every instrumented structure is alive.\<close>

theorem instrumentor_reachable_inv:
  assumes "kedr_coi_instrumentor_create sz rs place (pending w) = (Some i, as')" and "world_ok hp w"
    and "repl_offsets (case rs of None \<Rightarrow> empty_replacements | Some rs \<Rightarrow> rs) \<subseteq> R"
    and "\<And>off. off \<in> R \<Longrightarrow> off < sz"
    and "instr_reach hp R (i, w\<lparr>pending := as'\<rparr>) (i', w')"
  shows "instr_inv hp R {#} i' w'"
  using reach_inv [OF assms(5)] create_ok [OF assms(1-4)] by simp

theorem instrumentor_reachable_inv_witness:
  "instr_inv low_bits_hash {0, 8} {#} (ex_watched True) (ex_watched_world True)"
proof (rule instrumentor_reachable_inv [OF ex_create_eq ex_world_ok])
  show "instr_reach low_bits_hash {0, 8} (ex_instr True, ex_kernel\<lparr>pending := pending ex_world\<rparr>)
          (ex_watched True, ex_watched_world True)"
    unfolding ex_kernel_pending
    by (rule reach_step [OF reach_start]) (rule step_watch [OF ex_valid ex_watch_eq])
qed (auto simp: ex_offsets)

text \<open>C11: No call of the instrumentor's interface crashes, whatever object it is given:
  watching with a NULL or live operations structure returns 0, 1, -ENOMEM or -EBUSY, both
  ways of forgetting return 0 or 1, and each keeps the invariant.\<close>

theorem instrumentor_calls_total:
  assumes "instr_inv hp R {#} i w" and "ops_p \<noteq> NULL \<Longrightarrow> valid_ops R w ops_p"
  shows "(\<exists>r p i' w'. kedr_coi_instrumentor_watch hp i object ops_p w = Some (r, p, i', w') \<and>
            r \<in> {0, 1, - ENOMEM, - EBUSY} \<and> instr_inv hp R {#} i' w') \<and>
         (\<exists>r p i' w'. kedr_coi_instrumentor_forget hp i object q w = Some (r, p, i', w') \<and>
            r \<in> {0, 1} \<and> instr_inv hp R {#} i' w') \<and>
         (\<exists>r i' w'. kedr_coi_instrumentor_forget_direct hp i object norestore w = Some (r, i', w') \<and>
            r \<in> {0, 1} \<and> instr_inv hp R {#} i' w')"
  using watch_inv [OF assms, of object] forget_inv [OF assms(1), of object] by blast

theorem instrumentor_calls_total_witness:
  "\<exists>r i' w'. kedr_coi_instrumentor_forget_direct low_bits_hash (ex_watched True) 0x2000 True
       (ex_watched_world True) = Some (r, i', w') \<and> r \<in> {0, 1}"
  using instrumentor_calls_total [OF ex_watched_inv, of 0] by blast

text \<open>C4: Watching a new object whose operations are not instrumented yet, when it returns 0,
  makes interception work: in the structure the operations field now points to, every
  operation for which a replacement applies is the replacement and every other one is the
  original; asking for the original operation of the object at any offset gives what the
  caller's structure held (NULL for a NULL structure).  At place instrumentation keeps the
  field, otherwise the field points to a new structure and the caller's is not changed.\<close>

theorem watch_intercepts:
  assumes "instr_inv hp R {#} i w" and "ops_p \<noteq> NULL \<Longrightarrow> valid_ops R w ops_p"
    and "\<not> watched hp i object" and "instrumentor_find_data hp i ops_p = None"
    and "kedr_coi_instrumentor_watch hp i object ops_p w = Some (0, p, i', w')"
    and "off \<in> R" and "(if ops_p = NULL then Some NULL else read_op w ops_p off) = Some op"
    and "distinct (map operation_offset (for_each_replacement (replacements i)))"
  shows "read_op w' p off =
           Some (case find (\<lambda>r. operation_offset r = off) (for_each_replacement (replacements i)) of
                   None \<Rightarrow> op | Some r \<Rightarrow> replace_operation op r) \<and>
         kedr_coi_instrumentor_get_orig_operation hp i' object q off w' = Some (0, Inr op) \<and>
         (if ops_p \<noteq> NULL \<and> replace_at_place i ops_p then p = ops_p
          else ops_mem w p = None \<and> ops_mem w' ops_p = ops_mem w ops_p)"
  using watch_intercepts_ok [OF assms(1-7), of q] replace_at_distinct [OF assms(8)] by auto

theorem watch_intercepts_witness:
  "read_op (ex_watched_world False) 0x60 0 = Some 0x900 \<and>
   kedr_coi_instrumentor_get_orig_operation low_bits_hash (ex_watched False) 0x2000 0x60 0
     (ex_watched_world False) = Some (0, Inr 0x100)"
proof -
  have "instrumentor_find_data low_bits_hash (ex_instr False) 0x1000 = None" by (simp add: ex_eval)
  from watch_intercepts [OF ex_inv ex_valid ex_not_watched this ex_watch_eq, of 0 "0x100" "0x60"]
  show ?thesis
    by (simp add: ex_shape ex_for_each read_op_def ops_content_def ex_world_def ex_kernel_def ex_ops_def
        replace_operation_def replace_operation_generic_def)
qed

text \<open>C5: Watching a new object and forgetting it again is the identity: the operations field
  gets its old value back, every operations structure in memory is bit for bit what it was
  before, and the same objects are watched.\<close>

theorem watch_forget_roundtrip:
  assumes "instr_inv hp R {#} i w" and "ops_p \<noteq> NULL \<Longrightarrow> valid_ops R w ops_p"
    and "\<not> watched hp i object" and "instrumentor_find_data hp i ops_p = None"
    and "kedr_coi_instrumentor_watch hp i object ops_p w = Some (0, p, i1, w1)"
  shows "\<exists>i2 w2. kedr_coi_instrumentor_forget hp i1 object (Some p) w1 = Some (0, Some ops_p, i2, w2) \<and>
           instr_inv hp R {#} i2 w2 \<and> ops_mem w2 = ops_mem w \<and>
           (\<forall>obj. watched hp i2 obj \<longleftrightarrow> watched hp i obj)"
  by (rule watch_forget_restores [OF assms(1-3) _ assms(5)], assumption,
      rule find_data_None_my [OF assms(1,4)])

theorem watch_forget_roundtrip_witness:
  "\<exists>i2 w2. kedr_coi_instrumentor_forget low_bits_hash (ex_watched True) 0x2000 (Some 0x1000)
       (ex_watched_world True) = Some (0, Some 0x1000, i2, w2) \<and> ops_mem w2 = ops_mem ex_world"
proof -
  have "instrumentor_find_data low_bits_hash (ex_instr True) 0x1000 = None" by (simp add: ex_eval)
  from watch_forget_roundtrip [OF ex_inv ex_valid ex_not_watched this ex_watch_eq]
  show ?thesis by auto
qed

text \<open>C6: Watching a new object either returns 0 and adds exactly this object to the watched
  ones, or returns -ENOMEM or -EBUSY and changes nothing: not the operations field, not any
  operations structure, not the instrumented data, not the set of watched objects - also when
  the allocation that fails comes after the operations were already replaced.\<close>

theorem watch_new_atomic:
  assumes "instr_inv hp R {#} i w" and "ops_p \<noteq> NULL \<Longrightarrow> valid_ops R w ops_p"
    and "\<not> watched hp i object"
  shows "\<exists>r p i' w'. kedr_coi_instrumentor_watch hp i object ops_p w = Some (r, p, i', w') \<and>
           (r = 0 \<and> (\<forall>obj. watched hp i' obj \<longleftrightarrow> obj = object \<or> watched hp i obj) \<or>
            r \<in> {- ENOMEM, - EBUSY} \<and> p = ops_p \<and> ops_mem w' = ops_mem w \<and> idatas i' = idatas i \<and>
            (\<forall>obj. watched hp i' obj \<longleftrightarrow> watched hp i obj))"
proof -
  from watch_new_ok [OF assms] obtain r p i' w' where
    run: "kedr_coi_instrumentor_watch hp i object ops_p w = Some (r, p, i', w')" and
    out: "r = 0 \<and> (\<forall>obj. watched hp i' obj \<longleftrightarrow> obj = object \<or> watched hp i obj) \<or>
          r \<in> {- ENOMEM, - EBUSY} \<and> p = ops_p \<and> ops_mem w' = ops_mem w \<and> (\<exists>t. i' = i\<lparr>idata_table := t\<rparr>)"
    by blast
  moreover have "watched hp (i\<lparr>idata_table := t\<rparr>) = watched hp i" for t by (rule watched_cong) simp
  ultimately show ?thesis by auto
qed

theorem watch_new_atomic_witness:
  "\<exists>r p i' w'. kedr_coi_instrumentor_watch low_bits_hash (ex_instr True) 0x2000 0x1000 ex_world =
      Some (r, p, i', w') \<and> (r = 0 \<or> p = 0x1000 \<and> ops_mem w' = ops_mem ex_world)"
  using watch_new_atomic [OF ex_inv ex_valid ex_not_watched] by blast

text \<open>C24: Watching a watched object again.  With operations that its data covers it returns 1,
  sets the field to the replaced operations and changes nothing else.  With other operations
  it returns 1 and the object now has the data of these operations, or fails with -ENOMEM or
  -EBUSY, in which case the object is not watched any more and the field is set to the old
  original operations.\<close>

theorem watch_update:
  assumes "instr_inv hp R {#} i w" and "ops_p \<noteq> NULL \<Longrightarrow> valid_ops R w ops_p"
    and "object_idata hp i object = Some x"
  shows "\<exists>r p i' w'. kedr_coi_instrumentor_watch hp i object ops_p w = Some (r, p, i', w') \<and>
           (if instrument_data_my_operations (impl x) ops_p
            then r = 1 \<and> p = instrument_data_get_repl_operations (impl x) \<and> i' = i \<and> w' = w
            else r = 1 \<and> (\<forall>obj. watched hp i' obj \<longleftrightarrow> watched hp i obj) \<and>
                   (\<exists>x'. object_idata hp i' object = Some x' \<and>
                      instrument_data_my_operations (impl x') ops_p \<and>
                      p = instrument_data_get_repl_operations (impl x')) \<or>
                 r \<in> {- ENOMEM, - EBUSY} \<and> p = instrument_data_get_orig_operations (impl x) \<and>
                   (\<forall>obj. watched hp i' obj \<longleftrightarrow> obj \<noteq> object \<and> watched hp i obj))"
proof -
  from watch_again_ok [OF assms] obtain r p i' w' where
    "kedr_coi_instrumentor_watch hp i object ops_p w = Some (r, p, i', w')"
    "if instrument_data_my_operations (impl x) ops_p
     then r = 1 \<and> p = instrument_data_get_repl_operations (impl x) \<and> i' = i \<and> w' = w
     else r = 1 \<and> (\<forall>obj. watched hp i' obj \<longleftrightarrow> watched hp i obj) \<and>
            (\<exists>x' w1. object_idata hp i' object = Some x' \<and> data_of i ops_p w w1 x' \<and>
               p = instrument_data_get_repl_operations (impl x') \<and>
               (ops_mem w' = ops_mem w1 \<or> destroyed_mem True i w1 w' (impl x))) \<or>
          r \<in> {- ENOMEM, - EBUSY} \<and> p = instrument_data_get_orig_operations (impl x) \<and>
            (\<forall>obj. watched hp i' obj \<longleftrightarrow> obj \<noteq> object \<and> watched hp i obj)" by blast
  then show ?thesis by (auto simp: data_of_def split: if_splits)
qed

theorem watch_update_witness:
  "\<exists>x r p i' w'. object_idata low_bits_hash (ex_watched True) 0x2000 = Some x \<and>
     kedr_coi_instrumentor_watch low_bits_hash (ex_watched True) 0x2000 0 (ex_watched_world True) =
       Some (r, p, i', w')"
proof -
  obtain x where x: "object_idata low_bits_hash (ex_watched True) 0x2000 = Some x"
    using ex_object_idata by blast
  from watch_update [OF ex_watched_inv _ this, of 0] x show ?thesis by auto
qed



text \<open>Forgetting a directly watched object whose data is at place writes the original
  operations back into the object when this was its last watch and norestore is not given;
  with norestore, not one operations structure is written.\<close>

theorem forget_direct_norestore:
  assumes "instr_inv hp R {#} i w" and "object_idata hp i object = Some x"
    and "impl x = Ap_idata ops ops_orig"
  shows "\<exists>i' w'. kedr_coi_instrumentor_forget_direct hp i object norestore w = Some (0, i', w') \<and>
           (\<forall>obj. watched hp i' obj \<longleftrightarrow> obj \<noteq> object \<and> watched hp i obj) \<and>
           (if norestore \<or> refs x \<noteq> 1 then ops_mem w' = ops_mem w
            else \<exists>m. ops_mem w ops = Some m \<and>
                   ops_mem w' = (ops_mem w)(ops \<mapsto> restored (for_each_replacement (replacements i)) ops_orig m))"
  using forget_direct_ok [OF assms(1,2), of norestore]
  by (cases norestore; cases "refs x = 1") (auto simp: assms(3))

text \<open>Asking for an original operation never crashes for a live structure: for a watched object it
  returns 0 and the operation of the object's data; for an object that is not watched but whose
  structure is instrumented 1 and the original of the structure; otherwise 1 and the operation
  found in the structure, or -EINVAL when that is one of the instrumentor's own replacements.\<close>

theorem get_orig_operation_total:
  assumes "instr_inv hp R {#} i w" and "valid_ops R w ops" and "off \<in> R"
  shows "\<exists>r res. kedr_coi_instrumentor_get_orig_operation hp i object ops off w = Some (r, res) \<and>
           (case object_idata hp i object of
              Some x \<Rightarrow> r = 0 \<and> (\<exists>op. res = Inr op \<and> instrument_data_get_orig_operation w (impl x) off = Some op)
            | None \<Rightarrow> (case instrumentor_find_data hp i ops of
                Some d \<Rightarrow> r = 1 \<and> (\<exists>x op. idatas i d = Some x \<and> res = Inr op \<and>
                           instrument_data_get_orig_operation w (impl x) off = Some op)
              | None \<Rightarrow> (\<exists>op. read_op w ops off = Some op \<and>
                           (r, res) = (if op \<in> repl ` set (for_each_replacement (replacements i))
                                       then (- EINVAL, Inl (- EINVAL)) else (1, Inr op)))))"
  by (rule get_orig_total [OF assms])

theorem get_orig_operation_total_witness:
  "\<exists>r res. kedr_coi_instrumentor_get_orig_operation low_bits_hash (ex_instr True) 0x2000 0x1000 0 ex_world =
      Some (r, res)"
  using get_orig_operation_total [OF ex_inv ex_valid, of 0 True "0x2000"] by blast

text \<open>C26: Let a directly watched object (its operations are in the object itself) be forgotten and
  watched again, and take an operation that was replaced.  Forgotten with restoring, the object
  holds the original operation op again, and it is op that the second watch reports.  With
  norestore the replacement stays in the object: as long as the object is not watched the
  instrumentor refuses, with -EINVAL, to report its own replacement as the original, but it does
  not look for it when it starts to watch: after the second watch the object still holds the
  replacement, and asking for its original operation returns 0 and the replacement itself, which
  then calls itself.\<close>

theorem direct_forget_watch_again:
  assumes "instr_inv hp R {#} i w" and "valid_ops R w object"
    and "\<not> watched hp i object" and "instrumentor_find_data hp i object = None" and "replace_at_place i object"
    and "kedr_coi_instrumentor_watch_direct hp i object w = Some (0, i1, w1)"
    and "distinct (map operation_offset (for_each_replacement (replacements i)))"
    and "r \<in> set (for_each_replacement (replacements i))" and "operation_offset r = off"
    and "read_op w object off = Some op" and "replace_operation op r = repl r"
  shows "\<exists>i2 w2. kedr_coi_instrumentor_forget_direct hp i1 object norestore w1 = Some (0, i2, w2) \<and>
     (let held = (if norestore then repl r else op) in
       read_op w2 object off = Some held \<and>
       kedr_coi_instrumentor_get_orig_operation hp i2 object object off w2 =
         Some (if held \<in> repl ` set (for_each_replacement (replacements i))
               then (- EINVAL, Inl (- EINVAL)) else (1, Inr held)) \<and>
       (\<forall>i3 w3. kedr_coi_instrumentor_watch_direct hp i2 object w2 = Some (0, i3, w3) \<longrightarrow>
          read_op w3 object off = Some (repl r) \<and>
          kedr_coi_instrumentor_get_orig_operation hp i3 object object off w3 = Some (0, Inr held)))"
  by (rule direct_watch_again [OF assms])

theorem direct_forget_watch_again_witness:
  "\<exists>i1 w1 i2 w2. kedr_coi_instrumentor_watch_direct low_bits_hash (ex_instr True) 0x1000 ex_world = Some (0, i1, w1) \<and>
     kedr_coi_instrumentor_forget_direct low_bits_hash i1 0x1000 True w1 = Some (0, i2, w2) \<and>
     kedr_coi_instrumentor_get_orig_operation low_bits_hash i2 0x1000 0x1000 0 w2 = Some (- EINVAL, Inl (- EINVAL)) \<and>
     (\<forall>i3 w3. kedr_coi_instrumentor_watch_direct low_bits_hash i2 0x1000 w2 = Some (0, i3, w3) \<longrightarrow>
        kedr_coi_instrumentor_get_orig_operation low_bits_hash i3 0x1000 0x1000 0 w3 = Some (0, Inr 0x900))"
proof -
  let ?r = "\<lparr>operation_offset = 0, repl = 0x900, mode = replace_not_null\<rparr>"
  have "instrumentor_find_data low_bits_hash (ex_instr True) 0x1000 = None" by (simp add: ex_eval)
  note N = ex_inv [of True] ex_valid ex_not_watched [of True "0x1000"] this
  have p: "replace_at_place (ex_instr True) 0x1000" by (simp add: ex_shape)
  have "\<exists>i1 w1. kedr_coi_instrumentor_watch_direct low_bits_hash (ex_instr True) 0x1000 ex_world = Some (0, i1, w1)"
    by (simp add: kedr_coi_instrumentor_watch_direct_def ex_eval)
  then obtain i1 w1 where
    w: "kedr_coi_instrumentor_watch_direct low_bits_hash (ex_instr True) 0x1000 ex_world = Some (0, i1, w1)" by blast
  have r: "distinct (map operation_offset (for_each_replacement (replacements (ex_instr True))))"
      "?r \<in> set (for_each_replacement (replacements (ex_instr True)))" "operation_offset ?r = 0"
    and o: "read_op ex_world 0x1000 0 = Some 0x100" "replace_operation 0x100 ?r = repl ?r"
    by (simp_all add: ex_shape ex_for_each read_op_def ops_content_def ex_world_def ex_kernel_def ex_ops_def
        replace_operation_def replace_operation_generic_def)
  from direct_forget_watch_again [OF N p w r o, of True] w show ?thesis
    by (auto simp: ex_shape ex_for_each Let_def)
qed

text \<open>Operations that another instrumentor has instrumented are never instrumented a
  second time: watching a new object with such operations returns -EBUSY (or -ENOMEM) and
  leaves the field, the instrumentor and the world as they are, but for the allocations
  it made.\<close>

theorem watch_busy_operations:
  assumes "instr_inv hp R {#} i w" and "ops_p \<noteq> NULL \<Longrightarrow> valid_ops R w ops_p"
    and "\<not> watched hp i object" and "((d, f), ops_p) \<in> others i w"
  shows "\<exists>err w'. kedr_coi_instrumentor_watch hp i object ops_p w = Some (err, ops_p, i, w') \<and>
           err \<in> {- ENOMEM, - EBUSY} \<and> w' = w\<lparr>pending := pending w'\<rparr>"
  using watch_busy [OF assms] by blast

theorem watch_busy_operations_witness:
  "\<exists>err w'. kedr_coi_instrumentor_watch low_bits_hash (ex_instr False) 0x2000 0x1000
       ((ex_watched_world True)\<lparr>pending := [Some 0x90, Some 0xa0]\<rparr>) = Some (err, 0x1000, ex_instr False, w') \<and>
     err \<in> {- ENOMEM, - EBUSY}"
proof -
  have "valid_ops {0, 8} ((ex_watched_world True)\<lparr>pending := [Some 0x90, Some 0xa0]\<rparr>) 0x1000"
    using ex_watched_valid [of True] by (simp add: valid_ops_def)
  from watch_busy_operations [OF ex_other_inv this ex_not_watched ex_other_marks]
  show ?thesis by blast
qed

text \<open>C23: Destroying an instrumentor that no foreign instrumentor uses never crashes: the
  trace callback is called once for every object still watched and for nothing else, all
  instrumented data is freed, its marks leave the global table, and the marks of the other
  instrumentors stay.\<close>

theorem instrumentor_destroy_complete:
  assumes "instr_inv hp R {#} i w" and "no_foreign i"
  shows "\<exists>traced i' w'. kedr_coi_instrumentor_destroy hp i trace w = Some (traced, i', w') \<and>
           (if trace then distinct traced \<and> set traced = {obj. watched hp i obj} else traced = []) \<and>
           idatas i' = Map.empty \<and> watch_datas i' = Map.empty \<and>
           entries (ops_table_global w') = others i w"
proof -
  let ?xs = "table_elems (objects_table i)"
  note O = objects_okD [OF inv_objects [OF assms(1)]]
  have "set (map snd ?xs) = {obj. watched hp i obj}"
    using watched_iff [OF inv_objects [OF assms(1)]] by (auto simp: watched_objects_def)
  moreover have "distinct (map snd ?xs)" using O(1,2) by (rule distinct_keys)
  ultimately show ?thesis
    using instrumentor_destroy_ok [OF assms, of trace] by (cases trace) auto
qed

theorem instrumentor_destroy_complete_witness:
  "\<exists>traced i' w'. kedr_coi_instrumentor_destroy low_bits_hash ex_watched2 True ex_watched2_world =
      Some (traced, i', w') \<and> distinct traced \<and> idatas i' = Map.empty"
  using instrumentor_destroy_complete [OF ex_watched2_inv ex_no_foreign, of True] by auto

end
